(* ===== verification/Prelude.thy ===== *)
theory Prelude
  imports Complex_Main "HOL-Library.Multiset"
begin

text \<open>
  The vocabulary the component theories share.

  \<^item> \<open>jsnum\<close>: the values of the language's \<open>number\<close> type that the modelled code tells
    apart. Finite numbers are exact rationals (the code computes with whole cells, whole
    milliseconds and small fractions, far inside the range where a double is exact); NaN and the
    two infinities are values of their own, because the code tests for them.
  \<^item> \<open>js_sort\<close>: \<open>Array.prototype.sort\<close>, a stable sort by a comparator, with the locale
    \<open>comparator\<close> as the contract between a comparator and the sort.
  \<^item> generic facts on lists used by several components.
\<close>

named_theorems js_simps \<open>unfolding rules for the language-level helpers\<close>

section \<open>Numbers\<close>

datatype jsnum = Num rat | NaN | PosInf | NegInf

fun isFinite :: "jsnum \<Rightarrow> bool" where
  "isFinite (Num _) = True"
| "isFinite _ = False"

text \<open>
  \<open>Math.round\<close> rounds half up, \<open>Math.floor\<close> down. Both are only reached on finite
  arguments in the modelled code; on the others they return the argument unchanged, which the
  callers' guards exclude, so the model needs them on rationals only.
\<close>

definition js_round :: "rat \<Rightarrow> int" where
  [js_simps]: "js_round r = \<lfloor>r + 1 / 2\<rfloor>"

lemma js_round_of_int [simp]: "js_round (of_int k) = k"
  unfolding js_round_def by (rule floor_unique) simp_all

lemma js_round_numeral [simp]: "js_round (numeral k) = numeral k"
  using js_round_of_int [of "numeral k"] by simp

lemma js_round_0_1 [simp]: "js_round 0 = 0" "js_round 1 = 1"
  using js_round_of_int [of 0] js_round_of_int [of 1] by simp_all

lemma js_round_mono: "a \<le> b \<Longrightarrow> js_round a \<le> js_round b"
  unfolding js_round_def by (rule floor_mono) simp

text \<open>Arithmetic on numbers, with the IEEE rules for the non-finite values.\<close>

abbreviation IntNum :: "int \<Rightarrow> jsnum" where
  "IntNum k \<equiv> Num (of_int k)"

fun js_neg :: "jsnum \<Rightarrow> jsnum" where
  "js_neg (Num a) = Num (- a)"
| "js_neg NaN = NaN"
| "js_neg PosInf = NegInf"
| "js_neg NegInf = PosInf"

fun js_add :: "jsnum \<Rightarrow> jsnum \<Rightarrow> jsnum" where
  "js_add (Num a) (Num b) = Num (a + b)"
| "js_add NaN _ = NaN"
| "js_add _ NaN = NaN"
| "js_add PosInf NegInf = NaN"
| "js_add NegInf PosInf = NaN"
| "js_add PosInf _ = PosInf"
| "js_add _ PosInf = PosInf"
| "js_add NegInf _ = NegInf"
| "js_add _ NegInf = NegInf"

definition js_sub :: "jsnum \<Rightarrow> jsnum \<Rightarrow> jsnum" where
  [simp]: "js_sub a b = js_add a (js_neg b)"

text \<open>Division of finite numbers (a zero divisor is positive zero in the modelled code).\<close>

definition js_quot :: "rat \<Rightarrow> rat \<Rightarrow> jsnum" where
  "js_quot a b =
    (if b \<noteq> 0 then Num (a / b) else if a > 0 then PosInf else if a < 0 then NegInf else NaN)"

fun js_floor :: "jsnum \<Rightarrow> jsnum" where
  "js_floor (Num a) = IntNum \<lfloor>a\<rfloor>"
| "js_floor v = v"

fun js_le :: "jsnum \<Rightarrow> jsnum \<Rightarrow> bool" where
  "js_le (Num a) (Num b) = (a \<le> b)"
| "js_le NaN _ = False"
| "js_le _ NaN = False"
| "js_le NegInf _ = True"
| "js_le _ PosInf = True"
| "js_le _ _ = False"

definition js_max :: "jsnum \<Rightarrow> jsnum \<Rightarrow> jsnum" where
  "js_max a b = (if a = NaN \<or> b = NaN then NaN else if js_le a b then b else a)"

definition js_min :: "jsnum \<Rightarrow> jsnum \<Rightarrow> jsnum" where
  "js_min a b = (if a = NaN \<or> b = NaN then NaN else if js_le a b then a else b)"

lemma js_max_Num [simp]: "js_max (Num a) (Num b) = Num (max a b)"
  by (simp add: js_max_def max_def)

lemma js_min_Num [simp]: "js_min (Num a) (Num b) = Num (min a b)"
  by (simp add: js_min_def min_def)

section \<open>Array.prototype.sort\<close>

text \<open>
  The sort is stable, so its result is determined by the comparator alone: elements that compare
  equal keep the order they came in. Insertion from the right is the simplest function with that
  result.
\<close>

fun insert_by :: "('a \<Rightarrow> 'a \<Rightarrow> int) \<Rightarrow> 'a \<Rightarrow> 'a list \<Rightarrow> 'a list" where
  "insert_by cmp x [] = [x]"
| "insert_by cmp x (y # ys) = (if cmp x y \<le> 0 then x # y # ys else y # insert_by cmp x ys)"

definition js_sort :: "('a \<Rightarrow> 'a \<Rightarrow> int) \<Rightarrow> 'a list \<Rightarrow> 'a list" where
  "js_sort cmp xs = foldr (insert_by cmp) xs []"

lemma js_sort_simps [simp]:
  "js_sort cmp [] = []"
  "js_sort cmp (x # xs) = insert_by cmp x (js_sort cmp xs)"
  by (simp_all add: js_sort_def)

lemma mset_insert_by [simp]: "mset (insert_by cmp x xs) = add_mset x (mset xs)"
  by (induction xs) auto

lemma mset_js_sort [simp]: "mset (js_sort cmp xs) = mset xs"
  by (induction xs) auto

lemma set_insert_by [simp]: "set (insert_by cmp x xs) = insert x (set xs)"
  by (induction xs) auto

lemma set_js_sort [simp]: "set (js_sort cmp xs) = set xs"
  by (induction xs) auto

lemma length_js_sort [simp]: "length (js_sort cmp xs) = length xs"
  by (metis mset_js_sort size_mset)

lemma map_insert_by:
  "(\<And>a b. a \<in> insert x (set xs) \<Longrightarrow> b \<in> insert x (set xs) \<Longrightarrow> cmp' (f a) (f b) = cmp a b) \<Longrightarrow>
   map f (insert_by cmp x xs) = insert_by cmp' (f x) (map f xs)"
  by (induction xs) auto

lemma js_sort_map:
  "(\<And>a b. a \<in> set xs \<Longrightarrow> b \<in> set xs \<Longrightarrow> cmp' (f a) (f b) = cmp a b) \<Longrightarrow>
   map f (js_sort cmp xs) = js_sort cmp' (map f xs)"
proof (induction xs)
  case (Cons x xs)
  then have IH: "map f (js_sort cmp xs) = js_sort cmp' (map f xs)" by simp
  have "map f (insert_by cmp x (js_sort cmp xs)) = insert_by cmp' (f x) (map f (js_sort cmp xs))"
    by (rule map_insert_by) (use Cons.prems in auto)
  then show ?case by (simp add: IH)
qed simp

text \<open>
  What a comparator owes the sort: it orders any two elements one way or the other, and it is
  transitive. (The language leaves the result of an inconsistent comparator open.)
\<close>

locale comparator =
  fixes cmp :: "'a \<Rightarrow> 'a \<Rightarrow> int"
  assumes cmp_total: "cmp a b \<le> 0 \<or> cmp b a \<le> 0"
    and cmp_trans: "cmp a b \<le> 0 \<Longrightarrow> cmp b c \<le> 0 \<Longrightarrow> cmp a c \<le> 0"
begin

abbreviation in_order :: "'a list \<Rightarrow> bool" where
  "in_order \<equiv> sorted_wrt (\<lambda>a b. cmp a b \<le> 0)"

lemma in_order_insert_by: "in_order xs \<Longrightarrow> in_order (insert_by cmp x xs)"
  by (induction xs) (use cmp_total cmp_trans in auto)

lemma in_order_js_sort: "in_order (js_sort cmp xs)"
  by (induction xs) (auto intro: in_order_insert_by)

lemma insert_by_in_order: "in_order (x # xs) \<Longrightarrow> insert_by cmp x xs = x # xs"
  by (cases xs) auto

lemma js_sort_in_order: "in_order xs \<Longrightarrow> js_sort cmp xs = xs"
  by (induction xs) (auto simp: insert_by_in_order)

lemma js_sort_idem: "js_sort cmp (js_sort cmp xs) = js_sort cmp xs"
  by (rule js_sort_in_order [OF in_order_js_sort])

text \<open>Stability: the elements equivalent to a given one come out in the order they went in.\<close>

lemma filter_insert_by_equiv:
  assumes "in_order xs"
  shows "filter (\<lambda>b. cmp a b \<le> 0 \<and> cmp b a \<le> 0) (insert_by cmp x xs) =
    filter (\<lambda>b. cmp a b \<le> 0 \<and> cmp b a \<le> 0) (x # xs)"
  using assms
proof (induction xs)
  case (Cons y ys)
  show ?case
  proof (cases "cmp x y \<le> 0")
    case False
    then have "cmp y x \<le> 0" using cmp_total by blast
    with False have "\<not> ((cmp a x \<le> 0 \<and> cmp x a \<le> 0) \<and> (cmp a y \<le> 0 \<and> cmp y a \<le> 0))"
      using cmp_trans by blast
    with False Cons show ?thesis by auto
  qed simp
qed simp

lemma js_sort_stable:
  "filter (\<lambda>b. cmp a b \<le> 0 \<and> cmp b a \<le> 0) (js_sort cmp xs) =
   filter (\<lambda>b. cmp a b \<le> 0 \<and> cmp b a \<le> 0) xs"
  by (induction xs) (simp_all add: filter_insert_by_equiv in_order_js_sort)

end

section \<open>Lists\<close>

text \<open>A symmetric relation that holds between all pairs of a list does so in any order of it.\<close>

lemma sorted_wrt_sym_remove1:
  assumes "symp R" "x \<in> set xs"
  shows "sorted_wrt R xs \<longleftrightarrow> sorted_wrt R (x # remove1 x xs)"
  using assms(2)
proof (induction xs)
  case (Cons y ys)
  show ?case
  proof (cases "x = y")
    case False
    with Cons have x: "x \<in> set ys" by simp
    then have "set ys = insert x (set (remove1 x ys))"
      by (metis insert_DiffM mset_remove1 set_mset_add_mset_insert set_mset_mset)
    then show ?thesis
      using Cons.IH [OF x] False assms(1) by (auto dest: sympD)
  qed simp
qed simp

lemma sorted_wrt_sym_mset:
  assumes "symp R" "mset xs = mset ys"
  shows "sorted_wrt R xs \<longleftrightarrow> sorted_wrt R ys"
  using assms(2)
proof (induction xs arbitrary: ys)
  case (Cons x xs)
  then have x: "x \<in> set ys" by (metis list.set_intros(1) mset_eq_setD)
  from Cons.prems have "mset xs = mset (remove1 x ys)"
    by (metis add_mset_remove_trivial mset.simps(2) mset_remove1)
  note IH = Cons.IH [OF this] and st = mset_eq_setD [OF this]
  show ?case
    unfolding sorted_wrt_sym_remove1 [OF assms(1) x] by (simp add: IH st)
qed simp

lemma list_all2_in_set1: "list_all2 R xs ys \<Longrightarrow> x \<in> set xs \<Longrightarrow> \<exists>y \<in> set ys. R x y"
  by (induction rule: list_all2_induct) auto

lemma list_all2_in_set2: "list_all2 R xs ys \<Longrightarrow> y \<in> set ys \<Longrightarrow> \<exists>x \<in> set xs. R x y"
  by (induction rule: list_all2_induct) auto

text \<open>An order that is antisymmetric on the elements sorts them in one way only.\<close>

lemma sorted_wrt_unique_mset:
  assumes "sorted_wrt R xs" "sorted_wrt R ys" "mset xs = mset ys"
    and "\<And>a b. a \<in> set xs \<Longrightarrow> b \<in> set xs \<Longrightarrow> R a b \<Longrightarrow> R b a \<Longrightarrow> a = b"
  shows "xs = ys"
  using assms
proof (induction xs arbitrary: ys)
  case (Cons x xs)
  then obtain y ys' where ys: "ys = y # ys'" by (cases ys) auto
  have st: "insert x (set xs) = insert y (set ys')"
    using mset_eq_setD [OF Cons.prems(3)] by (simp add: ys)
  have "x = y"
  proof (rule ccontr)
    assume "x \<noteq> y"
    with st have "x \<in> set ys'" "y \<in> set xs" by auto
    with Cons.prems(1,2) have "R x y" "R y x" by (auto simp: ys)
    with Cons.prems(4) \<open>y \<in> set xs\<close> \<open>x \<noteq> y\<close> show False by simp
  qed
  with Cons.prems have "xs = ys'" by (intro Cons.IH) (auto simp: ys)
  with \<open>x = y\<close> show ?case by (simp add: ys)
qed simp

lemma sorted_wrt_snoc:
  "sorted_wrt R (xs @ [x]) \<longleftrightarrow> sorted_wrt R xs \<and> (\<forall>a \<in> set xs. R a x)"
  by (auto simp: sorted_wrt_append)

end
