(* ===== verification/Dash_Types.thy ===== *)
theory Dash_Types
  imports Prelude
begin

text \<open>
  The shared types, bounds and tables of the dashboard builder
  (\<open>src/frontend/lib/dashboard/types.ts\<close>): placements and stored configurations, widget
  definitions, and the per-source tables the data layer consults (cost class, range sensitivity,
  and what an HTTP status or reason means for a source). A placement's coordinates are whole
  cells, so they are integers; a parameter object is the list of its entries in insertion order,
  with distinct keys. The \<open>render\<close> function of a widget returns a virtual DOM node and is not
  modelled.
\<close>

type_synonym params = "(string \<times> string) list"

datatype display_mode = Compact | Normal | Expanded

definition DISPLAY_MODES :: "display_mode list" where
  "DISPLAY_MODES = [Compact, Normal, Expanded]"

definition DASHBOARD_COLUMNS :: int where
  [js_simps]: "DASHBOARD_COLUMNS = 12"

definition DASHBOARD_ROW_HEIGHT :: rat where
  [js_simps]: "DASHBOARD_ROW_HEIGHT = 40"

definition DASHBOARD_MAX_ROWS :: int where
  [js_simps]: "DASHBOARD_MAX_ROWS = 200"

definition DASHBOARD_GRID_GAP :: rat where
  [js_simps]: "DASHBOARD_GRID_GAP = 16"

definition DASHBOARD_MAX_ITEMS :: nat where
  [js_simps]: "DASHBOARD_MAX_ITEMS = 40"

definition DASHBOARD_LAYOUT_SCHEMA_VERSION :: int where
  [js_simps]: "DASHBOARD_LAYOUT_SCHEMA_VERSION = 1"

record layout_item =
  instanceId :: string
  item_id :: string
  item_x :: int
  item_y :: int
  item_w :: int
  item_h :: int
  item_params :: "params option"

record layout_config =
  schemaVersion :: int
  config_scope :: string
  config_columns :: int
  config_items :: "layout_item list"

record widget_def =
  def_id :: string
  def_title :: string
  def_family :: string
  def_scopes :: "string list"
  def_sources :: "string list"
  optionalSources :: "string list option"
  familyStatus :: "string option"
  adminOnly :: bool
  minW :: int
  minH :: int
  defaultW :: int
  defaultH :: int
  def_params :: "(string \<times> string list) list option"
  def_modes :: "display_mode list"

section \<open>Sources\<close>

definition FAMILY_STATUS_KEYS :: "string list" where
  "FAMILY_STATUS_KEYS =
    [''policies-status'', ''gitops-status'', ''certificates-status'', ''mesh-status'',
     ''external-secrets-status'', ''velero-status'', ''scanning-status'', ''snapshots-status'',
     ''gateway-status'', ''hubble-status'']"

definition DATA_SOURCE_KEYS :: "string list" where
  "DATA_SOURCE_KEYS =
    [''dashboard-summary'', ''dashboard-trends'', ''cluster-info'', ''recent-events'',
     ''diagnostics-summary'', ''resource-counts'', ''deployments-list'', ''statefulsets-list'',
     ''daemonsets-list'', ''pods-list'', ''hpas-list'', ''pdbs-list'', ''nodes-list'',
     ''limits-namespaces'', ''storage-classes'', ''services-list'', ''pvcs-list'',
     ''top-consumers-cpu'', ''top-consumers-memory'', ''volume-capacity'',
     ''policy-compliance-score'', ''policy-compliance-history'', ''policy-violations-list'',
     ''vulnerability-reports'', ''certificates-list'', ''external-secrets-list'',
     ''velero-backups-list'', ''snapshots-list'', ''gitops-applications'', ''mesh-mtls'',
     ''mesh-golden-signals'', ''hubble-flows'', ''gateway-gateways'', ''gateway-httproutes'',
     ''clusters-list'', ''audit-log'', ''unread-notifications'', ''preference-views'',
     ''preference-pins''] @ FAMILY_STATUS_KEYS"

datatype source_cost = Cheap | Discovery | Expensive

definition SOURCE_COST :: "(string \<times> source_cost) list" where
  "SOURCE_COST =
    [(''dashboard-summary'', Cheap), (''cluster-info'', Cheap), (''recent-events'', Cheap),
     (''dashboard-trends'', Expensive), (''diagnostics-summary'', Expensive),
     (''resource-counts'', Expensive), (''deployments-list'', Expensive),
     (''statefulsets-list'', Expensive), (''daemonsets-list'', Expensive),
     (''pods-list'', Expensive), (''hpas-list'', Expensive), (''pdbs-list'', Expensive),
     (''nodes-list'', Expensive), (''services-list'', Expensive), (''pvcs-list'', Expensive),
     (''limits-namespaces'', Expensive), (''storage-classes'', Expensive),
     (''top-consumers-cpu'', Expensive), (''top-consumers-memory'', Expensive),
     (''volume-capacity'', Expensive), (''policy-compliance-score'', Expensive),
     (''policy-compliance-history'', Expensive), (''policy-violations-list'', Expensive),
     (''vulnerability-reports'', Expensive), (''certificates-list'', Expensive),
     (''external-secrets-list'', Expensive), (''velero-backups-list'', Expensive),
     (''snapshots-list'', Expensive), (''gitops-applications'', Expensive),
     (''mesh-mtls'', Expensive), (''mesh-golden-signals'', Expensive),
     (''hubble-flows'', Expensive), (''gateway-gateways'', Expensive),
     (''gateway-httproutes'', Expensive), (''clusters-list'', Expensive),
     (''audit-log'', Expensive), (''unread-notifications'', Expensive),
     (''preference-views'', Expensive), (''preference-pins'', Expensive),
     (''policies-status'', Discovery), (''gitops-status'', Discovery),
     (''certificates-status'', Discovery), (''mesh-status'', Discovery),
     (''external-secrets-status'', Discovery), (''velero-status'', Discovery),
     (''scanning-status'', Discovery), (''snapshots-status'', Discovery),
     (''gateway-status'', Discovery), (''hubble-status'', Discovery)]"

definition sourceCost :: "string \<Rightarrow> source_cost" where
  "sourceCost key = (case map_of SOURCE_COST key of None \<Rightarrow> Expensive | Some c \<Rightarrow> c)"

definition RANGE_SENSITIVE_KEYS :: "string list" where
  "RANGE_SENSITIVE_KEYS = [''dashboard-trends'']"

definition NOT_FOUND_IS_REFUSAL :: "string list" where
  "NOT_FOUND_IS_REFUSAL = [''top-consumers-cpu'', ''top-consumers-memory'', ''volume-capacity'']"

definition ABSENT_STATUSES :: "(string \<times> int list) list" where
  "ABSENT_STATUSES =
    [(''clusters-list'', [503]), (''audit-log'', [503]), (''preference-views'', [503]),
     (''preference-pins'', [503]), (''unread-notifications'', [404])]"

definition UNSUPPORTED_STATUSES :: "(string \<times> int list) list" where
  "UNSUPPORTED_STATUSES = []"

datatype source_error_kind = Permission | Failure | Absent | Unsupported

definition REASON_KINDS :: "(string \<times> (string \<times> source_error_kind) list) list" where
  "REASON_KINDS =
    [(''hubble-flows'',
       [(''relay_not_found'', Absent), (''relay_tls_unsupported'', Unsupported)]),
     (''policy-compliance-history'',
       [(''compliance_history_not_configured'', Unsupported)])]"

definition AMBIGUOUS_REQUEST_STATUSES :: "(string \<times> int list) list" where
  "AMBIGUOUS_REQUEST_STATUSES = [(''mesh-golden-signals'', [400])]"

text \<open>The three sources that cost nothing worth managing, and the default for the rest.\<close>

lemma sourceCost_cheap_iff:
  "sourceCost key = Cheap \<longleftrightarrow>
   key \<in> {''dashboard-summary'', ''cluster-info'', ''recent-events''}"
  unfolding sourceCost_def SOURCE_COST_def by (simp split: option.split)

lemma sourceCost_unlisted: "key \<notin> set DATA_SOURCE_KEYS \<Longrightarrow> sourceCost key = Expensive"
  unfolding sourceCost_def SOURCE_COST_def DATA_SOURCE_KEYS_def FAMILY_STATUS_KEYS_def by simp

end
