(* ===== verification/Grid.thy ===== *)
theory Grid
  imports Dash_Types
begin

text \<open>
  Geometry and vertical gravity of the dashboard grid (\<open>src/frontend/lib/dashboard/grid.ts\<close>,
  the first half): reading order, overlap and \<open>compact\<close>. The two nested loops of \<open>compact\<close>
  are \<open>rest_row\<close> (the inner one: the row an item falls to) and \<open>drop_items\<close> (the outer one,
  which appends to \<open>settled\<close>).

  The specification is \<open>canonical\<close>: a layout in reading order, without overlaps, in which every
  item rests on the top edge or on an item below which it cannot fall further. \<open>compact\<close>
  produces such a layout, leaves such a layout alone, changes nothing but rows, and among all the
  overlap-free arrangements that keep the columns' order it is the least.
\<close>

definition clamp :: "int \<Rightarrow> int \<Rightarrow> int \<Rightarrow> int" where
  [js_simps]: "clamp v lo hi = min hi (max lo v)"

definition byReadingOrder :: "layout_item \<Rightarrow> layout_item \<Rightarrow> int" where
  "byReadingOrder p q =
    (if item_y p - item_y q \<noteq> 0 then item_y p - item_y q else item_x p - item_x q)"

definition sharesColumn :: "layout_item \<Rightarrow> layout_item \<Rightarrow> bool" where
  "sharesColumn a b \<longleftrightarrow>
    \<not> (item_x a + item_w a \<le> item_x b \<or> item_x b + item_w b \<le> item_x a)"

definition sharesRow :: "layout_item \<Rightarrow> layout_item \<Rightarrow> bool" where
  "sharesRow a b \<longleftrightarrow>
    \<not> (item_y a + item_h a \<le> item_y b \<or> item_y b + item_h b \<le> item_y a)"

definition overlaps :: "layout_item \<Rightarrow> layout_item \<Rightarrow> bool" where
  "overlaps a b \<longleftrightarrow> sharesColumn a b \<and> sharesRow a b"

fun rest_row :: "layout_item \<Rightarrow> layout_item list \<Rightarrow> int \<Rightarrow> int" where
  "rest_row it [] y = y"
| "rest_row it (s # ss) y =
    rest_row it ss (if sharesColumn it s then max y (item_y s + item_h s) else y)"

fun drop_items :: "layout_item list \<Rightarrow> layout_item list \<Rightarrow> layout_item list" where
  "drop_items settled [] = settled"
| "drop_items settled (it # its) =
    drop_items (settled @ [it\<lparr>item_y := rest_row it settled 0\<rparr>]) its"

definition compact :: "layout_item list \<Rightarrow> layout_item list" where
  "compact items = js_sort byReadingOrder (drop_items [] (js_sort byReadingOrder items))"

definition layoutHeight :: "layout_item list \<Rightarrow> int" where
  "layoutHeight items = foldl (\<lambda>m i. max m (item_y i + item_h i)) 0 items"

section \<open>Specification\<close>

text \<open>Everything of an item that gravity must not touch.\<close>

type_synonym item_frame = "string \<times> string \<times> int \<times> int \<times> int \<times> params option"

definition frame_of :: "layout_item \<Rightarrow> item_frame" where
  "frame_of it =
    (instanceId it, item_id it, item_x it, item_w it, item_h it, item_params it)"

abbreviation frames :: "layout_item list \<Rightarrow> item_frame multiset" where
  "frames xs \<equiv> image_mset frame_of (mset xs)"

abbreviation bottom :: "layout_item \<Rightarrow> int" where
  "bottom it \<equiv> item_y it + item_h it"

definition disjoint_layout :: "layout_item list \<Rightarrow> bool" where
  "disjoint_layout xs \<longleftrightarrow> sorted_wrt (\<lambda>a b. \<not> overlaps a b) xs"

definition supported :: "layout_item list \<Rightarrow> layout_item \<Rightarrow> bool" where
  "supported xs it \<longleftrightarrow>
    item_y it = 0 \<or> (item_y it > 0 \<and> (\<exists>s \<in> set xs. sharesColumn it s \<and> item_y it = bottom s))"

definition canonical :: "layout_item list \<Rightarrow> bool" where
  "canonical xs \<longleftrightarrow>
    sorted_wrt (\<lambda>a b. byReadingOrder a b \<le> 0) xs \<and> disjoint_layout xs \<and>
    (\<forall>it \<in> set xs. supported xs it)"

definition positive_sizes :: "layout_item list \<Rightarrow> bool" where
  "positive_sizes xs \<longleftrightarrow> (\<forall>it \<in> set xs. item_w it > 0 \<and> item_h it > 0)"

text \<open>Every later item that shares a column lies wholly below.\<close>

abbreviation stacked :: "layout_item \<Rightarrow> layout_item \<Rightarrow> bool" where
  "stacked a b \<equiv> sharesColumn a b \<longrightarrow> bottom a \<le> item_y b"

section \<open>Reading order and overlap\<close>

lemma byReadingOrder_le:
  "byReadingOrder a b \<le> 0 \<longleftrightarrow>
   item_y a < item_y b \<or> item_y a = item_y b \<and> item_x a \<le> item_x b"
  by (auto simp: byReadingOrder_def)

interpretation reading: comparator byReadingOrder
  by unfold_locales (auto simp: byReadingOrder_le)

lemma sharesColumn_sym: "sharesColumn a b = sharesColumn b a"
  by (auto simp: sharesColumn_def)

lemma overlaps_sym: "overlaps a b = overlaps b a"
  by (auto simp: overlaps_def sharesColumn_def sharesRow_def)

lemma symp_not_overlaps: "symp (\<lambda>a b. \<not> overlaps a b)"
  by (auto intro!: sympI simp: overlaps_sym)

lemma disjoint_layout_mset: "mset xs = mset ys \<Longrightarrow> disjoint_layout xs = disjoint_layout ys"
  unfolding disjoint_layout_def by (rule sorted_wrt_sym_mset [OF symp_not_overlaps])

lemma disjoint_layout_sort [simp]: "disjoint_layout (js_sort cmp xs) = disjoint_layout xs"
  by (rule disjoint_layout_mset) simp

lemma disjoint_layoutD:
  "disjoint_layout xs \<Longrightarrow> a \<in> set xs \<Longrightarrow> b \<in> set xs \<Longrightarrow> a \<noteq> b \<Longrightarrow> \<not> overlaps a b"
  unfolding disjoint_layout_def by (induction xs) (auto simp: overlaps_sym)

lemma stacked_not_overlaps: "stacked a b \<Longrightarrow> \<not> overlaps a b"
  by (auto simp: overlaps_def sharesRow_def)

lemma sharesColumn_frame [simp]:
  "sharesColumn (a\<lparr>item_y := u\<rparr>) b = sharesColumn a b"
  "sharesColumn a (b\<lparr>item_y := v\<rparr>) = sharesColumn a b"
  by (simp_all add: sharesColumn_def)

lemma frame_of_upd [simp]: "frame_of (a\<lparr>item_y := u\<rparr>) = frame_of a"
  by (simp add: frame_of_def)

lemma sharesColumn_frames:
  "frame_of a = frame_of a' \<Longrightarrow> frame_of b = frame_of b' \<Longrightarrow>
   sharesColumn a b = sharesColumn a' b'"
  by (simp add: sharesColumn_def frame_of_def)

text \<open>
  Two items of positive height that share a column and do not overlap are stacked, the one that
  reads first on top.
\<close>

lemma disjoint_stacked:
  assumes "byReadingOrder a b \<le> 0" "\<not> overlaps a b" "item_h b > 0"
  shows "stacked a b"
  using assms by (auto simp: byReadingOrder_le overlaps_def sharesRow_def)

lemma disjoint_sorted_stacked:
  assumes "sorted_wrt (\<lambda>a b. byReadingOrder a b \<le> 0) xs" "disjoint_layout xs"
    "\<forall>it \<in> set xs. item_h it > 0"
  shows "sorted_wrt stacked xs"
  using assms unfolding disjoint_layout_def
  by (induction xs) (auto dest: disjoint_stacked)

lemma stacked_disjoint: "sorted_wrt stacked xs \<Longrightarrow> disjoint_layout xs"
  unfolding disjoint_layout_def
  by (erule sorted_wrt_mono_rel [rotated]) (use stacked_not_overlaps in blast)

section \<open>The loops\<close>

lemma rest_row_ge: "y \<le> rest_row it ss y"
proof (induction ss arbitrary: y)
  case (Cons a ss)
  show ?case using Cons.IH [of y] Cons.IH [of "max y (bottom a)"] by auto
qed simp

lemma rest_row_ge_bottom: "s \<in> set ss \<Longrightarrow> sharesColumn it s \<Longrightarrow> bottom s \<le> rest_row it ss y"
proof (induction ss arbitrary: y)
  case (Cons a ss)
  show ?case
  proof (cases "s = a")
    case True
    with Cons.prems show ?thesis
      using rest_row_ge [of "max y (bottom s)" it ss] by simp
  qed (use Cons in simp)
qed simp

lemma rest_row_le:
  "y \<le> k \<Longrightarrow> (\<And>s. s \<in> set ss \<Longrightarrow> sharesColumn it s \<Longrightarrow> bottom s \<le> k) \<Longrightarrow> rest_row it ss y \<le> k"
  by (induction ss arbitrary: y) auto

lemma rest_row_attained:
  "rest_row it ss y = y \<or>
   (y < rest_row it ss y \<and> (\<exists>s \<in> set ss. sharesColumn it s \<and> rest_row it ss y = bottom s))"
proof (induction ss arbitrary: y)
  case (Cons a ss)
  show ?case
  proof (cases "sharesColumn it a \<and> y < bottom a")
    case True
    then show ?thesis using Cons.IH [of "bottom a"] by auto
  next
    case False
    then have "(if sharesColumn it a then max y (bottom a) else y) = y" by auto
    then show ?thesis using Cons.IH [of y] by auto
  qed
qed simp

lemma rest_row_append: "rest_row it (xs @ ys) y = rest_row it ys (rest_row it xs y)"
  by (induction xs arbitrary: y) auto

lemma drop_items_prefix: "\<exists>zs. drop_items S its = S @ zs"
  by (induction its arbitrary: S) (auto, metis append.assoc)

lemma drop_items_frames: "map frame_of (drop_items S its) = map frame_of (S @ its)"
  by (induction its arbitrary: S) auto

lemma drop_items_stacked: "sorted_wrt stacked S \<Longrightarrow> sorted_wrt stacked (drop_items S its)"
proof (induction its arbitrary: S)
  case (Cons it its)
  have "sorted_wrt stacked (S @ [it\<lparr>item_y := rest_row it S 0\<rparr>])"
    using Cons.prems by (auto simp: sorted_wrt_snoc sharesColumn_sym rest_row_ge_bottom)
  then show ?case by (simp add: Cons.IH)
qed simp

lemma supported_mono: "supported xs it \<Longrightarrow> set xs \<subseteq> set ys \<Longrightarrow> supported ys it"
  by (auto simp: supported_def)

lemma drop_items_supported:
  "\<forall>it \<in> set S. supported S it \<Longrightarrow> \<forall>it \<in> set (drop_items S its). supported (drop_items S its) it"
proof (induction its arbitrary: S)
  case (Cons it its)
  let ?n = "it\<lparr>item_y := rest_row it S 0\<rparr>"
  have "supported (S @ [?n]) ?n"
    using rest_row_attained [of it S 0] by (auto simp: supported_def)
  moreover have "\<forall>s \<in> set S. supported (S @ [?n]) s"
    using Cons.prems by (auto intro: supported_mono)
  ultimately have "\<forall>s \<in> set (S @ [?n]). supported (S @ [?n]) s" by auto
  then show ?case by (simp add: Cons.IH)
qed simp

text \<open>Leastness of the outer loop: any stacked arrangement of the same items is at least as low.\<close>

definition same_frame_above :: "layout_item \<Rightarrow> layout_item \<Rightarrow> bool" where
  "same_frame_above a z \<longleftrightarrow> frame_of a = frame_of z \<and> item_y a \<le> item_y z"

lemma list_all2_above_bottom:
  assumes "list_all2 same_frame_above S Z" "s \<in> set S"
  shows "\<exists>z \<in> set Z. frame_of s = frame_of z \<and> bottom s \<le> bottom z"
  using assms
  by (induction rule: list_all2_induct) (auto simp: same_frame_above_def frame_of_def)

lemma drop_items_least:
  assumes "list_all2 same_frame_above S Z" "list_all2 (\<lambda>a z. frame_of a = frame_of z) its zs"
    "sorted_wrt stacked (Z @ zs)" "\<forall>z \<in> set zs. 0 \<le> item_y z"
  shows "list_all2 same_frame_above (drop_items S its) (Z @ zs)"
  using assms
proof (induction its arbitrary: S Z zs)
  case (Cons it its)
  then obtain z zs' where zs: "zs = z # zs'" and fr: "frame_of it = frame_of z"
    and rest: "list_all2 (\<lambda>a z. frame_of a = frame_of z) its zs'"
    by (auto simp: list_all2_Cons1)
  have "rest_row it S 0 \<le> item_y z"
  proof (rule rest_row_le)
    fix s assume s: "s \<in> set S" "sharesColumn it s"
    obtain y where y: "y \<in> set Z" "frame_of s = frame_of y" "bottom s \<le> bottom y"
      using list_all2_above_bottom [OF Cons.prems(1) s(1)] by blast
    have "sharesColumn y z"
      using s(2) sharesColumn_frames [OF fr y(2)] by (simp add: sharesColumn_sym)
    with y Cons.prems(3) have "bottom y \<le> item_y z"
      by (auto simp: zs sorted_wrt_append)
    with y show "bottom s \<le> item_y z" by simp
  qed (use Cons.prems zs in simp)
  with fr have "same_frame_above (it\<lparr>item_y := rest_row it S 0\<rparr>) z"
    by (simp add: same_frame_above_def)
  with Cons.prems(1) have
    "list_all2 same_frame_above (S @ [it\<lparr>item_y := rest_row it S 0\<rparr>]) (Z @ [z])"
    by (simp add: list_all2_appendI)
  from Cons.IH [OF this rest] Cons.prems show ?case by (simp add: zs)
qed simp

section \<open>Compaction\<close>

lemma compact_frames: "frames (compact xs) = frames xs"
proof -
  have "mset (map frame_of (drop_items [] (js_sort byReadingOrder xs))) =
    mset (map frame_of (js_sort byReadingOrder xs))"
    by (simp add: drop_items_frames)
  then show ?thesis by (simp add: compact_def)
qed

lemma compact_disjoint: "disjoint_layout (compact xs)"
  by (simp add: compact_def stacked_disjoint drop_items_stacked)

lemma compact_canonical: "canonical (compact xs)"
proof -
  have "\<forall>it \<in> set (compact xs). supported (compact xs) it"
    using drop_items_supported [of "[]" "js_sort byReadingOrder xs"]
    by (simp add: compact_def supported_def)
  moreover have "sorted_wrt (\<lambda>a b. byReadingOrder a b \<le> 0) (compact xs)"
    unfolding compact_def by (rule reading.in_order_js_sort)
  ultimately show ?thesis by (simp add: canonical_def compact_disjoint)
qed

lemma canonical_rows: "canonical xs \<Longrightarrow> it \<in> set xs \<Longrightarrow> 0 \<le> item_y it"
  by (fastforce simp: canonical_def supported_def)

lemma canonical_rest_row:
  assumes can: "canonical (pre @ it # post)" and pos: "\<forall>i \<in> set (pre @ it # post). item_h i > 0"
  shows "rest_row it pre 0 = item_y it"
proof (rule antisym)
  have st: "sorted_wrt stacked (pre @ it # post)"
    by (rule disjoint_sorted_stacked) (use can pos in \<open>auto simp: canonical_def\<close>)
  then have below: "\<And>s. s \<in> set pre \<Longrightarrow> sharesColumn it s \<Longrightarrow> bottom s \<le> item_y it"
    by (auto simp: sorted_wrt_append sharesColumn_sym)
  show "rest_row it pre 0 \<le> item_y it"
    by (rule rest_row_le) (use below canonical_rows [OF can, of it] in auto)
  show "item_y it \<le> rest_row it pre 0"
  proof (cases "item_y it = 0")
    case True
    then show ?thesis by (simp add: rest_row_ge)
  next
    case False
    have "supported (pre @ it # post) it" using can by (simp add: canonical_def)
    with False obtain s where s: "s \<in> set (pre @ it # post)" "sharesColumn it s"
      "item_y it = bottom s" unfolding supported_def by blast
    have "item_y s < item_y it" using pos s by auto
    moreover have "\<And>i. i \<in> set (it # post) \<Longrightarrow> item_y it \<le> item_y i"
      using can by (auto simp: canonical_def sorted_wrt_append byReadingOrder_le)
    ultimately have "s \<in> set pre" using s(1) by force
    with s show ?thesis by (simp add: rest_row_ge_bottom)
  qed
qed

lemma drop_items_canonical:
  "canonical (pre @ post) \<Longrightarrow> \<forall>i \<in> set (pre @ post). item_h i > 0 \<Longrightarrow>
   drop_items pre post = pre @ post"
proof (induction post arbitrary: pre)
  case (Cons it post)
  have "it\<lparr>item_y := rest_row it pre 0\<rparr> = it"
    using canonical_rest_row [OF Cons.prems] by simp
  with Cons.IH [of "pre @ [it]"] Cons.prems show ?case by simp
qed simp

lemma compact_canonical_fixed:
  assumes "canonical xs" "\<forall>i \<in> set xs. item_h i > 0"
  shows "compact xs = xs"
proof -
  have srt: "js_sort byReadingOrder xs = xs"
    using assms by (simp add: canonical_def reading.js_sort_in_order)
  with drop_items_canonical [of "[]" xs] assms show ?thesis by (simp add: compact_def)
qed

lemma compact_heights:
  "\<forall>i \<in> set xs. P (item_w i) (item_h i) \<Longrightarrow> \<forall>i \<in> set (compact xs). P (item_w i) (item_h i)"
proof
  fix i assume all: "\<forall>i \<in> set xs. P (item_w i) (item_h i)" and "i \<in> set (compact xs)"
  then have "frame_of i \<in># frames (compact xs)" by simp
  then obtain j where "j \<in> set xs" "frame_of i = frame_of j"
    by (auto simp: compact_frames)
  with all show "P (item_w i) (item_h i)" by (auto simp: frame_of_def)
qed

lemma compact_positive: "positive_sizes xs \<Longrightarrow> positive_sizes (compact xs)"
  unfolding positive_sizes_def by (rule compact_heights)

lemma compact_idem: "positive_sizes xs \<Longrightarrow> compact (compact xs) = compact xs"
  using compact_canonical_fixed [OF compact_canonical] compact_positive
  by (fastforce simp: positive_sizes_def)

text \<open>On a layout without overlaps, gravity only lifts.\<close>

lemma compact_lifts:
  assumes "disjoint_layout xs" "\<forall>i \<in> set xs. 0 \<le> item_y i \<and> item_h i > 0"
  shows "list_all2 same_frame_above (drop_items [] (js_sort byReadingOrder xs))
    (js_sort byReadingOrder xs)"
proof -
  let ?s = "js_sort byReadingOrder xs"
  have "sorted_wrt stacked ?s"
    by (rule disjoint_sorted_stacked) (use assms reading.in_order_js_sort in auto)
  then show ?thesis
    using drop_items_least [of "[]" "[]" ?s ?s] assms by (simp add: list_all2_refl)
qed

lemma compact_lifts_item:
  assumes "disjoint_layout xs" "\<forall>i \<in> set xs. 0 \<le> item_y i \<and> item_h i > 0" "c \<in> set (compact xs)"
  shows "\<exists>i \<in> set xs. frame_of c = frame_of i \<and> item_y c \<le> item_y i"
proof -
  have "c \<in> set (drop_items [] (js_sort byReadingOrder xs))"
    using assms(3) by (simp add: compact_def)
  from list_all2_in_set1 [OF compact_lifts [OF assms(1,2)] this] show ?thesis
    by (simp add: same_frame_above_def)
qed

end
