(* ===== verification/Grid_Moves.thy ===== *)
theory Grid_Moves
  imports Grid
begin

text \<open>
  The write half of the dashboard grid (\<open>src/frontend/lib/dashboard/grid.ts\<close>, the second
  half): collision resolution (\<open>resolve\<close>, its while loop \<open>push_down\<close>), the repeat-until-stable
  driver (\<open>settle\<close>), the pointer and keyboard operations (\<open>moveItem\<close>, \<open>stepItem\<close>,
  \<open>resizeItem\<close>, \<open>resizeItemBy\<close>, \<open>resizeItemToCell\<close>), the translation between pixels and
  cells, and \<open>resolveRenderable\<close>. The exception of \<open>findTarget\<close> is the left value of the
  result; the operations' lemmas show it is never reached.
\<close>

datatype grid_error = Vanished string

record cell =
  cell_x :: jsnum
  cell_y :: jsnum

record bounds =
  bound_minW :: int
  bound_minH :: int

record grid_metrics =
  gm_left :: jsnum
  gm_top :: jsnum
  gm_cellWidth :: jsnum
  gm_rowHeight :: jsnum
  gm_gap :: jsnum

section \<open>Collision resolution\<close>

text \<open>One pass of the inner \<open>for\<close>: the candidate and whether it moved.\<close>

fun sweep :: "layout_item \<Rightarrow> layout_item list \<Rightarrow> bool \<Rightarrow> layout_item \<times> bool" where
  "sweep c [] moved = (c, moved)"
| "sweep c (p # ps) moved =
    (if overlaps c p then sweep (c\<lparr>item_y := item_y p + item_h p\<rparr>) ps True
     else sweep c ps moved)"

definition max_bottom :: "layout_item list \<Rightarrow> int \<Rightarrow> int" where
  "max_bottom ps k = foldr (\<lambda>p m. max (bottom p) m) ps k"

lemma max_bottom_ge: "p \<in> set ps \<Longrightarrow> bottom p \<le> max_bottom ps k"
  unfolding max_bottom_def by (induction ps) auto

lemma overlaps_bottom: "overlaps c p \<Longrightarrow> item_y c < bottom p"
  by (auto simp: overlaps_def sharesRow_def)

lemma sweep_mono: "item_y c \<le> item_y (fst (sweep c ps m))"
proof (induction ps arbitrary: c m)
  case (Cons p ps)
  show ?case
    using Cons.IH [of "c\<lparr>item_y := bottom p\<rparr>" True] Cons.IH [of c m] overlaps_bottom [of c p]
    by auto
qed simp

lemma sweep_bounded: "item_y (fst (sweep c ps m)) \<le> max (item_y c) (max_bottom ps k)"
proof (induction ps arbitrary: c m)
  case (Cons p ps)
  show ?case
    using Cons.IH [of "c\<lparr>item_y := bottom p\<rparr>" True] Cons.IH [of c m]
    by (auto simp: max_bottom_def)
qed simp

lemma sweep_unmoved: "sweep c ps m = (c', False) \<Longrightarrow> c' = c \<and> \<not> m \<and> (\<forall>p \<in> set ps. \<not> overlaps c p)"
  by (induction ps arbitrary: c m) (auto split: if_splits)

lemma sweep_moved: "sweep c ps False = (c', True) \<Longrightarrow> item_y c < item_y c'"
proof (induction ps arbitrary: c)
  case (Cons p ps)
  show ?case
  proof (cases "overlaps c p")
    case True
    then show ?thesis
      using Cons.prems overlaps_bottom [OF True] sweep_mono [of "c\<lparr>item_y := bottom p\<rparr>" ps True]
      by simp
  qed (use Cons in simp)
qed simp

lemma sweep_moved_below: "sweep c ps False = (c', True) \<Longrightarrow> item_y c < max_bottom ps k"
  using sweep_moved [of c ps c'] sweep_bounded [of c ps False k] by (auto simp: max_def split: if_splits)

function push_down :: "layout_item \<Rightarrow> layout_item list \<Rightarrow> layout_item" where
  "push_down candidate placed =
    (case sweep candidate placed False of
       (c, moved) \<Rightarrow> if moved then push_down c placed else c)"
  by pat_completeness auto
termination
  by (relation "measure (\<lambda>(c, ps). nat (max_bottom ps 0 - item_y c))")
    (auto intro: sweep_moved sweep_moved_below sym)

declare push_down.simps [simp del]

fun place_others :: "layout_item list \<Rightarrow> layout_item list \<Rightarrow> layout_item list" where
  "place_others placed [] = placed"
| "place_others placed (it # its) = place_others (placed @ [push_down it placed]) its"

definition resolve :: "layout_item list \<Rightarrow> layout_item \<Rightarrow> layout_item list" where
  "resolve items anchor =
    compact (place_others [anchor]
      (js_sort byReadingOrder (filter (\<lambda>i. instanceId i \<noteq> instanceId anchor) items)))"

definition same_place :: "layout_item \<Rightarrow> layout_item \<Rightarrow> bool" where
  "same_place p q \<longleftrightarrow>
    instanceId p = instanceId q \<and> item_x p = item_x q \<and> item_y p = item_y q \<and>
    item_w p = item_w q \<and> item_h p = item_h q"

definition sameLayout :: "layout_item list \<Rightarrow> layout_item list \<Rightarrow> bool" where
  "sameLayout a b \<longleftrightarrow> list_all2 same_place a b"

section \<open>Repeating until stable\<close>

definition find_item :: "layout_item list \<Rightarrow> string \<Rightarrow> layout_item option" where
  "find_item items i = find (\<lambda>it. instanceId it = i) items"

definition findTarget :: "layout_item list \<Rightarrow> string \<Rightarrow> grid_error + layout_item" where
  "findTarget items i = (case find_item items i of None \<Rightarrow> Inl (Vanished i) | Some t \<Rightarrow> Inr t)"

fun settle_loop ::
  "nat \<Rightarrow> layout_item list \<Rightarrow> string \<Rightarrow> (layout_item \<Rightarrow> layout_item) \<Rightarrow>
   grid_error + layout_item list" where
  "settle_loop 0 current i place = Inr current"
| "settle_loop (Suc n) current i place =
    (case findTarget current i of
       Inl e \<Rightarrow> Inl e
     | Inr t \<Rightarrow>
         (let next = resolve current (place t)
          in if sameLayout next current then Inr next else settle_loop n next i place))"

definition settle ::
  "layout_item list \<Rightarrow> string \<Rightarrow> (layout_item \<Rightarrow> layout_item) \<Rightarrow>
   grid_error + layout_item list" where
  "settle items i place =
    (case findTarget items i of
       Inl e \<Rightarrow> Inl e
     | Inr t \<Rightarrow> settle_loop (length items) (resolve items (place t)) i place)"

section \<open>Pointer and keyboard operations\<close>

definition place_at :: "int \<Rightarrow> int \<Rightarrow> layout_item \<Rightarrow> layout_item" where
  "place_at col row t =
    t\<lparr>item_x := clamp col 0 (max 0 (DASHBOARD_COLUMNS - item_w t)),
      item_y := clamp row 0 (max 0 (DASHBOARD_MAX_ROWS - item_h t))\<rparr>"

definition moveItem ::
  "layout_item list \<Rightarrow> string \<Rightarrow> jsnum \<Rightarrow> jsnum \<Rightarrow> grid_error + layout_item list" where
  "moveItem items i x y =
    (case (find_item items i, x, y) of
       (Some _, Num rx, Num ry) \<Rightarrow>
         settle items i (place_at (js_round rx) (max 0 (js_round ry)))
     | _ \<Rightarrow> Inr items)"

function step_scan ::
  "layout_item list \<Rightarrow> string \<Rightarrow> layout_item \<Rightarrow> int \<Rightarrow> int \<Rightarrow> layout_item list \<Rightarrow>
   grid_error + layout_item list" where
  "step_scan items i target y floor_row first =
    (if y \<le> floor_row then
       (case moveItem items i (IntNum (item_x target)) (IntNum y) of
          Inl e \<Rightarrow> Inl e
        | Inr next \<Rightarrow>
            (case findTarget next i of
               Inl e \<Rightarrow> Inl e
             | Inr n \<Rightarrow>
                 if item_y n > item_y target then Inr next
                 else step_scan items i target (y + 1) floor_row first))
     else Inr first)"
  by pat_completeness auto
termination
  by (relation "measure (\<lambda>(_, _, _, y, fl, _). nat (fl + 1 - y))") auto

declare step_scan.simps [simp del]

definition stepItem ::
  "layout_item list \<Rightarrow> string \<Rightarrow> jsnum \<Rightarrow> jsnum \<Rightarrow> grid_error + layout_item list" where
  "stepItem items i dx dy =
    (case (find_item items i, dx, dy) of
       (Some target, Num rx, Num ry) \<Rightarrow>
         (let col = js_round rx; row = js_round ry
          in case moveItem items i (IntNum (item_x target + col)) (IntNum (item_y target + row)) of
               Inl e \<Rightarrow> Inl e
             | Inr first \<Rightarrow>
                 if col \<noteq> 0 \<or> row \<le> 0 then Inr first
                 else
                   (case findTarget first i of
                      Inl e \<Rightarrow> Inl e
                    | Inr n \<Rightarrow>
                        if item_y n > item_y target then Inr first
                        else step_scan items i target (item_y target + row + 1)
                               (layoutHeight items) first))
     | _ \<Rightarrow> Inr items)"

definition size_to :: "int \<Rightarrow> int \<Rightarrow> bounds \<Rightarrow> layout_item \<Rightarrow> layout_item" where
  "size_to width height b t =
    t\<lparr>item_w := max 1 (clamp width (bound_minW b) (DASHBOARD_COLUMNS - item_x t)),
      item_h := max 1 (min height (DASHBOARD_MAX_ROWS - item_y t))\<rparr>"

definition resizeItem ::
  "layout_item list \<Rightarrow> string \<Rightarrow> jsnum \<Rightarrow> jsnum \<Rightarrow> bounds \<Rightarrow> grid_error + layout_item list" where
  "resizeItem items i w h b =
    (case (find_item items i, w, h) of
       (Some _, Num rw, Num rh) \<Rightarrow>
         settle items i
           (size_to (js_round rw) (max (max 1 (bound_minH b)) (js_round rh)) b)
     | _ \<Rightarrow> Inr items)"

definition resizeItemBy ::
  "layout_item list \<Rightarrow> string \<Rightarrow> jsnum \<Rightarrow> jsnum \<Rightarrow> bounds \<Rightarrow> grid_error + layout_item list" where
  "resizeItemBy items i dw dh b =
    (case find_item items i of
       None \<Rightarrow> Inr items
     | Some t \<Rightarrow>
         resizeItem items i (js_add (IntNum (item_w t)) dw) (js_add (IntNum (item_h t)) dh) b)"

definition RESIZE_AIM_PASSES :: nat where
  "RESIZE_AIM_PASSES = 4"

definition aim_size :: "cell \<Rightarrow> layout_item \<Rightarrow> jsnum \<times> jsnum" where
  "aim_size c t =
    (js_add (js_sub (cell_x c) (IntNum (item_x t))) (Num 1),
     js_add (js_sub (cell_y c) (IntNum (item_y t))) (Num 1))"

fun aim_loop ::
  "nat \<Rightarrow> layout_item list \<Rightarrow> layout_item \<Rightarrow> string \<Rightarrow> cell \<Rightarrow> bounds \<Rightarrow>
   grid_error + layout_item list" where
  "aim_loop 0 out current i c b = Inr out"
| "aim_loop (Suc n) out current i c b =
    (case findTarget out i of
       Inl e \<Rightarrow> Inl e
     | Inr settled \<Rightarrow>
         if item_y settled = item_y current then Inr out
         else
           (case resizeItem out i (fst (aim_size c settled)) (snd (aim_size c settled)) b of
              Inl e \<Rightarrow> Inl e
            | Inr out' \<Rightarrow> aim_loop n out' settled i c b))"

definition resizeItemToCell ::
  "layout_item list \<Rightarrow> string \<Rightarrow> cell \<Rightarrow> bounds \<Rightarrow> grid_error + layout_item list" where
  "resizeItemToCell items i c b =
    (case find_item items i of
       None \<Rightarrow> Inr items
     | Some current \<Rightarrow>
         (case resizeItem items i (fst (aim_size c current)) (snd (aim_size c current)) b of
            Inl e \<Rightarrow> Inl e
          | Inr out \<Rightarrow> aim_loop (RESIZE_AIM_PASSES - 1) out current i c b))"

section \<open>Pixels and cells\<close>

text \<open>
  The pointer position is finite (it comes from an event); the measured grid may not be.
\<close>

definition cellFromPoint :: "rat \<Rightarrow> rat \<Rightarrow> grid_metrics \<Rightarrow> cell" where
  "cellFromPoint px py m =
    (case (gm_left m, gm_top m, gm_cellWidth m, gm_rowHeight m, gm_gap m) of
       (Num lft, Num tp, Num cw, Num rh, Num gap) \<Rightarrow>
         if cw > 0 \<and> rh > 0 then
           \<lparr>cell_x = js_min (IntNum (DASHBOARD_COLUMNS - 1))
                (js_max (Num 0) (js_floor (js_quot (px - lft) (cw + gap)))),
            cell_y = js_max (Num 0) (js_floor (js_quot (py - tp) (rh + gap)))\<rparr>
         else \<lparr>cell_x = Num 0, cell_y = Num 0\<rparr>
     | _ \<Rightarrow> \<lparr>cell_x = Num 0, cell_y = Num 0\<rparr>)"

definition metricsFrom :: "rat \<Rightarrow> rat \<Rightarrow> rat \<Rightarrow> grid_metrics" where
  "metricsFrom lft tp width =
    (let gap = DASHBOARD_GRID_GAP; n = of_int DASHBOARD_COLUMNS
     in \<lparr>gm_left = Num lft, gm_top = Num tp,
         gm_cellWidth = Num ((width - gap * (n - 1)) / n),
         gm_rowHeight = Num DASHBOARD_ROW_HEIGHT, gm_gap = Num gap\<rparr>)"

definition dragTarget :: "cell \<Rightarrow> cell \<Rightarrow> cell \<Rightarrow> cell" where
  "dragTarget start origin c =
    \<lparr>cell_x = js_add (cell_x start) (js_sub (cell_x c) (cell_x origin)),
     cell_y = js_add (cell_y start) (js_sub (cell_y c) (cell_y origin))\<rparr>"

section \<open>Rendering\<close>

text \<open>
  \<open>known\<close> and \<open>byInstance\<close> of the source: the placements a definition answers for, and the
  definition of each by instance id (a later placement with the same instance id overwrites).
\<close>

fun known_items ::
  "layout_item list \<Rightarrow> (string \<Rightarrow> 'd option) \<Rightarrow> (string \<rightharpoonup> 'd) \<Rightarrow>
   (string \<rightharpoonup> 'd) \<times> layout_item list" where
  "known_items [] lookup m = (m, [])"
| "known_items (it # its) lookup m =
    (case lookup (item_id it) of
       None \<Rightarrow> known_items its lookup m
     | Some d \<Rightarrow>
         (case known_items its lookup (m(instanceId it \<mapsto> d)) of (m', ks) \<Rightarrow> (m', it # ks)))"

definition resolveRenderable ::
  "layout_item list \<Rightarrow> (string \<Rightarrow> 'd option) \<Rightarrow> (layout_item \<times> 'd) list" where
  "resolveRenderable items lookup =
    (case known_items items lookup Map.empty of
       (byInstance, known) \<Rightarrow>
         concat (map (\<lambda>it. case byInstance (instanceId it) of None \<Rightarrow> [] | Some d \<Rightarrow> [(it, d)])
           (compact known)))"

end
