(* ===== verification/Grid_Correct.thy ===== *)
theory Grid_Correct
  imports Grid_Moves
begin

text \<open>
  Correctness of the grid operations. The contract of gravity is the locale \<open>gravity\<close>; what
  \<open>resolve\<close> and \<open>settle\<close> need of it is proved there once and used through the interpretation
  on \<open>compact\<close>. \<open>settle_rule\<close> is the proof rule for the repeat-until-stable driver: it shows
  that the driver returns (never raises) and that the result satisfies whatever each resolution
  establishes.
\<close>

section \<open>Pushing\<close>

lemma sweep_frame: "\<exists>y. fst (sweep c ps m) = c\<lparr>item_y := y\<rparr>"
proof (induction ps arbitrary: c m)
  case Nil
  show ?case by (rule exI [of _ "item_y c"]) simp
next
  case (Cons p ps)
  show ?case
    using Cons.IH [of "c\<lparr>item_y := bottom p\<rparr>" True] Cons.IH [of c m] by auto
qed

lemma push_down_props:
  "frame_of (push_down c ps) = frame_of c \<and> item_y c \<le> item_y (push_down c ps) \<and>
   (\<forall>p \<in> set ps. \<not> overlaps (push_down c ps) p)"
proof (induction c ps rule: push_down.induct)
  case (1 c ps)
  obtain c' moved where sw: "sweep c ps False = (c', moved)" by force
  obtain y where y: "c' = c\<lparr>item_y := y\<rparr>" using sweep_frame [of c ps False] sw by auto
  show ?case
  proof (cases moved)
    case True
    then have "push_down c ps = push_down c' ps" by (simp add: push_down.simps [of c ps] sw)
    moreover have "item_y c < item_y c'" using sweep_moved [of c ps c'] sw True by simp
    ultimately show ?thesis using "1.IH" [OF sw [symmetric] True] y by auto
  next
    case False
    then have "push_down c ps = c'" by (simp add: push_down.simps [of c ps] sw)
    then show ?thesis using sweep_unmoved [of c ps False c'] sw False by simp
  qed
qed

lemmas push_down_frame [simp] = push_down_props [THEN conjunct1]
lemmas push_down_mono = push_down_props [THEN conjunct2, THEN conjunct1]
lemmas push_down_clear = push_down_props [THEN conjunct2, THEN conjunct2, rule_format]

lemma push_down_clear': "p \<in> set ps \<Longrightarrow> \<not> overlaps p (push_down c ps)"
  using push_down_clear [of p ps c] by (simp add: overlaps_sym)

lemma push_down_stays: "\<forall>p \<in> set ps. \<not> overlaps c p \<Longrightarrow> push_down c ps = c"
proof -
  assume "\<forall>p \<in> set ps. \<not> overlaps c p"
  then have "sweep c ps False = (c, False)" by (induction ps) auto
  then show ?thesis by (simp add: push_down.simps [of c ps])
qed

lemma place_others_frames: "map frame_of (place_others P its) = map frame_of (P @ its)"
  by (induction its arbitrary: P) auto

lemma place_others_prefix: "\<exists>zs. place_others P its = P @ zs"
  by (induction its arbitrary: P) (auto, metis append.assoc)

lemma place_others_disjoint: "disjoint_layout P \<Longrightarrow> disjoint_layout (place_others P its)"
proof (induction its arbitrary: P)
  case (Cons it its)
  then have "disjoint_layout (P @ [push_down it P])"
    by (auto simp: disjoint_layout_def sorted_wrt_snoc push_down_clear')
  then show ?case by (simp add: Cons.IH)
qed simp

lemma place_others_stay: "disjoint_layout (P @ its) \<Longrightarrow> place_others P its = P @ its"
proof (induction its arbitrary: P)
  case (Cons it its)
  then have "\<forall>p \<in> set P. \<not> overlaps it p"
    by (auto simp: disjoint_layout_def sorted_wrt_append overlaps_sym)
  then have "push_down it P = it" by (rule push_down_stays)
  with Cons.IH [of "P @ [it]"] Cons.prems show ?case by simp
qed simp

lemma place_others_rows:
  "\<forall>i \<in> set (P @ its). 0 \<le> item_y i \<Longrightarrow> \<forall>i \<in> set (place_others P its). 0 \<le> item_y i"
proof (induction its arbitrary: P)
  case (Cons it its)
  then have "0 \<le> item_y (push_down it P)" using push_down_mono [of it P] by force
  with Cons.IH [of "P @ [push_down it P]"] Cons.prems show ?case by simp
qed simp

section \<open>The contract of gravity\<close>

definition legal_rows :: "layout_item list \<Rightarrow> bool" where
  "legal_rows xs \<longleftrightarrow> (\<forall>i \<in> set xs. 0 \<le> item_y i)"

locale gravity =
  fixes fall :: "layout_item list \<Rightarrow> layout_item list"
  assumes fall_canonical: "canonical (fall xs)"
    and fall_frames: "frames (fall xs) = frames xs"
    and fall_fixed: "canonical xs \<Longrightarrow> positive_sizes xs \<Longrightarrow> mset ys = mset xs \<Longrightarrow> fall ys = xs"
    and fall_lifts: "disjoint_layout xs \<Longrightarrow> legal_rows xs \<Longrightarrow> positive_sizes xs \<Longrightarrow>
      c \<in> set (fall xs) \<Longrightarrow> \<exists>i \<in> set xs. frame_of c = frame_of i \<and> item_y c \<le> item_y i"
begin

lemma fall_ids: "image_mset instanceId (mset (fall xs)) = image_mset instanceId (mset xs)"
proof -
  have "image_mset fst (frames (fall xs)) = image_mset fst (frames xs)"
    by (simp add: fall_frames)
  then show ?thesis by (simp add: multiset.map_comp comp_def frame_of_def)
qed

lemma fall_from:
  assumes "c \<in> set (fall xs)"
  obtains j where "j \<in> set xs" "frame_of c = frame_of j"
proof -
  have "frame_of c \<in># frames (fall xs)" using assms by simp
  then show ?thesis using that by (auto simp: fall_frames)
qed

lemma fall_sizes: "positive_sizes xs \<Longrightarrow> positive_sizes (fall xs)"
  by (fastforce simp: positive_sizes_def frame_of_def elim: fall_from)

lemma fall_rows: "legal_rows (fall xs)"
  using fall_canonical canonical_rows by (fastforce simp: legal_rows_def)

text \<open>An item that is the only one of its id is found, at its row or higher.\<close>

lemma fall_not_lower:
  assumes "disjoint_layout (a # zs)" "legal_rows (a # zs)" "positive_sizes (a # zs)"
    "\<forall>z \<in> set zs. instanceId z \<noteq> instanceId a" "c \<in> set (fall (a # zs))"
    "instanceId c = instanceId a"
  shows "frame_of c = frame_of a \<and> item_y c \<le> item_y a"
  using fall_lifts [OF assms(1,2,3,5)] assms(4,6) by (auto simp: frame_of_def)

end

lemma canonical_unique_order:
  assumes can: "canonical xs" and pos: "positive_sizes xs" and ms: "mset ys = mset xs"
  shows "js_sort byReadingOrder ys = xs"
proof -
  let ?s = "js_sort byReadingOrder ys"
  have dis: "disjoint_layout ?s"
    using can disjoint_layout_mset [of ?s xs] ms by (simp add: canonical_def)
  have anti: "a = b"
    if ab: "a \<in> set xs" "b \<in> set xs" "byReadingOrder a b \<le> 0" "byReadingOrder b a \<le> 0" for a b
  proof (rule ccontr)
    assume "a \<noteq> b"
    with ab have "\<not> overlaps a b"
      using can disjoint_layoutD [of xs a b] by (simp add: canonical_def)
    moreover have "overlaps a b"
      using ab pos
      by (force simp: byReadingOrder_le overlaps_def sharesColumn_def sharesRow_def positive_sizes_def)
    ultimately show False by blast
  qed
  show ?thesis
  proof (rule sorted_wrt_unique_mset)
    show "sorted_wrt (\<lambda>a b. byReadingOrder a b \<le> 0) ?s" by (rule reading.in_order_js_sort)
    show "sorted_wrt (\<lambda>a b. byReadingOrder a b \<le> 0) xs" using can by (simp add: canonical_def)
    show "mset ?s = mset xs" using ms by simp
  qed (use anti ms in \<open>auto dest: mset_eq_setD\<close>)
qed

lemma compact_mset_canonical:
  "canonical xs \<Longrightarrow> positive_sizes xs \<Longrightarrow> mset ys = mset xs \<Longrightarrow> compact ys = xs"
  using canonical_unique_order [of xs ys] compact_canonical_fixed [of xs]
    reading.js_sort_in_order [of xs]
  by (simp add: compact_def positive_sizes_def canonical_def)

interpretation gr: gravity compact
proof
  show "\<exists>i \<in> set xs. frame_of c = frame_of i \<and> item_y c \<le> item_y i"
    if "disjoint_layout xs" "legal_rows xs" "positive_sizes xs" "c \<in> set (compact xs)" for xs c
    using that by (intro compact_lifts_item) (auto simp: legal_rows_def positive_sizes_def)
qed (simp_all add: compact_canonical compact_frames compact_mset_canonical)

section \<open>Resolution\<close>

abbreviation others :: "string \<Rightarrow> layout_item list \<Rightarrow> layout_item list" where
  "others i xs \<equiv> filter (\<lambda>it. instanceId it \<noteq> i) xs"

lemma find_item_Some: "find_item xs i = Some t \<Longrightarrow> t \<in> set xs \<and> instanceId t = i"
  by (auto simp: find_item_def find_Some_iff)

lemma find_item_None: "find_item xs i = None \<longleftrightarrow> i \<notin> instanceId ` set xs"
  by (auto simp: find_item_def find_None_iff)

lemma find_item_ex: "i \<in> instanceId ` set xs \<Longrightarrow> \<exists>t. find_item xs i = Some t"
  using find_item_None [of xs i] by (cases "find_item xs i") auto

lemma frames_filter_id:
  "frames (others i xs) = filter_mset (\<lambda>f. fst f \<noteq> i) (frames xs)"
  by (induction xs) (auto simp: frame_of_def)

text \<open>The layout handed to gravity: the anchor first, exactly where it was put.\<close>

definition pushed :: "layout_item list \<Rightarrow> layout_item \<Rightarrow> layout_item list" where
  "pushed items anchor =
    place_others [anchor] (js_sort byReadingOrder (others (instanceId anchor) items))"

lemma resolve_pushed: "resolve items anchor = compact (pushed items anchor)"
  by (simp add: resolve_def pushed_def)

lemma pushed_shape:
  obtains zs where "pushed items anchor = anchor # zs"
    "mset (map frame_of zs) = mset (map frame_of (others (instanceId anchor) items))"
proof -
  let ?o = "js_sort byReadingOrder (others (instanceId anchor) items)"
  obtain zs where zs: "pushed items anchor = anchor # zs"
    using place_others_prefix [of "[anchor]" ?o] by (auto simp: pushed_def)
  moreover have "map frame_of (pushed items anchor) = map frame_of (anchor # ?o)"
    by (simp add: pushed_def place_others_frames)
  ultimately have "map frame_of zs = map frame_of ?o" by simp
  then have "mset (map frame_of zs) = mset (map frame_of (others (instanceId anchor) items))"
    by (metis mset_js_sort mset_map)
  with zs show ?thesis by (rule that)
qed

lemma pushed_disjoint: "disjoint_layout (pushed items anchor)"
  unfolding pushed_def by (rule place_others_disjoint) (simp add: disjoint_layout_def)

lemma pushed_rows:
  "legal_rows items \<Longrightarrow> 0 \<le> item_y anchor \<Longrightarrow> legal_rows (pushed items anchor)"
  unfolding pushed_def legal_rows_def by (rule place_others_rows) auto

lemma positive_sizes_frames:
  "positive_sizes xs \<longleftrightarrow> (\<forall>(_, _, _, w, h, _) \<in># frames xs. w > 0 \<and> h > 0)"
  by (auto simp: positive_sizes_def frame_of_def)

lemma pushed_sizes:
  assumes "positive_sizes items" "item_w anchor > 0" "item_h anchor > 0"
  shows "positive_sizes (pushed items anchor)"
proof -
  obtain zs where zs: "pushed items anchor = anchor # zs"
    "mset (map frame_of zs) = mset (map frame_of (others (instanceId anchor) items))"
    by (rule pushed_shape)
  have "positive_sizes (others (instanceId anchor) items)"
    using assms(1) by (auto simp: positive_sizes_def)
  then have "positive_sizes zs" using zs(2) by (simp add: positive_sizes_frames)
  then show ?thesis using assms zs(1) by (auto simp: positive_sizes_def)
qed

lemma pushed_ids:
  assumes "pushed items anchor = anchor # zs"
  shows "\<forall>z \<in> set zs. instanceId z \<noteq> instanceId anchor"
proof
  fix z assume "z \<in> set zs"
  obtain zs' where zs': "pushed items anchor = anchor # zs'"
    "mset (map frame_of zs') = mset (map frame_of (others (instanceId anchor) items))"
    by (rule pushed_shape)
  with assms \<open>z \<in> set zs\<close> have "frame_of z \<in># frames (others (instanceId anchor) items)"
    by (metis image_eqI list.inject list.set_map mset_map set_mset_mset)
  then show "instanceId z \<noteq> instanceId anchor" by (auto simp: frame_of_def)
qed

lemma resolve_canonical: "canonical (resolve items anchor)"
  by (simp add: resolve_pushed gr.fall_canonical)

lemma resolve_frames:
  "frames (resolve items anchor) =
   add_mset (frame_of anchor) (frames (others (instanceId anchor) items))"
proof -
  obtain zs where zs: "pushed items anchor = anchor # zs"
    "mset (map frame_of zs) = mset (map frame_of (others (instanceId anchor) items))"
    by (rule pushed_shape)
  then show ?thesis by (simp add: resolve_pushed gr.fall_frames)
qed

lemma resolve_others:
  "frames (others (instanceId anchor) (resolve items anchor)) =
   frames (others (instanceId anchor) items)"
proof -
  have "filter_mset (\<lambda>f. fst f \<noteq> i) (filter_mset (\<lambda>f. fst f \<noteq> i) M) =
    filter_mset (\<lambda>f. fst f \<noteq> i) M" for i and M :: "item_frame multiset"
    by (simp add: filter_filter_mset)
  then show ?thesis
    unfolding frames_filter_id resolve_frames by (simp add: frame_of_def)
qed

lemma resolve_sizes:
  "positive_sizes items \<Longrightarrow> item_w anchor > 0 \<Longrightarrow> item_h anchor > 0 \<Longrightarrow>
   positive_sizes (resolve items anchor)"
  by (simp add: resolve_pushed gr.fall_sizes pushed_sizes)

lemma resolve_rows: "legal_rows (resolve items anchor)"
  by (simp add: resolve_pushed gr.fall_rows)

lemma resolve_has_anchor: "\<exists>t. find_item (resolve items anchor) (instanceId anchor) = Some t"
proof (rule find_item_ex)
  have "frame_of anchor \<in># frames (resolve items anchor)" by (simp add: resolve_frames)
  then obtain c where c: "c \<in> set (resolve items anchor)" "frame_of c = frame_of anchor"
    by auto
  then have "instanceId c = instanceId anchor" by (simp add: frame_of_def)
  with c(1) show "instanceId anchor \<in> instanceId ` set (resolve items anchor)"
    by (metis image_eqI)
qed

lemma resolve_anchor:
  assumes "legal_rows items" "positive_sizes items" "0 \<le> item_y anchor"
    "item_w anchor > 0" "item_h anchor > 0"
    "find_item (resolve items anchor) (instanceId anchor) = Some t"
  shows "frame_of t = frame_of anchor \<and> item_y t \<le> item_y anchor"
proof -
  obtain zs where zs: "pushed items anchor = anchor # zs" by (rule pushed_shape)
  have t: "t \<in> set (compact (anchor # zs))" "instanceId t = instanceId anchor"
    using find_item_Some [OF assms(6)] by (simp_all add: resolve_pushed zs)
  show ?thesis
    by (rule gr.fall_not_lower [OF _ _ _ pushed_ids [OF zs] t])
      (use pushed_disjoint [of items anchor] pushed_rows [OF assms(1,3)]
        pushed_sizes [OF assms(2,4,5)] zs in simp_all)
qed

lemma mset_split_target:
  "t \<in> set xs \<Longrightarrow> distinct (map instanceId xs) \<Longrightarrow>
   mset xs = add_mset t (mset (others (instanceId t) xs))"
proof (induction xs)
  case (Cons a xs)
  show ?case
  proof (cases "a = t")
    case True
    then have "others (instanceId t) xs = xs"
      using Cons.prems by (fastforce simp: filter_id_conv image_iff)
    with True show ?thesis by simp
  next
    case False
    with Cons have "instanceId a \<noteq> instanceId t" by auto
    with False Cons show ?thesis by simp
  qed
qed simp

text \<open>Resolving a canonical layout around an item that is already in place changes nothing.\<close>

lemma resolve_in_place:
  assumes can: "canonical xs" and pos: "positive_sizes xs" and dist: "distinct (map instanceId xs)"
    and t: "t \<in> set xs"
  shows "resolve xs t = xs"
proof -
  let ?o = "js_sort byReadingOrder (others (instanceId t) xs)"
  have "mset xs = add_mset t (mset (others (instanceId t) xs))"
    by (rule mset_split_target [OF t dist])
  then have ms: "mset (t # ?o) = mset xs" by simp
  then have "disjoint_layout (t # ?o)"
    using can disjoint_layout_mset [of "t # ?o" xs] by (simp add: canonical_def)
  then have "place_others [t] ?o = t # ?o" using place_others_stay [of "[t]" ?o] by simp
  then show ?thesis
    unfolding resolve_def using gr.fall_fixed [OF can pos ms] by simp
qed

section \<open>Repeating until stable\<close>

lemma findTarget_ok: "find_item xs i = Some t \<Longrightarrow> findTarget xs i = Inr t"
  by (simp add: findTarget_def)

lemma settle_loop_rule:
  assumes found: "\<exists>t. find_item cur i = Some t" and P: "P cur"
    and id: "\<And>t. instanceId t = i \<Longrightarrow> instanceId (place t) = i"
    and step: "\<And>cur t. P cur \<Longrightarrow> find_item cur i = Some t \<Longrightarrow> P (resolve cur (place t))"
  shows "\<exists>r. settle_loop n cur i place = Inr r \<and> P r"
  using found P
proof (induction n arbitrary: cur)
  case (Suc n)
  then obtain t where t: "find_item cur i = Some t" by blast
  let ?next = "resolve cur (place t)"
  have anchor: "instanceId (place t) = i" using id find_item_Some [OF t] by blast
  have "P ?next" by (rule step [OF Suc.prems(2) t])
  moreover have "\<exists>t'. find_item ?next i = Some t'"
    using resolve_has_anchor [of cur "place t"] anchor by simp
  ultimately show ?case
    using Suc.IH by (auto simp: findTarget_ok [OF t] Let_def)
qed simp

text \<open>
  The driver returns, and its result satisfies whatever every resolution establishes from a
  layout that satisfied it.
\<close>

lemma settle_rule:
  assumes t0: "find_item items i = Some t0"
    and id: "\<And>t. instanceId t = i \<Longrightarrow> instanceId (place t) = i"
    and init: "P (resolve items (place t0))"
    and step: "\<And>cur t. P cur \<Longrightarrow> find_item cur i = Some t \<Longrightarrow> P (resolve cur (place t))"
  shows "\<exists>r. settle items i place = Inr r \<and> P r"
proof -
  have "instanceId (place t0) = i" using id find_item_Some [OF t0] by blast
  then have "\<exists>t. find_item (resolve items (place t0)) i = Some t"
    using resolve_has_anchor [of items "place t0"] by simp
  from settle_loop_rule [where P = P, OF this init id step] show ?thesis
    by (simp add: settle_def findTarget_ok [OF t0])
qed

lemma settle_stable:
  assumes t0: "find_item items i = Some t0" and fix0: "resolve items (place t0) = items"
  shows "settle items i place = Inr items"
proof -
  have "settle_loop n items i place = Inr items" for n
    by (cases n) (simp_all add: findTarget_ok [OF t0] fix0 Let_def sameLayout_def same_place_def
        list_all2_same)
  then show ?thesis by (simp add: settle_def findTarget_ok [OF t0] fix0)
qed

text \<open>When the second resolution already agrees with the first, the driver returns the first.\<close>

lemma settle_second_pass:
  assumes t0: "find_item items i = Some t0"
    and t1: "find_item (resolve items (place t0)) i = Some t1"
    and fix1: "resolve (resolve items (place t0)) (place t1) = resolve items (place t0)"
  shows "settle items i place = Inr (resolve items (place t0))"
proof -
  have "settle_loop n (resolve items (place t0)) i place = Inr (resolve items (place t0))" for n
    by (cases n) (simp_all add: findTarget_ok [OF t1] fix1 Let_def sameLayout_def same_place_def
        list_all2_same)
  then show ?thesis by (simp add: settle_def findTarget_ok [OF t0])
qed

section \<open>What every operation keeps\<close>

text \<open>
  The editor's working layout: rows not negative, sizes positive, placements told apart by their
  instance id.
\<close>

definition workable :: "layout_item list \<Rightarrow> bool" where
  "workable xs \<longleftrightarrow> legal_rows xs \<and> positive_sizes xs \<and> distinct (map instanceId xs)"

lemma resolve_distinct:
  "distinct (map instanceId items) \<Longrightarrow> distinct (map instanceId (resolve items anchor))"
proof -
  assume dist: "distinct (map instanceId items)"
  have "image_mset fst (frames (resolve items anchor)) =
    image_mset fst (add_mset (frame_of anchor) (frames (others (instanceId anchor) items)))"
    by (simp add: resolve_frames)
  then have "mset (map instanceId (resolve items anchor)) =
    mset (map instanceId (anchor # others (instanceId anchor) items))"
    by (simp add: multiset.map_comp comp_def frame_of_def)
  moreover have "distinct (map instanceId (anchor # others (instanceId anchor) items))"
    using dist by (auto simp: distinct_map_filter)
  ultimately show ?thesis by (metis mset_eq_imp_distinct_iff)
qed

lemma resolve_workable:
  "workable items \<Longrightarrow> 0 \<le> item_y anchor \<Longrightarrow> item_w anchor > 0 \<Longrightarrow> item_h anchor > 0 \<Longrightarrow>
   workable (resolve items anchor)"
  by (simp add: workable_def resolve_rows resolve_sizes resolve_distinct)

text \<open>
  What one request establishes: a canonical layout of the same placements, in which only the
  target's frame may have changed and the target is no lower than \<open>lowest\<close>.
\<close>

definition settled_for ::
  "layout_item list \<Rightarrow> string \<Rightarrow> item_frame \<Rightarrow> int \<Rightarrow> layout_item list \<Rightarrow> bool" where
  "settled_for items i f lowest r \<longleftrightarrow>
    canonical r \<and> workable r \<and> frames (others i r) = frames (others i items) \<and>
    (\<exists>t. find_item r i = Some t \<and> frame_of t = f \<and> item_y t \<le> lowest)"

lemma resolve_settled_for:
  assumes "workable cur" "frames (others i cur) = frames (others i items)"
    "instanceId a = i" "0 \<le> item_y a" "item_w a > 0" "item_h a > 0" "item_y a \<le> lowest"
  shows "settled_for items i (frame_of a) lowest (resolve cur a)"
proof -
  obtain t where t: "find_item (resolve cur a) i = Some t"
    using resolve_has_anchor [of cur a] assms(3) by auto
  then have "frame_of t = frame_of a \<and> item_y t \<le> item_y a"
    using assms by (intro resolve_anchor) (auto simp: workable_def)
  with t assms resolve_others [of a cur] resolve_workable [OF assms(1,4,5,6)] show ?thesis
    by (auto simp: settled_for_def resolve_canonical)
qed

lemma workable_target:
  "workable xs \<Longrightarrow> find_item xs i = Some t \<Longrightarrow>
   instanceId t = i \<and> 0 \<le> item_y t \<and> item_w t > 0 \<and> item_h t > 0"
  using find_item_Some [of xs i t] by (auto simp: workable_def legal_rows_def positive_sizes_def)

section \<open>Moving\<close>

lemma place_at_simps [simp]:
  "instanceId (place_at c r t) = instanceId t" "item_w (place_at c r t) = item_w t"
  "item_h (place_at c r t) = item_h t"
  "item_y (place_at c r t) = clamp r 0 (max 0 (DASHBOARD_MAX_ROWS - item_h t))"
  "item_x (place_at c r t) = clamp c 0 (max 0 (DASHBOARD_COLUMNS - item_w t))"
  by (simp_all add: place_at_def)

lemma place_at_row_nonneg [simp]: "0 \<le> clamp r 0 (max 0 k)"
  by (simp add: clamp_def)

lemma frame_place_at:
  "frame_of t' = frame_of (place_at c r t) \<Longrightarrow> frame_of (place_at c r t') = frame_of (place_at c r t)"
  by (auto simp: frame_of_def place_at_def)

lemma move_settled:
  assumes work: "workable items" and t: "find_item items i = Some t"
  shows "\<exists>r. settle items i (place_at col row) = Inr r \<and>
    settled_for items i (frame_of (place_at col row t))
      (clamp row 0 (max 0 (DASHBOARD_MAX_ROWS - item_h t))) r"
    (is "\<exists>r. _ \<and> settled_for items i ?f ?lim r")
proof (rule settle_rule [OF t])
  show "settled_for items i ?f ?lim (resolve items (place_at col row t))"
    by (rule resolve_settled_for) (use workable_target [OF work t] work in auto)
next
  fix cur t' assume P: "settled_for items i ?f ?lim cur" and t': "find_item cur i = Some t'"
  then have w: "workable cur" and o: "frames (others i cur) = frames (others i items)"
    and f: "frame_of t' = ?f" by (auto simp: settled_for_def)
  have h: "item_h t' = item_h t" using f by (simp add: frame_of_def)
  have "settled_for items i (frame_of (place_at col row t')) ?lim (resolve cur (place_at col row t'))"
    by (rule resolve_settled_for [OF w o]) (use workable_target [OF w t'] h in auto)
  then show "settled_for items i ?f ?lim (resolve cur (place_at col row t'))"
    by (simp only: frame_place_at [OF f])
qed simp

lemma moveItem_finite:
  "find_item items i = Some t \<Longrightarrow>
   moveItem items i (Num a) (Num b) = settle items i (place_at (js_round a) (max 0 (js_round b)))"
  by (simp add: moveItem_def)

text \<open>A request that lands on the cell it asked for is a fixed point.\<close>

lemma move_landed_fixed:
  assumes r: "settled_for items i (frame_of (place_at col row t)) lowest r"
    and t': "find_item r i = Some t'" and landed: "item_y t' = item_y (place_at col row t')"
  shows "settle r i (place_at col row) = Inr r"
proof (rule settle_stable [OF t'])
  have "frame_of t' = frame_of (place_at col row t)" using r t' by (auto simp: settled_for_def)
  then have "frame_of (place_at col row t') = frame_of t'" by (metis frame_place_at)
  with landed have "place_at col row t' = t'"
    by (cases t') (auto simp: frame_of_def place_at_def)
  then show "resolve r (place_at col row t') = r"
    using r find_item_Some [OF t'] by (auto simp: settled_for_def workable_def resolve_in_place)
qed

section \<open>Resizing\<close>

lemma size_to_simps [simp]:
  "instanceId (size_to w h b t) = instanceId t" "item_x (size_to w h b t) = item_x t"
  "item_y (size_to w h b t) = item_y t"
  "item_w (size_to w h b t) = max 1 (clamp w (bound_minW b) (DASHBOARD_COLUMNS - item_x t))"
  "item_h (size_to w h b t) = max 1 (min h (DASHBOARD_MAX_ROWS - item_y t))"
  by (simp_all add: size_to_def)

text \<open>While the requested height fits under the row cap, the clamp on it never bites.\<close>

lemma resize_settles:
  fixes w :: int and b :: bounds
  assumes work: "workable items" and t: "find_item items i = Some t"
    and h: "1 \<le> h" and fits: "item_y t + h \<le> DASHBOARD_MAX_ROWS"
  defines "r \<equiv> resolve items (size_to w h b t)"
  shows "settle items i (size_to w h b) = Inr r"
    "settled_for items i (frame_of (size_to w h b t)) (item_y t) r"
    "settle r i (size_to w h b) = Inr r"
proof -
  note tgt = workable_target [OF work t]
  show S: "settled_for items i (frame_of (size_to w h b t)) (item_y t) r"
    unfolding r_def by (rule resolve_settled_for) (use tgt work in auto)
  then obtain t1 where t1: "find_item r i = Some t1" "item_y t1 \<le> item_y t"
    and f: "frame_of t1 = frame_of (size_to w h b t)" by (auto simp: settled_for_def)
  have "size_to w h b t1 = t1"
    using f t1(2) fits h by (cases t1) (auto simp: frame_of_def size_to_def)
  moreover have "resolve r t1 = r"
    using S find_item_Some [OF t1(1)] by (auto simp: settled_for_def workable_def resolve_in_place)
  ultimately have fix1: "resolve r (size_to w h b t1) = r" by simp
  then show "settle items i (size_to w h b) = Inr r"
    using settle_second_pass [OF t, of "size_to w h b" t1] t1(1) by (simp add: r_def)
  from fix1 show "settle r i (size_to w h b) = Inr r"
    by (rule settle_stable [OF t1(1)])
qed

end
