(* ===== verification/Grid_Step.thy ===== *)
theory Grid_Step
  imports Grid_Correct
begin

text \<open>
  The keyboard step, the translation between pixels and cells, and rendering. The main fact is
  that a request below the layout's own height is the request at that height
  (\<open>move_below_height\<close>), so the bounded scan of \<open>stepItem\<close> misses no honoured request.
\<close>

section \<open>Requests below the layout\<close>

lemma layoutHeight_foldl:
  "m \<le> foldl (\<lambda>m i. max m (bottom i)) m xs \<and>
   (\<forall>i \<in> set xs. bottom i \<le> foldl (\<lambda>m i. max m (bottom i)) m xs)"
proof (induction xs arbitrary: m)
  case (Cons x xs)
  show ?case using Cons.IH [of "max m (bottom x)"] by auto
qed simp

lemma layoutHeight_ge: "i \<in> set xs \<Longrightarrow> bottom i \<le> layoutHeight xs"
  and layoutHeight_nonneg: "0 \<le> layoutHeight xs"
  using layoutHeight_foldl [of 0 xs] by (auto simp: layoutHeight_def)

lemma layoutHeight_le: "0 \<le> k \<Longrightarrow> (\<And>c. c \<in> set xs \<Longrightarrow> bottom c \<le> k) \<Longrightarrow> layoutHeight xs \<le> k"
proof -
  assume k: "0 \<le> k" and all: "\<And>c. c \<in> set xs \<Longrightarrow> bottom c \<le> k"
  have "foldl (\<lambda>m i. max m (bottom i)) n xs \<le> k" if "n \<le> k" for n
    using that all by (induction xs arbitrary: n) auto
  with k show ?thesis by (simp add: layoutHeight_def)
qed

definition above_row :: "int \<Rightarrow> string \<Rightarrow> layout_item list \<Rightarrow> bool" where
  "above_row k i xs \<longleftrightarrow>
    workable xs \<and> disjoint_layout xs \<and> (\<forall>o' \<in> set (others i xs). bottom o' \<le> k)"

lemma disjoint_layout_filter: "disjoint_layout xs \<Longrightarrow> disjoint_layout (filter P xs)"
  unfolding disjoint_layout_def by (rule sorted_wrt_filter)

lemma disjoint_layout_Cons:
  "disjoint_layout (a # xs) \<longleftrightarrow> (\<forall>x \<in> set xs. \<not> overlaps a x) \<and> disjoint_layout xs"
  by (simp add: disjoint_layout_def)

abbreviation sorted_others :: "layout_item \<Rightarrow> layout_item list \<Rightarrow> layout_item list" where
  "sorted_others a xs \<equiv> js_sort byReadingOrder (others (instanceId a) xs)"

lemma above_row_others:
  assumes "above_row k (instanceId a) cur" "k \<le> item_y a" "s \<in> set (sorted_others a cur)"
  shows "bottom s \<le> item_y a \<and> item_y s < item_y a"
proof -
  have "s \<in> set (others (instanceId a) cur)" using assms(3) by simp
  then have "bottom s \<le> k" "item_h s > 0"
    using assms(1) by (auto simp: above_row_def workable_def positive_sizes_def)
  with assms(2) show ?thesis by simp
qed

lemma pushed_below:
  assumes above: "above_row k (instanceId a) cur" and low: "k \<le> item_y a"
  shows "pushed cur a = a # sorted_others a cur"
proof -
  have "\<forall>x \<in> set (sorted_others a cur). \<not> overlaps a x"
    using above_row_others [OF above low] by (auto simp: overlaps_def sharesRow_def)
  moreover have "disjoint_layout (sorted_others a cur)"
    using above by (simp add: above_row_def disjoint_layout_filter)
  ultimately have "disjoint_layout (a # sorted_others a cur)"
    by (simp add: disjoint_layout_Cons)
  then show ?thesis
    unfolding pushed_def using place_others_stay [of "[a]" "sorted_others a cur"] by simp
qed

lemma insert_by_last:
  "\<forall>y \<in> set ys. item_y y < item_y a \<Longrightarrow> insert_by byReadingOrder a ys = ys @ [a]"
  by (induction ys) (auto simp: byReadingOrder_def)

lemma rest_row_own_row [simp]: "rest_row (a\<lparr>item_y := u\<rparr>) D y = rest_row a D y"
  by (induction D arbitrary: y) auto

lemma drop_items_own_row: "drop_items D (xs @ [a]) = drop_items D (xs @ [a\<lparr>item_y := u\<rparr>])"
  by (induction xs arbitrary: D) auto

lemma resolve_below:
  assumes above: "above_row k (instanceId a) cur" and low: "k \<le> item_y a"
  shows "resolve cur a =
    js_sort byReadingOrder (drop_items [] (sorted_others a cur @ [a\<lparr>item_y := 0\<rparr>]))"
proof -
  have "insert_by byReadingOrder a (sorted_others a cur) = sorted_others a cur @ [a]"
    using above_row_others [OF above low] by (intro insert_by_last) auto
  then have "js_sort byReadingOrder (a # sorted_others a cur) = sorted_others a cur @ [a]"
    by (simp add: reading.js_sort_idem)
  then show ?thesis
    using pushed_below [OF above low] drop_items_own_row [of "[]" "sorted_others a cur" a 0]
    by (simp add: resolve_pushed compact_def)
qed

lemma above_row_resolve:
  assumes above: "above_row k (instanceId a) cur" and low: "0 \<le> k" "k \<le> item_y a"
    and size: "item_w a > 0" "item_h a > 0"
  shows "above_row k (instanceId a) (resolve cur a)"
proof -
  let ?i = "instanceId a"
  have work: "workable cur" using above by (simp add: above_row_def)
  have row: "0 \<le> item_y a" using low by simp
  have "bottom c \<le> k" if c: "c \<in> set (resolve cur a)" "instanceId c \<noteq> ?i" for c
  proof -
    have "legal_rows (pushed cur a)" "positive_sizes (pushed cur a)"
      using work row size by (simp_all add: pushed_rows pushed_sizes workable_def)
    then obtain j where j: "j \<in> set (pushed cur a)" "frame_of c = frame_of j" "item_y c \<le> item_y j"
      using gr.fall_lifts [OF pushed_disjoint [of cur a]] c(1) by (auto simp: resolve_pushed)
    with c(2) have "j \<in> set (others ?i cur)"
      by (auto simp: frame_of_def pushed_below [OF above low(2)])
    then have "bottom j \<le> k" using above by (simp add: above_row_def)
    with j show ?thesis by (simp add: frame_of_def)
  qed
  moreover have "workable (resolve cur a)" by (rule resolve_workable [OF work row size])
  ultimately show ?thesis
    using resolve_canonical [of cur a] by (auto simp: above_row_def canonical_def)
qed

text \<open>Two requests at or below row \<open>k\<close>, in a layout whose other items end above it.\<close>

lemma resolve_below_eq:
  assumes k: "0 \<le> k" "k \<le> r1" "k \<le> r2"
    and above: "k \<le> max 0 (DASHBOARD_MAX_ROWS - item_h u) \<longrightarrow> above_row k (instanceId u) cur"
  shows "resolve cur (place_at c r1 u) = resolve cur (place_at c r2 u)"
proof (cases "k \<le> max 0 (DASHBOARD_MAX_ROWS - item_h u)")
  case True
  then have "k \<le> item_y (place_at c r1 u)" "k \<le> item_y (place_at c r2 u)"
    using k by (auto simp: clamp_def)
  moreover have "(place_at c r1 u)\<lparr>item_y := 0\<rparr> = (place_at c r2 u)\<lparr>item_y := 0\<rparr>"
    by (simp add: place_at_def)
  ultimately show ?thesis
    using above True resolve_below [of k "place_at c r1 u" cur] resolve_below [of k "place_at c r2 u" cur]
    by simp
next
  case False
  then have "place_at c r1 u = place_at c r2 u" using k by (auto simp: place_at_def clamp_def)
  then show ?thesis by simp
qed

definition below_inv :: "int \<Rightarrow> string \<Rightarrow> int \<Rightarrow> layout_item list \<Rightarrow> bool" where
  "below_inv k i h cur \<longleftrightarrow>
    workable cur \<and> (\<forall>u. find_item cur i = Some u \<longrightarrow> item_h u = h) \<and>
    (k \<le> max 0 (DASHBOARD_MAX_ROWS - h) \<longrightarrow> above_row k i cur)"

lemma below_inv_resolve:
  assumes inv: "below_inv k i h cur" and u: "find_item cur i = Some u" and k: "0 \<le> k" "k \<le> r"
  shows "below_inv k i h (resolve cur (place_at c r u))"
proof -
  let ?a = "place_at c r u"
  have w: "workable cur" and h: "item_h u = h"
    and ab: "k \<le> max 0 (DASHBOARD_MAX_ROWS - h) \<Longrightarrow> above_row k i cur"
    using inv u by (auto simp: below_inv_def)
  note tgt = workable_target [OF w u]
  have "workable (resolve cur ?a)" by (rule resolve_workable [OF w]) (use tgt in auto)
  moreover have "item_h v = h" if "find_item (resolve cur ?a) i = Some v" for v
    using resolve_anchor [of cur ?a v] w tgt that h by (auto simp: workable_def frame_of_def)
  moreover have "above_row k i (resolve cur ?a)" if cap: "k \<le> max 0 (DASHBOARD_MAX_ROWS - h)"
  proof -
    have "k \<le> item_y ?a" using cap k h by (auto simp: clamp_def)
    then show ?thesis
      using above_row_resolve [of k ?a cur] ab [OF cap] tgt k(1) by simp
  qed
  ultimately show ?thesis by (auto simp: below_inv_def)
qed

lemma settle_loop_below:
  assumes k: "0 \<le> k" "k \<le> r1" "k \<le> r2" and inv: "below_inv k i h cur"
  shows "settle_loop n cur i (place_at c r1) = settle_loop n cur i (place_at c r2)"
  using inv
proof (induction n arbitrary: cur)
  case (Suc n)
  show ?case
  proof (cases "find_item cur i")
    case (Some u)
    then have "instanceId u = i" using find_item_Some by blast
    then have "resolve cur (place_at c r1 u) = resolve cur (place_at c r2 u)"
      using Suc.prems Some by (intro resolve_below_eq [OF k]) (auto simp: below_inv_def)
    moreover have "below_inv k i h (resolve cur (place_at c r2 u))"
      by (rule below_inv_resolve [OF Suc.prems Some k(1,3)])
    ultimately show ?thesis using Suc.IH by (simp add: findTarget_def Some Let_def)
  qed (simp add: findTarget_def)
qed simp

lemma move_below_height:
  assumes work: "workable items" and dis: "disjoint_layout items"
    and t: "find_item items i = Some t"
    and low: "layoutHeight items \<le> r1" "layoutHeight items \<le> r2"
  shows "settle items i (place_at c r1) = settle items i (place_at c r2)"
proof -
  let ?k = "layoutHeight items"
  have inv: "below_inv ?k i (item_h t) items"
    using work dis t by (auto simp: below_inv_def above_row_def layoutHeight_ge)
  have "instanceId t = i" using find_item_Some [OF t] by blast
  then have "resolve items (place_at c r1 t) = resolve items (place_at c r2 t)"
    using inv t by (intro resolve_below_eq [OF layoutHeight_nonneg low]) (auto simp: below_inv_def)
  then show ?thesis
    using settle_loop_below [OF layoutHeight_nonneg low
        below_inv_resolve [OF inv t layoutHeight_nonneg low(2)], of "length items" c]
    by (simp add: settle_def findTarget_ok [OF t])
qed

section \<open>The keyboard step\<close>

text \<open>The target's row after a request, when the request is honoured at all.\<close>

definition moves_down :: "layout_item list \<Rightarrow> string \<Rightarrow> layout_item \<Rightarrow> int \<Rightarrow> bool" where
  "moves_down items i t y \<longleftrightarrow>
    (case moveItem items i (IntNum (item_x t)) (IntNum y) of
       Inl _ \<Rightarrow> False
     | Inr r \<Rightarrow> (case find_item r i of None \<Rightarrow> False | Some n \<Rightarrow> item_y n > item_y t))"

lemma move_returns:
  assumes "workable items" "find_item items i = Some t"
  obtains r n where "moveItem items i (Num a) (Num b) = Inr r" "find_item r i = Some n"
    "item_y n \<le> max 0 (js_round b)"
  using move_settled [OF assms, of "js_round a" "max 0 (js_round b)"]
  by (auto simp: moveItem_finite [OF assms(2)] settled_for_def clamp_def)

lemma moves_down_only_below:
  assumes "workable items" "find_item items i = Some t" "moves_down items i t y"
  shows "item_y t < y"
proof -
  obtain r n where r: "moveItem items i (IntNum (item_x t)) (IntNum y) = Inr r"
    "find_item r i = Some n" "item_y n \<le> max 0 (js_round (of_int y))"
    by (rule move_returns [OF assms(1,2)])
  then have "item_y t < item_y n" using assms(3) by (simp add: moves_down_def)
  with r(3) workable_target [OF assms(1,2)] show ?thesis by (simp add: max_def split: if_splits)
qed

lemma step_scan_spec:
  assumes "workable items" "find_item items i = Some t"
  shows "(\<exists>k. y \<le> k \<and> k \<le> fl \<and> moves_down items i t k \<and> (\<forall>j. y \<le> j \<and> j < k \<longrightarrow> \<not> moves_down items i t j) \<and>
      step_scan items i t y fl first = moveItem items i (IntNum (item_x t)) (IntNum k)) \<or>
    ((\<forall>k. y \<le> k \<and> k \<le> fl \<longrightarrow> \<not> moves_down items i t k) \<and> step_scan items i t y fl first = Inr first)"
    (is "?S y")
proof (induction "nat (fl + 1 - y)" arbitrary: y)
  case 0
  then show ?case by (auto simp: step_scan.simps [of items i t y])
next
  case (Suc d)
  then have y: "y \<le> fl" by simp
  have IH: "?S (y + 1)" using Suc by simp
  obtain r n where r: "moveItem items i (IntNum (item_x t)) (IntNum y) = Inr r"
    "find_item r i = Some n" by (rule move_returns [OF assms])
  then have md: "moves_down items i t y \<longleftrightarrow> item_y n > item_y t" by (simp add: moves_down_def)
  show ?case
  proof (cases "moves_down items i t y")
    case True
    then have "step_scan items i t y fl first = Inr r"
      using y md by (simp add: step_scan.simps [of items i t y] r findTarget_ok)
    with True y r(1) show ?thesis by (intro disjI1 exI [of _ y]) auto
  next
    case False
    then have "step_scan items i t y fl first = step_scan items i t (y + 1) fl first"
      using y md by (simp add: step_scan.simps [of items i t y] r findTarget_ok)
    moreover have "y \<le> k \<Longrightarrow> k \<noteq> y \<Longrightarrow> y + 1 \<le> k" for k by simp
    moreover have "y + 1 \<le> k \<Longrightarrow> y \<le> k" for k by simp
    ultimately show ?thesis using IH False by metis
  qed
qed

lemma moves_down_below_height:
  assumes "workable items" "disjoint_layout items" "find_item items i = Some t"
    "layoutHeight items \<le> y" "layoutHeight items \<le> y'"
  shows "moves_down items i t y = moves_down items i t y'"
proof -
  have "0 \<le> y" "0 \<le> y'" using layoutHeight_nonneg [of items] assms(4,5) by auto
  then have "moveItem items i (IntNum (item_x t)) (IntNum y) =
    moveItem items i (IntNum (item_x t)) (IntNum y')"
    using move_below_height [OF assms] by (simp add: moveItem_finite [OF assms(3)])
  then show ?thesis by (simp add: moves_down_def)
qed

text \<open>
  One press of the down key: either the least honoured request is carried out, or no request in
  that column is honoured, however low.
\<close>

lemma stepItem_down:
  assumes work: "workable items" and dis: "disjoint_layout items"
    and t: "find_item items i = Some t"
  shows "(\<exists>k. moves_down items i t k \<and> (\<forall>j < k. \<not> moves_down items i t j) \<and>
      stepItem items i (Num 0) (Num 1) = moveItem items i (IntNum (item_x t)) (IntNum k)) \<or>
    (\<forall>k. \<not> moves_down items i t k)"
proof -
  let ?h = "layoutHeight items" and ?y = "item_y t"
  obtain first n where first: "moveItem items i (IntNum (item_x t)) (IntNum (?y + 1)) = Inr first"
    "find_item first i = Some n" by (rule move_returns [OF work t])
  have "item_h t > 0" and "bottom t \<le> ?h"
    using workable_target [OF work t] layoutHeight_ge find_item_Some [OF t] by auto
  then have h: "?y + 1 \<le> ?h" by simp
  have step: "stepItem items i (Num 0) (Num 1) =
    (if item_y n > ?y then Inr first else step_scan items i t (?y + 2) ?h first)"
    using t first by (simp add: stepItem_def Let_def findTarget_ok add.assoc)
  have md1: "moves_down items i t (?y + 1) \<longleftrightarrow> item_y n > ?y"
    using first by (simp add: moves_down_def)
  have upper: "\<not> moves_down items i t j" if "j < ?y + 1" for j
    using moves_down_only_below [OF work t, of j] that by fastforce
  show ?thesis
  proof (cases "item_y n > ?y")
    case True
    then have "stepItem items i (Num 0) (Num 1) =
      moveItem items i (IntNum (item_x t)) (IntNum (?y + 1))"
      using step first(1) by simp
    with True md1 upper show ?thesis by blast
  next
    case False
    have none_below: "\<not> moves_down items i t j" if "j < ?y + 2" for j
      using upper [of j] md1 False that by (cases "j = ?y + 1") auto
    show ?thesis
      using step_scan_spec [OF work t, of "?y + 2" ?h first]
    proof (elim disjE exE conjE)
      fix k assume k: "?y + 2 \<le> k" "moves_down items i t k"
        "\<forall>j. ?y + 2 \<le> j \<and> j < k \<longrightarrow> \<not> moves_down items i t j"
        "step_scan items i t (?y + 2) ?h first = moveItem items i (IntNum (item_x t)) (IntNum k)"
      then have "\<not> moves_down items i t j" if "j < k" for j
        using none_below [of j] that by (cases "j < ?y + 2") auto
      with k step False show ?thesis by auto
    next
      assume none: "\<forall>k. ?y + 2 \<le> k \<and> k \<le> ?h \<longrightarrow> \<not> moves_down items i t k"
      have "\<not> moves_down items i t k" for k
      proof (cases "k \<le> ?h")
        case True
        then show ?thesis using none none_below [of k] by (cases "k < ?y + 2") auto
      next
        case False
        then have "moves_down items i t k = moves_down items i t ?h"
          using moves_down_below_height [OF work dis t, of k ?h] by simp
        also have "\<not> moves_down items i t ?h"
          using none none_below [of ?h] h by (cases "?h < ?y + 2") auto
        finally show ?thesis .
      qed
      then show ?thesis by blast
    qed
  qed
qed

section \<open>Pixels and cells\<close>

lemma cell_between: "\<exists>c. js_min (IntNum k) (js_max (Num 0) (js_floor (Num q))) = IntNum c \<and>
    min 0 k \<le> c \<and> c \<le> k"
proof -
  have "js_min (IntNum k) (js_max (Num 0) (js_floor (Num q))) = IntNum (min k (max 0 \<lfloor>q\<rfloor>))"
    by (simp add: of_int_max of_int_min)
  then show ?thesis by (intro exI [of _ "min k (max 0 \<lfloor>q\<rfloor>)"]) auto
qed

lemma row_nonneg: "\<exists>r. js_max (Num 0) (js_floor (Num q)) = IntNum r \<and> 0 \<le> r"
proof -
  have "js_max (Num 0) (js_floor (Num q)) = IntNum (max 0 \<lfloor>q\<rfloor>)"
    by (simp add: of_int_max)
  then show ?thesis by (intro exI [of _ "max 0 \<lfloor>q\<rfloor>"]) auto
qed

definition is_cell :: "cell \<Rightarrow> bool" where
  "is_cell c \<longleftrightarrow>
    (\<exists>i r. c = \<lparr>cell_x = IntNum i, cell_y = IntNum r\<rparr> \<and> 0 \<le> i \<and> i < DASHBOARD_COLUMNS \<and> 0 \<le> r)"

lemma is_cell_origin: "is_cell \<lparr>cell_x = Num 0, cell_y = Num 0\<rparr>"
  unfolding is_cell_def by (intro exI [of _ 0]) (simp add: js_simps)

lemma is_cell_clamped:
  "is_cell \<lparr>cell_x = js_min (IntNum (DASHBOARD_COLUMNS - 1)) (js_max (Num 0) (js_floor (Num p))),
     cell_y = js_max (Num 0) (js_floor (Num q))\<rparr>"
proof -
  obtain c where c: "js_min (IntNum (DASHBOARD_COLUMNS - 1)) (js_max (Num 0) (js_floor (Num p))) = IntNum c"
    "min 0 (DASHBOARD_COLUMNS - 1) \<le> c" "c \<le> DASHBOARD_COLUMNS - 1"
    using cell_between by blast
  obtain r where r: "js_max (Num 0) (js_floor (Num q)) = IntNum r" "0 \<le> r"
    using row_nonneg by blast
  show ?thesis
    unfolding is_cell_def c(1) r(1)
    by (rule exI [of _ c], rule exI [of _ r]) (use c r in \<open>simp add: js_simps\<close>)
qed

lemma cellFromPoint_in_grid:
  assumes "\<forall>g. gm_gap m = Num g \<longrightarrow> 0 \<le> g"
  shows "is_cell (cellFromPoint px py m)"
proof (cases "\<exists>l t cw rh g. gm_left m = Num l \<and> gm_top m = Num t \<and> gm_cellWidth m = Num cw \<and>
    gm_rowHeight m = Num rh \<and> gm_gap m = Num g \<and> cw > 0 \<and> rh > 0")
  case True
  then obtain l t cw rh g where m: "gm_left m = Num l" "gm_top m = Num t" "gm_cellWidth m = Num cw"
    "gm_rowHeight m = Num rh" "gm_gap m = Num g" "cw > 0" "rh > 0" by blast
  with assms have "cw + g \<noteq> 0" "rh + g \<noteq> 0" by fastforce+
  with m show ?thesis
    unfolding cellFromPoint_def using is_cell_clamped [of "(px - l) / (cw + g)" "(py - t) / (rh + g)"]
    by (simp add: js_quot_def del: js_floor.simps)
next
  case False
  then have "cellFromPoint px py m = \<lparr>cell_x = Num 0, cell_y = Num 0\<rparr>"
    unfolding cellFromPoint_def by (auto split: jsnum.split)
  then show ?thesis by (simp add: is_cell_origin)
qed

lemma floor_cell:
  fixes s d :: rat
  assumes "0 < s" "0 \<le> d" "d < s"
  shows "\<lfloor>(of_int c * s + d) / s\<rfloor> = c"
  using assms by (intro floor_unique) (simp_all add: field_simps)

text \<open>The inverse: a point inside the box that \<open>metricsFrom\<close> gives a cell falls in that cell.\<close>

lemma cellFromPoint_metricsFrom:
  assumes width: "width > DASHBOARD_GRID_GAP * 11"
    and c: "0 \<le> c" "c < DASHBOARD_COLUMNS" and r: "0 \<le> r"
    and dx: "0 \<le> dx" "dx < cw + DASHBOARD_GRID_GAP" and dy: "0 \<le> dy" "dy < 56"
    and cw: "cw = (width - DASHBOARD_GRID_GAP * 11) / 12"
  shows "cellFromPoint (l + of_int c * (cw + DASHBOARD_GRID_GAP) + dx) (t + of_int r * 56 + dy)
    (metricsFrom l t width) = \<lparr>cell_x = IntNum c, cell_y = IntNum r\<rparr>"
proof -
  have pos: "cw > 0" "cw + 16 > 0" using width cw by (simp_all add: js_simps)
  have fx: "\<lfloor>(of_int c * (cw + 16) + dx) / (cw + 16)\<rfloor> = c"
    by (rule floor_cell) (use pos dx in \<open>simp_all add: js_simps\<close>)
  have fy: "\<lfloor>(of_int r * 56 + dy) / 56\<rfloor> = r"
    by (rule floor_cell) (use dy in simp_all)
  have m: "metricsFrom l t width = \<lparr>gm_left = Num l, gm_top = Num t, gm_cellWidth = Num cw,
      gm_rowHeight = Num 40, gm_gap = Num 16\<rparr>"
    by (simp add: metricsFrom_def Let_def cw js_simps)
  show ?thesis
    unfolding m cellFromPoint_def using pos c r fx fy
    by (simp add: js_quot_def js_simps add.assoc)
qed

section \<open>Rendering\<close>

lemma known_items_items:
  "snd (known_items its lookup m) = filter (\<lambda>it. lookup (item_id it) \<noteq> None) its"
  by (induction its arbitrary: m) (auto split: option.split prod.split simp: case_prod_beta)

lemma known_items_other:
  "k \<notin> instanceId ` set its \<Longrightarrow> fst (known_items its lookup m) k = m k"
  by (induction its arbitrary: m) (auto split: option.split simp: case_prod_beta)

lemma known_items_map:
  "distinct (map instanceId its) \<Longrightarrow> it \<in> set its \<Longrightarrow> lookup (item_id it) = Some d \<Longrightarrow>
   fst (known_items its lookup m) (instanceId it) = Some d"
proof (induction its arbitrary: m)
  case (Cons a its)
  show ?case
  proof (cases "it = a")
    case True
    with Cons.prems show ?thesis
      by (simp add: case_prod_beta known_items_other)
  next
    case False
    with Cons show ?thesis by (simp add: case_prod_beta split: option.split)
  qed
qed simp

lemma concat_singletons:
  "\<forall>x \<in> set xs. f x = [(x, g x)] \<Longrightarrow> concat (map f xs) = map (\<lambda>x. (x, g x)) xs"
  by (induction xs) auto

lemma resolveRenderable_spec:
  assumes dist: "distinct (map instanceId items)"
  shows "resolveRenderable items lookup =
    map (\<lambda>it. (it, the (lookup (item_id it))))
      (compact (filter (\<lambda>it. lookup (item_id it) \<noteq> None) items))"
proof -
  let ?known = "filter (\<lambda>it. lookup (item_id it) \<noteq> None) items"
  let ?m = "fst (known_items items lookup Map.empty)"
  have key: "?m (instanceId c) = lookup (item_id c) \<and> lookup (item_id c) \<noteq> None"
    if "c \<in> set (compact ?known)" for c
  proof -
    obtain j where j: "j \<in> set ?known" "frame_of c = frame_of j"
      by (rule gr.fall_from [OF \<open>c \<in> set (compact ?known)\<close>])
    then obtain d where d: "lookup (item_id j) = Some d" by auto
    have "?m (instanceId j) = Some d"
      using known_items_map [where it = j and lookup = lookup, OF dist _ d] j(1) by simp
    with d j show ?thesis by (simp add: frame_of_def)
  qed
  have "\<forall>c \<in> set (compact ?known).
    (case ?m (instanceId c) of None \<Rightarrow> [] | Some d \<Rightarrow> [(c, d)]) = [(c, the (lookup (item_id c)))]"
  proof
    fix c assume "c \<in> set (compact ?known)"
    from key [OF this] obtain d where "?m (instanceId c) = Some d" "lookup (item_id c) = Some d"
      by auto
    then show "(case ?m (instanceId c) of None \<Rightarrow> [] | Some d \<Rightarrow> [(c, d)]) =
      [(c, the (lookup (item_id c)))]" by simp
  qed
  from concat_singletons [OF this] show ?thesis
    by (simp add: resolveRenderable_def case_prod_beta known_items_items)
qed

end
