(* ===== verification/Grid_Edits.thy ===== *)
theory Grid_Edits
  imports Grid_Step
begin

text \<open>
  The five operations of the grid as the alphabet of an editing session
  (\<open>src/frontend/lib/dashboard/grid.ts\<close>, the exported mutators). Each one returns rather than
  raising \<open>Vanished\<close>, keeps the working layout well formed and on the grid, and neither adds,
  drops nor rewrites a placement; so does any sequence of them.
\<close>

datatype edit_op =
    MoveTo string jsnum jsnum
  | StepBy string jsnum jsnum
  | ResizeTo string jsnum jsnum bounds
  | ResizeBy string jsnum jsnum bounds
  | ResizeAim string cell bounds

fun apply_edit :: "edit_op \<Rightarrow> layout_item list \<Rightarrow> grid_error + layout_item list" where
  "apply_edit (MoveTo i x y) items = moveItem items i x y"
| "apply_edit (StepBy i dx dy) items = stepItem items i dx dy"
| "apply_edit (ResizeTo i w h b) items = resizeItem items i w h b"
| "apply_edit (ResizeBy i dw dh b) items = resizeItemBy items i dw dh b"
| "apply_edit (ResizeAim i c b) items = resizeItemToCell items i c b"

fun apply_edits :: "edit_op list \<Rightarrow> layout_item list \<Rightarrow> grid_error + layout_item list" where
  "apply_edits [] items = Inr items"
| "apply_edits (e # es) items =
    (case apply_edit e items of Inl err \<Rightarrow> Inl err | Inr items' \<Rightarrow> apply_edits es items')"

definition on_grid :: "layout_item list \<Rightarrow> bool" where
  "on_grid xs \<longleftrightarrow> (\<forall>it \<in> set xs. 0 \<le> item_x it \<and> item_x it + item_w it \<le> DASHBOARD_COLUMNS)"

text \<open>What an edit must not touch: which widgets there are, and their parameters.\<close>

definition placement_of :: "layout_item \<Rightarrow> string \<times> string \<times> params option" where
  "placement_of it = (instanceId it, item_id it, item_params it)"

abbreviation placements :: "layout_item list \<Rightarrow> (string \<times> string \<times> params option) multiset" where
  "placements xs \<equiv> image_mset placement_of (mset xs)"

definition editable :: "layout_item list \<Rightarrow> bool" where
  "editable xs \<longleftrightarrow> workable xs \<and> on_grid xs"

definition keeps :: "layout_item list \<Rightarrow> layout_item list \<Rightarrow> bool" where
  "keeps items r \<longleftrightarrow>
    editable r \<and> placements r = placements items \<and> (canonical items \<longrightarrow> canonical r)"

lemma keeps_refl: "editable xs \<Longrightarrow> keeps xs xs"
  by (simp add: keeps_def)

lemma keeps_trans: "keeps xs ys \<Longrightarrow> keeps ys zs \<Longrightarrow> keeps xs zs"
  by (simp add: keeps_def)

lemma keeps_editable: "keeps xs ys \<Longrightarrow> editable ys"
  by (simp add: keeps_def)

section \<open>Resolution and the driver\<close>

lemma placements_frames:
  "placements xs = image_mset (\<lambda>(i, d, _, _, _, p). (i, d, p)) (frames xs)"
  by (simp add: multiset.map_comp comp_def frame_of_def placement_of_def [abs_def])

definition legal_anchor :: "layout_item \<Rightarrow> layout_item \<Rightarrow> bool" where
  "legal_anchor t a \<longleftrightarrow>
    placement_of a = placement_of t \<and> 0 \<le> item_y a \<and> item_w a > 0 \<and> item_h a > 0 \<and>
    0 \<le> item_x a \<and> item_x a + item_w a \<le> DASHBOARD_COLUMNS"

lemma resolve_on_grid:
  assumes "on_grid xs" "0 \<le> item_x a" "item_x a + item_w a \<le> DASHBOARD_COLUMNS"
  shows "on_grid (resolve xs a)"
  unfolding on_grid_def
proof
  fix c assume "c \<in> set (resolve xs a)"
  then have "frame_of c \<in># frames (resolve xs a)" by simp
  then have "frame_of c = frame_of a \<or> (\<exists>j \<in> set xs. frame_of c = frame_of j)"
    by (auto simp: resolve_frames)
  with assms show "0 \<le> item_x c \<and> item_x c + item_w c \<le> DASHBOARD_COLUMNS"
    by (auto simp: frame_of_def on_grid_def)
qed

lemma resolve_keeps:
  assumes ed: "editable xs" and t: "find_item xs i = Some t" and a: "legal_anchor t a"
  shows "keeps xs (resolve xs a)"
proof -
  have ida: "instanceId a = instanceId t" and pl: "placement_of a = placement_of t"
    using a by (simp_all add: legal_anchor_def placement_of_def)
  have "placements (resolve xs a) = add_mset (placement_of a) (placements (others (instanceId t) xs))"
    by (simp only: placements_frames resolve_frames ida image_mset_add_mset)
      (simp add: frame_of_def placement_of_def)
  also have "\<dots> = image_mset placement_of (add_mset t (mset (others (instanceId t) xs)))"
    by (simp add: pl)
  also have "\<dots> = placements xs"
    by (subst mset_split_target [of t xs, symmetric])
      (use find_item_Some [OF t] ed in \<open>auto simp: editable_def workable_def\<close>)
  finally show ?thesis
    using ed a
    by (simp add: keeps_def editable_def resolve_workable resolve_on_grid resolve_canonical legal_anchor_def)
qed

lemma settle_keeps:
  assumes ed: "editable items" and t: "find_item items i = Some t"
    and legal: "\<And>cur t. editable cur \<Longrightarrow> find_item cur i = Some t \<Longrightarrow> legal_anchor t (place t)"
    and id: "\<And>t. instanceId (place t) = instanceId t"
  shows "\<exists>r. settle items i place = Inr r \<and> keeps items r"
proof (rule settle_rule [OF t])
  show "keeps items (resolve items (place t))"
    by (rule resolve_keeps [OF ed t legal [OF ed t]])
  show "keeps items (resolve cur (place t'))" if "keeps items cur" "find_item cur i = Some t'" for cur t'
    using keeps_trans [OF that(1)] resolve_keeps [OF keeps_editable [OF that(1)] that(2)]
      legal [OF keeps_editable [OF that(1)] that(2)] by blast
qed (simp add: id)

lemma editable_target:
  assumes "editable xs" "find_item xs i = Some t"
  shows "0 \<le> item_y t \<and> item_w t > 0 \<and> item_h t > 0 \<and> 0 \<le> item_x t \<and>
    item_x t + item_w t \<le> DASHBOARD_COLUMNS"
  using assms workable_target [of xs i t] find_item_Some [OF assms(2)]
  by (simp add: editable_def on_grid_def)

lemma place_at_legal:
  "editable xs \<Longrightarrow> find_item xs i = Some t \<Longrightarrow> legal_anchor t (place_at c r t)"
  using editable_target [of xs i t]
  by (auto simp: legal_anchor_def placement_of_def place_at_def clamp_def)

lemma size_to_legal:
  "editable xs \<Longrightarrow> find_item xs i = Some t \<Longrightarrow> legal_anchor t (size_to w h b t)"
  using editable_target [of xs i t]
  by (auto simp: legal_anchor_def placement_of_def size_to_def clamp_def)

section \<open>The operations\<close>

lemma find_item_placements:
  assumes "placements r = placements items" "find_item items i = Some t"
  obtains n where "find_item r i = Some n"
proof -
  have "placement_of t \<in># placements r"
    using assms find_item_Some [OF assms(2)] by auto
  then have "i \<in> instanceId ` set r"
    using find_item_Some [OF assms(2)] by (auto simp: placement_of_def)
  then show ?thesis using that find_item_ex by blast
qed

lemma keeps_finds:
  assumes "keeps items r" "find_item items i = Some t"
  obtains n where "findTarget r i = Inr n" "find_item r i = Some n"
  using find_item_placements [of r items i t] assms that
  by (auto simp: keeps_def findTarget_def)

lemma moveItem_keeps:
  assumes "editable items"
  shows "\<exists>r. moveItem items i x y = Inr r \<and> keeps items r"
  using assms keeps_refl [OF assms] settle_keeps [OF assms _ place_at_legal]
  by (auto simp: moveItem_def split: option.split jsnum.split)

lemma resizeItem_keeps:
  assumes "editable items"
  shows "\<exists>r. resizeItem items i w h b = Inr r \<and> keeps items r"
  using assms keeps_refl [OF assms] settle_keeps [OF assms _ size_to_legal]
  by (auto simp: resizeItem_def split: option.split jsnum.split)

lemma resizeItemBy_keeps:
  assumes "editable items"
  shows "\<exists>r. resizeItemBy items i dw dh b = Inr r \<and> keeps items r"
  using resizeItem_keeps [OF assms] keeps_refl [OF assms]
  by (auto simp: resizeItemBy_def split: option.split)

lemma step_scan_keeps:
  assumes ed: "editable items" and t: "find_item items i = Some t" and first: "keeps items first"
  shows "\<exists>r. step_scan items i t y fl first = Inr r \<and> keeps items r"
proof (induction "nat (fl + 1 - y)" arbitrary: y)
  case 0
  then show ?case using first by (simp add: step_scan.simps [of items i t y])
next
  case (Suc d)
  obtain r where r: "moveItem items i (IntNum (item_x t)) (IntNum y) = Inr r" "keeps items r"
    using moveItem_keeps [OF ed] by blast
  obtain n where n: "findTarget r i = Inr n" by (rule keeps_finds [OF r(2) t])
  show ?case
    using Suc.hyps(1) [of "y + 1"] Suc.hyps(2) first r n
    by (auto simp: step_scan.simps [of items i t y])
qed

lemma stepItem_keeps:
  assumes ed: "editable items"
  shows "\<exists>r. stepItem items i dx dy = Inr r \<and> keeps items r"
proof (cases "\<exists>t a b. find_item items i = Some t \<and> dx = Num a \<and> dy = Num b")
  case True
  then obtain t a b where t: "find_item items i = Some t" and d: "dx = Num a" "dy = Num b" by blast
  obtain first where f: "moveItem items i (IntNum (item_x t + js_round a))
      (IntNum (item_y t + js_round b)) = Inr first" "keeps items first"
    using moveItem_keeps [OF ed] by blast
  obtain n where n: "findTarget first i = Inr n" by (rule keeps_finds [OF f(2) t])
  have "stepItem items i dx dy =
    (if js_round a \<noteq> 0 \<or> js_round b \<le> 0 \<or> item_y n > item_y t then Inr first
     else step_scan items i t (item_y t + js_round b + 1) (layoutHeight items) first)"
    using f(1) by (simp add: stepItem_def t d n Let_def)
  then show ?thesis using f step_scan_keeps [OF ed t f(2)] by auto
next
  case False
  then have "stepItem items i dx dy = Inr items"
    by (auto simp: stepItem_def split: option.split jsnum.split)
  then show ?thesis using keeps_refl [OF ed] by blast
qed

lemma aim_loop_keeps:
  assumes "editable items" "find_item items i = Some t" "keeps items out"
  shows "\<exists>r. aim_loop n out cur i c b = Inr r \<and> keeps items r"
  using assms(3)
proof (induction n arbitrary: out cur)
  case (Suc n)
  obtain s where s: "findTarget out i = Inr s" by (rule keeps_finds [OF Suc.prems assms(2)])
  obtain out' where out': "resizeItem out i (fst (aim_size c s)) (snd (aim_size c s)) b = Inr out'"
    "keeps out out'"
    using resizeItem_keeps [OF keeps_editable [OF Suc.prems]] by blast
  show ?case
    using Suc.IH [OF keeps_trans [OF Suc.prems out'(2)]] Suc.prems by (simp add: s out'(1))
qed simp

lemma resizeItemToCell_keeps:
  assumes ed: "editable items"
  shows "\<exists>r. resizeItemToCell items i c b = Inr r \<and> keeps items r"
proof (cases "find_item items i")
  case None
  then show ?thesis using keeps_refl [OF ed] by (simp add: resizeItemToCell_def)
next
  case (Some t)
  obtain out where out: "resizeItem items i (fst (aim_size c t)) (snd (aim_size c t)) b = Inr out"
    "keeps items out" using resizeItem_keeps [OF ed] by blast
  then show ?thesis
    using aim_loop_keeps [OF ed Some out(2)] by (simp add: resizeItemToCell_def Some)
qed

lemma apply_edit_keeps:
  "editable items \<Longrightarrow> \<exists>r. apply_edit e items = Inr r \<and> keeps items r"
  by (cases e) (simp_all add: moveItem_keeps stepItem_keeps resizeItem_keeps resizeItemBy_keeps
      resizeItemToCell_keeps)

lemma apply_edits_keeps:
  "editable items \<Longrightarrow> \<exists>r. apply_edits es items = Inr r \<and> keeps items r"
proof (induction es arbitrary: items)
  case (Cons e es)
  obtain r where r: "apply_edit e items = Inr r" "keeps items r"
    using apply_edit_keeps [OF Cons.prems] by blast
  from Cons.IH [OF keeps_editable [OF r(2)]] keeps_trans [OF r(2)] show ?case
    by (auto simp: r(1))
qed (simp add: keeps_refl)

end
