(* ===== verification/Grid_Properties.thy ===== *)
theory Grid_Properties
  imports Grid_Edits
begin

text \<open>
  What the dashboard grid promises (\<open>src/frontend/lib/dashboard/grid.ts\<close>), stated over the
  operations and proved from the lemmas of the grid theories, each with a concrete instance.
\<close>

definition box :: "string \<Rightarrow> int \<Rightarrow> int \<Rightarrow> int \<Rightarrow> int \<Rightarrow> layout_item" where
  "box n x y w h =
    \<lparr>instanceId = n, item_id = n, item_x = x, item_y = y, item_w = w, item_h = h,
     item_params = None\<rparr>"

definition three_boxes :: "layout_item list" where
  "three_boxes = [box ''a'' 0 0 6 4, box ''b'' 6 0 6 4, box ''c'' 0 4 12 3]"

lemma three_boxes_workable: "workable three_boxes"
  by (simp add: three_boxes_def box_def workable_def legal_rows_def positive_sizes_def)

lemma three_boxes_editable: "editable three_boxes"
  using three_boxes_workable
  by (simp add: three_boxes_def box_def editable_def on_grid_def js_simps)

lemma three_boxes_canonical: "canonical three_boxes"
  by (simp add: three_boxes_def box_def canonical_def disjoint_layout_def overlaps_def
      sharesColumn_def sharesRow_def supported_def byReadingOrder_le)

lemma three_boxes_find: "find_item three_boxes ''a'' = Some (box ''a'' 0 0 6 4)"
  by (simp add: three_boxes_def box_def find_item_def)

section \<open>Editing sessions\<close>

text \<open>
  Claim C1. Any sequence of moves, steps and resizes, by any ids and any numbers, NaN and the
  infinities included, returns (the internal exception is never raised) and leaves a layout with
  non-negative rows, positive sizes, distinct instance ids and every item inside the twelve
  columns, holding exactly the placements it started with, parameters included; a settled layout
  (no overlaps, nothing floating, in reading order) stays settled.
\<close>

theorem edits_keep_layout:
  assumes "editable items"
  shows "\<exists>r. apply_edits es items = Inr r \<and> editable r \<and> placements r = placements items \<and>
    (canonical items \<longrightarrow> canonical r)"
  using apply_edits_keeps [OF assms, of es] by (simp add: keeps_def)

theorem edits_keep_layout_witness:
  "editable three_boxes \<and>
   (\<exists>r. apply_edits [MoveTo ''a'' (Num 3) PosInf, StepBy ''c'' (Num 0) (Num (- 1)),
          ResizeTo ''b'' NaN (Num 2) \<lparr>bound_minW = 1, bound_minH = 1\<rparr>] three_boxes = Inr r \<and>
        editable r \<and> placements r = placements three_boxes)"
  using edits_keep_layout [OF three_boxes_editable] three_boxes_editable by blast

section \<open>Gravity\<close>

text \<open>
  Claim C3. Compaction returns its items in reading order, with no two overlapping and every one
  resting on the top edge or on the bottom edge of an item sharing a column with it, and changes
  nothing of any item but its row.
\<close>

theorem compact_correct: "canonical (compact xs) \<and> frames (compact xs) = frames xs"
  by (simp add: compact_canonical compact_frames)

text \<open>
  Compaction is idempotent and blind to the order of its input: any permutation of a
  settled layout compacts to exactly that layout.
\<close>

theorem compact_fixed_point:
  assumes "canonical xs" "positive_sizes xs" "mset ys = mset xs"
  shows "compact ys = xs"
  by (rule compact_mset_canonical [OF assms])

text \<open>
  On a layout without overlaps compaction only lifts: every compacted item is one of the
  originals at its own row or a higher one, so the dashboard never gets taller.
\<close>

theorem compact_only_lifts:
  assumes "disjoint_layout xs" "legal_rows xs" "positive_sizes xs"
  shows "(\<forall>c \<in> set (compact xs). \<exists>i \<in> set xs. frame_of c = frame_of i \<and> item_y c \<le> item_y i) \<and>
    layoutHeight (compact xs) \<le> layoutHeight xs"
proof -
  have lifts: "\<forall>c \<in> set (compact xs). \<exists>i \<in> set xs. frame_of c = frame_of i \<and> item_y c \<le> item_y i"
    using gr.fall_lifts [OF assms] by blast
  have "layoutHeight (compact xs) \<le> layoutHeight xs"
  proof (rule layoutHeight_le [OF layoutHeight_nonneg])
    fix c assume "c \<in> set (compact xs)"
    with lifts obtain i where "i \<in> set xs" "frame_of c = frame_of i" "item_y c \<le> item_y i" by blast
    then show "bottom c \<le> layoutHeight xs"
      using layoutHeight_ge [of i xs] by (simp add: frame_of_def)
  qed
  with lifts show ?thesis by blast
qed

section \<open>Moving\<close>

text \<open>
  Claim C2. A finite move of a placement that exists returns a settled layout in which every other
  item keeps its frame, the moved one keeps its size and parameters, sits in exactly the requested
  column (rounded and clamped to the grid), and sits no lower than the requested row.
\<close>

theorem moveItem_correct:
  assumes "workable items" "find_item items i = Some t"
  shows "\<exists>r t'. moveItem items i (Num x) (Num y) = Inr r \<and> canonical r \<and> workable r \<and>
    frames (others i r) = frames (others i items) \<and> find_item r i = Some t' \<and>
    item_id t' = item_id t \<and> item_params t' = item_params t \<and>
    item_w t' = item_w t \<and> item_h t' = item_h t \<and>
    item_x t' = clamp (js_round x) 0 (max 0 (DASHBOARD_COLUMNS - item_w t)) \<and>
    0 \<le> item_y t' \<and> item_y t' \<le> clamp (max 0 (js_round y)) 0 (max 0 (DASHBOARD_MAX_ROWS - item_h t))"
proof -
  obtain r where r: "moveItem items i (Num x) (Num y) = Inr r"
    "settled_for items i (frame_of (place_at (js_round x) (max 0 (js_round y)) t))
      (clamp (max 0 (js_round y)) 0 (max 0 (DASHBOARD_MAX_ROWS - item_h t))) r"
    using move_settled [OF assms] by (auto simp: moveItem_finite [OF assms(2)])
  then obtain t' where t': "find_item r i = Some t'"
    "frame_of t' = frame_of (place_at (js_round x) (max 0 (js_round y)) t)"
    "item_y t' \<le> clamp (max 0 (js_round y)) 0 (max 0 (DASHBOARD_MAX_ROWS - item_h t))"
    by (auto simp: settled_for_def)
  moreover have "0 \<le> item_y t'"
    using r(2) workable_target [OF _ t'(1)] by (simp add: settled_for_def)
  ultimately show ?thesis
    using r by (intro exI [of _ r] exI [of _ t']) (auto simp: settled_for_def frame_of_def place_at_def)
qed

theorem moveItem_correct_witness:
  "workable three_boxes \<and>
   (\<exists>r t'. moveItem three_boxes ''a'' (Num 40) (Num 2) = Inr r \<and> canonical r \<and>
      find_item r ''a'' = Some t' \<and> item_x t' = 6 \<and> item_y t' \<le> 2)"
proof -
  obtain r t' where r: "moveItem three_boxes ''a'' (Num 40) (Num 2) = Inr r" "canonical r"
    "find_item r ''a'' = Some t'"
    "item_x t' = clamp 40 0 (max 0 (DASHBOARD_COLUMNS - 6))"
    "item_y t' \<le> clamp (max 0 2) 0 (max 0 (DASHBOARD_MAX_ROWS - 4))"
    using moveItem_correct [OF three_boxes_workable three_boxes_find, of 40 2]
    by (auto simp: box_def)
  have "item_x t' = 6" "item_y t' \<le> 2"
    using r(4,5) by (simp_all add: clamp_def DASHBOARD_COLUMNS_def DASHBOARD_MAX_ROWS_def)
  with r(1-3) three_boxes_workable show ?thesis by blast
qed

text \<open>
  A move that lands on the very cell it asked for is a fixed point: asking for that cell
  again, as a held pointer does, returns the same layout.
\<close>

theorem moveItem_landed_fixed:
  assumes "workable items" "find_item items i = Some t"
    "moveItem items i (Num x) (Num y) = Inr r" "find_item r i = Some t'"
    "item_y t' = clamp (max 0 (js_round y)) 0 (max 0 (DASHBOARD_MAX_ROWS - item_h t'))"
  shows "moveItem r i (Num x) (Num y) = Inr r"
proof -
  obtain lowest where "settled_for items i (frame_of (place_at (js_round x) (max 0 (js_round y)) t)) lowest r"
    using move_settled [OF assms(1,2), of "js_round x" "max 0 (js_round y)"] assms(3)
    by (auto simp: moveItem_finite [OF assms(2)])
  from move_landed_fixed [OF this assms(4)] assms(5) show ?thesis
    by (simp add: moveItem_finite [OF assms(4)])
qed

definition two_boxes :: "layout_item list" where
  "two_boxes = [box ''a'' 0 0 6 4, box ''b'' 0 4 6 2]"

definition two_boxes_moved :: "layout_item list" where
  "two_boxes_moved = [box ''a'' 0 0 6 4, box ''b'' 6 0 6 2]"

definition tall_layout :: "layout_item list" where
  "tall_layout =
    [box ''5'' 8 0 4 43, box ''9'' 9 43 3 10, box ''0'' 2 53 8 4, box ''10'' 2 57 7 4,
     box ''2'' 1 61 3 25, box ''1'' 1 86 4 26, box ''6'' 2 112 8 24, box ''3'' 2 136 6 4,
     box ''7'' 5 140 2 3, box ''4'' 5 143 1 3, box ''8'' 5 146 1 3]"

definition tall_layout_moved :: "layout_item list" where
  "tall_layout_moved =
    [box ''2'' 1 0 3 25, box ''7'' 5 0 2 3, box ''4'' 5 3 1 3, box ''0'' 4 6 8 4,
     box ''5'' 8 10 4 43, box ''1'' 1 25 4 26, box ''3'' 2 51 6 4, box ''9'' 9 53 3 10,
     box ''8'' 5 55 1 3, box ''10'' 2 58 7 4, box ''6'' 2 63 8 24]"

text \<open>
  Moves are not idempotent in general: there is a settled eleven-item layout, 149 rows
  tall, on which a move returns a layout that the same move changes again. The number of items
  is not enough passes for the driver to reach a fixed point.
\<close>

theorem moveItem_not_idempotent:
  "workable tall_layout \<and> compact tall_layout = tall_layout \<and> layoutHeight tall_layout = 149 \<and>
   moveItem tall_layout ''0'' (Num 9) (Num 30) = Inr tall_layout_moved \<and>
   moveItem tall_layout_moved ''0'' (Num 9) (Num 30) \<noteq> Inr tall_layout_moved"
proof -
  have "workable tall_layout"
    by (simp add: tall_layout_def box_def workable_def legal_rows_def positive_sizes_def)
  moreover have "compact tall_layout = tall_layout" by code_simp
  moreover have "layoutHeight tall_layout = 149" by code_simp
  moreover have "moveItem tall_layout ''0'' (Num 9) (Num 30) = Inr tall_layout_moved" by code_simp
  moreover have "moveItem tall_layout_moved ''0'' (Num 9) (Num 30) \<noteq> Inr tall_layout_moved"
    by code_simp
  ultimately show ?thesis by blast
qed

section \<open>Stepping and resizing\<close>

text \<open>
  One press of the down key carries out the least honoured request in the item's own
  column; when it carries out none, then no request in that column is honoured, however low the
  row, so a press that does nothing was the only possible answer.
\<close>

theorem stepItem_down_least:
  assumes "workable items" "disjoint_layout items" "find_item items i = Some t"
  shows "(\<exists>k. moves_down items i t k \<and> (\<forall>j < k. \<not> moves_down items i t j) \<and>
      stepItem items i (Num 0) (Num 1) = moveItem items i (IntNum (item_x t)) (IntNum k)) \<or>
    (\<forall>k. \<not> moves_down items i t k)"
  by (rule stepItem_down [OF assms])

text \<open>
  A finite resize whose height fits under the row cap returns a settled layout in which
  every other item keeps its frame, the resized one keeps its column, has exactly the requested
  size (rounded, at least the widget's minimum, at most what is left of the grid), has not moved
  down, and asking for that size again changes nothing.
\<close>

theorem resizeItem_correct:
  assumes work: "workable items" and t: "find_item items i = Some t"
    and height: "height = max (max 1 (bound_minH b)) (js_round h)"
    and fits: "item_y t + height \<le> DASHBOARD_MAX_ROWS"
  shows "\<exists>r t'. resizeItem items i (Num w) (Num h) b = Inr r \<and> canonical r \<and> workable r \<and>
    frames (others i r) = frames (others i items) \<and> find_item r i = Some t' \<and>
    item_id t' = item_id t \<and> item_params t' = item_params t \<and> item_x t' = item_x t \<and>
    item_w t' = max 1 (clamp (js_round w) (bound_minW b) (DASHBOARD_COLUMNS - item_x t)) \<and>
    item_h t' = height \<and> item_y t' \<le> item_y t \<and>
    resizeItem r i (Num w) (Num h) b = Inr r"
proof -
  let ?r = "resolve items (size_to (js_round w) height b t)"
  have h1: "1 \<le> height" by (simp add: height)
  note R = resize_settles [OF work t h1 fits, of "js_round w" b]
  obtain t' where t': "find_item ?r i = Some t'"
    "frame_of t' = frame_of (size_to (js_round w) height b t)" "item_y t' \<le> item_y t"
    using R(2) by (auto simp: settled_for_def)
  have res: "resizeItem items i (Num w) (Num h) b = Inr ?r" "resizeItem ?r i (Num w) (Num h) b = Inr ?r"
    using R(1,3) t t'(1) by (simp_all add: resizeItem_def height)
  have fr: "item_id t' = item_id t" "item_params t' = item_params t" "item_x t' = item_x t"
    "item_w t' = max 1 (clamp (js_round w) (bound_minW b) (DASHBOARD_COLUMNS - item_x t))"
    "item_h t' = height"
    using t'(2) h1 fits by (auto simp: frame_of_def size_to_def)
  show ?thesis
    using R(2) res fr t' by (intro exI [of _ ?r] exI [of _ t']) (simp add: settled_for_def)
qed

section \<open>Pixels and rendering\<close>

text \<open>
  Whatever was measured, a grid with no width or with NaN edges included, the pointer
  is translated to a whole cell with a column of the grid and a row that is not negative.
\<close>

theorem cellFromPoint_always_a_cell:
  assumes "\<forall>g. gm_gap m = Num g \<longrightarrow> 0 \<le> g"
  shows "is_cell (cellFromPoint px py m)"
  by (rule cellFromPoint_in_grid [OF assms])

text \<open>
  The translation inverts the rendering: with the metrics of a grid wide enough for its
  gaps, every point of the box drawn for a cell, its trailing gap included, is translated back to
  that cell.
\<close>

theorem cellFromPoint_inverts_metrics:
  assumes "width > DASHBOARD_GRID_GAP * 11"
    and "0 \<le> c" "c < DASHBOARD_COLUMNS" "0 \<le> r"
    and "0 \<le> dx" "dx < cw + DASHBOARD_GRID_GAP" "0 \<le> dy" "dy < 56"
    and "cw = (width - DASHBOARD_GRID_GAP * 11) / 12"
  shows "cellFromPoint (l + of_int c * (cw + DASHBOARD_GRID_GAP) + dx) (t + of_int r * 56 + dy)
    (metricsFrom l t width) = \<lparr>cell_x = IntNum c, cell_y = IntNum r\<rparr>"
  by (rule cellFromPoint_metricsFrom [OF assms])

text \<open>
  Rendering drops exactly the placements whose widget this build does not know, settles
  what is left, and pairs every survivor with the definition of its own widget.
\<close>

theorem resolveRenderable_correct:
  assumes "distinct (map instanceId items)"
  shows "resolveRenderable items lookup =
    map (\<lambda>it. (it, the (lookup (item_id it))))
      (compact (filter (\<lambda>it. lookup (item_id it) \<noteq> None) items))"
  by (rule resolveRenderable_spec [OF assms])

end
