(* ===== verification/Js_Text.thy ===== *)
theory Js_Text
  imports Prelude
begin

text \<open>
  The string and object operations of the language that several components use: assignment to an
  object's key, prefixes, splitting and joining, trimming, case folding, and the decimal digits
  of a number. A string is a list of code units below 256.
\<close>

section \<open>Objects\<close>

text \<open>Assignment to an object's key keeps the key's place when it has one.\<close>

fun set_key :: "'k \<Rightarrow> 'v \<Rightarrow> ('k \<times> 'v) list \<Rightarrow> ('k \<times> 'v) list" where
  "set_key k v [] = [(k, v)]"
| "set_key k v ((k', v') # ps) = (if k = k' then (k, v) # ps else (k', v') # set_key k v ps)"

lemma map_of_set_key: "map_of (set_key k v ps) = (map_of ps)(k \<mapsto> v)"
  by (induction ps) auto

lemma set_key_subset: "set (set_key i v xs) \<subseteq> insert (i, v) (set xs)"
  by (induction i v xs rule: set_key.induct) auto

lemma set_key_fst: "set (map fst (set_key k v xs)) = insert k (set (map fst xs))"
  by (induction k v xs rule: set_key.induct) (simp_all add: insert_commute)

lemma distinct_set_key: "distinct (map fst xs) \<Longrightarrow> distinct (map fst (set_key k v xs))"
proof (induction k v xs rule: set_key.induct)
  case (2 k v k' v' ps)
  then show ?case using set_key_fst [of k v ps] by simp
qed simp

section \<open>Strings\<close>

text \<open>Decimal digits, as \<open>`${n}`\<close> prints them.\<close>

fun show_nat :: "nat \<Rightarrow> string" where
  "show_nat n =
    (if n < 10 then [char_of (48 + n)] else show_nat (n div 10) @ [char_of (48 + n mod 10)])"

declare show_nat.simps [simp del]

definition is_ws :: "char \<Rightarrow> bool" where
  "is_ws c \<longleftrightarrow> of_char c \<in> {9, 10, 11, 12, 13, 32, 160 :: nat}"

definition trim :: "string \<Rightarrow> string" where
  "trim s = rev (dropWhile is_ws (rev (dropWhile is_ws s)))"

definition startsWith :: "'a list \<Rightarrow> 'a list \<Rightarrow> bool" where
  "startsWith s p \<longleftrightarrow> take (length p) s = p"

lemma startsWith_iff: "startsWith s p \<longleftrightarrow> (\<exists>r. s = p @ r)"
  unfolding startsWith_def by (metis append_eq_conv_conj append_take_drop_id)

lemma startsWith_append [simp]: "startsWith (p @ r) p"
  by (simp add: startsWith_def)

text \<open>\<open>s.split(c)\<close> for a one-character separator, and its inverse \<open>join\<close>.\<close>

fun split_on :: "'a \<Rightarrow> 'a list \<Rightarrow> 'a list list" where
  "split_on c [] = [[]]"
| "split_on c (x # xs) =
    (if x = c then [] # split_on c xs
     else (case split_on c xs of [] \<Rightarrow> [[x]] | s # ss \<Rightarrow> (x # s) # ss))"

fun join_with :: "'a \<Rightarrow> 'a list list \<Rightarrow> 'a list" where
  "join_with c [] = []"
| "join_with c [s] = s"
| "join_with c (s # t # ss) = s @ c # join_with c (t # ss)"

lemma split_on_ne [simp]: "split_on c s \<noteq> []"
  by (cases s) (simp_all split: list.split)

lemma join_split [simp]: "join_with c (split_on c s) = s"
proof (induction s)
  case (Cons x s)
  obtain q qs where "split_on c s = q # qs" by (cases "split_on c s") simp_all
  with Cons show ?case by (cases qs) simp_all
qed simp

lemma split_on_pieces: "p \<in> set (split_on c s) \<Longrightarrow> c \<notin> set p"
  by (induction s arbitrary: p) (auto split: if_splits list.splits)

lemma split_on_length: "length (split_on c s) = length (filter (\<lambda>x. x = c) s) + 1"
  by (induction s) (auto split: list.split)

lemma split_on_append: "split_on c (xs @ c # ys) = split_on c xs @ split_on c ys"
  by (induction xs) (auto split: list.split)

lemma split_on_plain: "c \<notin> set s \<Longrightarrow> split_on c s = [s]"
  by (induction s) auto

lemma split_on_join:
  "ss \<noteq> [] \<Longrightarrow> \<forall>s \<in> set ss. c \<notin> set s \<Longrightarrow> split_on c (join_with c ss) = ss"
  by (induction c ss rule: join_with.induct) (simp_all add: split_on_append split_on_plain)

lemma split_on_infix: "p \<in> set (split_on c s) \<Longrightarrow> \<exists>pre post. s = pre @ p @ post"
proof (induction s arbitrary: p)
  case (Cons x s)
  obtain q qs where q: "split_on c s = q # qs" by (cases "split_on c s") simp_all
  have rest: "x # s = [] @ (x # q) @ drop (length q) s"
    using join_split [of c s] q by (cases qs) (auto simp del: join_split)
  consider "p = []" | "p \<in> set (split_on c s)" | "p = x # q"
    using Cons.prems q by (auto split: if_splits)
  then show ?case
  proof cases
    case 1
    have "x # s = [] @ [] @ (x # s)" by simp
    then show ?thesis using 1 by blast
  next
    case 2
    then obtain pre post where "s = pre @ p @ post" using Cons.IH by blast
    then have "x # s = (x # pre) @ p @ post" by simp
    then show ?thesis by blast
  next
    case 3
    then show ?thesis using rest by blast
  qed
qed simp

lemma join_with_append: "xs \<noteq> [] \<Longrightarrow> ys \<noteq> [] \<Longrightarrow> join_with c (xs @ ys) = join_with c xs @ c # join_with c ys"
proof (induction c xs rule: join_with.induct)
  case (2 c s)
  then show ?case by (cases ys) simp_all
qed simp_all

text \<open>\<open>toLowerCase\<close> on the letters of ASCII; the other code units below 256 do not occur where
  the program folds case (header names, methods).\<close>

definition lower_char :: "char \<Rightarrow> char" where
  "lower_char c = (let n = of_char c :: nat in if 65 \<le> n \<and> n \<le> 90 then char_of (n + 32) else c)"

definition toLowerCase :: "string \<Rightarrow> string" where
  "toLowerCase s = map lower_char s"

lemmas lower_eval = toLowerCase_def lower_char_def Let_def char_of_def bit_Suc_0_iff

definition upper_char :: "char \<Rightarrow> char" where
  "upper_char c = (let n = of_char c :: nat in if 97 \<le> n \<and> n \<le> 122 then char_of (n - 32) else c)"

definition toUpperCase :: "string \<Rightarrow> string" where
  "toUpperCase s = map upper_char s"

lemmas upper_eval = toUpperCase_def upper_char_def Let_def char_of_def bit_Suc_0_iff

text \<open>\<open>url.split("?")[0]\<close>, and the rest from the question mark on.\<close>

definition before_query :: "string \<Rightarrow> string" where
  "before_query url = takeWhile (\<lambda>c. c \<noteq> CHR ''?'') url"

definition from_query :: "string \<Rightarrow> string" where
  "from_query url = dropWhile (\<lambda>c. c \<noteq> CHR ''?'') url"

lemma before_from_query [simp]: "before_query url @ from_query url = url"
  by (simp add: before_query_def from_query_def)

end
