(* ===== verification/Params.thy ===== *)
theory Params
  imports Dash_Types Js_Text "HOL-Library.List_Lexorder" "HOL-Library.Char_ord"
begin

text \<open>
  Widget parameters (\<open>src/frontend/lib/dashboard/params.ts\<close>): the value rules of the dialog,
  the identity of a placement (\<open>canonicalParams\<close>), and the cache key a parameterised read is
  issued under (\<open>sourceKeyFor\<close>) with its decoder. A string is a list of characters; the
  characters of the model are the code units below 256, one code unit and one code point each.
  \<open>Object.keys(...).sort()\<close> compares code units, which is the lexicographic order on
  character lists.
\<close>

section \<open>Keys and value rules\<close>

definition PARAM_KEY_NAMESPACE :: string where
  [js_simps]: "PARAM_KEY_NAMESPACE = ''namespace''"

definition PARAM_KEY_SERVICE :: string where
  [js_simps]: "PARAM_KEY_SERVICE = ''service''"

definition KNOWN_PARAM_KEYS :: "string list" where
  [js_simps]: "KNOWN_PARAM_KEYS = [PARAM_KEY_NAMESPACE, PARAM_KEY_SERVICE]"

definition lower_letter :: "char \<Rightarrow> bool" where
  "lower_letter c \<longleftrightarrow> CHR ''a'' \<le> c \<and> c \<le> CHR ''z''"

definition lower_alnum :: "char \<Rightarrow> bool" where
  "lower_alnum c \<longleftrightarrow> lower_letter c \<or> CHR ''0'' \<le> c \<and> c \<le> CHR ''9''"

text \<open>\<open>/^[a-z]([-a-z0-9]{0,61}[a-z0-9])?$/\<close>, the shape of a service name.\<close>

definition dns1035_label :: "string \<Rightarrow> bool" where
  "dns1035_label s \<longleftrightarrow>
    (case s of
       [] \<Rightarrow> False
     | c # cs \<Rightarrow>
         lower_letter c \<and>
         (cs = [] \<or>
          (length (butlast cs) \<le> 61 \<and>
           list_all (\<lambda>d. d = CHR ''-'' \<or> lower_alnum d) (butlast cs) \<and> lower_alnum (last cs))))"

definition PARAM_VALUE_SHAPE :: "(string \<times> (string \<Rightarrow> bool)) list" where
  "PARAM_VALUE_SHAPE = [(PARAM_KEY_SERVICE, dns1035_label)]"

definition PARAM_KEY_PARENT :: "(string \<times> string) list" where
  "PARAM_KEY_PARENT = [(PARAM_KEY_SERVICE, PARAM_KEY_NAMESPACE)]"

definition paramParentKey :: "string \<Rightarrow> string option" where
  "paramParentKey key = map_of PARAM_KEY_PARENT key"

text \<open>\<open>values[k] ?? ""\<close>\<close>

definition value_or_empty :: "params \<Rightarrow> string \<Rightarrow> string" where
  "value_or_empty vals k = (case map_of vals k of None \<Rightarrow> [] | Some v \<Rightarrow> v)"

datatype param_field_block = AwaitingParent | NoOptions

record param_field_state =
  pf_enabled :: bool
  pf_blocked :: "param_field_block option"

definition paramFieldState :: "string \<Rightarrow> params \<Rightarrow> string list \<Rightarrow> param_field_state" where
  "paramFieldState key vals opts =
    (if (case paramParentKey key of None \<Rightarrow> False | Some p \<Rightarrow> value_or_empty vals p = [])
     then \<lparr>pf_enabled = False, pf_blocked = Some AwaitingParent\<rparr>
     else if opts = [] then \<lparr>pf_enabled = False, pf_blocked = Some NoOptions\<rparr>
     else \<lparr>pf_enabled = True, pf_blocked = None\<rparr>)"

fun clear_children :: "(string \<times> string) list \<Rightarrow> string \<Rightarrow> params \<Rightarrow> params" where
  "clear_children [] key nxt = nxt"
| "clear_children ((child, parent) # es) key nxt =
    clear_children es key
      (if parent = key \<and> child \<in> fst ` set nxt then set_key child [] nxt else nxt)"

definition withParamValue :: "params \<Rightarrow> string \<Rightarrow> string \<Rightarrow> params" where
  "withParamValue vals key v = clear_children PARAM_KEY_PARENT key (set_key key v vals)"

definition MAX_PARAM_KEY_LEN :: nat where
  [js_simps]: "MAX_PARAM_KEY_LEN = 32"

definition MAX_PARAM_VALUE_LEN :: nat where
  [js_simps]: "MAX_PARAM_VALUE_LEN = 253"

definition is_control :: "char \<Rightarrow> bool" where
  "is_control c \<longleftrightarrow> of_char c < (32::nat) \<or> (127::nat) \<le> of_char c \<and> of_char c < (160::nat)"

text \<open>
  \<open>runeCount\<close> counts code points. The characters of \<open>string\<close> are single code points, so for these texts
  it is the length; a surrogate pair, which the code counts once, does not occur in the model.
\<close>

definition runeCount :: "string \<Rightarrow> nat" where
  "runeCount v = length v"

datatype param_error = ChooseValue | TooLong nat | ControlChars | NotOffered

definition paramValueError :: "string \<Rightarrow> string \<Rightarrow> string list \<Rightarrow> param_error option" where
  "paramValueError key v allowed =
    (if v = [] then Some ChooseValue
     else if runeCount v > MAX_PARAM_VALUE_LEN then Some (TooLong MAX_PARAM_VALUE_LEN)
     else if list_ex is_control v then Some ControlChars
     else if allowed \<noteq> [] then (if v \<in> set allowed then None else Some NotOffered)
     else
       (case map_of PARAM_VALUE_SHAPE key of
          None \<Rightarrow> None
        | Some shape \<Rightarrow> if \<not> shape v then Some NotOffered else None))"

definition missingParamKeys :: "(string \<times> string list) list option \<Rightarrow> params \<Rightarrow> string list" where
  "missingParamKeys declared vals =
    (case declared of
       None \<Rightarrow> []
     | Some d \<Rightarrow> filter (\<lambda>k. value_or_empty vals k = []) (map fst d))"

section \<open>Length-prefixed encoding\<close>

definition lenPrefixed :: "string \<Rightarrow> string" where
  "lenPrefixed s = show_nat (length s) @ '':'' @ s"

text \<open>
  \<open>Number(text)\<close>: white space around the literal is ignored, an empty literal is zero, the
  prefixes \<open>0x\<close>, \<open>0o\<close> and \<open>0b\<close> take digits of their base, and a decimal literal has an
  optional sign, fraction and exponent. Anything else is NaN.
\<close>

definition is_digit :: "char \<Rightarrow> bool" where
  "is_digit c \<longleftrightarrow> CHR ''0'' \<le> c \<and> c \<le> CHR ''9''"

definition digit_in :: "nat \<Rightarrow> char \<Rightarrow> nat option" where
  "digit_in base c =
    (let n = of_char c;
         d = (if is_digit c then Some (n - 48)
              else if CHR ''a'' \<le> c \<and> c \<le> CHR ''f'' then Some (n - 87)
              else if CHR ''A'' \<le> c \<and> c \<le> CHR ''F'' then Some (n - 55)
              else None)
     in case d of None \<Rightarrow> None | Some k \<Rightarrow> if k < base then Some k else None)"

fun radix_value :: "nat \<Rightarrow> nat \<Rightarrow> string \<Rightarrow> nat option" where
  "radix_value base acc [] = Some acc"
| "radix_value base acc (c # cs) =
    (case digit_in base c of None \<Rightarrow> None | Some d \<Rightarrow> radix_value base (base * acc + d) cs)"

definition digits_value :: "string \<Rightarrow> nat" where
  "digits_value ds = foldl (\<lambda>a c. 10 * a + (of_char c - 48)) 0 ds"

definition parse_exponent :: "string \<Rightarrow> rat option" where
  "parse_exponent s =
    (let (neg, ds) = (case s of [] \<Rightarrow> (False, []) | c # cs \<Rightarrow>
           if c = CHR ''-'' then (True, cs) else if c = CHR ''+'' then (False, cs) else (False, s))
     in if ds = [] \<or> \<not> list_all is_digit ds then None
        else Some (if neg then 1 / 10 ^ digits_value ds else 10 ^ digits_value ds))"

definition parse_unsigned :: "string \<Rightarrow> jsnum" where
  "parse_unsigned t =
    (let ip = takeWhile is_digit t; r1 = dropWhile is_digit t;
         (fp, r2) = (case r1 of [] \<Rightarrow> ([], []) | c # r \<Rightarrow>
           if c = CHR ''.'' then (takeWhile is_digit r, dropWhile is_digit r) else ([], r1));
         m = rat_of_nat (digits_value (ip @ fp)) / 10 ^ length fp
     in if ip = [] \<and> fp = [] then NaN
        else (case r2 of
                [] \<Rightarrow> Num m
              | e # r3 \<Rightarrow>
                  if e = CHR ''e'' \<or> e = CHR ''E''
                  then (case parse_exponent r3 of None \<Rightarrow> NaN | Some x \<Rightarrow> Num (m * x))
                  else NaN))"

definition parse_decimal :: "string \<Rightarrow> jsnum" where
  "parse_decimal t =
    (let (neg, u) = (case t of [] \<Rightarrow> (False, []) | c # cs \<Rightarrow>
           if c = CHR ''-'' then (True, cs) else if c = CHR ''+'' then (False, cs) else (False, t));
         v = (if u = ''Infinity'' then PosInf else parse_unsigned u)
     in if neg then js_neg v else v)"

definition js_Number :: "string \<Rightarrow> jsnum" where
  "js_Number s =
    (let t = trim s in
     if t = [] then Num 0
     else
       (case (if hd t = CHR ''0'' \<and> tl t \<noteq> []
              then map_of [(CHR ''x'', 16), (CHR ''X'', 16), (CHR ''o'', 8), (CHR ''O'', 8),
                     (CHR ''b'', 2), (CHR ''B'', 2 :: nat)] (hd (tl t))
              else None) of
          None \<Rightarrow> parse_decimal t
        | Some base \<Rightarrow>
            (if tl (tl t) = [] then NaN
             else case radix_value base 0 (tl (tl t)) of None \<Rightarrow> NaN | Some n \<Rightarrow> Num (of_nat n))))"

section \<open>Identity of a placement and cache keys\<close>

definition encode_pairs :: "params \<Rightarrow> string list \<Rightarrow> string" where
  "encode_pairs ps ks = concat (map (\<lambda>k. lenPrefixed k @ lenPrefixed (value_or_empty ps k)) ks)"

definition canonicalParams :: "params option \<Rightarrow> string" where
  "canonicalParams ps =
    (case ps of None \<Rightarrow> [] | Some p \<Rightarrow> encode_pairs p (sort (map fst p)))"

definition duplicatePlacementOf ::
  "layout_item list \<Rightarrow> string \<Rightarrow> params \<Rightarrow> string option \<Rightarrow> layout_item option" where
  "duplicatePlacementOf items widgetId vals exceptInstanceId =
    (let identity = canonicalParams (Some vals)
     in find (\<lambda>i. item_id i = widgetId \<and> Some (instanceId i) \<noteq> exceptInstanceId \<and>
                  canonicalParams (item_params i) = identity) items)"

definition PARAMETERIZED_SOURCE_PARAMS :: "(string \<times> string list) list" where
  "PARAMETERIZED_SOURCE_PARAMS =
    [(''diagnostics-summary'', [PARAM_KEY_NAMESPACE]),
     (''vulnerability-reports'', [PARAM_KEY_NAMESPACE]),
     (''mesh-golden-signals'', [PARAM_KEY_NAMESPACE, PARAM_KEY_SERVICE]),
     (''hubble-flows'', [PARAM_KEY_NAMESPACE])]"

definition sourceKeyFor :: "string \<Rightarrow> params \<Rightarrow> string" where
  "sourceKeyFor base ps =
    (case map_of PARAMETERIZED_SOURCE_PARAMS base of
       None \<Rightarrow> base
     | Some declared \<Rightarrow>
         (let ks = filter (\<lambda>k. value_or_empty ps k \<noteq> []) (sort declared)
          in if ks = [] then base else base @ '':'' @ encode_pairs ps ks))"

fun index_of :: "char \<Rightarrow> string \<Rightarrow> nat option" where
  "index_of c [] = None"
| "index_of c (d # ds) = (if c = d then Some 0 else map_option Suc (index_of c ds))"

text \<open>One round of the inner loop: the field, and what is left; \<open>None\<close> is the early return.\<close>

definition read_field :: "string \<Rightarrow> (string \<times> string) option" where
  "read_field rest =
    (case index_of (CHR '':'') rest of
       None \<Rightarrow> None
     | Some colon \<Rightarrow>
         if colon = 0 then None
         else
           (case js_Number (take colon rest) of
              Num r \<Rightarrow>
                if of_int \<lfloor>r\<rfloor> \<noteq> r \<or> r < 0 then None
                else
                  (let n = nat \<lfloor>r\<rfloor>; start = colon + 1
                   in if start + n > length rest then None
                      else Some (take n (drop start rest), drop (start + n) rest))
            | _ \<Rightarrow> None))"

lemma index_of_bound: "index_of c s = Some k \<Longrightarrow> k < length s"
  by (induction s arbitrary: k) (auto split: if_splits)

lemma read_field_shorter: "read_field rest = Some (f, rest') \<Longrightarrow> length rest' < length rest"
  by (auto simp: read_field_def Let_def split: option.splits if_splits jsnum.splits
      dest!: index_of_bound)

function decode_pairs :: "string \<Rightarrow> params \<Rightarrow> params option" where
  "decode_pairs rest ps =
    (if rest = [] then Some ps
     else
       (case read_field rest of
          None \<Rightarrow> None
        | Some (k, rest1) \<Rightarrow>
            (case read_field rest1 of
               None \<Rightarrow> None
             | Some (v, rest2) \<Rightarrow> decode_pairs rest2 (set_key k v ps))))"
  by pat_completeness auto
termination
  by (relation "measure (\<lambda>(rest, _). length rest)") (auto dest!: read_field_shorter)

declare decode_pairs.simps [simp del]

definition decodeSourceKey :: "string \<Rightarrow> string \<times> params" where
  "decodeSourceKey key =
    (case index_of (CHR '':'') key of
       None \<Rightarrow> (key, [])
     | Some p \<Rightarrow>
         (take p key, case decode_pairs (drop (p + 1) key) [] of None \<Rightarrow> [] | Some ps \<Rightarrow> ps))"

definition widgetSourceKeys :: "string list \<Rightarrow> params \<Rightarrow> string list" where
  "widgetSourceKeys sources ps = rev (remdups (rev (map (\<lambda>s. sourceKeyFor s ps) sources)))"

section \<open>The decoder inverts the encoder\<close>

lemma digit_char: "d < 10 \<Longrightarrow> is_digit (char_of (48 + d :: nat))"
  by (simp add: is_digit_def less_eq_char_def)

lemma of_char_digit: "d < 10 \<Longrightarrow> of_char (char_of (48 + d :: nat) :: char) = 48 + d"
  by simp

lemma show_nat_digits: "list_all is_digit (show_nat n)"
proof (induction n rule: show_nat.induct)
  case (1 n)
  then show ?case
    by (cases "n < 10") (simp_all add: show_nat.simps [of n] digit_char)
qed

lemma show_nat_nonempty: "show_nat n \<noteq> []"
  by (simp add: show_nat.simps)

lemma digits_value_snoc: "digits_value (ds @ [c]) = 10 * digits_value ds + (of_char c - 48)"
  by (simp add: digits_value_def)

lemma digits_value_show_nat: "digits_value (show_nat n) = n"
proof (induction n rule: show_nat.induct)
  case (1 n)
  show ?case
  proof (cases "n < 10")
    case True
    then show ?thesis by (simp add: show_nat.simps [of n] digits_value_def)
  next
    case False
    then show ?thesis using "1.IH" by (simp add: show_nat.simps [of n] digits_value_snoc)
  qed
qed

text \<open>Only zero is printed with a leading zero, and then it is alone.\<close>

lemma show_nat_hd: "hd (show_nat n) = CHR ''0'' \<Longrightarrow> n = 0"
proof (induction n rule: show_nat.induct)
  case (1 n)
  show ?case
  proof (cases "n < 10")
    case True
    then have "char_of (48 + n) = CHR ''0''" using "1.prems" by (simp add: show_nat.simps [of n])
    then have "of_char (char_of (48 + n) :: char) = (of_char (CHR ''0'') :: nat)" by (simp only:)
    with True show ?thesis by simp
  next
    case False
    then have "hd (show_nat n) = hd (show_nat (n div 10))"
      using show_nat_nonempty [of "n div 10"] by (simp add: show_nat.simps [of n])
    with "1.IH" [OF False] "1.prems" have "n div 10 = 0" by simp
    with False show ?thesis by simp
  qed
qed

lemma digit_not_ws: "is_digit c \<Longrightarrow> \<not> is_ws c"
  by (auto simp: is_digit_def is_ws_def less_eq_char_def)

lemma digit_not_special:
  "is_digit c \<Longrightarrow> c \<noteq> CHR '':'' \<and> c \<noteq> CHR ''-'' \<and> c \<noteq> CHR ''+'' \<and> c \<noteq> CHR ''I''"
  by (auto simp: is_digit_def less_eq_char_def)

lemma trim_digits: "list_all is_digit s \<Longrightarrow> trim s = s"
proof -
  assume d: "list_all is_digit s"
  have "dropWhile is_ws t = t" if "list_all is_digit t" for t
    using that by (cases t) (auto dest: digit_not_ws)
  with d show ?thesis by (simp add: trim_def)
qed

lemma parse_decimal_digits:
  assumes "list_all is_digit s" "s \<noteq> []"
  shows "parse_decimal s = Num (of_nat (digits_value s))"
proof -
  have tw: "takeWhile is_digit s = s" "dropWhile is_digit s = []"
    using assms by (simp_all add: takeWhile_eq_all_conv list_all_iff)
  have pu: "parse_unsigned s = Num (of_nat (digits_value s))"
    using assms(2) by (simp add: parse_unsigned_def Let_def tw)
  obtain c cs where s: "s = c # cs" "is_digit c" using assms by (cases s) auto
  with digit_not_special [of c] pu show ?thesis
    by (simp add: parse_decimal_def Let_def)
qed

lemma js_Number_show_nat: "js_Number (show_nat n) = Num (of_nat n)"
proof -
  have tr: "trim (show_nat n) = show_nat n" by (rule trim_digits [OF show_nat_digits])
  have "tl (show_nat 0) = []" by (simp add: show_nat.simps)
  then have "\<not> (hd (show_nat n) = CHR ''0'' \<and> tl (show_nat n) \<noteq> [])"
    using show_nat_hd [of n] by auto
  then show ?thesis
    using parse_decimal_digits [OF show_nat_digits show_nat_nonempty]
    by (auto simp: js_Number_def tr show_nat_nonempty digits_value_show_nat Let_def)
qed

lemma index_of_append: "c \<notin> set xs \<Longrightarrow> index_of c (xs @ c # ys) = Some (length xs)"
  by (induction xs) auto

lemma index_of_None: "index_of c xs = None \<longleftrightarrow> c \<notin> set xs"
  by (induction xs) auto

lemma read_field_lenPrefixed [simp]: "read_field (lenPrefixed s @ rest) = Some (s, rest)"
proof -
  let ?n = "show_nat (length s)"
  have "CHR '':'' \<notin> set ?n"
    using show_nat_digits [of "length s"] digit_not_special by (auto simp: list_all_iff)
  then have "index_of (CHR '':'') (lenPrefixed s @ rest) = Some (length ?n)"
    by (simp add: lenPrefixed_def index_of_append)
  then show ?thesis
    by (simp add: read_field_def Let_def lenPrefixed_def js_Number_show_nat show_nat_nonempty)
qed

lemma lenPrefixed_nonempty: "lenPrefixed s \<noteq> []"
  by (simp add: lenPrefixed_def)

lemma decode_pairs_step:
  "decode_pairs (lenPrefixed k @ lenPrefixed v @ rest) acc = decode_pairs rest (set_key k v acc)"
  by (subst decode_pairs.simps) (simp add: lenPrefixed_nonempty)

lemma decode_pairs_encode:
  "decode_pairs (encode_pairs ps ks) acc =
   Some (foldl (\<lambda>a k. set_key k (value_or_empty ps k) a) acc ks)"
proof (induction ks arbitrary: acc)
  case Nil
  show ?case by (simp add: encode_pairs_def decode_pairs.simps)
next
  case (Cons k ks)
  have "encode_pairs ps (k # ks) =
    lenPrefixed k @ lenPrefixed (value_or_empty ps k) @ encode_pairs ps ks"
    by (simp add: encode_pairs_def)
  then show ?case by (simp add: decode_pairs_step Cons.IH)
qed

lemma map_of_foldl_set_key:
  "map_of (foldl (\<lambda>a k. set_key k (f k) a) acc ks) x =
   (if x \<in> set ks then Some (f x) else map_of acc x)"
  by (induction ks arbitrary: acc) (auto simp: map_of_set_key)

lemma decode_sourceKeyFor:
  assumes "CHR '':'' \<notin> set base"
  shows "fst (decodeSourceKey (sourceKeyFor base ps)) = base \<and>
    map_of (snd (decodeSourceKey (sourceKeyFor base ps))) k =
      (case map_of PARAMETERIZED_SOURCE_PARAMS base of
         None \<Rightarrow> None
       | Some declared \<Rightarrow>
           if k \<in> set declared \<and> value_or_empty ps k \<noteq> [] then Some (value_or_empty ps k) else None)"
proof (cases "map_of PARAMETERIZED_SOURCE_PARAMS base")
  case None
  with assms show ?thesis
    by (simp add: sourceKeyFor_def decodeSourceKey_def index_of_None [THEN iffD2])
next
  case (Some declared)
  let ?ks = "filter (\<lambda>k. value_or_empty ps k \<noteq> []) (sort declared)"
  show ?thesis
  proof (cases "?ks = []")
    case True
    then have "\<forall>k \<in> set declared. value_or_empty ps k = []"
      by (simp add: filter_empty_conv)
    with True Some assms show ?thesis
      by (auto simp: sourceKeyFor_def decodeSourceKey_def index_of_None [THEN iffD2])
  next
    case False
    then have key: "sourceKeyFor base ps = base @ CHR '':'' # encode_pairs ps ?ks"
      by (simp add: sourceKeyFor_def Some Let_def)
    have "decodeSourceKey (sourceKeyFor base ps) =
      (base, foldl (\<lambda>a k. set_key k (value_or_empty ps k) a) [] ?ks)"
      unfolding key decodeSourceKey_def index_of_append [OF assms]
      by (simp add: decode_pairs_encode)
    then show ?thesis by (auto simp: Some map_of_foldl_set_key)
  qed
qed

text \<open>Decoding the concatenation gives the whole association back, so it is injective.\<close>

lemma encode_pairs_inject:
  assumes "encode_pairs ps ks = encode_pairs qs ls"
  shows "\<forall>x. (if x \<in> set ks then Some (value_or_empty ps x) else None) =
             (if x \<in> set ls then Some (value_or_empty qs x) else None)"
proof
  fix x
  have "decode_pairs (encode_pairs ps ks) [] = decode_pairs (encode_pairs qs ls) []"
    using assms by simp
  then have "map_of (foldl (\<lambda>a k. set_key k (value_or_empty ps k) a) [] ks) x =
    map_of (foldl (\<lambda>a k. set_key k (value_or_empty qs k) a) [] ls) x"
    by (simp add: decode_pairs_encode)
  then show "(if x \<in> set ks then Some (value_or_empty ps x) else None) =
    (if x \<in> set ls then Some (value_or_empty qs x) else None)"
    by (simp add: map_of_foldl_set_key split: if_splits)
qed

lemma map_of_via_keys:
  "map_of ps x = (if x \<in> fst ` set ps then Some (value_or_empty ps x) else None)"
  by (auto simp: value_or_empty_def map_of_eq_None_iff split: option.split)

lemma canonicalParams_eq_map:
  "canonicalParams (Some ps) = canonicalParams (Some qs) \<Longrightarrow> map_of ps = map_of qs"
  using encode_pairs_inject [of ps "sort (map fst ps)" qs "sort (map fst qs)"]
  by (intro ext) (simp add: canonicalParams_def map_of_via_keys)

lemma canonicalParams_of_map:
  assumes "distinct (map fst ps)" "distinct (map fst qs)" "map_of ps = map_of qs"
  shows "canonicalParams (Some ps) = canonicalParams (Some qs)"
proof -
  have "set (map fst ps) = set (map fst qs)"
    using assms(3) by (metis dom_map_of_conv_image_fst list.set_map)
  then have "sort (map fst ps) = sort (map fst qs)"
    using assms(1,2) by (metis set_eq_iff_mset_eq_distinct sorted_list_of_set_sort_remdups
        distinct_remdups_id)
  then show ?thesis
    using assms(3) by (simp add: canonicalParams_def encode_pairs_def value_or_empty_def)
qed

section \<open>Properties\<close>

text \<open>
  Claim C18. The cache key of a parameterised read decodes to the source it was built from and to
  exactly the declared parameters that had a value, whatever characters the values hold: two reads
  that differ in a parameter never share a key.
\<close>

theorem decodeSourceKey_inverts:
  assumes "CHR '':'' \<notin> set base"
  shows "fst (decodeSourceKey (sourceKeyFor base ps)) = base \<and>
    map_of (snd (decodeSourceKey (sourceKeyFor base ps))) k =
      (case map_of PARAMETERIZED_SOURCE_PARAMS base of
         None \<Rightarrow> None
       | Some declared \<Rightarrow>
           if k \<in> set declared \<and> value_or_empty ps k \<noteq> [] then Some (value_or_empty ps k) else None)"
  by (rule decode_sourceKeyFor [OF assms])

theorem decodeSourceKey_inverts_witness:
  "CHR '':'' \<notin> set ''hubble-flows'' \<and>
   fst (decodeSourceKey (sourceKeyFor ''hubble-flows'' [(''namespace'', ''a:1'')])) = ''hubble-flows'' \<and>
   map_of (snd (decodeSourceKey (sourceKeyFor ''hubble-flows'' [(''namespace'', ''a:1'')])))
     ''namespace'' = Some ''a:1''"
  using decodeSourceKey_inverts [of "''hubble-flows''" "[(''namespace'', ''a:1'')]" "''namespace''"]
  by (simp add: PARAMETERIZED_SOURCE_PARAMS_def value_or_empty_def PARAM_KEY_NAMESPACE_def)

text \<open>
  Two parameter objects have the same identity exactly when they map the same keys to
  the same values; the order the keys were written in does not matter.
\<close>

theorem canonicalParams_identity:
  assumes "distinct (map fst ps)" "distinct (map fst qs)"
  shows "canonicalParams (Some ps) = canonicalParams (Some qs) \<longleftrightarrow> map_of ps = map_of qs"
  using canonicalParams_eq_map [of ps qs] canonicalParams_of_map [OF assms] by blast

text \<open>
  The editor's duplicate check finds a placement exactly when another placement of the
  same widget, other than the one being edited, already carries the same parameters; a placement
  stored without parameters counts as one with none.
\<close>

theorem duplicatePlacementOf_correct:
  assumes "distinct (map fst vals)"
    "\<forall>it \<in> set items. distinct (map fst (case item_params it of None \<Rightarrow> [] | Some p \<Rightarrow> p))"
  shows "duplicatePlacementOf items widget vals except \<noteq> None \<longleftrightarrow>
    (\<exists>it \<in> set items. item_id it = widget \<and> Some (instanceId it) \<noteq> except \<and>
      map_of (case item_params it of None \<Rightarrow> [] | Some p \<Rightarrow> p) = map_of vals)"
proof -
  have same: "canonicalParams (item_params it) = canonicalParams (Some vals) \<longleftrightarrow>
      map_of (case item_params it of None \<Rightarrow> [] | Some p \<Rightarrow> p) = map_of vals"
    if "it \<in> set items" for it
  proof -
    let ?p = "case item_params it of None \<Rightarrow> [] | Some p \<Rightarrow> p"
    have "canonicalParams (item_params it) = canonicalParams (Some ?p)"
      by (simp add: canonicalParams_def encode_pairs_def split: option.split)
    then show ?thesis
      using canonicalParams_eq_map [of ?p vals] canonicalParams_of_map [of ?p vals] assms that
      by auto
  qed
  show ?thesis
    unfolding duplicatePlacementOf_def Let_def using same by (auto simp: find_None_iff)
qed

text \<open>
  Choosing a namespace clears a service that was already chosen, because a service name
  means nothing in another namespace; every other choice is kept, and a choice that is no
  namespace clears nothing.
\<close>

theorem withParamValue_correct:
  "map_of (withParamValue vals key v) k =
    (if k = PARAM_KEY_SERVICE \<and> key = PARAM_KEY_NAMESPACE \<and> map_of vals k \<noteq> None then Some []
     else if k = key then Some v else map_of vals k)"
proof -
  have dom: "PARAM_KEY_SERVICE \<in> fst ` set (set_key key v vals) \<longleftrightarrow>
      map_of (set_key key v vals) PARAM_KEY_SERVICE \<noteq> None"
    by (simp add: map_of_eq_None_iff)
  have ne: "PARAM_KEY_SERVICE \<noteq> PARAM_KEY_NAMESPACE"
    by (simp add: PARAM_KEY_SERVICE_def PARAM_KEY_NAMESPACE_def)
  show ?thesis
    using ne by (auto simp: withParamValue_def PARAM_KEY_PARENT_def dom map_of_set_key)
qed

end
