(* ===== verification/Placement.thy ===== *)
theory Placement
  imports Grid_Correct Params
begin

text \<open>
  Where a widget added from the palette lands (\<open>src/frontend/lib/dashboard/placement.ts\<close>): the
  fresh instance id, the first-fit scan, and the placement itself. \<open>Math.random\<close> is an argument:
  \<open>draw k\<close> is what the \<open>k\<close>-th call contributes, \<open>Math.random().toString(36).slice(2)\<close>. The
  redraw loop may run for ever on a generator that keeps answering the empty string, so it returns
  an option.
\<close>

definition INSTANCE_SUFFIX_LEN :: nat where
  [js_simps]: "INSTANCE_SUFFIX_LEN = 8"

partial_function (option) suffix_loop :: "(nat \<Rightarrow> string) \<Rightarrow> nat \<Rightarrow> string \<Rightarrow> string option" where
  "suffix_loop draw k suffix =
    (if length suffix < INSTANCE_SUFFIX_LEN then suffix_loop draw (Suc k) (suffix @ draw k)
     else Some suffix)"

definition randomSuffix :: "(nat \<Rightarrow> string) \<Rightarrow> string option" where
  "randomSuffix draw = map_option (take INSTANCE_SUFFIX_LEN) (suffix_loop draw 0 [])"

definition newInstanceId :: "(nat \<Rightarrow> string) \<Rightarrow> string \<Rightarrow> string option" where
  "newInstanceId draw widgetId = map_option (\<lambda>s. widgetId @ ''-'' @ s) (randomSuffix draw)"

definition candidate :: "int \<Rightarrow> int \<Rightarrow> int \<Rightarrow> int \<Rightarrow> layout_item" where
  "candidate x y w h =
    \<lparr>instanceId = [], item_id = [], item_x = x, item_y = y, item_w = w, item_h = h,
     item_params = None\<rparr>"

definition is_free :: "layout_item list \<Rightarrow> int \<Rightarrow> int \<Rightarrow> int \<Rightarrow> int \<Rightarrow> bool" where
  "is_free items w h x y \<longleftrightarrow> \<not> list_ex (overlaps (candidate x y w h)) items"

function fit_columns ::
  "layout_item list \<Rightarrow> int \<Rightarrow> int \<Rightarrow> int \<Rightarrow> int \<Rightarrow> int \<Rightarrow> (int \<times> int) option" where
  "fit_columns items w h columns y x =
    (if x + w \<le> columns then
       (if is_free items w h x y then Some (x, y) else fit_columns items w h columns y (x + 1))
     else None)"
  by pat_completeness auto
termination
  by (relation "measure (\<lambda>(_, w, _, columns, _, x). nat (columns + 1 - (x + w)))") auto

function fit_rows ::
  "layout_item list \<Rightarrow> int \<Rightarrow> int \<Rightarrow> int \<Rightarrow> int \<Rightarrow> (int \<times> int) option" where
  "fit_rows items w h columns y =
    (if y + h \<le> DASHBOARD_MAX_ROWS then
       (case fit_columns items w h columns y 0 of
          Some c \<Rightarrow> Some c
        | None \<Rightarrow> fit_rows items w h columns (y + 1))
     else None)"
  by pat_completeness auto
termination
  by (relation "measure (\<lambda>(_, _, h, _, y). nat (DASHBOARD_MAX_ROWS + 1 - (y + h)))") auto

declare fit_columns.simps [simp del] fit_rows.simps [simp del]

definition firstFit :: "layout_item list \<Rightarrow> int \<Rightarrow> int \<Rightarrow> int \<Rightarrow> (int \<times> int) option" where
  "firstFit items w h columns = fit_rows items w h columns 0"

definition narrowParams :: "widget_def \<Rightarrow> params \<Rightarrow> params" where
  "narrowParams d ps =
    (case def_params d of
       None \<Rightarrow> []
     | Some declared \<Rightarrow>
         foldl (\<lambda>out key. if value_or_empty ps key \<noteq> [] then set_key key (value_or_empty ps key) out
                          else out) [] (map fst declared))"

definition widget_w :: "widget_def \<Rightarrow> int \<Rightarrow> int" where
  "widget_w d columns = max 1 (min (max (defaultW d) (minW d)) columns)"

definition widget_h :: "widget_def \<Rightarrow> int" where
  "widget_h d = max 1 (max (defaultH d) (minH d))"

text \<open>The outer option is whether the call returns; the inner \<open>None\<close> is the \<open>null\<close> result.\<close>

definition placeNewWidget ::
  "(nat \<Rightarrow> string) \<Rightarrow> layout_item list \<Rightarrow> widget_def \<Rightarrow> int \<Rightarrow> params \<Rightarrow>
   layout_item option option" where
  "placeNewWidget draw items d columns ps =
    (case firstFit items (widget_w d columns) (widget_h d) columns of
       None \<Rightarrow> Some None
     | Some (x, y) \<Rightarrow>
         (let carried = narrowParams d ps
          in map_option
               (\<lambda>i. Some \<lparr>instanceId = i, item_id = def_id d, item_x = x, item_y = y,
                    item_w = widget_w d columns, item_h = widget_h d,
                    item_params = (if carried \<noteq> [] then Some carried else None)\<rparr>)
               (newInstanceId draw (def_id d))))"

section \<open>The redraw loop\<close>

lemma suffix_loop_skip:
  "k \<le> j \<Longrightarrow> length suffix < INSTANCE_SUFFIX_LEN \<Longrightarrow> (\<And>l. k \<le> l \<Longrightarrow> l < j \<Longrightarrow> draw l = []) \<Longrightarrow>
   suffix_loop draw k suffix = suffix_loop draw j suffix"
proof (induction "j - k" arbitrary: k)
  case (Suc d)
  then have "draw k = []" by simp
  then have "suffix_loop draw k suffix = suffix_loop draw (Suc k) suffix"
    using Suc.prems(2) by (simp add: suffix_loop.simps [of draw k])
  also have "\<dots> = suffix_loop draw j suffix"
    using Suc by (intro Suc.hyps(1)) auto
  finally show ?case .
qed simp

text \<open>A generator that answers something again and again lets the loop end.\<close>

lemma suffix_loop_returns:
  assumes fair: "\<forall>k. \<exists>j \<ge> k. draw j \<noteq> []"
  shows "\<exists>s. suffix_loop draw k suffix = Some s \<and> INSTANCE_SUFFIX_LEN \<le> length s \<and>
    set s \<subseteq> set suffix \<union> (\<Union>j. set (draw j))"
proof (induction "INSTANCE_SUFFIX_LEN - length suffix" arbitrary: k suffix rule: less_induct)
  case less
  show ?case
  proof (cases "length suffix < INSTANCE_SUFFIX_LEN")
    case False
    then show ?thesis by (auto simp: suffix_loop.simps [of draw k])
  next
    case True
    define j where "j = (LEAST j. k \<le> j \<and> draw j \<noteq> [])"
    have j: "k \<le> j \<and> draw j \<noteq> []"
      unfolding j_def by (rule LeastI_ex) (use fair in auto)
    have "draw l = []" if "k \<le> l" "l < j" for l
      using not_less_Least [of l "\<lambda>j. k \<le> j \<and> draw j \<noteq> []"] that by (auto simp: j_def)
    then have "suffix_loop draw k suffix = suffix_loop draw j suffix"
      using suffix_loop_skip True j by blast
    also have "\<dots> = suffix_loop draw (Suc j) (suffix @ draw j)"
      using True by (simp add: suffix_loop.simps [of draw j])
    finally have eq: "suffix_loop draw k suffix = suffix_loop draw (Suc j) (suffix @ draw j)" .
    have "0 < length (draw j)" using j by simp
    then have "INSTANCE_SUFFIX_LEN - length (suffix @ draw j) < INSTANCE_SUFFIX_LEN - length suffix"
      using True by (simp add: diff_less_mono2)
    from less.hyps [OF this, of "Suc j"] show ?thesis unfolding eq by auto
  qed
qed

lemma newInstanceId_returns:
  assumes "\<forall>k. \<exists>j \<ge> k. draw j \<noteq> []"
  shows "\<exists>s. newInstanceId draw widgetId = Some (widgetId @ ''-'' @ s) \<and>
    length s = INSTANCE_SUFFIX_LEN \<and> set s \<subseteq> (\<Union>j. set (draw j))"
proof -
  obtain s where s: "suffix_loop draw 0 [] = Some s" "INSTANCE_SUFFIX_LEN \<le> length s"
    "set s \<subseteq> (\<Union>j. set (draw j))"
    using suffix_loop_returns [OF assms, of 0 "[]"] by auto
  have "set (take INSTANCE_SUFFIX_LEN s) \<subseteq> (\<Union>j. set (draw j))"
    using set_take_subset [of INSTANCE_SUFFIX_LEN s] s(3) by blast
  with s show ?thesis by (simp add: newInstanceId_def randomSuffix_def)
qed

section \<open>First fit\<close>

lemma fit_columns_Some:
  "fit_columns items w h columns y x = Some (a, b) \<Longrightarrow>
   b = y \<and> x \<le> a \<and> a + w \<le> columns \<and> is_free items w h a y \<and>
   (\<forall>j. x \<le> j \<and> j < a \<longrightarrow> \<not> is_free items w h j y)"
proof (induction items w h columns y x rule: fit_columns.induct)
  case (1 items w h columns y x)
  show ?case
  proof (cases "x + w \<le> columns \<and> \<not> is_free items w h x y")
    case True
    then have "fit_columns items w h columns y (x + 1) = Some (a, b)"
      using "1.prems" by (simp add: fit_columns.simps [of items w h columns y x])
    from "1.IH" [OF _ _ this] True have IH: "b = y \<and> x + 1 \<le> a \<and> a + w \<le> columns \<and>
      is_free items w h a y \<and> (\<forall>j. x + 1 \<le> j \<and> j < a \<longrightarrow> \<not> is_free items w h j y)" by blast
    have "j = x \<or> x + 1 \<le> j" if "x \<le> j" for j using that by auto
    with IH True show ?thesis by auto
  next
    case False
    then show ?thesis
      using "1.prems" by (auto simp: fit_columns.simps [of items w h columns y x] split: if_splits)
  qed
qed

lemma fit_columns_None:
  "fit_columns items w h columns y x = None \<Longrightarrow>
   \<forall>j. x \<le> j \<and> j + w \<le> columns \<longrightarrow> \<not> is_free items w h j y"
proof (induction items w h columns y x rule: fit_columns.induct)
  case (1 items w h columns y x)
  show ?case
  proof (cases "x + w \<le> columns")
    case True
    then have nf: "\<not> is_free items w h x y" and
      "fit_columns items w h columns y (x + 1) = None"
      using "1.prems" by (auto simp: fit_columns.simps [of items w h columns y x] split: if_splits)
    with "1.IH" True have IH: "\<forall>j. x + 1 \<le> j \<and> j + w \<le> columns \<longrightarrow> \<not> is_free items w h j y" by blast
    have "j = x \<or> x + 1 \<le> j" if "x \<le> j" for j using that by auto
    with IH nf show ?thesis by auto
  qed auto
qed

lemma fit_rows_Some:
  "fit_rows items w h columns y = Some (a, b) \<Longrightarrow>
   y \<le> b \<and> b + h \<le> DASHBOARD_MAX_ROWS \<and> 0 \<le> a \<and> a + w \<le> columns \<and> is_free items w h a b \<and>
   (\<forall>i j. y \<le> j \<and> 0 \<le> i \<and> i + w \<le> columns \<and> (j < b \<or> j = b \<and> i < a) \<longrightarrow> \<not> is_free items w h i j)"
proof (induction items w h columns y rule: fit_rows.induct)
  case (1 items w h columns y)
  then have y: "y + h \<le> DASHBOARD_MAX_ROWS"
    by (auto simp: fit_rows.simps [of items w h columns y] split: if_splits)
  show ?case
  proof (cases "fit_columns items w h columns y 0")
    case None
    with "1.prems" y have rest: "fit_rows items w h columns (y + 1) = Some (a, b)"
      by (simp add: fit_rows.simps [of items w h columns y])
    note IH = "1.IH" [OF y None rest]
    have "j = y \<or> y + 1 \<le> j" if "y \<le> j" for j using that by auto
    with IH fit_columns_None [OF None] show ?thesis by fastforce
  next
    case (Some c)
    with "1.prems" y have "c = (a, b)" by (simp add: fit_rows.simps [of items w h columns y])
    from fit_columns_Some [OF Some [unfolded this]] y show ?thesis by auto
  qed
qed

lemma fit_rows_None:
  "fit_rows items w h columns y = None \<Longrightarrow>
   \<forall>i j. y \<le> j \<and> j + h \<le> DASHBOARD_MAX_ROWS \<and> 0 \<le> i \<and> i + w \<le> columns \<longrightarrow> \<not> is_free items w h i j"
proof (induction items w h columns y rule: fit_rows.induct)
  case (1 items w h columns y)
  show ?case
  proof (cases "y + h \<le> DASHBOARD_MAX_ROWS")
    case True
    then have None: "fit_columns items w h columns y 0 = None" and
      rest: "fit_rows items w h columns (y + 1) = None"
      using "1.prems" by (auto simp: fit_rows.simps [of items w h columns y] split: option.splits)
    note IH = "1.IH" [OF True None rest]
    have "j = y \<or> y + 1 \<le> j" if "y \<le> j" for j using that by auto
    with IH fit_columns_None [OF None] show ?thesis by fastforce
  qed auto
qed

section \<open>Placing\<close>

text \<open>What the placed item looks like to the grid.\<close>

definition at_cell :: "layout_item \<Rightarrow> int \<Rightarrow> int \<Rightarrow> int \<Rightarrow> int \<Rightarrow> bool" where
  "at_cell it x y w h \<longleftrightarrow> item_x it = x \<and> item_y it = y \<and> item_w it = w \<and> item_h it = h"

lemma overlaps_at_cell: "at_cell it x y w h \<Longrightarrow> overlaps (candidate x y w h) s = overlaps it s"
  by (simp add: at_cell_def candidate_def overlaps_def sharesColumn_def sharesRow_def)

lemma is_free_at_cell:
  "at_cell it x y w h \<Longrightarrow> is_free items w h x y \<longleftrightarrow> (\<forall>s \<in> set items. \<not> overlaps it s)"
  by (simp add: is_free_def list_ex_iff overlaps_at_cell)

lemma placeNewWidget_cell:
  assumes "placeNewWidget draw items d columns ps = Some (Some it)"
  obtains x y where "firstFit items (widget_w d columns) (widget_h d) columns = Some (x, y)"
    "at_cell it x y (widget_w d columns) (widget_h d)" "item_id it = def_id d"
    "newInstanceId draw (def_id d) = Some (instanceId it)"
  using assms by (auto simp: placeNewWidget_def Let_def at_cell_def split: option.splits)

text \<open>An item that sits in the first free cell cannot fall further.\<close>

lemma first_fit_supported:
  assumes cell: "at_cell it x y w h" and y: "0 < y"
    and free: "is_free items w h x y" and above: "\<not> is_free items w h x (y - 1)"
  shows "\<exists>s \<in> set items. sharesColumn it s \<and> item_y it = bottom s"
proof -
  let ?up = "it\<lparr>item_y := y - 1\<rparr>"
  have "at_cell ?up x (y - 1) w h" using cell by (simp add: at_cell_def)
  then obtain s where s: "s \<in> set items" "overlaps ?up s"
    using above by (auto simp: is_free_at_cell)
  moreover have "\<not> overlaps it s" using free s(1) cell by (simp add: is_free_at_cell)
  ultimately have "sharesColumn it s" "item_y it = bottom s"
    using cell by (auto simp: overlaps_def sharesRow_def at_cell_def)
  with s(1) show ?thesis by blast
qed

lemma first_fit_canonical:
  assumes can: "canonical items"
    and fit: "firstFit items w h columns = Some (x, y)" and cell: "at_cell it x y w h"
  shows "canonical (js_sort byReadingOrder (items @ [it]))"
proof -
  have F: "0 \<le> y" "0 \<le> x" "x + w \<le> columns" "is_free items w h x y"
    "\<forall>i j. 0 \<le> j \<and> 0 \<le> i \<and> i + w \<le> columns \<and> (j < y \<or> j = y \<and> i < x) \<longrightarrow> \<not> is_free items w h i j"
    using fit_rows_Some [OF fit [unfolded firstFit_def]] by auto
  have "disjoint_layout (items @ [it])"
    using can F(4) cell
    by (auto simp: canonical_def disjoint_layout_def sorted_wrt_snoc is_free_at_cell overlaps_sym)
  moreover have "supported (items @ [it]) s" if "s \<in> set items" for s
    using can that by (auto simp: canonical_def intro: supported_mono)
  moreover have "supported (items @ [it]) it"
  proof (cases "y = 0")
    case True
    then show ?thesis using cell by (simp add: supported_def at_cell_def)
  next
    case False
    with F have "\<not> is_free items w h x (y - 1)" by auto
    from first_fit_supported [OF cell _ F(4) this] False F(1) cell show ?thesis
      by (auto simp: supported_def at_cell_def)
  qed
  ultimately show ?thesis
    using reading.in_order_js_sort [of "items @ [it]"]
    by (auto simp: canonical_def supported_def)
qed

lemma widget_size_bounds:
  "1 \<le> widget_w d columns" "1 \<le> widget_h d" "minH d \<le> widget_h d"
  "1 \<le> columns \<Longrightarrow> widget_w d columns \<le> columns"
  "minW d \<le> columns \<Longrightarrow> minW d \<le> widget_w d columns"
  by (auto simp: widget_w_def widget_h_def)

lemma map_of_narrow:
  "map_of (foldl (\<lambda>out key. if f key \<noteq> [] then set_key key (f key) out else out) acc ks) k =
   (if k \<in> set ks \<and> f k \<noteq> [] then Some (f k) else map_of acc k)"
  by (induction ks arbitrary: acc) (auto simp: map_of_set_key)

lemma narrowParams_lookup:
  "map_of (narrowParams d ps) k =
   (case def_params d of
      None \<Rightarrow> None
    | Some declared \<Rightarrow>
        if k \<in> fst ` set declared \<and> value_or_empty ps k \<noteq> [] then Some (value_or_empty ps k) else None)"
  by (simp add: narrowParams_def map_of_narrow split: option.split)

section \<open>Properties\<close>

text \<open>
  Claim C34. A new placement's id is the widget's id, a dash and eight characters drawn by the
  generator, on any generator that keeps answering something: the redraw loop ends.
\<close>

theorem newInstanceId_correct:
  assumes "\<forall>k. \<exists>j \<ge> k. draw j \<noteq> []"
  shows "\<exists>s. newInstanceId draw widgetId = Some (widgetId @ ''-'' @ s) \<and>
    length s = INSTANCE_SUFFIX_LEN \<and> set s \<subseteq> (\<Union>j. set (draw j))"
  by (rule newInstanceId_returns [OF assms])

theorem newInstanceId_correct_witness:
  "(\<forall>k. \<exists>j \<ge> (k :: nat). (if even j then [] else ''k3x'') \<noteq> []) \<and>
   (\<exists>s. newInstanceId (\<lambda>j. if even j then [] else ''k3x'') ''nodes'' = Some (''nodes'' @ ''-'' @ s) \<and>
     length s = INSTANCE_SUFFIX_LEN)"
proof -
  have h: "\<forall>k. \<exists>j \<ge> (k :: nat). (if even j then [] else ''k3x'') \<noteq> []"
    by (rule allI, rule_tac x = "2 * k + 1" in exI) simp
  show ?thesis using h newInstanceId_correct [OF h, of "''nodes''"] by blast
qed

text \<open>
  Claim C35. A widget added to a settled layout overlaps nothing, lies inside the columns and the
  row cap, meets its minimum size, takes the first free cell in reading order, and is already
  settled: compacting the extended layout moves nothing, it only sorts.
\<close>

theorem placeNewWidget_correct:
  assumes can: "canonical items" and pos: "positive_sizes items"
    and columns: "1 \<le> columns" "minW d \<le> columns"
    and placed: "placeNewWidget draw items d columns ps = Some (Some it)"
  shows "(\<forall>s \<in> set items. \<not> overlaps it s) \<and> item_id it = def_id d \<and>
    0 \<le> item_x it \<and> item_x it + item_w it \<le> columns \<and>
    0 \<le> item_y it \<and> item_y it + item_h it \<le> DASHBOARD_MAX_ROWS \<and>
    minW d \<le> item_w it \<and> minH d \<le> item_h it \<and>
    (\<forall>x y. 0 \<le> y \<and> 0 \<le> x \<and> x + item_w it \<le> columns \<and>
      (y < item_y it \<or> y = item_y it \<and> x < item_x it) \<longrightarrow>
      \<not> is_free items (item_w it) (item_h it) x y) \<and>
    compact (items @ [it]) = js_sort byReadingOrder (items @ [it])"
proof -
  obtain x y where fit: "firstFit items (widget_w d columns) (widget_h d) columns = Some (x, y)"
    and cell: "at_cell it x y (widget_w d columns) (widget_h d)" and id: "item_id it = def_id d"
    by (rule placeNewWidget_cell [OF placed])
  note F = fit_rows_Some [OF fit [unfolded firstFit_def]]
  let ?s = "js_sort byReadingOrder (items @ [it])"
  have size: "item_w it > 0" "item_h it > 0" "minW d \<le> item_w it" "minH d \<le> item_h it"
    using cell widget_size_bounds(1) [of d columns] widget_size_bounds(2,3) [of d]
      widget_size_bounds(5) [OF columns(2)] by (simp_all add: at_cell_def)
  have "positive_sizes ?s" using pos size by (auto simp: positive_sizes_def)
  then have "compact (items @ [it]) = ?s"
    by (intro gr.fall_fixed [OF first_fit_canonical [OF can fit cell]]) simp_all
  with F cell id size is_free_at_cell [OF cell, of items] show ?thesis
    by (auto simp: at_cell_def)
qed

definition pods_widget :: widget_def where
  "pods_widget =
    \<lparr>def_id = ''pods'', def_title = ''Pods'', def_family = ''workloads'', def_scopes = [''overview''],
     def_sources = [''pods''], optionalSources = None, familyStatus = None, adminOnly = False,
     minW = 2, minH = 2, defaultW = 4, defaultH = 3, def_params = None, def_modes = [Normal]\<rparr>"

definition placed_pods :: layout_item where
  "placed_pods =
    \<lparr>instanceId = ''pods-abcdefgh'', item_id = ''pods'', item_x = 0, item_y = 0, item_w = 4,
     item_h = 3, item_params = None\<rparr>"

lemma placed_pods_eq: "placeNewWidget (\<lambda>_. ''abcdefgh'') [] pods_widget 12 [] = Some (Some placed_pods)"
proof -
  have "newInstanceId (\<lambda>_. ''abcdefgh'') ''pods'' = Some ''pods-abcdefgh''"
    by (simp add: newInstanceId_def randomSuffix_def suffix_loop.simps INSTANCE_SUFFIX_LEN_def)
  then show ?thesis
    by (simp add: placeNewWidget_def pods_widget_def placed_pods_def widget_w_def widget_h_def
        firstFit_def fit_rows.simps fit_columns.simps is_free_def narrowParams_def
        DASHBOARD_MAX_ROWS_def Let_def)
qed

theorem placeNewWidget_correct_witness:
  "canonical [] \<and> placeNewWidget (\<lambda>_. ''abcdefgh'') [] pods_widget 12 [] = Some (Some placed_pods) \<and>
   minW pods_widget \<le> item_w placed_pods \<and> item_x placed_pods + item_w placed_pods \<le> 12 \<and>
   compact ([] @ [placed_pods]) = js_sort byReadingOrder ([] @ [placed_pods])"
proof -
  have "canonical []" "positive_sizes []"
    by (simp_all add: canonical_def disjoint_layout_def positive_sizes_def)
  with placeNewWidget_correct [OF this _ _ placed_pods_eq] placed_pods_eq show ?thesis
    by (simp add: pods_widget_def)
qed

text \<open>
  The palette refuses a widget only when the grid really has no room: no cell of the
  grid, down to the row cap, is free for the widget's size.
\<close>

theorem placeNewWidget_refuses_only_when_full:
  "placeNewWidget draw items d columns ps = Some None \<longleftrightarrow>
   (\<forall>x y. \<not> (0 \<le> x \<and> x + widget_w d columns \<le> columns \<and> 0 \<le> y \<and>
      y + widget_h d \<le> DASHBOARD_MAX_ROWS \<and> is_free items (widget_w d columns) (widget_h d) x y))"
proof (cases "firstFit items (widget_w d columns) (widget_h d) columns")
  case None
  then show ?thesis
    using fit_rows_None [OF None [unfolded firstFit_def]] by (auto simp: placeNewWidget_def)
next
  case (Some c)
  obtain x y where c: "c = (x, y)" by (cases c)
  show ?thesis
    using fit_rows_Some [OF Some [unfolded firstFit_def c]] Some
    by (auto simp: placeNewWidget_def Let_def c)
qed

text \<open>
  A placed widget carries exactly the parameters its definition declares and the dialog
  filled in, no others.
\<close>

theorem narrowParams_correct:
  "map_of (narrowParams d ps) k =
   (case def_params d of
      None \<Rightarrow> None
    | Some declared \<Rightarrow>
        if k \<in> fst ` set declared \<and> value_or_empty ps k \<noteq> [] then Some (value_or_empty ps k) else None)"
  by (rule narrowParams_lookup)

end
