(* ===== verification/Edit_Session.thy ===== *)
theory Edit_Session
  imports Grid_Edits Params
begin

text \<open>
  The dashboard editor's state machine (\<open>src/frontend/lib/dashboard/edit-session.ts\<close>). Values
  of the model are immutable, so the deep clones of the source are identities here and are written
  as such. \<open>canonicalItems\<close> returns the rows instead of their JSON text: the source only compares
  two such texts, and JSON is injective on nested arrays of strings and whole numbers. The
  collation \<open>localeCompare\<close> is an argument; what the code relies on is that it is a consistent
  comparator that tells different ids apart.
\<close>

record edit_session =
  baseline :: layout_config
  working :: layout_config
  session_revision :: int

definition cloneItem :: "layout_item \<Rightarrow> layout_item" where
  "cloneItem it =
    (case item_params it of None \<Rightarrow> it | Some ps \<Rightarrow> it\<lparr>item_params := Some ps\<rparr>)"

definition cloneConfig :: "layout_config \<Rightarrow> layout_config" where
  "cloneConfig c = c\<lparr>config_items := map cloneItem (config_items c)\<rparr>"

type_synonym row_value =
  "string \<times> string \<times> int \<times> int \<times> int \<times> int \<times> (string \<times> string) list"

definition item_row :: "layout_item \<Rightarrow> row_value" where
  "item_row i =
    (let ps = (case item_params i of None \<Rightarrow> [] | Some p \<Rightarrow> p); ks = sort (map fst ps)
     in (instanceId i, item_id i, item_x i, item_y i, item_w i, item_h i,
         map (\<lambda>k. (k, value_or_empty ps k)) ks))"

definition by_id :: "(string \<Rightarrow> string \<Rightarrow> int) \<Rightarrow> row_value \<Rightarrow> row_value \<Rightarrow> int" where
  "by_id localeCompare a b = localeCompare (fst a) (fst b)"

definition canonicalItems :: "(string \<Rightarrow> string \<Rightarrow> int) \<Rightarrow> layout_item list \<Rightarrow> row_value list" where
  "canonicalItems localeCompare items = js_sort (by_id localeCompare) (map item_row items)"

definition beginEdit :: "layout_config \<Rightarrow> int \<Rightarrow> edit_session" where
  "beginEdit config revision =
    \<lparr>baseline = cloneConfig config, working = cloneConfig config, session_revision = revision\<rparr>"

definition applyChange :: "edit_session \<Rightarrow> layout_item list \<Rightarrow> edit_session" where
  "applyChange s items =
    \<lparr>baseline = baseline s, working = (baseline s)\<lparr>config_items := map cloneItem items\<rparr>,
     session_revision = session_revision s\<rparr>"

definition isDirty :: "(string \<Rightarrow> string \<Rightarrow> int) \<Rightarrow> edit_session \<Rightarrow> bool" where
  "isDirty localeCompare s \<longleftrightarrow>
    canonicalItems localeCompare (config_items (working s)) \<noteq>
    canonicalItems localeCompare (config_items (baseline s))"

definition discard :: "edit_session \<Rightarrow> layout_config" where
  "discard s = cloneConfig (baseline s)"

definition commit :: "edit_session \<Rightarrow> layout_config \<times> int" where
  "commit s = (cloneConfig (working s), session_revision s)"

lemma cloneItem_id [simp]: "cloneItem it = it"
  by (cases it) (auto simp: cloneItem_def split: option.split)

lemma cloneConfig_id [simp]: "cloneConfig c = c"
  by (simp add: cloneConfig_def map_idI)

section \<open>Sessions\<close>

text \<open>A session is opened once and changed any number of times.\<close>

inductive session_from :: "layout_config \<Rightarrow> int \<Rightarrow> edit_session \<Rightarrow> bool" for c r where
  opened: "session_from c r (beginEdit c r)"
| changed: "session_from c r s \<Longrightarrow> session_from c r (applyChange s items)"

lemma session_from_invariant:
  "session_from c r s \<Longrightarrow>
   baseline s = c \<and> session_revision s = r \<and>
   working s = c\<lparr>config_items := config_items (working s)\<rparr>"
  by (induction rule: session_from.induct) (simp_all add: beginEdit_def applyChange_def map_idI)

section \<open>Dirtiness\<close>

locale collation =
  fixes lc :: "string \<Rightarrow> string \<Rightarrow> int"
  assumes lc_total: "lc a b \<le> 0 \<or> lc b a \<le> 0"
    and lc_trans: "lc a b \<le> 0 \<Longrightarrow> lc b c \<le> 0 \<Longrightarrow> lc a c \<le> 0"
    and lc_antisym: "lc a b \<le> 0 \<Longrightarrow> lc b a \<le> 0 \<Longrightarrow> a = b"

sublocale collation \<subseteq> rows: comparator "by_id lc"
  by unfold_locales (use lc_total lc_trans in \<open>auto simp: by_id_def\<close>)

context collation
begin

lemma rows_unique:
  assumes "distinct (map instanceId xs)" "mset (map item_row xs) = mset (map item_row ys)"
  shows "canonicalItems lc xs = canonicalItems lc ys"
  unfolding canonicalItems_def
proof (rule sorted_wrt_unique_mset [OF rows.in_order_js_sort rows.in_order_js_sort])
  fix a b assume ab: "a \<in> set (js_sort (by_id lc) (map item_row xs))"
    "b \<in> set (js_sort (by_id lc) (map item_row xs))" "by_id lc a b \<le> 0" "by_id lc b a \<le> 0"
  then obtain i j where ij: "i \<in> set xs" "a = item_row i" "j \<in> set xs" "b = item_row j" by auto
  have "fst a = fst b" using lc_antisym ab(3,4) by (simp add: by_id_def)
  then have "instanceId i = instanceId j" using ij by (simp add: item_row_def Let_def)
  then have "i = j" using ij assms(1) by (auto simp: distinct_map inj_on_def)
  with ij show "a = b" by simp
qed (use assms(2) in simp)

lemma canonicalItems_iff:
  assumes "distinct (map instanceId xs)"
  shows "canonicalItems lc xs = canonicalItems lc ys \<longleftrightarrow>
    mset (map item_row xs) = mset (map item_row ys)"
proof
  assume "canonicalItems lc xs = canonicalItems lc ys"
  then have "mset (canonicalItems lc xs) = mset (canonicalItems lc ys)" by simp
  then show "mset (map item_row xs) = mset (map item_row ys)" by (simp add: canonicalItems_def)
qed (rule rows_unique [OF assms])

end

text \<open>The order of code units is a collation.\<close>

definition code_unit_order :: "string \<Rightarrow> string \<Rightarrow> int" where
  "code_unit_order a b = (if a < b then - 1 else if b < a then 1 else 0)"

interpretation units: collation code_unit_order
  by unfold_locales (auto simp: code_unit_order_def split: if_splits)

section \<open>Properties\<close>

text \<open>
  Whatever was arranged in between, Cancel restores exactly the layout the session was
  opened on, and Save writes the last arrangement with the schema version, scope and column count
  of that layout, under the revision it was opened at.
\<close>

theorem session_pins_baseline:
  assumes "session_from c r s"
  shows "discard s = c \<and> snd (commit s) = r \<and>
    fst (commit s) = c\<lparr>config_items := config_items (working s)\<rparr> \<and>
    fst (commit (applyChange s items)) = c\<lparr>config_items := items\<rparr>"
  using session_from_invariant [OF assms]
  by (simp add: discard_def commit_def applyChange_def map_idI)

text \<open>
  Save is armed exactly when some placement differs: reordering the placements, or
  writing absent parameters as an empty object, is no change, and every difference of position,
  size, widget or parameter is one.
\<close>

theorem isDirty_iff_placements_differ:
  assumes "collation localeCompare" "distinct (map instanceId (config_items (working s)))"
  shows "isDirty localeCompare s \<longleftrightarrow>
    mset (map item_row (config_items (working s))) \<noteq> mset (map item_row (config_items (baseline s)))"
  unfolding isDirty_def by (simp add: collation.canonicalItems_iff [OF assms])

end
