(* ===== verification/Layout_Store.thy ===== *)
theory Layout_Store
  imports Edit_Session
begin

text \<open>
  The layout store of the dashboard (\<open>src/frontend/lib/dashboard/layout-store.ts\<close>), with the
  shipped layout (\<open>default-layout.ts\<close>) and the reason codes of \<open>lib/preferences.ts\<close>.

  The module's signals and its module-scope variables are one record, \<open>store\<close>. An asynchronous
  function is cut at its \<open>await\<close>: the part before it is one operation, each way the request can
  settle is another, and what the function keeps in local variables across the await is an entry
  of \<open>loads\<close> or \<open>saves\<close>. Between two awaits the code runs without interruption, so a run of the
  module is a sequence of these operations in any order.

  The widget registry (\<open>getWidget\<close>) is an argument. Object identity matters in one place, the
  comparison of the loaded layout with the shipped object; \<open>layout_shipped\<close> says whether the
  store holds that very object.
\<close>

section \<open>The shipped layout\<close>

definition shipped_item :: "string \<Rightarrow> int \<Rightarrow> int \<Rightarrow> int \<Rightarrow> int \<Rightarrow> layout_item" where
  "shipped_item n x y w h =
    \<lparr>instanceId = ''d-'' @ n, item_id = n, item_x = x, item_y = y, item_w = w, item_h = h,
     item_params = None\<rparr>"

definition DEFAULT_OVERVIEW_LAYOUT :: layout_config where
  "DEFAULT_OVERVIEW_LAYOUT =
    \<lparr>schemaVersion = DASHBOARD_LAYOUT_SCHEMA_VERSION, config_scope = ''overview'',
     config_columns = DASHBOARD_COLUMNS,
     config_items =
       [shipped_item ''cluster-health'' 0 0 6 6,
        shipped_item ''cpu-tile'' 6 0 3 3,
        shipped_item ''memory-tile'' 9 0 3 3,
        shipped_item ''pods-tile'' 6 3 3 3,
        shipped_item ''network-tile'' 9 3 3 3,
        shipped_item ''resource-utilization'' 0 6 7 4,
        shipped_item ''pod-status'' 7 6 5 4,
        shipped_item ''nodes'' 0 10 4 5,
        shipped_item ''recent-events'' 4 10 5 10,
        shipped_item ''active-alerts'' 9 10 3 5]\<rparr>"

text \<open>One scope ships; its default is what every scope answers with.\<close>

definition defaultLayoutFor :: "string \<Rightarrow> layout_config" where
  "defaultLayoutFor scope = DEFAULT_OVERVIEW_LAYOUT"

section \<open>Reasons and responses\<close>

definition PREFERENCE_REASONS :: "string list" where
  "PREFERENCE_REASONS =
    [''database_unavailable'', ''invalid_config'', ''unknown_resource_kind'',
     ''unsupported_schema_version'', ''duplicate_name'', ''already_pinned'', ''limit_reached'',
     ''revision_conflict'', ''invalid_name'', ''identity_too_long'', ''unknown_widget_id'']"

text \<open>What a rejected request carries: whether it is the abort itself, and its reason code.\<close>

record request_error =
  err_abort :: bool
  err_reason :: "string option"

definition preferenceReason :: "request_error \<Rightarrow> string option" where
  "preferenceReason e =
    (case err_reason e of
       None \<Rightarrow> None
     | Some r \<Rightarrow> if r = [] then None else if r \<in> set PREFERENCE_REASONS then Some r else None)"

text \<open>A response whose config is not a layout object has \<open>None\<close> there.\<close>

record layout_response =
  lr_id :: string
  lr_clusterId :: string
  lr_clusterLabel :: "string option"
  lr_updatedAt :: string
  lr_revision :: int
  lr_config :: "layout_config option"
  lr_withheld :: "string list option"

section \<open>Unknown widgets\<close>

abbreviation dquote :: string where
  "dquote \<equiv> [CHR 0x22]"

definition add_once :: "'a \<Rightarrow> 'a list \<Rightarrow> 'a list" where
  "add_once x xs = (if x \<in> set xs then xs else xs @ [x])"

fun drop_scan ::
  "(string \<Rightarrow> widget_def option) \<Rightarrow> layout_item list \<Rightarrow>
   layout_item list \<times> string list \<times> string list \<Rightarrow>
   layout_item list \<times> string list \<times> string list" where
  "drop_scan getWidget [] acc = acc"
| "drop_scan getWidget (it # its) (kept, missing, unfilled) =
    (case getWidget (item_id it) of
       None \<Rightarrow> drop_scan getWidget its (kept, add_once (item_id it) missing, unfilled)
     | Some d \<Rightarrow>
         if missingParamKeys (def_params d) (case item_params it of None \<Rightarrow> [] | Some p \<Rightarrow> p) \<noteq> []
         then drop_scan getWidget its (kept, missing, add_once (item_id it) unfilled)
         else drop_scan getWidget its (kept @ [it], missing, unfilled))"

definition missing_warning :: "string \<Rightarrow> string" where
  "missing_warning i =
    ''Removed '' @ dquote @ i @ dquote @ '' from this dashboard: this build has no such widget.''"

definition unfilled_warning :: "string \<Rightarrow> string" where
  "unfilled_warning i =
    ''Removed '' @ dquote @ i @ dquote @
    '' from this dashboard: it was stored without the values it needs.''"

definition dropUnknownWidgets ::
  "(string \<Rightarrow> widget_def option) \<Rightarrow> layout_config \<Rightarrow> layout_config \<times> string list" where
  "dropUnknownWidgets getWidget config =
    (case drop_scan getWidget (config_items config) ([], [], []) of
       (kept, missing, unfilled) \<Rightarrow>
         (config\<lparr>config_items := kept\<rparr>,
          map missing_warning missing @ map unfilled_warning unfilled))"

section \<open>Layouts of other clusters\<close>

record copyable_layout =
  cp_id :: string
  cp_clusterId :: string
  cp_clusterLabel :: string
  cp_updatedAt :: string
  cp_config :: layout_config
  cp_warnings :: "string list"

definition label_or_id :: "layout_response \<Rightarrow> string" where
  "label_or_id r =
    (case lr_clusterLabel r of
       None \<Rightarrow> lr_clusterId r
     | Some l \<Rightarrow> if l = [] then lr_clusterId r else l)"

definition withheld_warning :: "layout_response \<Rightarrow> nat \<Rightarrow> string" where
  "withheld_warning r n =
    show_nat n @ '' widget'' @ (if n = 1 then [] else ''s'') @ '' on '' @
    dquote @ label_or_id r @ dquote @
    '' read a namespace and cannot be copied to another cluster.''"

definition copyable_row ::
  "(string \<Rightarrow> widget_def option) \<Rightarrow> string \<Rightarrow> string \<Rightarrow> int \<Rightarrow> layout_response \<Rightarrow>
   copyable_layout option" where
  "copyable_row getWidget scope currentCluster columns r =
    (if lr_clusterId r = currentCluster then None
     else
       (case lr_config r of
          None \<Rightarrow> None
        | Some cfg \<Rightarrow>
            if config_scope cfg \<noteq> scope then None
            else if schemaVersion cfg \<noteq> DASHBOARD_LAYOUT_SCHEMA_VERSION \<or> config_columns cfg \<noteq> columns
            then None
            else
              (case dropUnknownWidgets getWidget cfg of
                 (config, warnings) \<Rightarrow>
                   if config_items config = [] then None
                   else
                     (let withheld = (case lr_withheld r of None \<Rightarrow> [] | Some w \<Rightarrow> w)
                      in Some \<lparr>cp_id = lr_id r, cp_clusterId = lr_clusterId r,
                           cp_clusterLabel = label_or_id r, cp_updatedAt = lr_updatedAt r,
                           cp_config = config,
                           cp_warnings = warnings @
                             (if withheld \<noteq> [] then [withheld_warning r (length withheld)]
                              else [])\<rparr>))))"

definition copyableLayouts ::
  "(string \<Rightarrow> widget_def option) \<Rightarrow> layout_response list \<Rightarrow> string \<Rightarrow> string \<Rightarrow> int \<Rightarrow>
   copyable_layout list" where
  "copyableLayouts getWidget records scope currentCluster columns =
    List.map_filter (copyable_row getWidget scope currentCluster columns) records"

section \<open>Reading a response\<close>

record loaded_layout =
  ll_config :: layout_config
  ll_revision :: int
  ll_withheld :: "string list"
  ll_warnings :: "string list"

text \<open>The result is \<open>None\<close> where the code throws: a response whose config is no layout.\<close>

definition layoutFromResponse ::
  "(string \<Rightarrow> widget_def option) \<Rightarrow> layout_response option \<Rightarrow> string \<Rightarrow> loaded_layout option" where
  "layoutFromResponse getWidget res scope =
    (case res of
       None \<Rightarrow>
         Some \<lparr>ll_config = defaultLayoutFor scope, ll_revision = 0, ll_withheld = [],
           ll_warnings = []\<rparr>
     | Some r \<Rightarrow>
         (case lr_config r of
            None \<Rightarrow> None
          | Some cfg \<Rightarrow>
              (case dropUnknownWidgets getWidget cfg of
                 (config, warnings) \<Rightarrow>
                   Some \<lparr>ll_config = config, ll_revision = lr_revision r,
                     ll_withheld = (case lr_withheld r of None \<Rightarrow> [] | Some w \<Rightarrow> w),
                     ll_warnings = warnings\<rparr>)))"

section \<open>The store\<close>

record pending_load =
  pl_id :: nat
  pl_scope :: string
  pl_cluster :: string
  pl_startedAt :: nat
  pl_aborted :: bool

record pending_save =
  ps_id :: nat
  ps_scope :: string
  ps_cluster :: string
  ps_revision :: int
  ps_config :: layout_config
  ps_shipped :: bool

record store =
  layout :: layout_config
  layout_shipped :: bool
  layoutLoaded :: bool
  layoutUnavailable :: "string option"
  layoutRevision :: int
  layoutWithheld :: "string list"
  layoutWarnings :: "string list"
  layoutGeneration :: nat
  observed :: "(string \<times> string) option"
  commitSeq :: nat
  inFlight :: "nat option"
  loads :: "pending_load list"
  saves :: "pending_save list"
  next_id :: nat
  selectedCluster :: string

definition initial_store :: "string \<Rightarrow> store" where
  "initial_store cluster =
    \<lparr>layout = DEFAULT_OVERVIEW_LAYOUT, layout_shipped = True, layoutLoaded = False,
     layoutUnavailable = None, layoutRevision = 0, layoutWithheld = [], layoutWarnings = [],
     layoutGeneration = 0, observed = None, commitSeq = 0, inFlight = None, loads = [], saves = [],
     next_id = 0, selectedCluster = cluster\<rparr>"

definition abort_load :: "nat \<Rightarrow> store \<Rightarrow> store" where
  "abort_load i st =
    st\<lparr>loads := map (\<lambda>l. if pl_id l = i then l\<lparr>pl_aborted := True\<rparr> else l) (loads st)\<rparr>"

text \<open>The call, up to the request. The request is addressed to the cluster selected now.\<close>

definition loadLayout :: "string \<Rightarrow> bool \<Rightarrow> store \<Rightarrow> store" where
  "loadLayout scope signal_aborted st =
    (if signal_aborted then st
     else
       (let st1 = (case inFlight st of None \<Rightarrow> st | Some i \<Rightarrow> abort_load i st);
            l = \<lparr>pl_id = next_id st1, pl_scope = scope, pl_cluster = selectedCluster st1,
                 pl_startedAt = commitSeq st1, pl_aborted = False\<rparr>
        in st1\<lparr>inFlight := Some (next_id st1), loads := loads st1 @ [l],
               next_id := next_id st1 + 1\<rparr>))"

text \<open>The \<open>finally\<close> block, and the end of the call's local state.\<close>

definition finish_load :: "nat \<Rightarrow> store \<Rightarrow> store" where
  "finish_load i st =
    st\<lparr>loads := filter (\<lambda>l. pl_id l \<noteq> i) (loads st),
       inFlight := (if inFlight st = Some i then None else inFlight st)\<rparr>"

definition load_caught :: "pending_load \<Rightarrow> request_error \<Rightarrow> store \<Rightarrow> store" where
  "load_caught l e st =
    (if pl_aborted l \<or> err_abort e then st
     else if commitSeq st \<noteq> pl_startedAt l then st
     else st\<lparr>layoutUnavailable :=
                Some (case preferenceReason e of None \<Rightarrow> ''unknown'' | Some r \<Rightarrow> r),
             layoutLoaded := True, observed := None\<rparr>)"

definition load_commit :: "pending_load \<Rightarrow> bool \<Rightarrow> loaded_layout \<Rightarrow> store \<Rightarrow> store" where
  "load_commit l shipped loaded st =
    (let replaced = \<not> (shipped \<and> layout_shipped st)
     in st\<lparr>observed := Some (pl_scope l, selectedCluster st), commitSeq := commitSeq st + 1,
           layout := ll_config loaded, layout_shipped := shipped,
           layoutRevision := ll_revision loaded, layoutWithheld := ll_withheld loaded,
           layoutWarnings := ll_warnings loaded, layoutLoaded := True, layoutUnavailable := None,
           layoutGeneration := (if replaced then layoutGeneration st + 1 else layoutGeneration st)\<rparr>)"

definition load_resolved ::
  "(string \<Rightarrow> widget_def option) \<Rightarrow> pending_load \<Rightarrow> layout_response option \<Rightarrow> store \<Rightarrow> store" where
  "load_resolved getWidget l res st =
    finish_load (pl_id l)
      (if pl_aborted l then st
       else if commitSeq st \<noteq> pl_startedAt l then st
       else
         (case layoutFromResponse getWidget res (pl_scope l) of
            None \<Rightarrow> load_caught l \<lparr>err_abort = False, err_reason = None\<rparr> st
          | Some loaded \<Rightarrow> load_commit l (res = None) loaded st))"

definition load_rejected :: "pending_load \<Rightarrow> request_error \<Rightarrow> store \<Rightarrow> store" where
  "load_rejected l e st = finish_load (pl_id l) (load_caught l e st)"

datatype save_error =
    StaleLayoutScope string string "(string \<times> string) option"
  | WithheldLayout "string list"

text \<open>The call, up to the request: a refusal, or the request now in flight.\<close>

definition saveLayout :: "string \<Rightarrow> layout_config \<Rightarrow> bool \<Rightarrow> store \<Rightarrow> save_error + store" where
  "saveLayout scope config shipped st =
    (let cluster = selectedCluster st
     in if observed st \<noteq> Some (scope, cluster)
        then Inl (StaleLayoutScope scope cluster (observed st))
        else if layoutWithheld st \<noteq> [] then Inl (WithheldLayout (layoutWithheld st))
        else
          Inr (st\<lparr>saves := saves st @
                   [\<lparr>ps_id = next_id st, ps_scope = scope, ps_cluster = cluster,
                     ps_revision = layoutRevision st, ps_config = config, ps_shipped = shipped\<rparr>],
                 next_id := next_id st + 1\<rparr>))"

definition finish_save :: "nat \<Rightarrow> store \<Rightarrow> store" where
  "finish_save i st = st\<lparr>saves := filter (\<lambda>s. ps_id s \<noteq> i) (saves st)\<rparr>"

definition save_resolved :: "pending_save \<Rightarrow> layout_response \<Rightarrow> store \<Rightarrow> store" where
  "save_resolved s saved st =
    finish_save (ps_id s)
      (st\<lparr>commitSeq := commitSeq st + 1, observed := Some (ps_scope s, ps_cluster s),
          layout := ps_config s, layout_shipped := ps_shipped s,
          layoutRevision := lr_revision saved, layoutLoaded := True, layoutUnavailable := None\<rparr>)"

definition save_rejected :: "pending_save \<Rightarrow> store \<Rightarrow> store" where
  "save_rejected s st = finish_save (ps_id s) (st\<lparr>observed := None\<rparr>)"

section \<open>The list of other clusters' layouts\<close>

text \<open>
  \<open>loadCopyableLayouts\<close> keeps a controller of its own, separate from the one above. A failed read
  leaves the list as it was.
\<close>

record copy_store =
  copyableLayoutRecords :: "layout_response list"
  copyableInFlight :: "nat option"
  copy_reads :: "(nat \<times> bool) list"
  copy_next :: nat

definition abort_copy_read :: "nat \<Rightarrow> copy_store \<Rightarrow> copy_store" where
  "abort_copy_read i st =
    st\<lparr>copy_reads := map (\<lambda>(j, aborted). (j, aborted \<or> j = i)) (copy_reads st)\<rparr>"

definition loadCopyableLayouts :: "bool \<Rightarrow> copy_store \<Rightarrow> copy_store" where
  "loadCopyableLayouts signal_aborted st =
    (if signal_aborted then st
     else
       (let st1 = (case copyableInFlight st of None \<Rightarrow> st | Some i \<Rightarrow> abort_copy_read i st)
        in st1\<lparr>copyableInFlight := Some (copy_next st1),
               copy_reads := copy_reads st1 @ [(copy_next st1, False)],
               copy_next := copy_next st1 + 1\<rparr>))"

definition finish_copy_read :: "nat \<Rightarrow> copy_store \<Rightarrow> copy_store" where
  "finish_copy_read i st =
    st\<lparr>copy_reads := filter (\<lambda>r. fst r \<noteq> i) (copy_reads st),
       copyableInFlight := (if copyableInFlight st = Some i then None else copyableInFlight st)\<rparr>"

definition copy_resolved :: "nat \<times> bool \<Rightarrow> layout_response list \<Rightarrow> copy_store \<Rightarrow> copy_store" where
  "copy_resolved r records st =
    finish_copy_read (fst r)
      (if snd r then st else st\<lparr>copyableLayoutRecords := records\<rparr>)"

definition copy_rejected :: "nat \<times> bool \<Rightarrow> copy_store \<Rightarrow> copy_store" where
  "copy_rejected r st = finish_copy_read (fst r) st"

end
