(* ===== verification/Layout_Store_Runs.thy ===== *)
theory Layout_Store_Runs
  imports Layout_Store
begin

text \<open>
  Runs of the layout store: the operations of \<open>Layout_Store\<close> interleaved in any order, with the
  answers the server gives and the writes it receives as a log. A step is one stretch of code
  between two awaits. \<open>free\<close> says whether the selected cluster may change while a read is in
  flight; the product reloads the page on a switch, so there it may not.
\<close>

datatype wire =
    ReadAnswer string string int "string list"
  | PutSent string string int layout_config
  | PutAnswer string string int

definition answer_revision :: "layout_response option \<Rightarrow> int" where
  "answer_revision res = (case res of None \<Rightarrow> 0 | Some r \<Rightarrow> lr_revision r)"

definition answer_withheld :: "layout_response option \<Rightarrow> string list" where
  "answer_withheld res =
    (case res of None \<Rightarrow> [] | Some r \<Rightarrow> (case lr_withheld r of None \<Rightarrow> [] | Some w \<Rightarrow> w))"

inductive store_step ::
  "(string \<Rightarrow> widget_def option) \<Rightarrow> bool \<Rightarrow> store \<Rightarrow> wire list \<Rightarrow> store \<Rightarrow> bool" for gw free where
  load: "store_step gw free st [] (loadLayout scope aborted st)"
| abort: "l \<in> set (loads st) \<Longrightarrow> store_step gw free st [] (abort_load (pl_id l) st)"
| read_ok: "l \<in> set (loads st) \<Longrightarrow>
    store_step gw free st
      [ReadAnswer (pl_scope l) (pl_cluster l) (answer_revision res) (answer_withheld res)]
      (load_resolved gw l res st)"
| read_err: "l \<in> set (loads st) \<Longrightarrow> store_step gw free st [] (load_rejected l e st)"
| save: "saveLayout scope config shipped st = Inr st' \<Longrightarrow>
    store_step gw free st [PutSent scope (selectedCluster st) (layoutRevision st) config] st'"
| put_ok: "s \<in> set (saves st) \<Longrightarrow>
    store_step gw free st [PutAnswer (ps_scope s) (ps_cluster s) (lr_revision saved)]
      (save_resolved s saved st)"
| put_err: "s \<in> set (saves st) \<Longrightarrow> store_step gw free st [] (save_rejected s st)"
| switch: "free \<or> loads st = [] \<Longrightarrow> store_step gw free st [] (st\<lparr>selectedCluster := c\<rparr>)"

inductive store_run ::
  "(string \<Rightarrow> widget_def option) \<Rightarrow> bool \<Rightarrow> store \<Rightarrow> wire list \<Rightarrow> store \<Rightarrow> bool" for gw free where
  stay: "store_run gw free st [] st"
| more: "store_run gw free st w st' \<Longrightarrow> store_step gw free st' v st'' \<Longrightarrow>
    store_run gw free st (w @ v) st''"

lemma saveLayout_Inr:
  "saveLayout scope config shipped st = Inr st' \<longleftrightarrow>
    observed st = Some (scope, selectedCluster st) \<and> layoutWithheld st = [] \<and>
    st' = st\<lparr>saves := saves st @
             [\<lparr>ps_id = next_id st, ps_scope = scope, ps_cluster = selectedCluster st,
               ps_revision = layoutRevision st, ps_config = config, ps_shipped = shipped\<rparr>],
           next_id := next_id st + 1\<rparr>"
  by (auto simp: saveLayout_def Let_def)

lemma layoutFromResponse_answer:
  "layoutFromResponse gw res scope = Some loaded \<Longrightarrow>
   ll_revision loaded = answer_revision res \<and> ll_withheld loaded = answer_withheld res"
  by (auto simp: layoutFromResponse_def answer_revision_def answer_withheld_def
      split: option.splits prod.splits)

lemmas load_defs = loadLayout_def abort_load_def load_resolved_def load_rejected_def
  load_caught_def load_commit_def finish_load_def Let_def

lemmas save_defs = save_resolved_def save_rejected_def finish_save_def

section \<open>Reads in flight\<close>

text \<open>
  Ids are fresh, a read's starting point is not ahead of the counter, and only the controller the
  module still holds has not been aborted.
\<close>

definition reads_ok :: "store \<Rightarrow> bool" where
  "reads_ok st \<longleftrightarrow>
    distinct (map pl_id (loads st)) \<and>
    (\<forall>l \<in> set (loads st). pl_id l < next_id st \<and> pl_startedAt l \<le> commitSeq st \<and>
      (pl_aborted l \<or> inFlight st = Some (pl_id l)))"

lemma abort_load_loads [simp]:
  "(\<forall>l \<in> set (loads (abort_load i st)). P l) \<longleftrightarrow>
   (\<forall>k \<in> set (loads st). P (if pl_id k = i then k\<lparr>pl_aborted := True\<rparr> else k))"
  by (auto simp: abort_load_def)

lemma map_pl_id_abort [simp]: "map pl_id (loads (abort_load i st)) = map pl_id (loads st)"
  by (auto simp: abort_load_def)

lemma abort_load_sel [simp]:
  "next_id (abort_load i st) = next_id st" "commitSeq (abort_load i st) = commitSeq st"
  "inFlight (abort_load i st) = inFlight st" "selectedCluster (abort_load i st) = selectedCluster st"
  "observed (abort_load i st) = observed st" "layoutRevision (abort_load i st) = layoutRevision st"
  "layoutWithheld (abort_load i st) = layoutWithheld st" "saves (abort_load i st) = saves st"
  by (simp_all add: abort_load_def)

lemma reads_ok_abort: "reads_ok st \<Longrightarrow> reads_ok (abort_load i st)"
  by (auto simp: reads_ok_def)

lemma reads_ok_issue:
  assumes "reads_ok st" "\<forall>l \<in> set (loads st). pl_aborted l" "pl_id l = next_id st"
    "pl_startedAt l = commitSeq st"
  shows "reads_ok (st\<lparr>inFlight := Some (next_id st), loads := loads st @ [l],
    next_id := next_id st + 1\<rparr>)"
  using assms by (fastforce simp: reads_ok_def)

lemma reads_ok_load:
  assumes ok: "reads_ok st"
  shows "reads_ok (loadLayout scope ab st)"
proof (cases "inFlight st")
  case None
  then have "\<forall>l \<in> set (loads st). pl_aborted l" using ok by (simp add: reads_ok_def)
  with reads_ok_issue [OF ok] ok None show ?thesis by (simp add: loadLayout_def Let_def)
next
  case (Some i)
  have "\<forall>l \<in> set (loads (abort_load i st)). pl_aborted l"
    using ok Some by (simp add: reads_ok_def) metis
  from reads_ok_issue [OF reads_ok_abort [OF ok] this] ok Some show ?thesis
    by (simp add: loadLayout_def Let_def)
qed

lemma reads_ok_finish:
  assumes "reads_ok st" "loads st' = loads st" "next_id st' = next_id st"
    "commitSeq st \<le> commitSeq st'" "inFlight st' = inFlight st"
  shows "reads_ok (finish_load i st')"
  using assms by (fastforce simp: reads_ok_def finish_load_def distinct_map_filter)

lemma reads_ok_step: "store_step gw free st v st' \<Longrightarrow> reads_ok st \<Longrightarrow> reads_ok st'"
proof (induction rule: store_step.induct)
  case (read_ok l st res)
  then show ?case
    unfolding load_resolved_def
    by (intro reads_ok_finish [OF read_ok.prems])
      (auto simp: load_caught_def load_commit_def Let_def split: option.split)
next
  case (read_err l st e)
  then show ?case
    unfolding load_rejected_def
    by (intro reads_ok_finish [OF read_err.prems]) (auto simp: load_caught_def)
next
  case (load st scope aborted)
  then show ?case by (rule reads_ok_load)
next
  case (abort l st)
  then show ?case by (intro reads_ok_abort)
qed (auto simp: reads_ok_def save_defs saveLayout_Inr less_Suc_eq)

lemma reads_ok_run: "store_run gw free st w st' \<Longrightarrow> reads_ok st \<Longrightarrow> reads_ok st'"
  by (induction rule: store_run.induct) (auto intro: reads_ok_step)

lemma reads_ok_initial: "reads_ok (initial_store c)"
  by (simp add: reads_ok_def initial_store_def)

section \<open>Reads that started before a commit\<close>

definition outdated :: "nat \<Rightarrow> nat \<Rightarrow> store \<Rightarrow> bool" where
  "outdated n k st \<longleftrightarrow>
    n \<le> next_id st \<and> k \<le> commitSeq st \<and> (\<forall>l \<in> set (loads st). pl_id l < n \<longrightarrow> pl_startedAt l < k)"

lemma outdated_abort: "outdated n k st \<Longrightarrow> outdated n k (abort_load i st)"
  by (simp add: outdated_def)

lemma outdated_load: "outdated n k st \<Longrightarrow> outdated n k (loadLayout scope ab st)"
proof -
  assume st: "outdated n k st"
  let ?st1 = "case inFlight st of None \<Rightarrow> st | Some i \<Rightarrow> abort_load i st"
  have "outdated n k ?st1" using st outdated_abort by (simp split: option.split)
  then show ?thesis using st by (auto simp: outdated_def loadLayout_def Let_def)
qed

lemma outdated_finish:
  assumes "outdated n k st" "loads st' = loads st" "next_id st' = next_id st"
    "commitSeq st \<le> commitSeq st'"
  shows "outdated n k (finish_load i st')"
  using assms by (auto simp: outdated_def finish_load_def)

lemma outdated_step: "store_step gw free st v st' \<Longrightarrow> outdated n k st \<Longrightarrow> outdated n k st'"
proof (induction rule: store_step.induct)
  case (read_ok l st res)
  then show ?case
    unfolding load_resolved_def
    by (intro outdated_finish [OF read_ok.prems])
      (auto simp: load_caught_def load_commit_def Let_def split: option.split)
next
  case (read_err l st e)
  then show ?case
    unfolding load_rejected_def
    by (intro outdated_finish [OF read_err.prems]) (auto simp: load_caught_def)
next
  case (load st scope aborted)
  then show ?case by (rule outdated_load)
next
  case (abort l st)
  then show ?case by (intro outdated_abort)
qed (auto simp: outdated_def save_defs saveLayout_Inr)

lemma outdated_run: "store_run gw free st w st' \<Longrightarrow> outdated n k st \<Longrightarrow> outdated n k st'"
  by (induction rule: store_run.induct) (auto intro: outdated_step)

lemma save_resolved_outdates:
  "reads_ok st \<Longrightarrow> outdated (next_id st) (Suc (commitSeq st)) (save_resolved s saved st)"
  by (fastforce simp: outdated_def reads_ok_def save_defs)

text \<open>What a reader of the store can see.\<close>

definition signals ::
  "store \<Rightarrow> layout_config \<times> bool \<times> string option \<times> int \<times> string list \<times> string list \<times> nat \<times>
     (string \<times> string) option" where
  "signals st =
    (layout st, layoutLoaded st, layoutUnavailable st, layoutRevision st, layoutWithheld st,
     layoutWarnings st, layoutGeneration st, observed st)"

lemma outdated_read_is_silent:
  assumes "outdated n k st" "l \<in> set (loads st)" "pl_id l < n"
  shows "signals (load_resolved gw l res st) = signals st \<and>
    signals (load_rejected l e st) = signals st"
proof -
  have "commitSeq st \<noteq> pl_startedAt l" using assms by (auto simp: outdated_def)
  then show ?thesis
    by (simp add: load_resolved_def load_rejected_def load_caught_def finish_load_def signals_def)
qed

section \<open>What a write claims\<close>

definition evidence :: "store \<Rightarrow> wire list \<Rightarrow> bool" where
  "evidence st w \<longleftrightarrow>
    (\<forall>l \<in> set (loads st). pl_cluster l = selectedCluster st) \<and>
    (\<forall>s c. observed st = Some (s, c) \<longrightarrow>
      ReadAnswer s c (layoutRevision st) (layoutWithheld st) \<in> set w \<or>
      PutAnswer s c (layoutRevision st) \<in> set w)"

lemma evidence_load: "evidence st w \<Longrightarrow> evidence (loadLayout scope ab st) w"
  by (auto simp: evidence_def loadLayout_def Let_def split: option.split)

lemma evidence_read:
  assumes "evidence st w" "l \<in> set (loads st)"
  shows "evidence (load_resolved gw l res st)
    (w @ [ReadAnswer (pl_scope l) (pl_cluster l) (answer_revision res) (answer_withheld res)])"
proof (cases "pl_aborted l \<or> commitSeq st \<noteq> pl_startedAt l")
  case True
  then show ?thesis
    using assms by (auto simp: load_resolved_def finish_load_def evidence_def)
next
  case False
  show ?thesis
  proof (cases "layoutFromResponse gw res (pl_scope l)")
    case None
    with False assms show ?thesis
      by (auto simp: load_resolved_def load_caught_def finish_load_def evidence_def)
  next
    case (Some loaded)
    with False assms layoutFromResponse_answer [OF Some] show ?thesis
      by (auto simp: load_resolved_def load_commit_def finish_load_def evidence_def Let_def)
  qed
qed

lemma evidence_step: "store_step gw False st v st' \<Longrightarrow> evidence st w \<Longrightarrow> evidence st' (w @ v)"
proof (induction rule: store_step.induct)
  case (abort l st)
  then show ?case by (simp add: evidence_def)
next
  case (load st scope aborted)
  then show ?case by (simp add: evidence_load)
next
  case (read_ok l st res)
  then show ?case by (simp add: evidence_read)
next
  case (read_err l st e)
  then show ?case
    by (auto simp: evidence_def load_rejected_def load_caught_def finish_load_def)
qed (auto simp: evidence_def save_defs saveLayout_Inr)

lemma evidence_run:
  "store_run gw False st w st' \<Longrightarrow> evidence st u \<Longrightarrow> evidence st' (u @ w)"
proof (induction rule: store_run.induct)
  case (more st w st' v st'')
  from evidence_step [OF more.hyps(2) more.IH [OF more.prems]] show ?case by simp
qed simp

lemma evidence_initial: "evidence (initial_store c) []"
  by (simp add: evidence_def initial_store_def)

section \<open>Unknown widgets\<close>

definition renderable :: "(string \<Rightarrow> widget_def option) \<Rightarrow> layout_item \<Rightarrow> bool" where
  "renderable gw it \<longleftrightarrow>
    (case gw (item_id it) of
       None \<Rightarrow> False
     | Some d \<Rightarrow>
         missingParamKeys (def_params d) (case item_params it of None \<Rightarrow> [] | Some p \<Rightarrow> p) = [])"

lemma set_add_once [simp]: "set (add_once x xs) = insert x (set xs)"
  by (auto simp: add_once_def)

lemma distinct_add_once [simp]: "distinct (add_once x xs) = distinct xs"
  by (auto simp: add_once_def)

lemma drop_scan_spec:
  "case drop_scan gw its (kept, missing, unfilled) of (k, m, u) \<Rightarrow>
     k = kept @ filter (renderable gw) its \<and>
     set m = set missing \<union> item_id ` set (filter (\<lambda>it. gw (item_id it) = None) its) \<and>
     set u = set unfilled \<union>
       item_id ` set (filter (\<lambda>it. gw (item_id it) \<noteq> None \<and> \<not> renderable gw it) its) \<and>
     (distinct missing \<longrightarrow> distinct m) \<and> (distinct unfilled \<longrightarrow> distinct u)"
proof (induction its arbitrary: kept missing unfilled)
  case (Cons it its)
  consider (missing) "gw (item_id it) = None"
    | (unfilled) d where "gw (item_id it) = Some d" "\<not> renderable gw it"
    | (kept) d where "gw (item_id it) = Some d" "renderable gw it"
    by fastforce
  then show ?case
  proof cases
    case missing
    then have "\<not> renderable gw it" by (simp add: renderable_def)
    with missing Cons.IH [of kept "add_once (item_id it) missing" unfilled] show ?thesis by auto
  next
    case unfilled
    with Cons.IH [of kept missing "add_once (item_id it) unfilled"] show ?thesis
      by (auto simp: renderable_def)
  next
    case kept
    with Cons.IH [of "kept @ [it]" missing unfilled] show ?thesis
      by (auto simp: renderable_def)
  qed
qed simp

lemma dropUnknownWidgets_items:
  "config_items (fst (dropUnknownWidgets gw c)) = filter (renderable gw) (config_items c)"
  using drop_scan_spec [where its = "config_items c" and kept = "[]" and missing = "[]" and unfilled = "[]"
      and gw = gw]
  by (auto simp: dropUnknownWidgets_def split: prod.splits)

lemma warning_texts:
  "missing_warning i = missing_warning j \<longleftrightarrow> i = j"
  "unfilled_warning i = unfilled_warning j \<longleftrightarrow> i = j"
  by (simp_all add: missing_warning_def unfilled_warning_def)

definition offerable ::
  "(string \<Rightarrow> widget_def option) \<Rightarrow> string \<Rightarrow> string \<Rightarrow> int \<Rightarrow> layout_response \<Rightarrow> bool" where
  "offerable gw scope cur columns r \<longleftrightarrow>
    lr_clusterId r \<noteq> cur \<and>
    (\<exists>cfg. lr_config r = Some cfg \<and> config_scope cfg = scope \<and>
      schemaVersion cfg = DASHBOARD_LAYOUT_SCHEMA_VERSION \<and> config_columns cfg = columns \<and>
      (\<exists>it \<in> set (config_items cfg). renderable gw it))"

lemma copyable_row_Some:
  "(copyable_row gw scope cur columns r = None) = (\<not> offerable gw scope cur columns r)"
  "copyable_row gw scope cur columns r = Some row \<Longrightarrow>
   cp_id row = lr_id r \<and> (\<exists>cfg. lr_config r = Some cfg \<and>
     cp_config row = cfg\<lparr>config_items := filter (renderable gw) (config_items cfg)\<rparr>)"
proof -
  have d: "\<exists>ws. dropUnknownWidgets gw c =
      (c\<lparr>config_items := filter (renderable gw) (config_items c)\<rparr>, ws)" for c
    using dropUnknownWidgets_items [of gw c]
    by (auto simp: dropUnknownWidgets_def split: prod.splits)
  show "(copyable_row gw scope cur columns r = None) = (\<not> offerable gw scope cur columns r)"
  proof (cases "lr_config r")
    case (Some cfg)
    with d [of cfg] show ?thesis
      by (auto simp: copyable_row_def offerable_def Let_def filter_empty_conv split: if_splits)
  qed (simp add: copyable_row_def offerable_def)
  show "cp_id row = lr_id r \<and> (\<exists>cfg. lr_config r = Some cfg \<and>
     cp_config row = cfg\<lparr>config_items := filter (renderable gw) (config_items cfg)\<rparr>)"
    if row: "copyable_row gw scope cur columns r = Some row"
  proof (cases "lr_config r")
    case (Some cfg)
    with d [of cfg] row show ?thesis
      by (auto simp: copyable_row_def Let_def split: if_splits)
  qed (use row in \<open>simp add: copyable_row_def split: if_splits\<close>)
qed

section \<open>Properties\<close>

text \<open>
  Claim C5. Under every interleaving of loads, aborts, answers, failures and saves, as long as
  the cluster is not switched under a read, a write is only ever sent with the revision the
  server itself reported for that very scope and cluster, by a read that withheld nothing or by
  an earlier write. So a filtered layout is never written back, and never under the revision of
  another dashboard.
\<close>

theorem save_claims_what_was_observed:
  assumes "store_run gw False (initial_store c) w st"
    and "saveLayout scope config shipped st = Inr st'"
  shows "ReadAnswer scope (selectedCluster st) (layoutRevision st) [] \<in> set w \<or>
    PutAnswer scope (selectedCluster st) (layoutRevision st) \<in> set w"
  using evidence_run [OF assms(1) evidence_initial] assms(2)
  by (fastforce simp: evidence_def saveLayout_Inr)

definition sample_response :: "int \<Rightarrow> layout_response" where
  "sample_response r =
    \<lparr>lr_id = ''L'', lr_clusterId = ''local'', lr_clusterLabel = None, lr_updatedAt = ''t'',
     lr_revision = r, lr_config = Some (DEFAULT_OVERVIEW_LAYOUT\<lparr>config_items := []\<rparr>),
     lr_withheld = None\<rparr>"

definition no_widgets :: "string \<Rightarrow> widget_def option" where
  "no_widgets i = None"

definition first_read :: pending_load where
  "first_read =
    \<lparr>pl_id = 0, pl_scope = ''overview'', pl_cluster = ''local'', pl_startedAt = 0,
     pl_aborted = False\<rparr>"

definition loading_store :: store where
  "loading_store = loadLayout ''overview'' False (initial_store ''local'')"

definition loaded_store :: store where
  "loaded_store = load_resolved no_widgets first_read (Some (sample_response 5)) loading_store"

lemma loading_store_reads: "loads loading_store = [first_read]"
  by (simp add: loading_store_def loadLayout_def initial_store_def first_read_def)

lemma loaded_store_run:
  "store_run no_widgets False (initial_store ''local'') [ReadAnswer ''overview'' ''local'' 5 []]
    loaded_store"
proof -
  have "store_run no_widgets False (initial_store ''local'') ([] @ []) loading_store"
    unfolding loading_store_def by (rule store_run.more [OF store_run.stay store_step.load])
  moreover have "store_step no_widgets False loading_store
      [ReadAnswer (pl_scope first_read) (pl_cluster first_read)
        (answer_revision (Some (sample_response 5))) (answer_withheld (Some (sample_response 5)))]
      loaded_store"
    unfolding loaded_store_def by (intro store_step.read_ok) (simp add: loading_store_reads)
  ultimately show ?thesis
    using store_run.more
    by (fastforce simp: answer_revision_def answer_withheld_def sample_response_def first_read_def)
qed

lemma loaded_store_fields:
  "observed loaded_store = Some (''overview'', ''local'')" "layoutWithheld loaded_store = []"
  "selectedCluster loaded_store = ''local''" "layoutRevision loaded_store = 5"
  "loads loaded_store = []" "saves loaded_store = []" "commitSeq loaded_store = 1"
  "next_id loaded_store = 1" "inFlight loaded_store = None"
  by (simp_all add: loaded_store_def loading_store_def load_defs initial_store_def first_read_def
      layoutFromResponse_def sample_response_def dropUnknownWidgets_def)

theorem save_claims_what_was_observed_witness:
  "\<exists>st'. saveLayout ''overview'' DEFAULT_OVERVIEW_LAYOUT False loaded_store = Inr st' \<and>
     (ReadAnswer ''overview'' ''local'' 5 [] \<in> set [ReadAnswer ''overview'' ''local'' 5 []] \<or>
      PutAnswer ''overview'' ''local'' 5 \<in> set [ReadAnswer ''overview'' ''local'' 5 []])"
proof -
  obtain st' where s: "saveLayout ''overview'' DEFAULT_OVERVIEW_LAYOUT False loaded_store = Inr st'"
    by (simp add: saveLayout_Inr loaded_store_fields)
  from save_claims_what_was_observed [OF loaded_store_run s] s show ?thesis
    by (simp add: loaded_store_fields)
qed

text \<open>
  Claim C38. A read can never roll back a write: once a save has committed, a read that was
  already in flight leaves every signal of the store as it is, whether it answers or fails, no
  matter what else happens in between.
\<close>

theorem read_before_save_never_lands:
  assumes "store_run gw free (initial_store c) w st" "l \<in> set (loads st)" "s \<in> set (saves st)"
    and "store_run gw free (save_resolved s saved st) w' st'" "l' \<in> set (loads st')"
    and "pl_id l' = pl_id l"
  shows "signals (load_resolved gw l' res st') = signals st' \<and>
    signals (load_rejected l' e st') = signals st'"
proof -
  have ok: "reads_ok st" by (rule reads_ok_run [OF assms(1) reads_ok_initial])
  have "outdated (next_id st) (Suc (commitSeq st)) st'"
    by (rule outdated_run [OF assms(4) save_resolved_outdates [OF ok]])
  from outdated_read_is_silent [OF this assms(5)] ok assms(2,6) show ?thesis
    by (auto simp: reads_ok_def)
qed

definition second_read :: pending_load where
  "second_read =
    \<lparr>pl_id = 1, pl_scope = ''overview'', pl_cluster = ''local'', pl_startedAt = 1,
     pl_aborted = False\<rparr>"

definition first_save :: pending_save where
  "first_save =
    \<lparr>ps_id = 2, ps_scope = ''overview'', ps_cluster = ''local'', ps_revision = 5,
     ps_config = DEFAULT_OVERVIEW_LAYOUT, ps_shipped = False\<rparr>"

definition reloading_store :: store where
  "reloading_store = loadLayout ''overview'' False loaded_store"

definition saving_store :: store where
  "saving_store = reloading_store\<lparr>saves := [first_save], next_id := 3\<rparr>"

lemma saving_store_reads: "loads saving_store = [second_read]" "saves saving_store = [first_save]"
  by (simp_all add: saving_store_def reloading_store_def loadLayout_def loaded_store_fields
      second_read_def)

lemma saving_store_from:
  "saveLayout ''overview'' DEFAULT_OVERVIEW_LAYOUT False reloading_store = Inr saving_store"
  by (simp add: saveLayout_Inr saving_store_def reloading_store_def loadLayout_def
      loaded_store_fields first_save_def)

lemma saving_store_run: "\<exists>w. store_run no_widgets False (initial_store ''local'') w saving_store"
proof -
  have "store_run no_widgets False (initial_store ''local'')
      ([ReadAnswer ''overview'' ''local'' 5 []] @ []) reloading_store"
    unfolding reloading_store_def
    by (rule store_run.more [OF loaded_store_run store_step.load])
  from store_run.more [OF this store_step.save [OF saving_store_from]] show ?thesis by blast
qed

theorem read_before_save_never_lands_witness:
  "let st = save_resolved first_save (sample_response 6) saving_store
   in second_read \<in> set (loads st) \<and> layoutRevision st = 6 \<and>
      signals (load_resolved no_widgets second_read (Some (sample_response 5)) st) = signals st"
proof -
  let ?st = "save_resolved first_save (sample_response 6) saving_store"
  obtain w where "store_run no_widgets False (initial_store ''local'') w saving_store" using saving_store_run by blast
  moreover have "second_read \<in> set (loads ?st)" "layoutRevision ?st = 6"
    by (simp_all add: save_resolved_def finish_save_def saving_store_reads sample_response_def)
  ultimately show ?thesis
    using read_before_save_never_lands [of no_widgets False "''local''" w saving_store second_read first_save
        "sample_response 6" "[]" ?st second_read] store_run.stay
    by (simp add: saving_store_reads Let_def)
qed

text \<open>
  At any moment at most one read can still land: every other read in flight has been
  aborted, and an aborted read changes nothing when it answers or fails.
\<close>

theorem only_newest_read_lands:
  assumes "store_run gw free (initial_store c) w st" "l \<in> set (loads st)" "k \<in> set (loads st)"
    and "l \<noteq> k"
  shows "(pl_aborted l \<and> signals (load_resolved gw l res st) = signals st \<and>
      signals (load_rejected l e st) = signals st) \<or>
    (pl_aborted k \<and> signals (load_resolved gw k res st) = signals st \<and>
      signals (load_rejected k e st) = signals st)"
proof -
  have silent: "signals (load_resolved gw m res st) = signals st \<and>
      signals (load_rejected m e st) = signals st" if "pl_aborted m" for m
    using that
    by (simp add: load_resolved_def load_rejected_def load_caught_def finish_load_def signals_def)
  have ok: "reads_ok st" by (rule reads_ok_run [OF assms(1) reads_ok_initial])
  then have "pl_id l \<noteq> pl_id k" using assms(2-4) by (auto simp: reads_ok_def distinct_map inj_on_def)
  then have "pl_aborted l \<or> pl_aborted k"
    using ok assms(2,3) by (auto simp: reads_ok_def) (metis option.inject)
  with silent show ?thesis by blast
qed

definition twice_loading :: store where
  "twice_loading = loadLayout ''overview'' False loading_store"

text \<open>
  A failed save does not by itself force a fresh read: a read that was in flight before
  the save, answering after the failure with the revision from before it, brings the store back to
  accepting a save under that revision, with no read issued since the failure.
\<close>

theorem failed_save_leaves_old_read_in_force:
  "observed (save_rejected first_save saving_store) = None \<and>
   (\<exists>st'. saveLayout ''overview'' DEFAULT_OVERVIEW_LAYOUT False
      (load_resolved no_widgets second_read (Some (sample_response 5))
        (save_rejected first_save saving_store)) = Inr st' \<and>
      layoutRevision st' = 5)"
  by (simp add: save_rejected_def finish_save_def saving_store_def reloading_store_def load_defs
      loaded_store_fields saveLayout_Inr second_read_def first_save_def layoutFromResponse_def
      sample_response_def dropUnknownWidgets_def)

text \<open>The answer to a read just issued, when the selection has moved under it.\<close>

lemma moved_read:
  fixes st :: store and scope B :: string and n :: int and gw
  defines "A \<equiv> selectedCluster st" and "loading \<equiv> loadLayout scope False st"
  defines "l \<equiv> \<lparr>pl_id = next_id st, pl_scope = scope, pl_cluster = A, pl_startedAt = commitSeq st, pl_aborted = False\<rparr>"
  defines "answered \<equiv> load_resolved gw l (Some (sample_response n)) (loading\<lparr>selectedCluster := B\<rparr>)"
  shows "l \<in> set (loads loading)" "observed answered = Some (scope, B)" "layoutWithheld answered = []"
    "selectedCluster answered = B" "layoutRevision answered = n"
  by (simp_all add: answered_def loading_def l_def A_def load_defs layoutFromResponse_def sample_response_def
      dropUnknownWidgets_def split: option.split prod.split)

text \<open>
  Claim C39. Without the restriction to a selection that rests while a read is in flight, a save can
  claim a revision of another cluster. The store names the cluster it describes when an answer
  arrives, not when the read was sent: whatever happened before, a read may be answered by the
  cluster selected then with any revision after the selection has moved to any other cluster, and
  the store lets a save of any layout go out to that cluster under that revision.
\<close>

theorem switch_under_read_misattributes:
  assumes "store_run gw True (initial_store c) w st"
  shows "\<exists>st'. store_run gw True (initial_store c)
      (w @ [ReadAnswer scope (selectedCluster st) n [], PutSent scope B n config]) st' \<and> selectedCluster st' = B"
proof -
  let ?l = "\<lparr>pl_id = next_id st, pl_scope = scope, pl_cluster = selectedCluster st, pl_startedAt = commitSeq st,
    pl_aborted = False\<rparr>"
  let ?moved = "(loadLayout scope False st)\<lparr>selectedCluster := B\<rparr>"
  let ?answered = "load_resolved gw ?l (Some (sample_response n)) ?moved"
  note m = moved_read(1) [of st scope] moved_read(2-5) [of gw st scope n B]
  have "store_run gw True (initial_store c) ((w @ []) @ []) ?moved"
    by (rule store_run.more [OF store_run.more [OF assms store_step.load] store_step.switch]) simp
  from store_run.more [OF this store_step.read_ok, of ?l "Some (sample_response n)"] m(1)
  have "store_run gw True (initial_store c) (w @ [ReadAnswer scope (selectedCluster st) n []]) ?answered"
    by (simp add: answer_revision_def answer_withheld_def sample_response_def)
  from store_run.more [OF this store_step.save [OF saveLayout_Inr [THEN iffD2]], of scope] m(2-5)
  show ?thesis by fastforce
qed

theorem switch_under_read_misattributes_witness:
  "\<exists>st. store_run no_widgets True (initial_store ''local'')
     ([] @ [ReadAnswer ''overview'' ''local'' 5 [], PutSent ''overview'' ''prod'' 5 DEFAULT_OVERVIEW_LAYOUT]) st \<and>
     selectedCluster st = ''prod''"
  using switch_under_read_misattributes [OF store_run.stay, of no_widgets "''local''" "''overview''" 5 "''prod''"
      DEFAULT_OVERVIEW_LAYOUT]
  by (simp add: initial_store_def)

text \<open>
  Reading a stored layout keeps exactly the placements this build can render, in their
  order, and warns exactly once about every widget it had to drop, first the unknown ones, then
  those stored without the values they need.
\<close>

theorem dropUnknownWidgets_correct:
  "\<exists>missing unfilled.
     dropUnknownWidgets gw c =
       (c\<lparr>config_items := filter (renderable gw) (config_items c)\<rparr>,
        map missing_warning missing @ map unfilled_warning unfilled) \<and>
     distinct missing \<and> distinct unfilled \<and>
     set missing = {i. gw i = None \<and> (\<exists>it \<in> set (config_items c). item_id it = i)} \<and>
     set unfilled = {i. gw i \<noteq> None \<and>
       (\<exists>it \<in> set (config_items c). item_id it = i \<and> \<not> renderable gw it)}"
proof -
  obtain k m u where d: "drop_scan gw (config_items c) ([], [], []) = (k, m, u)"
    by (cases "drop_scan gw (config_items c) ([], [], [])")
  have "k = filter (renderable gw) (config_items c)"
    "set m = item_id ` set (filter (\<lambda>it. gw (item_id it) = None) (config_items c))"
    "set u = item_id ` set (filter (\<lambda>it. gw (item_id it) \<noteq> None \<and> \<not> renderable gw it) (config_items c))"
    "distinct m" "distinct u"
    using drop_scan_spec [where its = "config_items c" and kept = "[]" and missing = "[]"
        and unfilled = "[]" and gw = gw] by (simp_all add: d)
  then show ?thesis
    by (intro exI [of _ m] exI [of _ u]) (auto simp: dropUnknownWidgets_def d)
qed

text \<open>
  The copy dialog offers exactly the records of other clusters that hold a layout of
  this scope, schema and column count with at least one widget this build can render, in the
  server's order, and each offer carries exactly the renderable placements.
\<close>

theorem copyableLayouts_correct:
  "map cp_id (copyableLayouts gw records scope cur columns) =
     map lr_id (filter (offerable gw scope cur columns) records) \<and>
   list_all2 (\<lambda>row r. \<exists>cfg. lr_config r = Some cfg \<and>
       cp_config row = cfg\<lparr>config_items := filter (renderable gw) (config_items cfg)\<rparr>)
     (copyableLayouts gw records scope cur columns)
     (filter (offerable gw scope cur columns) records)"
proof (induction records)
  case (Cons r records)
  show ?case
  proof (cases "copyable_row gw scope cur columns r")
    case None
    with copyable_row_Some(1) [of gw scope cur columns r] Cons show ?thesis
      by (simp add: copyableLayouts_def map_filter_simps)
  next
    case (Some row)
    with copyable_row_Some(1) [of gw scope cur columns r] copyable_row_Some(2) [OF Some] Cons
    show ?thesis by (simp add: copyableLayouts_def map_filter_simps)
  qed
qed (simp add: copyableLayouts_def map_filter_simps)

text \<open>
  The shipped layout is one the editor can work on and the server accepts: settled,
  on the grid, with distinct ids, within the item and row caps, so the first paint moves nothing.
\<close>

theorem default_layout_settled:
  "editable (config_items (defaultLayoutFor scope)) \<and>
   compact (config_items (defaultLayoutFor scope)) = config_items (defaultLayoutFor scope) \<and>
   layoutHeight (config_items (defaultLayoutFor scope)) \<le> DASHBOARD_MAX_ROWS \<and>
   length (config_items (defaultLayoutFor scope)) \<le> DASHBOARD_MAX_ITEMS"
proof -
  have "editable (config_items DEFAULT_OVERVIEW_LAYOUT)"
    by (simp add: DEFAULT_OVERVIEW_LAYOUT_def shipped_item_def editable_def workable_def on_grid_def
        legal_rows_def positive_sizes_def DASHBOARD_COLUMNS_def)
  moreover have "compact (config_items DEFAULT_OVERVIEW_LAYOUT) = config_items DEFAULT_OVERVIEW_LAYOUT"
    by code_simp
  moreover have "layoutHeight (config_items DEFAULT_OVERVIEW_LAYOUT) \<le> DASHBOARD_MAX_ROWS" by code_simp
  moreover have "length (config_items DEFAULT_OVERVIEW_LAYOUT) \<le> DASHBOARD_MAX_ITEMS" by code_simp
  ultimately show ?thesis by (simp add: defaultLayoutFor_def)
qed

end
