(* ===== verification/Json.thy ===== *)
theory Json
  imports Prelude
begin

text \<open>
  Values that arrive over the wire, and the narrowing helpers every dashboard module reads them
  through (\<open>src/frontend/lib/dashboard/narrow.ts\<close>). \<open>None\<close> is \<open>undefined\<close>, the value of a
  field that is not there.
\<close>

datatype json =
    JNull
  | JBool bool
  | JNum jsnum
  | JStr string
  | JArr "json list"
  | JObj "(string \<times> json) list"

text \<open>\<open>value[field]\<close> on a record, \<open>value?.[field]\<close> on an optional one.\<close>

definition field :: "string \<Rightarrow> (string \<times> json) list \<Rightarrow> json option" where
  "field k fs = map_of fs k"

definition opt_field :: "string \<Rightarrow> (string \<times> json) list option \<Rightarrow> json option" where
  "opt_field k fs = (case fs of None \<Rightarrow> None | Some f \<Rightarrow> field k f)"

definition obj :: "json option \<Rightarrow> (string \<times> json) list option" where
  "obj v = (case v of Some (JObj fs) \<Rightarrow> Some fs | _ \<Rightarrow> None)"

definition str :: "json option \<Rightarrow> string" where
  "str v = (case v of Some (JStr s) \<Rightarrow> s | _ \<Rightarrow> [])"

definition num :: "json option \<Rightarrow> rat option" where
  "num v = (case v of Some (JNum (Num r)) \<Rightarrow> Some r | _ \<Rightarrow> None)"

definition numOr :: "json option \<Rightarrow> rat \<Rightarrow> rat" where
  "numOr v fallback = (case v of Some (JNum (Num r)) \<Rightarrow> r | _ \<Rightarrow> fallback)"

definition list_of :: "json option \<Rightarrow> json list option" where
  "list_of v = (case v of Some (JArr xs) \<Rightarrow> Some xs | _ \<Rightarrow> None)"

definition listOr :: "json option \<Rightarrow> json list" where
  "listOr v = (case v of Some (JArr xs) \<Rightarrow> xs | _ \<Rightarrow> [])"

text \<open>The two readings of a number and of a list agree wherever the value is readable.\<close>

lemma numOr_num: "numOr v d = (case num v of None \<Rightarrow> d | Some r \<Rightarrow> r)"
  by (simp add: numOr_def num_def split: option.split json.split jsnum.split)

lemma listOr_list_of: "listOr v = (case list_of v of None \<Rightarrow> [] | Some xs \<Rightarrow> xs)"
  by (simp add: listOr_def list_of_def split: option.split json.split)

lemma obj_refuses_arrays [simp]:
  "obj (Some (JArr xs)) = None" "obj (Some JNull) = None" "obj None = None"
  "obj (Some (JObj fs)) = Some fs"
  by (simp_all add: obj_def)

end
