(* ===== verification/Widget_State.thy ===== *)
theory Widget_State
  imports Json Params
begin

text \<open>
  What one dashboard card shows (\<open>src/frontend/lib/dashboard/widget-state.ts\<close>), with the choice
  of its display mode (\<open>display-mode.ts\<close>) and the pod-status segments (\<open>pod-status.ts\<close>).
\<close>

section \<open>Source states\<close>

record source_state =
  ss_data :: "json option"
  ss_error :: "string option"
  ss_errorKind :: "source_error_kind option"
  ss_loading :: bool
  ss_range :: "string option"

definition IDLE :: source_state where
  "IDLE = \<lparr>ss_data = None, ss_error = None, ss_errorKind = None, ss_loading = False, ss_range = None\<rparr>"

definition sourcesOf :: "widget_def \<Rightarrow> string list" where
  "sourcesOf d =
    (case familyStatus d of
       None \<Rightarrow> def_sources d
     | Some f \<Rightarrow> if f \<in> set (def_sources d) then def_sources d else def_sources d @ [f])"

text \<open>The \<open>detected\<close> field of a payload that is an object; an array has no such field.\<close>

definition object_field :: "string \<Rightarrow> json \<Rightarrow> json option" where
  "object_field k v = (case v of JObj fs \<Rightarrow> field k fs | _ \<Rightarrow> None)"

definition featurePresent :: "json \<Rightarrow> bool" where
  "featurePresent v =
    (case object_field ''detected'' v of
       None \<Rightarrow> False
     | Some d \<Rightarrow> d \<noteq> JNull \<and> d \<noteq> JBool False \<and> d \<noteq> JStr [])"

definition PRESENCE_UNKNOWN_REASONS :: "string list" where
  "PRESENCE_UNKNOWN_REASONS =
    [''unreachable'', ''discovery_unavailable'', ''credentials_invalid'', ''cluster_unknown'',
     ''db_unavailable'']"

definition presenceUnknown :: "json \<Rightarrow> bool" where
  "presenceUnknown v =
    (if featurePresent v then False
     else
       (case object_field ''reason'' v of
          Some (JStr r) \<Rightarrow> r \<in> set PRESENCE_UNKNOWN_REASONS
        | _ \<Rightarrow> False))"

section \<open>Resolution\<close>

datatype widget_state =
    W_loading | W_permission | W_error | W_unavailable | W_unreachable | W_unsupported | W_ready

record widget_resolution =
  wr_state :: widget_state
  wr_blocking :: "source_state option"
  wr_stale :: "source_state option"

definition required_keys :: "widget_def \<Rightarrow> params \<Rightarrow> string list" where
  "required_keys d ps =
    (let optional = (case optionalSources d of None \<Rightarrow> [] | Some os \<Rightarrow> os)
     in map (\<lambda>k. sourceKeyFor k ps)
          (filter (\<lambda>k. Some k = familyStatus d \<or> k \<notin> set optional) (sourcesOf d)))"

definition resolve_required ::
  "widget_def \<Rightarrow> (string \<Rightarrow> source_state) \<Rightarrow> params \<Rightarrow> widget_resolution" where
  "resolve_required d stateOf ps =
    (let requiredStates = map stateOf (required_keys d ps)
     in if list_all (\<lambda>s. ss_data s \<noteq> None) requiredStates
        then
          \<lparr>wr_state = W_ready, wr_blocking = None,
           wr_stale = find (\<lambda>s. ss_error s \<noteq> None \<and> ss_data s \<noteq> None)
             (map (\<lambda>k. stateOf (sourceKeyFor k ps)) (sourcesOf d))\<rparr>
        else
          (case find (\<lambda>s. ss_errorKind s = Some Absent) requiredStates of
             Some _ \<Rightarrow> \<lparr>wr_state = W_unavailable, wr_blocking = None, wr_stale = None\<rparr>
           | None \<Rightarrow>
          (case find (\<lambda>s. ss_errorKind s = Some Unsupported) requiredStates of
             Some s \<Rightarrow> \<lparr>wr_state = W_unsupported, wr_blocking = Some s, wr_stale = None\<rparr>
           | None \<Rightarrow>
          (case find (\<lambda>s. ss_errorKind s = Some Permission) requiredStates of
             Some s \<Rightarrow> \<lparr>wr_state = W_permission, wr_blocking = Some s, wr_stale = None\<rparr>
           | None \<Rightarrow>
          (case find (\<lambda>s. ss_error s \<noteq> None) requiredStates of
             Some s \<Rightarrow> \<lparr>wr_state = W_error, wr_blocking = Some s, wr_stale = None\<rparr>
           | None \<Rightarrow> \<lparr>wr_state = W_loading, wr_blocking = None, wr_stale = None\<rparr>)))))"

definition resolveWidgetState ::
  "widget_def \<Rightarrow> (string \<Rightarrow> source_state) \<Rightarrow> params \<Rightarrow> widget_resolution" where
  "resolveWidgetState d stateOf ps =
    (case (case familyStatus d of None \<Rightarrow> None | Some f \<Rightarrow> ss_data (stateOf (sourceKeyFor f ps))) of
       Some v \<Rightarrow>
         if \<not> featurePresent v
         then \<lparr>wr_state = (if presenceUnknown v then W_unreachable else W_unavailable),
               wr_blocking = None, wr_stale = None\<rparr>
         else resolve_required d stateOf ps
     | None \<Rightarrow> resolve_required d stateOf ps)"

section \<open>Display modes and segments\<close>

fun THRESHOLDS :: "display_mode \<Rightarrow> rat \<times> rat" where
  "THRESHOLDS Compact = (0, 0)"
| "THRESHOLDS Normal = (280, 160)"
| "THRESHOLDS Expanded = (520, 320)"

definition mode_fits :: "rat \<Rightarrow> rat \<Rightarrow> display_mode \<Rightarrow> bool" where
  "mode_fits width height m \<longleftrightarrow> width \<ge> fst (THRESHOLDS m) \<and> height \<ge> snd (THRESHOLDS m)"

definition wanted_mode :: "rat \<Rightarrow> rat \<Rightarrow> display_mode" where
  "wanted_mode width height =
    foldl (\<lambda>wanted m. if mode_fits width height m then m else wanted) Compact DISPLAY_MODES"

fun mode_index :: "display_mode \<Rightarrow> nat" where
  "mode_index Compact = 0"
| "mode_index Normal = 1"
| "mode_index Expanded = 2"

definition pickMode :: "display_mode list \<Rightarrow> rat \<Rightarrow> rat \<Rightarrow> display_mode" where
  "pickMode modes width height =
    (if modes = [] then Normal
     else
       (let i = mode_index (wanted_mode width height)
        in case find (\<lambda>m. m \<in> set modes) (rev (take (i + 1) DISPLAY_MODES)) of
             Some m \<Rightarrow> m
           | None \<Rightarrow>
               (case find (\<lambda>m. m \<in> set modes) (drop (i + 1) DISPLAY_MODES) of
                  Some m \<Rightarrow> m
                | None \<Rightarrow> Normal)))"

definition podStatusSegments :: "rat \<Rightarrow> rat \<Rightarrow> rat \<Rightarrow> (rat \<times> string) list" where
  "podStatusSegments running pending failed =
    (if running + pending + failed > 0 then
       [(running, ''var(--success)''), (pending, ''var(--warning)''), (failed, ''var(--error)'')]
     else [(1, ''var(--border-subtle)'')])"

section \<open>Lemmas\<close>

lemma presenceUnknown_negative: "presenceUnknown v \<Longrightarrow> \<not> featurePresent v"
  by (simp add: presenceUnknown_def split: if_splits)

lemma find_kind: "find P xs = Some s \<Longrightarrow> s \<in> set xs \<and> P s"
  by (auto simp: find_Some_iff)

lemma resolve_required_ready:
  "wr_state (resolve_required d st ps) = W_ready \<longleftrightarrow> (\<forall>k \<in> set (required_keys d ps). ss_data (st k) \<noteq> None)"
  by (auto simp: resolve_required_def Let_def list_all_iff split: option.split)

lemma resolve_required_states:
  assumes "\<not> (\<forall>k \<in> set (required_keys d ps). ss_data (st k) \<noteq> None)"
  shows "wr_state (resolve_required d st ps) =
    (if \<exists>k \<in> set (required_keys d ps). ss_errorKind (st k) = Some Absent then W_unavailable
     else if \<exists>k \<in> set (required_keys d ps). ss_errorKind (st k) = Some Unsupported then W_unsupported
     else if \<exists>k \<in> set (required_keys d ps). ss_errorKind (st k) = Some Permission then W_permission
     else if \<exists>k \<in> set (required_keys d ps). ss_error (st k) \<noteq> None then W_error
     else W_loading)"
  using assms
  by (auto simp: resolve_required_def Let_def list_all_iff find_None_iff dest!: find_kind
      split: option.split) blast

section \<open>Properties\<close>

text \<open>
  A card is drawn from its data exactly when the family it belongs to is not reported
  absent and every source it requires has data; an absent feature is never shown as a healthy
  empty card, and a failed source that still holds data never takes a card away.
\<close>

theorem widget_ready_iff:
  "wr_state (resolveWidgetState d st ps) = W_ready \<longleftrightarrow>
   (\<forall>f v. \<not> (familyStatus d = Some f \<and> ss_data (st (sourceKeyFor f ps)) = Some v \<and>
      \<not> featurePresent v)) \<and>
   \<not> (\<exists>k \<in> set (required_keys d ps). ss_data (st k) = None)"
  using resolve_required_ready [of d st ps]
  by (auto simp: resolveWidgetState_def split: option.split)

text \<open>
  When a required source is missing its data, the card states the most standing reason
  there is: not served here, then not answerable, then not permitted, then failed, and only with
  none of these that it is still loading. A retry is therefore never offered over a refusal.
\<close>

theorem widget_state_precedence:
  assumes "familyStatus d = None \<or>
      (\<exists>f. familyStatus d = Some f \<and> (\<forall>v. ss_data (st (sourceKeyFor f ps)) = Some v \<longrightarrow> featurePresent v))"
    and "\<exists>k \<in> set (required_keys d ps). ss_data (st k) = None"
  shows "wr_state (resolveWidgetState d st ps) =
    (if \<exists>k \<in> set (required_keys d ps). ss_errorKind (st k) = Some Absent then W_unavailable
     else if \<exists>k \<in> set (required_keys d ps). ss_errorKind (st k) = Some Unsupported then W_unsupported
     else if \<exists>k \<in> set (required_keys d ps). ss_errorKind (st k) = Some Permission then W_permission
     else if \<exists>k \<in> set (required_keys d ps). ss_error (st k) \<noteq> None then W_error
     else W_loading)"
proof -
  have "resolveWidgetState d st ps = resolve_required d st ps"
    using assms(1) by (auto simp: resolveWidgetState_def split: option.split)
  with resolve_required_states [of d ps st] assms(2) show ?thesis by simp
qed

definition two_source_widget :: widget_def where
  "two_source_widget =
    \<lparr>def_id = ''w'', def_title = ''W'', def_family = ''workloads'', def_scopes = [''overview''],
     def_sources = [''nodes'', ''events''], optionalSources = None, familyStatus = None,
     adminOnly = False, minW = 1, minH = 1, defaultW = 1, defaultH = 1, def_params = None,
     def_modes = [Normal]\<rparr>"

definition refused_and_failed :: "string \<Rightarrow> source_state" where
  "refused_and_failed k =
    IDLE\<lparr>ss_error := Some ''no'',
      ss_errorKind := Some (if k = ''events'' then Permission else Failure)\<rparr>"

lemma ball_display_modes:
  "(\<forall>k \<in> set modes. P k) \<longleftrightarrow>
   (Compact \<in> set modes \<longrightarrow> P Compact) \<and> (Normal \<in> set modes \<longrightarrow> P Normal) \<and>
   (Expanded \<in> set modes \<longrightarrow> P Expanded)"
    (is "_ \<longleftrightarrow> ?R")
proof
  assume R: ?R
  show "\<forall>k \<in> set modes. P k"
  proof
    show "P k" if "k \<in> set modes" for k using R that by (cases k) simp_all
  qed
qed simp

lemma fits_smaller:
  "mode_fits width height Expanded \<Longrightarrow> mode_fits width height Normal"
  "mode_fits width height Normal \<Longrightarrow> mode_fits width height Compact"
  by (auto simp: mode_fits_def)

text \<open>
  A card is never blank: with at least one mode implemented, the display mode is an
  implemented one, the largest that fits the box, and the smallest when none fits.
\<close>

theorem pickMode_correct:
  assumes "m \<in> set modes"
  shows "pickMode modes width height \<in> set modes \<and>
    (mode_fits width height m \<longrightarrow>
      mode_index m \<le> mode_index (pickMode modes width height) \<and>
      mode_fits width height (pickMode modes width height)) \<and>
    ((\<forall>k \<in> set modes. \<not> mode_fits width height k) \<longrightarrow>
      mode_index (pickMode modes width height) \<le> mode_index m)"
proof -
  have ne: "modes \<noteq> []" using assms by auto
  consider "mode_fits width height Expanded" "mode_fits width height Normal" "mode_fits width height Compact"
    | "\<not> mode_fits width height Expanded" "mode_fits width height Normal" "mode_fits width height Compact"
    | "\<not> mode_fits width height Expanded" "\<not> mode_fits width height Normal"
    using fits_smaller by blast
  then show ?thesis
    using assms ne unfolding ball_display_modes
    by cases (cases m; simp add: pickMode_def wanted_mode_def DISPLAY_MODES_def Let_def)+
qed

end
