(* ===== verification/Source_Cache.thy ===== *)
theory Source_Cache
  imports Widget_State "HOL-Library.Word"
begin

text \<open>
  The dashboard's data layer (\<open>src/frontend/lib/dashboard/data.ts\<close>): the request cache that
  \<open>createSourceCache\<close> builds, with the classification of failures and the refresh offsets.

  The closure's variables are one record. A request is an \<open>entry\<close>, told apart by its id as the
  source tells it apart by reference; \<open>wire\<close> holds the requests that have been issued and whose
  promise chain has not ended, each with whether its answer has been handled (the \<open>then\<close> and
  \<open>catch\<close> handlers run one microtask before the \<open>finally\<close> handler, and other code may run in
  between). The mutable flags of an entry are the id lists \<open>queued\<close>, \<open>aborted\<close> and
  \<open>timedOut\<close>. The fetchers are the environment: \<open>hf\<close> says which sources have one, and an answer
  is a JSON value or an error. Reading a key that was never written gives \<open>IDLE\<close>.
\<close>

unbundle bit_operations_syntax

section \<open>Offsets\<close>

definition NEGATIVE_RECHECK_TICKS :: nat where
  "NEGATIVE_RECHECK_TICKS = 10"

definition DASHBOARD_REFRESH_MS :: nat where
  "DASHBOARD_REFRESH_MS = 60000"

definition REQUEST_TIMEOUT_MS :: nat where
  "REQUEST_TIMEOUT_MS = DASHBOARD_REFRESH_MS div 2"

definition MAX_CONCURRENT_EXPENSIVE_FETCHES :: int where
  "MAX_CONCURRENT_EXPENSIVE_FETCHES = 6"

definition hash32 :: "string \<Rightarrow> 32 word" where
  "hash32 v = foldl (\<lambda>h c. (h XOR of_nat (of_char c)) * 0x01000193) 0x811c9dc5 v"

definition is_cheap :: "string \<Rightarrow> bool" where
  "is_cheap base \<longleftrightarrow> sourceCost base = Cheap"

text \<open>The window is \<open>Math.floor(intervalMs * 0.5)\<close> of a whole number of milliseconds.\<close>

definition sourceRefreshOffsetMs :: "string \<Rightarrow> nat \<Rightarrow> nat" where
  "sourceRefreshOffsetMs key intervalMs =
    (if is_cheap (fst (decodeSourceKey key)) then 0
     else
       (let window = intervalMs div 2
        in if window \<le> 0 then 0 else unat (hash32 key) mod window))"

section \<open>Failures\<close>

datatype source_failure =
    ApiFailure int "string option" string
  | AbortFailure string
  | OtherFailure string

fun messageOf :: "source_failure \<Rightarrow> string" where
  "messageOf (ApiFailure _ _ m) = m"
| "messageOf (AbortFailure m) = m"
| "messageOf (OtherFailure m) = m"

definition METRICS_NOT_CONFIGURED_REASON :: string where
  "METRICS_NOT_CONFIGURED_REASON = ''metrics_not_configured''"

definition METRICS_NOT_CONFIGURED_MESSAGE :: string where
  "METRICS_NOT_CONFIGURED_MESSAGE =
    ''Metrics are not configured for this cluster. Add a Prometheus binding in Clusters.''"

fun isMetricsNotConfigured :: "source_failure \<Rightarrow> bool" where
  "isMetricsNotConfigured (ApiFailure status reason _) =
    (status = 404 \<and> reason = Some METRICS_NOT_CONFIGURED_REASON)"
| "isMetricsNotConfigured _ = False"

fun isAbort :: "source_failure \<Rightarrow> bool" where
  "isAbort (AbortFailure _) = True"
| "isAbort _ = False"

definition status_listed :: "(string \<times> int list) list \<Rightarrow> string \<Rightarrow> int \<Rightarrow> bool" where
  "status_listed table base status =
    (case map_of table base of None \<Rightarrow> False | Some ss \<Rightarrow> status \<in> set ss)"

definition reason_kind :: "string \<Rightarrow> string option \<Rightarrow> source_error_kind option" where
  "reason_kind base reason =
    (case reason of
       None \<Rightarrow> None
     | Some r \<Rightarrow>
         if r = [] then None
         else (case map_of REASON_KINDS base of None \<Rightarrow> None | Some t \<Rightarrow> map_of t r))"

fun classify :: "source_failure \<Rightarrow> string \<Rightarrow> source_error_kind" where
  "classify (ApiFailure status reason m) base =
    (if isMetricsNotConfigured (ApiFailure status reason m) then Unsupported
     else if status = 403 then Permission
     else if status = 404 \<and> base \<in> set NOT_FOUND_IS_REFUSAL then Permission
     else
       (case reason_kind base reason of
          Some k \<Rightarrow> k
        | None \<Rightarrow>
            if status_listed ABSENT_STATUSES base status then Absent
            else if status_listed UNSUPPORTED_STATUSES base status then Unsupported
            else if status_listed AMBIGUOUS_REQUEST_STATUSES base status then Unsupported
            else Failure))"
| "classify _ base = Failure"

section \<open>The cache\<close>

record entry =
  e_id :: nat
  e_key :: string
  e_base :: string
  e_params :: params
  e_range :: string

record cache =
  states :: "(string \<times> source_state) list"
  in_flight :: "entry list"
  fetchedRange :: "(string \<times> string) list"
  retired :: "entry list"
  waiting :: "entry list"
  activeExpensive :: int
  offsetTimers :: "string list"
  wire :: "(entry \<times> bool) list"
  queued :: "nat list"
  aborted :: "nat list"
  timedOut :: "nat list"
  next_entry :: nat
  refreshTimer :: "nat option"
  refreshTick :: nat

definition empty_cache :: cache where
  "empty_cache =
    \<lparr>states = [], in_flight = [], fetchedRange = [], retired = [], waiting = [],
     activeExpensive = 0, offsetTimers = [], wire = [], queued = [], aborted = [], timedOut = [],
     next_entry = 0, refreshTimer = None, refreshTick = 0\<rparr>"

definition del_key :: "string \<Rightarrow> (string \<times> 'v) list \<Rightarrow> (string \<times> 'v) list" where
  "del_key k xs = filter (\<lambda>p. fst p \<noteq> k) xs"

text \<open>\<open>sig(key).value\<close> and assignment to it.\<close>

definition state_of :: "cache \<Rightarrow> string \<Rightarrow> source_state" where
  "state_of st key = (case map_of (states st) key of None \<Rightarrow> IDLE | Some s \<Rightarrow> s)"

definition set_state :: "string \<Rightarrow> source_state \<Rightarrow> cache \<Rightarrow> cache" where
  "set_state key s st = st\<lparr>states := set_key key s (states st)\<rparr>"

definition pending_for :: "cache \<Rightarrow> string \<Rightarrow> entry option" where
  "pending_for st key = find (\<lambda>e. e_key e = key) (in_flight st)"

definition put_entry :: "entry \<Rightarrow> entry list \<Rightarrow> entry list" where
  "put_entry e es =
    (if list_ex (\<lambda>x. e_key x = e_key e) es
     then map (\<lambda>x. if e_key x = e_key e then e else x) es else es @ [e])"

definition del_entry :: "string \<Rightarrow> entry list \<Rightarrow> entry list" where
  "del_entry key es = filter (\<lambda>x. e_key x \<noteq> key) es"

definition takeSlot :: "cache \<Rightarrow> bool \<times> cache" where
  "takeSlot st =
    (if activeExpensive st \<ge> MAX_CONCURRENT_EXPENSIVE_FETCHES then (False, st)
     else (True, st\<lparr>activeExpensive := activeExpensive st + 1\<rparr>))"

text \<open>Putting a request on the wire; what happens when it answers is below.\<close>

definition issue :: "entry \<Rightarrow> cache \<Rightarrow> cache" where
  "issue e st = st\<lparr>wire := wire st @ [(e, False)]\<rparr>"

definition admit :: "entry \<Rightarrow> cache \<Rightarrow> cache" where
  "admit e st = issue e (st\<lparr>queued := filter (\<lambda>i. i \<noteq> e_id e) (queued st)\<rparr>)"

definition releaseSlot :: "entry \<Rightarrow> cache \<Rightarrow> cache" where
  "releaseSlot e st =
    (if is_cheap (e_base e) then st
     else
       (case waiting st of
          [] \<Rightarrow> st\<lparr>activeExpensive := activeExpensive st - 1\<rparr>
        | n # ws \<Rightarrow> admit n (st\<lparr>waiting := ws\<rparr>)))"

definition finish :: "entry \<Rightarrow> cache \<Rightarrow> cache" where
  "finish e st =
    st\<lparr>in_flight := (if pending_for st (e_key e) = Some e then del_entry (e_key e) (in_flight st)
                     else in_flight st),
       retired := filter (\<lambda>x. x \<noteq> e) (retired st)\<rparr>"

definition dropQueued :: "entry \<Rightarrow> cache \<Rightarrow> cache" where
  "dropQueued e st =
    finish e (st\<lparr>waiting := filter (\<lambda>x. x \<noteq> e) (waiting st),
                 queued := filter (\<lambda>i. i \<noteq> e_id e) (queued st)\<rparr>)"

definition run :: "(string \<Rightarrow> bool) \<Rightarrow> string \<Rightarrow> string \<Rightarrow> cache \<Rightarrow> cache" where
  "run hf key rg st =
    (let (base, ps) = decodeSourceKey key
     in if \<not> hf base then st
        else
          (let st1 = (set_state key ((state_of st key)\<lparr>ss_loading := True\<rparr>) st)
                 \<lparr>fetchedRange := set_key key rg (fetchedRange st), next_entry := next_entry st + 1\<rparr>;
               e = \<lparr>e_id = next_entry st, e_key = key, e_base = base, e_params = ps, e_range = rg\<rparr>;
               (slot, st2) = (if is_cheap base then (True, st1) else takeSlot st1);
               st3 = (if slot then issue e st2
                      else st2\<lparr>queued := queued st2 @ [e_id e], waiting := waiting st2 @ [e]\<rparr>)
           in st3\<lparr>in_flight := put_entry e (in_flight st3)\<rparr>))"

definition retire :: "entry \<Rightarrow> cache \<Rightarrow> cache" where
  "retire e st =
    (let st1 = st\<lparr>in_flight := del_entry (e_key e) (in_flight st), retired := retired st @ [e],
                  aborted := e_id e # aborted st\<rparr>
     in if e_id e \<in> set (queued st1) then dropQueued e st1 else st1)"

definition settleAborted :: "string \<Rightarrow> cache \<Rightarrow> cache" where
  "settleAborted key st =
    (let s = state_of st key
     in set_state key (s\<lparr>ss_loading := False\<rparr>)
          (st\<lparr>fetchedRange := (case ss_range s of
                None \<Rightarrow> del_key key (fetchedRange st)
              | Some r \<Rightarrow> set_key key r (fetchedRange st))\<rparr>))"

section \<open>Answers\<close>

definition mark_handled :: "entry \<Rightarrow> cache \<Rightarrow> cache" where
  "mark_handled e st = st\<lparr>wire := map (\<lambda>(x, d). (x, d \<or> x = e)) (wire st)\<rparr>"

definition is_current :: "cache \<Rightarrow> entry \<Rightarrow> bool" where
  "is_current st e \<longleftrightarrow> pending_for st (e_key e) = Some e"

text \<open>A JSON \<open>null\<close> is no data.\<close>

definition answered :: "entry \<Rightarrow> json \<Rightarrow> cache \<Rightarrow> cache" where
  "answered e v st =
    mark_handled e
      (if \<not> is_current st e then st
       else set_state (e_key e)
              \<lparr>ss_data = (if v = JNull then None else Some v), ss_error = None, ss_errorKind = None,
               ss_loading = False, ss_range = Some (e_range e)\<rparr> st)"

definition failed :: "entry \<Rightarrow> source_failure \<Rightarrow> cache \<Rightarrow> cache" where
  "failed e err st =
    mark_handled e
      (if \<not> is_current st e then st
       else if e_id e \<notin> set (timedOut st) \<and> (isAbort err \<or> e_id e \<in> set (aborted st))
       then settleAborted (e_key e) st
       else set_state (e_key e)
              ((state_of st (e_key e))
                \<lparr>ss_error := Some (if isMetricsNotConfigured err then METRICS_NOT_CONFIGURED_MESSAGE
                                   else messageOf err),
                 ss_errorKind := Some (classify err (e_base e)), ss_loading := False\<rparr>) st)"

definition finalize :: "entry \<Rightarrow> cache \<Rightarrow> cache" where
  "finalize e st = finish e (releaseSlot e (st\<lparr>wire := filter (\<lambda>p. fst p \<noteq> e) (wire st)\<rparr>))"

definition deadline :: "entry \<Rightarrow> cache \<Rightarrow> cache" where
  "deadline e st = st\<lparr>timedOut := e_id e # timedOut st, aborted := e_id e # aborted st\<rparr>"

section \<open>Due keys\<close>

definition clearOffsetTimers :: "cache \<Rightarrow> cache" where
  "clearOffsetTimers st = st\<lparr>offsetTimers := []\<rparr>"

definition busyKeys :: "cache \<Rightarrow> string list" where
  "busyKeys st = map e_key (in_flight st) @ map e_key (retired st) @ offsetTimers st"

definition isDue :: "cache \<Rightarrow> string \<Rightarrow> string list \<Rightarrow> nat \<Rightarrow> bool" where
  "isDue st key busy tick =
    (if key \<in> set busy then False
     else
       (case (key \<in> set FAMILY_STATUS_KEYS, ss_data (state_of st key)) of
          (True, Some v) \<Rightarrow>
            if featurePresent v then False
            else if presenceUnknown v then True
            else tick mod NEGATIVE_RECHECK_TICKS = 0
        | _ \<Rightarrow> True))"

definition dueEntries :: "cache \<Rightarrow> nat \<Rightarrow> (string \<times> string) list" where
  "dueEntries st tick =
    (let busy = busyKeys st in filter (\<lambda>(key, rg). isDue st key busy tick) (fetchedRange st))"

section \<open>Operations\<close>

definition ensure_key :: "(string \<Rightarrow> bool) \<Rightarrow> string \<Rightarrow> string \<Rightarrow> cache \<Rightarrow> cache" where
  "ensure_key hf rg key st =
    (let sensitive = fst (decodeSourceKey key) \<in> set RANGE_SENSITIVE_KEYS
     in case pending_for st key of
          Some pending \<Rightarrow>
            if \<not> sensitive \<or> e_range pending = rg then st
            else run hf key rg (retire pending st)
        | None \<Rightarrow>
            (case map_of (fetchedRange st) key of
               None \<Rightarrow> run hf key rg st
             | Some previous \<Rightarrow> if sensitive \<and> previous \<noteq> rg then run hf key rg st else st))"

definition ensure :: "(string \<Rightarrow> bool) \<Rightarrow> string list \<Rightarrow> string \<Rightarrow> cache \<Rightarrow> cache" where
  "ensure hf keys rg st = foldl (\<lambda>s key. ensure_key hf rg key s) st keys"

definition run_all :: "(string \<Rightarrow> bool) \<Rightarrow> (string \<times> string) list \<Rightarrow> cache \<Rightarrow> cache" where
  "run_all hf due st = foldl (\<lambda>s (key, rg). run hf key rg s) st due"

definition refresh :: "(string \<Rightarrow> bool) \<Rightarrow> cache \<Rightarrow> cache" where
  "refresh hf st =
    (let st1 = clearOffsetTimers st in run_all hf (dueEntries st1 0) st1)"

definition retire_all :: "entry list \<Rightarrow> cache \<Rightarrow> cache" where
  "retire_all es st = foldl (\<lambda>s e. retire e s) st es"

definition forget_key :: "string \<Rightarrow> cache \<Rightarrow> cache" where
  "forget_key key st =
    st\<lparr>fetchedRange := del_key key (fetchedRange st),
       offsetTimers := filter (\<lambda>k. k \<noteq> key) (offsetTimers st),
       states := del_key key (states st)\<rparr>"

definition retain :: "string list \<Rightarrow> cache \<Rightarrow> cache" where
  "retain keys st =
    (let st1 = retire_all (filter (\<lambda>e. e_key e \<notin> set keys) (in_flight st)) st
     in foldl (\<lambda>s key. forget_key key s) st1
          (filter (\<lambda>key. key \<notin> set keys) (map fst (fetchedRange st1))))"

definition abort :: "cache \<Rightarrow> cache" where
  "abort st =
    (let st1 = clearOffsetTimers st
     in foldl (\<lambda>s e. settleAborted (e_key e) (retire e s)) st1 (in_flight st1))"

definition stopRefresh :: "cache \<Rightarrow> cache" where
  "stopRefresh st = clearOffsetTimers (st\<lparr>refreshTimer := None\<rparr>)"

definition startRefresh :: "nat \<Rightarrow> cache \<Rightarrow> cache" where
  "startRefresh intervalMs st =
    (stopRefresh st)\<lparr>refreshTimer := Some intervalMs, refreshTick := 0\<rparr>"

definition schedule :: "(string \<Rightarrow> bool) \<Rightarrow> nat \<Rightarrow> (string \<times> string) list \<Rightarrow> cache \<Rightarrow> cache" where
  "schedule hf intervalMs due st =
    foldl (\<lambda>s (key, rg).
        if sourceRefreshOffsetMs key intervalMs = 0 then run hf key rg s
        else s\<lparr>offsetTimers := (if key \<in> set (offsetTimers s) then offsetTimers s
                                else offsetTimers s @ [key])\<rparr>) st due"

text \<open>One firing of the interval, and of a key's own timer.\<close>

definition refresh_tick :: "(string \<Rightarrow> bool) \<Rightarrow> bool \<Rightarrow> cache \<Rightarrow> cache" where
  "refresh_tick hf hidden st =
    (case refreshTimer st of
       None \<Rightarrow> st
     | Some intervalMs \<Rightarrow>
         if hidden then st
         else
           (let st1 = st\<lparr>refreshTick := refreshTick st + 1\<rparr>
            in schedule hf intervalMs (dueEntries st1 (refreshTick st1)) st1))"

definition offset_fired :: "(string \<Rightarrow> bool) \<Rightarrow> string \<Rightarrow> cache \<Rightarrow> cache" where
  "offset_fired hf key st =
    (let st1 = st\<lparr>offsetTimers := filter (\<lambda>k. k \<noteq> key) (offsetTimers st)\<rparr>
     in case map_of (fetchedRange st1) key of
          None \<Rightarrow> st1
        | Some current \<Rightarrow> if \<not> isDue st1 key (busyKeys st1) 0 then st1 else run hf key current st1)"

text \<open>The loop condition of \<open>settled\<close>.\<close>

definition outstanding :: "cache \<Rightarrow> bool" where
  "outstanding st \<longleftrightarrow> in_flight st \<noteq> [] \<or> retired st \<noteq> []"

end
