(* ===== verification/Source_Cache_Books.thy ===== *)
theory Source_Cache_Books
  imports Source_Cache
begin

text \<open>
  The bookkeeping invariant of the request cache: every request that is outstanding is tracked in
  exactly one of \<open>in_flight\<close> and \<open>retired\<close>, every waiting request is the current one of its key
  and costs a slot, the counter is the number of slot-costing requests on the wire, it never
  passes the bound, and nobody waits while a slot is free. It is kept by every operation and by
  everything a request can do.
\<close>

abbreviation costs_slot :: "entry \<Rightarrow> bool" where
  "costs_slot e \<equiv> \<not> is_cheap (e_base e)"

definition books ::
  "entry list \<Rightarrow> entry list \<Rightarrow> entry list \<Rightarrow> entry list \<Rightarrow> nat list \<Rightarrow> int \<Rightarrow> nat \<Rightarrow> bool" where
  "books I R Q W ids a n \<longleftrightarrow>
    distinct (map e_id (W @ Q)) \<and> (\<forall>e \<in> set (W @ Q). e_id e < n) \<and> distinct (map e_key I) \<and>
    set I \<union> set R = set W \<union> set Q \<and> set I \<inter> set R = {} \<and> set Q \<subseteq> set I \<and>
    (\<forall>e \<in> set Q. costs_slot e) \<and> set ids = e_id ` set Q \<and>
    a = int (length (filter costs_slot W)) \<and> a \<le> MAX_CONCURRENT_EXPENSIVE_FETCHES \<and>
    (Q \<noteq> [] \<longrightarrow> a = MAX_CONCURRENT_EXPENSIVE_FETCHES)"

abbreviation on_wire :: "cache \<Rightarrow> entry list" where
  "on_wire st \<equiv> map fst (wire st)"

definition cache_inv :: "cache \<Rightarrow> bool" where
  "cache_inv st \<longleftrightarrow>
    books (in_flight st) (retired st) (waiting st) (on_wire st) (queued st) (activeExpensive st)
      (next_entry st)"

section \<open>Lists of entries\<close>

lemma find_key_iff:
  "distinct (map e_key I) \<Longrightarrow> find (\<lambda>x. e_key x = e_key e) I = Some e \<longleftrightarrow> e \<in> set I"
  by (induction I) (auto simp: image_iff)

lemma set_del_entry: "distinct (map e_key I) \<Longrightarrow> e \<in> set I \<Longrightarrow> set (del_entry (e_key e) I) = set I - {e}"
  by (auto simp: del_entry_def distinct_map inj_on_def)

lemma distinct_keys_del [simp]: "distinct (map e_key I) \<Longrightarrow> distinct (map e_key (del_entry k I))"
  by (simp add: del_entry_def distinct_map_filter)

lemma put_entry_new: "e_key e \<notin> e_key ` set I \<Longrightarrow> put_entry e I = I @ [e]"
  by (auto simp: put_entry_def list_ex_iff) (metis imageI)

lemma filter_out_one:
  assumes "distinct (map e_id W)" "e \<in> set W"
  shows "length (filter P W) = length (filter P (filter (\<lambda>x. x \<noteq> e) W)) + (if P e then 1 else 0)"
  using assms
proof (induction W)
  case (Cons x W)
  show ?case
  proof (cases "x = e")
    case True
    with Cons.prems have "e \<notin> set W" by auto
    then have "filter (\<lambda>y. y \<noteq> e) W = W" by (auto simp: filter_id_conv)
    with True show ?thesis by simp
  next
    case False
    with Cons show ?thesis by simp
  qed
qed simp

lemma entry_ids_inj:
  "distinct (map e_id xs) \<Longrightarrow> x \<in> set xs \<Longrightarrow> y \<in> set xs \<Longrightarrow> e_id x = e_id y \<Longrightarrow> x = y"
  by (auto simp: distinct_map inj_on_def)

section \<open>Bookkeeping steps\<close>

lemma books_new:
  assumes "books I R Q W ids a n" "e_id e = n" "e_key e \<notin> e_key ` set I"
  shows "\<not> costs_slot e \<Longrightarrow> books (I @ [e]) R Q (W @ [e]) ids a (n + 1)"
    and "costs_slot e \<Longrightarrow> a < MAX_CONCURRENT_EXPENSIVE_FETCHES \<Longrightarrow>
      books (I @ [e]) R Q (W @ [e]) ids (a + 1) (n + 1)"
    and "costs_slot e \<Longrightarrow> a \<ge> MAX_CONCURRENT_EXPENSIVE_FETCHES \<Longrightarrow>
      books (I @ [e]) R (Q @ [e]) W (ids @ [n]) a (n + 1)"
proof -
  have old: "\<forall>x \<in> set (W @ Q). e_id x < n" using assms(1) by (simp add: books_def)
  then have fresh: "e \<notin> set W \<union> set Q" "n \<notin> e_id ` (set W \<union> set Q)" using assms(2) by auto
  moreover have "e \<notin> set R"
    using fresh assms(1) by (auto simp: books_def)
  moreover have "\<forall>x \<in> set (W @ Q). e_id x < n + 1" using old by (simp add: less_SucI)
  ultimately show "\<not> costs_slot e \<Longrightarrow> books (I @ [e]) R Q (W @ [e]) ids a (n + 1)"
    and "costs_slot e \<Longrightarrow> a < MAX_CONCURRENT_EXPENSIVE_FETCHES \<Longrightarrow>
      books (I @ [e]) R Q (W @ [e]) ids (a + 1) (n + 1)"
    and "costs_slot e \<Longrightarrow> a \<ge> MAX_CONCURRENT_EXPENSIVE_FETCHES \<Longrightarrow>
      books (I @ [e]) R (Q @ [e]) W (ids @ [n]) a (n + 1)"
    using assms by (auto simp: books_def)
qed

lemma books_retire_wire:
  assumes "books I R Q W ids a n" "e \<in> set I" "e_id e \<notin> set ids"
  shows "books (del_entry (e_key e) I) (R @ [e]) Q W ids a n"
proof -
  have "e \<notin> set Q" using assms by (auto simp: books_def)
  with assms show ?thesis by (auto simp: books_def set_del_entry)
qed

lemma books_retire_queued:
  assumes B: "books I R Q W ids a n" and "e \<in> set I" "e_id e \<in> set ids"
  shows "books (del_entry (e_key e) I) (filter (\<lambda>x. x \<noteq> e) (R @ [e])) (filter (\<lambda>x. x \<noteq> e) Q) W
    (filter (\<lambda>i. i \<noteq> e_id e) ids) a n"
proof -
  have "e_id e \<in> e_id ` set Q" and eWQ: "e \<in> set (W @ Q)" using assms by (auto simp: books_def)
  then obtain q where q: "q \<in> set Q" "e_id q = e_id e" by auto
  then have "q = e" using B eWQ entry_ids_inj [of "W @ Q" q e] by (simp add: books_def)
  with q have eQ: "e \<in> set Q" by simp
  have eW: "e \<notin> set W" and ids: "e_id ` (set Q - {e}) = e_id ` set Q - {e_id e}"
    using B eQ by (auto simp: books_def distinct_map inj_on_def)
  have "distinct (map e_id (W @ filter (\<lambda>x. x \<noteq> e) Q))"
    using B by (auto simp: books_def distinct_map_filter)
  moreover have "e \<notin> set R" using B assms(2) by (auto simp: books_def)
  moreover have "set (filter (\<lambda>i. i \<noteq> e_id e) ids) = e_id ` (set Q - {e})"
    using B ids by (auto simp: books_def)
  moreover have "filter (\<lambda>x. x \<noteq> e) Q \<noteq> [] \<longrightarrow> Q \<noteq> []" by auto
  ultimately show ?thesis
    using B assms(2) eQ eW unfolding books_def by (auto simp: set_del_entry)
qed

definition forget_entry :: "entry \<Rightarrow> entry list \<Rightarrow> entry list" where
  "forget_entry e I =
    (if find (\<lambda>x. e_key x = e_key e) I = Some e then del_entry (e_key e) I else I)"

lemma set_forget_entry: "distinct (map e_key I) \<Longrightarrow> set (forget_entry e I) = set I - {e}"
  by (cases "e \<in> set I") (simp_all add: forget_entry_def find_key_iff set_del_entry)

lemma distinct_forget_entry: "distinct (map e_key I) \<Longrightarrow> distinct (map e_key (forget_entry e I))"
  by (simp add: forget_entry_def)

lemma books_finalize_no_waiter:
  assumes B: "books I R Q W ids a n" and e: "e \<in> set W" and none: "costs_slot e \<longrightarrow> Q = []"
  shows "books (forget_entry e I) (filter (\<lambda>x. x \<noteq> e) R) Q (filter (\<lambda>x. x \<noteq> e) W) ids
    (if costs_slot e then a - 1 else a) n"
proof -
  note b = B [unfolded books_def]
  have dW: "distinct (map e_id W)" and eQ: "e \<notin> set Q"
    using b e by (auto simp: distinct_map inj_on_def)
  have F: "distinct (map e_key (forget_entry e I))" "set (forget_entry e I) = set I - {e}"
    using b by (simp_all add: distinct_forget_entry set_forget_entry)
  have count: "(if costs_slot e then a - 1 else a) =
      int (length (filter costs_slot (filter (\<lambda>x. x \<noteq> e) W)))"
    using b filter_out_one [OF dW e, of costs_slot] by auto
  show ?thesis
    unfolding books_def
  proof (intro conjI)
    show "distinct (map e_id (filter (\<lambda>x. x \<noteq> e) W @ Q))"
      using b by (auto simp: distinct_map_filter)
    have "set I \<union> set R = set W \<union> set Q" using b by blast
    then show "set (forget_entry e I) \<union> set (filter (\<lambda>x. x \<noteq> e) R) =
        set (filter (\<lambda>x. x \<noteq> e) W) \<union> set Q"
      unfolding F(2) set_filter using eQ by blast
    show "set (forget_entry e I) \<inter> set (filter (\<lambda>x. x \<noteq> e) R) = {}"
      unfolding F(2) set_filter using b by blast
    show "set Q \<subseteq> set (forget_entry e I)" unfolding F(2) using b eQ by blast
    show "Q \<noteq> [] \<longrightarrow> (if costs_slot e then a - 1 else a) = MAX_CONCURRENT_EXPENSIVE_FETCHES"
      using b none by auto
    show "(if costs_slot e then a - 1 else a) \<le> MAX_CONCURRENT_EXPENSIVE_FETCHES"
      using b by auto
  qed (use b F count in auto)
qed

lemma books_finalize_handover:
  assumes B: "books I R (m # ws) W ids a n" and e: "e \<in> set W" "costs_slot e"
  shows "books (forget_entry e I) (filter (\<lambda>x. x \<noteq> e) R) ws (filter (\<lambda>x. x \<noteq> e) W @ [m])
    (filter (\<lambda>i. i \<noteq> e_id m) ids) a n"
proof -
  note b = B [unfolded books_def]
  have dW: "distinct (map e_id W)" and em: "e \<noteq> m" and ews: "e \<notin> set ws"
    using b e by (auto simp: distinct_map inj_on_def)
  have mws: "e_id m \<notin> e_id ` set ws" using b by simp
  have F: "distinct (map e_key (forget_entry e I))" "set (forget_entry e I) = set I - {e}"
    using b by (simp_all add: distinct_forget_entry set_forget_entry)
  have count: "a = int (length (filter costs_slot (filter (\<lambda>x. x \<noteq> e) W @ [m])))"
    using b filter_out_one [OF dW e(1), of costs_slot] e(2) by auto
  show ?thesis
    unfolding books_def
  proof (intro conjI)
    show "distinct (map e_id ((filter (\<lambda>x. x \<noteq> e) W @ [m]) @ ws))"
      using b by (auto simp: distinct_map_filter)
    have "set I \<union> set R = set W \<union> insert m (set ws)" using b by simp
    then show "set (forget_entry e I) \<union> set (filter (\<lambda>x. x \<noteq> e) R) =
        set (filter (\<lambda>x. x \<noteq> e) W @ [m]) \<union> set ws"
      unfolding F(2) set_filter set_append using em ews by auto
    show "set (forget_entry e I) \<inter> set (filter (\<lambda>x. x \<noteq> e) R) = {}"
      unfolding F(2) set_filter using b by blast
    show "set ws \<subseteq> set (forget_entry e I)" unfolding F(2) using b ews by auto
    have "set ids = insert (e_id m) (e_id ` set ws)" using b by simp
    then show "set (filter (\<lambda>i. i \<noteq> e_id m) ids) = e_id ` set ws"
      using mws unfolding set_filter by blast
  qed (use b F count in auto)
qed

end
