(* ===== verification/Source_Cache_Runs.thy ===== *)
theory Source_Cache_Runs
  imports Source_Cache_Books
begin

text \<open>
  Runs of the request cache: the operations of the page, the timers, and what each request does,
  interleaved in any order. The bookkeeping invariant holds in every reachable state.
\<close>

inductive cache_step :: "(string \<Rightarrow> bool) \<Rightarrow> cache \<Rightarrow> cache \<Rightarrow> bool" for hf where
  ensure: "cache_step hf st (ensure hf keys rg st)"
| refresh: "cache_step hf st (refresh hf st)"
| retain: "cache_step hf st (retain keys st)"
| abort: "cache_step hf st (abort st)"
| start: "cache_step hf st (startRefresh ms st)"
| stop: "cache_step hf st (stopRefresh st)"
| tick: "cache_step hf st (refresh_tick hf hidden st)"
| offset: "key \<in> set (offsetTimers st) \<Longrightarrow> cache_step hf st (offset_fired hf key st)"
| answer: "(e, False) \<in> set (wire st) \<Longrightarrow> cache_step hf st (answered e v st)"
| failure: "(e, False) \<in> set (wire st) \<Longrightarrow> cache_step hf st (failed e err st)"
| final: "(e, True) \<in> set (wire st) \<Longrightarrow> cache_step hf st (finalize e st)"
| timeout: "e \<in> set (on_wire st) \<Longrightarrow> cache_step hf st (deadline e st)"

inductive cache_reach :: "(string \<Rightarrow> bool) \<Rightarrow> cache \<Rightarrow> bool" for hf where
  fresh: "cache_reach hf empty_cache"
| step: "cache_reach hf st \<Longrightarrow> cache_step hf st st' \<Longrightarrow> cache_reach hf st'"

section \<open>One request\<close>

lemma cache_inv_cong:
  assumes "in_flight st' = in_flight st" "retired st' = retired st" "waiting st' = waiting st"
    "on_wire st' = on_wire st" "queued st' = queued st" "activeExpensive st' = activeExpensive st"
    "next_entry st' = next_entry st"
  shows "cache_inv st' = cache_inv st"
  using assms by (simp add: cache_inv_def)

lemma map_fst_filter: "map fst (filter (\<lambda>p. fst p \<noteq> e) w) = filter (\<lambda>x. x \<noteq> e) (map fst w)"
  by (induction w) auto

lemma map_fst_handled [simp]: "on_wire (mark_handled e st) = on_wire st"
  by (simp add: mark_handled_def case_prod_beta comp_def)

lemma run_inv:
  assumes inv: "cache_inv st" and new: "key \<notin> e_key ` set (in_flight st)"
  shows "cache_inv (run hf key rg st)"
proof -
  obtain base ps where d: "decodeSourceKey key = (base, ps)" by (cases "decodeSourceKey key")
  let ?e = "\<lparr>e_id = next_entry st, e_key = key, e_base = base, e_params = ps, e_range = rg\<rparr>"
  have new': "e_key ?e \<notin> e_key ` set (in_flight st)" using new by simp
  note N = books_new [OF inv [unfolded cache_inv_def] _ new']
  consider "\<not> hf base" | "hf base" "is_cheap base"
    | "hf base" "\<not> is_cheap base" "activeExpensive st < MAX_CONCURRENT_EXPENSIVE_FETCHES"
    | "hf base" "\<not> is_cheap base" "activeExpensive st \<ge> MAX_CONCURRENT_EXPENSIVE_FETCHES"
    by linarith
  then show ?thesis
  proof cases
    case 1
    then show ?thesis using inv by (simp add: run_def d)
  next
    case 2
    then show ?thesis
      using N(1) by (simp add: run_def d Let_def issue_def set_state_def cache_inv_def put_entry_new new)
  next
    case 3
    then show ?thesis
      using N(2) by (simp add: run_def d Let_def issue_def set_state_def takeSlot_def cache_inv_def
          put_entry_new new)
  next
    case 4
    then show ?thesis
      using N(3) by (simp add: run_def d Let_def issue_def set_state_def takeSlot_def cache_inv_def
          put_entry_new new)
  qed
qed

lemma pending_for_iff: "cache_inv st \<Longrightarrow> pending_for st (e_key e) = Some e \<longleftrightarrow> e \<in> set (in_flight st)"
  by (simp add: pending_for_def cache_inv_def books_def find_key_iff)

lemma pending_for_Some: "pending_for st key = Some e \<Longrightarrow> e \<in> set (in_flight st) \<and> e_key e = key"
  unfolding pending_for_def by (drule find_kind) simp

lemma pending_for_None: "pending_for st key = None \<longleftrightarrow> key \<notin> e_key ` set (in_flight st)"
  by (auto simp: pending_for_def find_None_iff)

lemma finish_books:
  "in_flight (finish e st) = forget_entry e (in_flight st)"
  "retired (finish e st) = filter (\<lambda>x. x \<noteq> e) (retired st)"
  "waiting (finish e st) = waiting st" "wire (finish e st) = wire st" "queued (finish e st) = queued st"
  "activeExpensive (finish e st) = activeExpensive st" "next_entry (finish e st) = next_entry st"
  by (simp_all add: finish_def forget_entry_def pending_for_def)

lemma del_entry_forget: "forget_entry e (del_entry (e_key e) I) = del_entry (e_key e) I"
proof -
  have "find (\<lambda>x. e_key x = e_key e) (del_entry (e_key e) I) = None"
    by (simp add: del_entry_def find_None_iff)
  then show ?thesis by (simp add: forget_entry_def)
qed

lemma retire_books:
  "in_flight (retire e st) = del_entry (e_key e) (in_flight st)"
  "wire (retire e st) = wire st" "activeExpensive (retire e st) = activeExpensive st"
  "next_entry (retire e st) = next_entry st" "states (retire e st) = states st"
  "fetchedRange (retire e st) = fetchedRange st" "offsetTimers (retire e st) = offsetTimers st"
  by (simp_all add: retire_def dropQueued_def Let_def finish_books del_entry_forget)
    (simp_all add: finish_def)

lemma retire_inv:
  assumes inv: "cache_inv st" and e: "e \<in> set (in_flight st)"
  shows "cache_inv (retire e st)"
proof (cases "e_id e \<in> set (queued st)")
  case True
  from books_retire_queued [OF inv [unfolded cache_inv_def] e True] show ?thesis
    using True
    by (simp add: cache_inv_def retire_def dropQueued_def Let_def finish_books del_entry_forget)
next
  case False
  from books_retire_wire [OF inv [unfolded cache_inv_def] e False] show ?thesis
    using False by (simp add: cache_inv_def retire_def Let_def)
qed

lemma finalize_inv:
  assumes inv: "cache_inv st" and e: "e \<in> set (on_wire st)"
  shows "cache_inv (finalize e st)"
proof (cases "waiting st")
  case Nil
  then show ?thesis
    using books_finalize_no_waiter [OF inv [unfolded cache_inv_def] e] inv
    by (simp add: cache_inv_def finalize_def releaseSlot_def finish_books map_fst_filter
        split: if_splits)
next
  case (Cons m ws)
  show ?thesis
  proof (cases "is_cheap (e_base e)")
    case True
    then show ?thesis
      using books_finalize_no_waiter [OF inv [unfolded cache_inv_def] e]
      by (simp add: cache_inv_def finalize_def releaseSlot_def finish_books map_fst_filter)
  next
    case False
    then show ?thesis
      using books_finalize_handover [OF inv [unfolded cache_inv_def Cons] e] Cons
      by (simp add: cache_inv_def finalize_def releaseSlot_def admit_def issue_def finish_books
          map_fst_filter)
  qed
qed

lemma set_state_books [simp]:
  "in_flight (set_state k s st) = in_flight st" "retired (set_state k s st) = retired st"
  "waiting (set_state k s st) = waiting st" "wire (set_state k s st) = wire st"
  "queued (set_state k s st) = queued st" "activeExpensive (set_state k s st) = activeExpensive st"
  "next_entry (set_state k s st) = next_entry st" "fetchedRange (set_state k s st) = fetchedRange st"
  "offsetTimers (set_state k s st) = offsetTimers st" "aborted (set_state k s st) = aborted st"
  by (simp_all add: set_state_def)

lemma settleAborted_books [simp]:
  "in_flight (settleAborted k st) = in_flight st" "retired (settleAborted k st) = retired st"
  "waiting (settleAborted k st) = waiting st" "wire (settleAborted k st) = wire st"
  "queued (settleAborted k st) = queued st" "activeExpensive (settleAborted k st) = activeExpensive st"
  "next_entry (settleAborted k st) = next_entry st" "offsetTimers (settleAborted k st) = offsetTimers st"
  by (simp_all add: settleAborted_def Let_def)

lemma mark_handled_books [simp]:
  "in_flight (mark_handled k st) = in_flight st" "retired (mark_handled k st) = retired st"
  "waiting (mark_handled k st) = waiting st" "queued (mark_handled k st) = queued st"
  "activeExpensive (mark_handled k st) = activeExpensive st"
  "next_entry (mark_handled k st) = next_entry st" "states (mark_handled k st) = states st"
  by (simp_all add: mark_handled_def)

lemma settleAborted_inv: "cache_inv (settleAborted k st) = cache_inv st"
  by (rule cache_inv_cong) simp_all

lemma answered_inv: "cache_inv (answered e v st) = cache_inv st"
  by (rule cache_inv_cong) (simp_all add: answered_def)

lemma failed_inv: "cache_inv (failed e err st) = cache_inv st"
  by (rule cache_inv_cong) (simp_all add: failed_def)

lemma deadline_inv: "cache_inv (deadline e st) = cache_inv st"
  by (rule cache_inv_cong) (simp_all add: deadline_def)

section \<open>Whole operations\<close>

text \<open>Keys with a request in flight, before and after one is started.\<close>

lemma run_keys: "e_key ` set (in_flight (run hf key rg st)) \<subseteq> insert key (e_key ` set (in_flight st))"
  by (auto simp: run_def Let_def case_prod_beta issue_def takeSlot_def put_entry_def)

lemma run_keys_disjoint:
  "key \<notin> K \<Longrightarrow> K \<inter> e_key ` set (in_flight st) = {} \<Longrightarrow>
   K \<inter> e_key ` set (in_flight (run hf key rg st)) = {}"
  using run_keys [of hf key rg st] by blast

lemma del_entry_keys: "key \<notin> e_key ` set (del_entry key I)"
  by (auto simp: del_entry_def)

lemma ensure_key_inv: "cache_inv st \<Longrightarrow> cache_inv (ensure_key hf rg key st)"
proof (cases "pending_for st key")
  case None
  assume inv: "cache_inv st"
  have "key \<notin> e_key ` set (in_flight st)" using None pending_for_None [of st key] by simp
  with run_inv [OF inv] inv None show ?thesis
    by (simp add: ensure_key_def Let_def split: option.split)
next
  case (Some e)
  assume inv: "cache_inv st"
  have e: "e \<in> set (in_flight st)" "e_key e = key" using pending_for_Some [OF Some] by simp_all
  have "key \<notin> e_key ` set (in_flight (retire e st))"
    using del_entry_keys [of "e_key e"] e(2) by (simp add: retire_books)
  with retire_inv [OF inv e(1)] run_inv inv Some show ?thesis by (simp add: ensure_key_def Let_def)
qed

lemma ensure_inv: "cache_inv st \<Longrightarrow> cache_inv (ensure hf keys rg st)"
  unfolding ensure_def by (induction keys arbitrary: st) (simp_all add: ensure_key_inv)

lemma run_all_inv:
  "cache_inv st \<Longrightarrow> distinct (map fst due) \<Longrightarrow> fst ` set due \<inter> e_key ` set (in_flight st) = {} \<Longrightarrow>
   cache_inv (run_all hf due st)"
  unfolding run_all_def
proof (induction due arbitrary: st)
  case (Cons d due)
  obtain key rg where d: "d = (key, rg)" by (cases d)
  have "fst ` set due \<inter> e_key ` set (in_flight (run hf key rg st)) = {}"
    by (rule run_keys_disjoint) (use Cons.prems in \<open>auto simp: d\<close>)
  with Cons run_inv [of st key] show ?case by (simp add: d)
qed simp

text \<open>Keys of the recorded ranges stay distinct, so a refresh never names a key twice.\<close>

lemma distinct_del_key: "distinct (map fst xs) \<Longrightarrow> distinct (map fst (del_key k xs))"
  by (simp add: del_key_def distinct_map_filter)

definition ranges_ok :: "cache \<Rightarrow> bool" where
  "ranges_ok st \<longleftrightarrow> distinct (map fst (fetchedRange st))"

lemma run_ranges: "ranges_ok st \<Longrightarrow> ranges_ok (run hf key rg st)"
  by (simp add: ranges_ok_def run_def Let_def case_prod_beta issue_def takeSlot_def distinct_set_key)

lemma settleAborted_ranges: "ranges_ok st \<Longrightarrow> ranges_ok (settleAborted k st)"
  by (simp add: ranges_ok_def settleAborted_def Let_def distinct_set_key distinct_del_key
      split: option.split)

lemma retire_ranges: "ranges_ok (retire e st) = ranges_ok st"
  by (simp add: ranges_ok_def retire_books)

lemma run_all_ranges: "ranges_ok st \<Longrightarrow> ranges_ok (run_all hf due st)"
  unfolding run_all_def by (induction due arbitrary: st) (auto simp: run_ranges)

lemma ensure_ranges: "ranges_ok st \<Longrightarrow> ranges_ok (ensure hf keys rg st)"
proof -
  have "ranges_ok s \<Longrightarrow> ranges_ok (ensure_key hf rg key s)" for s key
    by (simp add: ensure_key_def Let_def run_ranges retire_ranges split: option.split)
  then show "ranges_ok st \<Longrightarrow> ranges_ok (ensure hf keys rg st)"
    unfolding ensure_def by (induction keys arbitrary: st) simp_all
qed

lemma due_keys:
  assumes "ranges_ok st"
  shows "distinct (map fst (dueEntries st tick))"
    "fst ` set (dueEntries st tick) \<inter> set (busyKeys st) = {}"
  using assms
  by (auto simp: ranges_ok_def dueEntries_def Let_def distinct_map_filter isDue_def)

lemma refresh_inv: "cache_inv st \<Longrightarrow> ranges_ok st \<Longrightarrow> cache_inv (refresh hf st)"
proof -
  assume inv: "cache_inv st" and ok: "ranges_ok st"
  let ?st = "clearOffsetTimers st"
  have inv': "cache_inv ?st" and ok': "ranges_ok ?st"
    using inv ok cache_inv_cong [of ?st st] by (simp_all add: clearOffsetTimers_def ranges_ok_def)
  have "fst ` set (dueEntries ?st 0) \<inter> e_key ` set (in_flight ?st) = {}"
    using due_keys(2) [OF ok', of 0] by (auto simp: busyKeys_def)
  from run_all_inv [OF inv' due_keys(1) [OF ok'] this] show ?thesis
    by (simp add: refresh_def Let_def)
qed

lemma schedule_inv:
  "cache_inv st \<Longrightarrow> distinct (map fst due) \<Longrightarrow> fst ` set due \<inter> e_key ` set (in_flight st) = {} \<Longrightarrow>
   cache_inv (schedule hf ms due st)"
  unfolding schedule_def
proof (induction due arbitrary: st)
  case (Cons d due)
  obtain key rg where d: "d = (key, rg)" by (cases d)
  let ?timer = "st\<lparr>offsetTimers := (if key \<in> set (offsetTimers st) then offsetTimers st
    else offsetTimers st @ [key])\<rparr>"
  have "cache_inv ?timer" using Cons.prems(1) cache_inv_cong [of ?timer st] by simp
  moreover have "fst ` set due \<inter> e_key ` set (in_flight (run hf key rg st)) = {}"
    by (rule run_keys_disjoint) (use Cons.prems in \<open>auto simp: d\<close>)
  ultimately show ?case
    using Cons.IH [of "run hf key rg st"] Cons.IH [of ?timer] Cons.prems run_inv [of st key]
    by (simp add: d)
qed simp

lemma schedule_ranges: "ranges_ok st \<Longrightarrow> ranges_ok (schedule hf ms due st)"
proof -
  have "ranges_ok (s\<lparr>offsetTimers := x\<rparr>) = ranges_ok s" for s x by (simp add: ranges_ok_def)
  then show "ranges_ok st \<Longrightarrow> ranges_ok (schedule hf ms due st)"
    unfolding schedule_def by (induction due arbitrary: st) (auto simp: run_ranges)
qed

lemma tick_inv: "cache_inv st \<Longrightarrow> ranges_ok st \<Longrightarrow> cache_inv (refresh_tick hf hidden st)"
proof -
  assume inv: "cache_inv st" and ok: "ranges_ok st"
  let ?st = "st\<lparr>refreshTick := refreshTick st + 1\<rparr>"
  have inv': "cache_inv ?st" and ok': "ranges_ok ?st"
    using inv ok cache_inv_cong [of ?st st] by (simp_all add: ranges_ok_def)
  have "fst ` set (dueEntries ?st t) \<inter> e_key ` set (in_flight ?st) = {}" for t
    using due_keys(2) [OF ok', of t] by (auto simp: busyKeys_def)
  from schedule_inv [OF inv' due_keys(1) [OF ok'] this] inv show ?thesis
    by (simp add: refresh_tick_def Let_def split: option.split)
qed

lemma offset_inv: "cache_inv st \<Longrightarrow> cache_inv (offset_fired hf key st)"
proof -
  assume inv: "cache_inv st"
  let ?st = "st\<lparr>offsetTimers := filter (\<lambda>k. k \<noteq> key) (offsetTimers st)\<rparr>"
  have inv': "cache_inv ?st" using inv cache_inv_cong [of ?st st] by simp
  have "key \<notin> e_key ` set (in_flight ?st)" if "isDue ?st key (busyKeys ?st) 0"
    using that by (auto simp: isDue_def busyKeys_def)
  then show ?thesis
    using inv' run_inv [OF inv'] by (simp add: offset_fired_def Let_def split: option.split)
qed

lemma del_entry_keeps:
  "e_key e \<notin> e_key ` set es \<Longrightarrow> set es \<subseteq> set I \<Longrightarrow> set es \<subseteq> set (del_entry (e_key e) I)"
  by (auto simp: del_entry_def) (metis imageI)

lemma retire_all_inv:
  "cache_inv st \<Longrightarrow> distinct (map e_key es) \<Longrightarrow> set es \<subseteq> set (in_flight st) \<Longrightarrow>
   cache_inv (retire_all es st)"
  unfolding retire_all_def
proof (induction es arbitrary: st)
  case (Cons e es)
  have "set es \<subseteq> set (in_flight (retire e st))"
    using Cons.prems del_entry_keeps [of e es "in_flight st"] by (simp add: retire_books)
  with Cons retire_inv [of st e] show ?case by simp
qed simp

lemma forget_inv: "cache_inv (foldl (\<lambda>s key. forget_key key s) st keys) = cache_inv st"
proof (induction keys arbitrary: st)
  case (Cons k keys)
  have "cache_inv (forget_key k st) = cache_inv st"
    by (rule cache_inv_cong) (simp_all add: forget_key_def)
  with Cons show ?case by simp
qed simp

lemma retain_inv: "cache_inv st \<Longrightarrow> cache_inv (retain keys st)"
proof -
  assume inv: "cache_inv st"
  have "distinct (map e_key (filter (\<lambda>e. e_key e \<notin> set keys) (in_flight st)))"
    using inv by (simp add: cache_inv_def books_def distinct_map_filter)
  from retire_all_inv [OF inv this] show ?thesis
    by (auto simp: retain_def Let_def forget_inv)
qed

lemma abort_loop_inv:
  "cache_inv st \<Longrightarrow> distinct (map e_key es) \<Longrightarrow> set es \<subseteq> set (in_flight st) \<Longrightarrow>
   cache_inv (foldl (\<lambda>s e. settleAborted (e_key e) (retire e s)) st es)"
proof (induction es arbitrary: st)
  case (Cons e es)
  have "set es \<subseteq> set (in_flight (settleAborted (e_key e) (retire e st)))"
    using Cons.prems del_entry_keeps [of e es "in_flight st"] by (simp add: retire_books)
  with Cons retire_inv [of st e] show ?case by (simp add: settleAborted_inv)
qed simp

lemma abort_inv: "cache_inv st \<Longrightarrow> cache_inv (abort st)"
proof -
  assume inv: "cache_inv st"
  then have inv': "cache_inv (clearOffsetTimers st)"
    using cache_inv_cong [of "clearOffsetTimers st" st] by (simp add: clearOffsetTimers_def)
  then have "distinct (map e_key (in_flight (clearOffsetTimers st)))"
    by (simp add: cache_inv_def books_def)
  from abort_loop_inv [OF inv' this] show ?thesis by (simp add: abort_def Let_def)
qed

section \<open>Reachable states\<close>

lemma cache_step_inv:
  "cache_step hf st st' \<Longrightarrow> cache_inv st \<Longrightarrow> ranges_ok st \<Longrightarrow> cache_inv st'"
proof (induction rule: cache_step.induct)
  case (final e st)
  have "e \<in> set (on_wire st)" using final.hyps by force
  then show ?case using final.prems by (simp add: finalize_inv)
next
  case (start st ms)
  then show ?case
    using cache_inv_cong [of "startRefresh ms st" st]
    by (simp add: startRefresh_def stopRefresh_def clearOffsetTimers_def)
next
  case (stop st)
  then show ?case
    using cache_inv_cong [of "stopRefresh st" st]
    by (simp add: stopRefresh_def clearOffsetTimers_def)
qed (simp_all add: ensure_inv refresh_inv retain_inv abort_inv tick_inv offset_inv answered_inv
    failed_inv deadline_inv)

lemma retire_all_ranges: "ranges_ok (retire_all es st) = ranges_ok st"
  unfolding retire_all_def by (induction es arbitrary: st) (simp_all add: retire_ranges)

lemma retain_ranges: "ranges_ok st \<Longrightarrow> ranges_ok (retain keys st)"
proof -
  assume ok: "ranges_ok st"
  have "ranges_ok s \<Longrightarrow> ranges_ok (foldl (\<lambda>s key. forget_key key s) s ks)" for s ks
    by (induction ks arbitrary: s) (simp_all add: ranges_ok_def forget_key_def distinct_del_key)
  with ok show ?thesis by (simp add: retain_def Let_def retire_all_ranges)
qed

lemma abort_ranges: "ranges_ok st \<Longrightarrow> ranges_ok (abort st)"
proof -
  assume ok: "ranges_ok st"
  have "ranges_ok s \<Longrightarrow> ranges_ok (foldl (\<lambda>s e. settleAborted (e_key e) (retire e s)) s es)" for s es
    by (induction es arbitrary: s) (simp_all add: settleAborted_ranges retire_ranges)
  moreover have "ranges_ok (clearOffsetTimers st)"
    using ok by (simp add: ranges_ok_def clearOffsetTimers_def)
  ultimately show ?thesis by (simp add: abort_def Let_def)
qed

lemma finish_ranges [simp]: "fetchedRange (finish e st) = fetchedRange st"
  by (simp add: finish_def)

lemma cache_step_ranges: "cache_step hf st st' \<Longrightarrow> ranges_ok st \<Longrightarrow> ranges_ok st'"
proof (induction rule: cache_step.induct)
  case (refresh st)
  then have "ranges_ok (clearOffsetTimers st)" by (simp add: ranges_ok_def clearOffsetTimers_def)
  then show ?case by (simp add: refresh_def Let_def run_all_ranges)
next
  case (tick st hidden)
  then have "ranges_ok (st\<lparr>refreshTick := n\<rparr>)" for n by (simp add: ranges_ok_def)
  with tick show ?case
    by (simp add: refresh_tick_def Let_def schedule_ranges split: option.split)
next
  case (offset key st)
  then have "ranges_ok (st\<lparr>offsetTimers := x\<rparr>)" for x by (simp add: ranges_ok_def)
  then show ?case by (simp add: offset_fired_def Let_def run_ranges split: option.split)
next
  case (answer e st v)
  then show ?case by (simp add: ranges_ok_def answered_def mark_handled_def)
next
  case (failure e st err)
  then have "ranges_ok (settleAborted (e_key e) st)" by (simp add: settleAborted_ranges)
  with failure show ?case by (simp add: ranges_ok_def failed_def mark_handled_def)
next
  case (final e st)
  then show ?case
    by (simp add: ranges_ok_def finalize_def releaseSlot_def admit_def issue_def split: list.split)
qed (simp_all add: ensure_ranges retain_ranges abort_ranges, simp_all add: ranges_ok_def
    startRefresh_def stopRefresh_def clearOffsetTimers_def deadline_def)

lemma cache_reach_inv: "cache_reach hf st \<Longrightarrow> cache_inv st \<and> ranges_ok st"
proof (induction rule: cache_reach.induct)
  case fresh
  show ?case
    by (simp add: cache_inv_def books_def empty_cache_def ranges_ok_def
        MAX_CONCURRENT_EXPENSIVE_FETCHES_def)
next
  case (step st st')
  then show ?case using cache_step_inv cache_step_ranges by blast
qed

end
