(* ===== verification/Source_Cache_Properties.thy ===== *)
theory Source_Cache_Properties
  imports Source_Cache_Runs
begin

text \<open>What the dashboard's data layer promises (\<open>src/frontend/lib/dashboard/data.ts\<close>).\<close>

section \<open>Everything outstanding ends\<close>

definition load :: "cache \<Rightarrow> nat" where
  "load st = length (wire st) + length (waiting st)"

text \<open>Requests ending one after another, in whatever order.\<close>

inductive ends :: "cache \<Rightarrow> entry list \<Rightarrow> cache \<Rightarrow> bool" where
  none: "ends st [] st"
| one: "e \<in> set (on_wire st) \<Longrightarrow> ends (finalize e st) es st' \<Longrightarrow> ends st (e # es) st'"

lemma wire_distinct: "cache_inv st \<Longrightarrow> distinct (map e_id (on_wire st))"
  by (simp add: cache_inv_def books_def)

lemma filter_wire_length:
  assumes "cache_inv st" "e \<in> set (on_wire st)"
  shows "length (wire st) = Suc (length (filter (\<lambda>p. fst p \<noteq> e) (wire st)))"
proof -
  have "length (map fst (filter (\<lambda>p. fst p \<noteq> e) (wire st))) + 1 = length (on_wire st)"
    using filter_out_one [OF wire_distinct [OF assms(1)] assms(2), of "\<lambda>_. True"]
    by (simp add: map_fst_filter)
  then show ?thesis by simp
qed

lemma finalize_load:
  assumes "cache_inv st" "e \<in> set (on_wire st)"
  shows "Suc (load (finalize e st)) = load st"
  using filter_wire_length [OF assms]
  by (simp add: load_def finalize_def finish_books releaseSlot_def admit_def issue_def split: list.split)

lemma no_load_settled:
  assumes "cache_inv st" "load st = 0"
  shows "\<not> outstanding st"
  using assms by (auto simp: load_def cache_inv_def books_def outstanding_def)

lemma waiting_needs_wire:
  assumes "cache_inv st" "load st \<noteq> 0"
  shows "wire st \<noteq> []"
proof
  assume w: "wire st = []"
  then have "waiting st \<noteq> []" using assms(2) by (simp add: load_def)
  then have "int (length (filter costs_slot (on_wire st))) = 6"
    using assms(1) by (simp add: cache_inv_def books_def MAX_CONCURRENT_EXPENSIVE_FETCHES_def)
  with w show False by simp
qed

lemma ends_load:
  "ends st es st' \<Longrightarrow> cache_inv st \<Longrightarrow> cache_inv st' \<and> load st' + length es = load st"
proof (induction rule: ends.induct)
  case (one e st es st')
  with finalize_inv [OF one.prems one.hyps(1)] finalize_load [OF one.prems one.hyps(1)] show ?case
    by simp
qed simp

section \<open>One request per key\<close>

definition count_key :: "string \<Rightarrow> cache \<Rightarrow> nat" where
  "count_key k st = length (filter (\<lambda>e. e_key e = k) (on_wire st @ waiting st))"

lemma run_count: "count_key k (run hf key rg st) \<le> count_key k st + (if k = key then 1 else 0)"
  by (simp add: count_key_def run_def Let_def case_prod_beta issue_def takeSlot_def)

lemma idle_count: "cache_inv st \<Longrightarrow> k \<notin> set (busyKeys st) \<Longrightarrow> count_key k st = 0"
proof -
  assume inv: "cache_inv st" and "k \<notin> set (busyKeys st)"
  then have "\<forall>e \<in> set (in_flight st) \<union> set (retired st). e_key e \<noteq> k"
    by (auto simp: busyKeys_def)
  moreover have "set (in_flight st) \<union> set (retired st) = set (on_wire st) \<union> set (waiting st)"
    using inv by (simp add: cache_inv_def books_def)
  ultimately show ?thesis by (auto simp: count_key_def filter_empty_conv)
qed

text \<open>A pass over distinct idle keys that starts at most one request for each.\<close>

lemma foldl_count:
  assumes step: "\<And>j s d. count_key j (f s d) \<le> count_key j s + (if j = fst d then 1 else 0)"
  shows "distinct (map fst due) \<Longrightarrow> \<forall>key \<in> fst ` set due. count_key key st = 0 \<Longrightarrow>
    count_key k (foldl f st due) \<le> max 1 (count_key k st) \<and>
    (k \<notin> fst ` set due \<longrightarrow> count_key k (foldl f st due) \<le> count_key k st)"
proof (induction due arbitrary: st)
  case (Cons d due)
  have zero: "\<forall>j \<in> fst ` set due. count_key j (f st d) = 0"
  proof
    fix j assume j: "j \<in> fst ` set due"
    then have "j \<noteq> fst d" using Cons.prems(1) by (metis distinct.simps(2) list.simps(9) list.set_map)
    moreover have "count_key j st = 0" using Cons.prems(2) j by auto
    ultimately show "count_key j (f st d) = 0" using step [of j st d] by simp
  qed
  have "count_key (fst d) st = 0" using Cons.prems by simp
  with step [of k st d]
  have "count_key k (f st d) \<le> max 1 (count_key k st)"
    "k \<noteq> fst d \<longrightarrow> count_key k (f st d) \<le> count_key k st"
    by (auto split: if_splits)
  with Cons.IH [OF _ zero] Cons.prems show ?case by fastforce
qed simp

lemma run_all_count:
  assumes "distinct (map fst due)" "\<forall>key \<in> fst ` set due. count_key key st = 0"
  shows "count_key k (run_all hf due st) \<le> max 1 (count_key k st)"
  unfolding run_all_def
  by (rule foldl_count [OF _ assms, THEN conjunct1]) (simp add: case_prod_beta run_count)

lemma count_key_timers [simp]: "count_key k (st\<lparr>offsetTimers := x\<rparr>) = count_key k st"
  by (simp add: count_key_def)

lemma schedule_count:
  assumes "distinct (map fst due)" "\<forall>key \<in> fst ` set due. count_key key st = 0"
  shows "count_key k (schedule hf ms due st) \<le> max 1 (count_key k st)"
  unfolding schedule_def
proof (rule foldl_count [OF _ assms, THEN conjunct1])
  fix j s and d :: "string \<times> string"
  show "count_key j (case d of (key, rg) \<Rightarrow>
      if sourceRefreshOffsetMs key ms = 0 then run hf key rg s
      else s\<lparr>offsetTimers := (if key \<in> set (offsetTimers s) then offsetTimers s
        else offsetTimers s @ [key])\<rparr>) \<le> count_key j s + (if j = fst d then 1 else 0)"
    using run_count [of j hf "fst d" "snd d" s] by (auto simp: case_prod_beta)
qed

lemma due_idle:
  assumes "cache_inv st" "ranges_ok st"
  shows "\<forall>key \<in> fst ` set (dueEntries st t). count_key key st = 0"
proof
  fix key assume "key \<in> fst ` set (dueEntries st t)"
  with due_keys(2) [OF assms(2), of t] have "key \<notin> set (busyKeys st)" by blast
  then show "count_key key st = 0" by (rule idle_count [OF assms(1)])
qed

section \<open>After a teardown\<close>

lemma abort_loop_in_flight:
  "in_flight (foldl (\<lambda>s e. settleAborted (e_key e) (retire e s)) st es) =
   filter (\<lambda>x. e_key x \<notin> e_key ` set es) (in_flight st)"
  by (induction es arbitrary: st) (auto simp: retire_books del_entry_def intro: filter_cong)

lemma abort_in_flight: "in_flight (abort st) = []"
  by (simp add: abort_def Let_def abort_loop_in_flight)

lemma state_of_retire [simp]: "state_of (retire e st) k = state_of st k"
  by (simp add: state_of_def retire_books)

lemma state_of_settle:
  "state_of (settleAborted key st) k =
   (if k = key then (state_of st key)\<lparr>ss_loading := False\<rparr> else state_of st k)"
  by (simp add: settleAborted_def Let_def set_state_def state_of_def map_of_set_key)

lemma map_of_del_key: "map_of (del_key k xs) j = (if j = k then None else map_of xs j)"
  by (induction xs) (auto simp: del_key_def)

lemma ranges_settle:
  "map_of (fetchedRange (settleAborted key st)) k =
   (if k = key then ss_range (state_of st key) else map_of (fetchedRange st) k)"
  by (simp add: settleAborted_def Let_def map_of_set_key map_of_del_key split: option.split)

lemma abort_loop_settles:
  "state_of (foldl (\<lambda>s e. settleAborted (e_key e) (retire e s)) st es) k =
     (if k \<in> e_key ` set es then (state_of st k)\<lparr>ss_loading := False\<rparr> else state_of st k) \<and>
   map_of (fetchedRange (foldl (\<lambda>s e. settleAborted (e_key e) (retire e s)) st es)) k =
     (if k \<in> e_key ` set es then ss_range (state_of st k) else map_of (fetchedRange st) k)"
  by (induction es arbitrary: st) (auto simp: state_of_settle ranges_settle retire_books)

section \<open>Properties\<close>

text \<open>
  Claim C11. Whatever the page, the timers and the requests do, in any order, at most six
  non-cheap requests are on the wire, the counter is exactly their number, and a request only ever
  waits while all six slots are taken.
\<close>

theorem expensive_requests_bounded:
  assumes "cache_reach hf st"
  shows "length (filter costs_slot (on_wire st)) \<le> 6 \<and>
    activeExpensive st = int (length (filter costs_slot (on_wire st))) \<and>
    (waiting st \<noteq> [] \<longrightarrow> length (filter costs_slot (on_wire st)) = 6)"
  using cache_reach_inv [OF assms]
  by (auto simp: cache_inv_def books_def MAX_CONCURRENT_EXPENSIVE_FETCHES_def)

definition seven_keys :: "string list" where
  "seven_keys =
    [''pods-list'', ''nodes-list'', ''hpas-list'', ''pdbs-list'', ''pvcs-list'', ''audit-log'',
     ''services-list'']"

definition busy_cache :: cache where
  "busy_cache = ensure (\<lambda>_. True) seven_keys ''1h'' empty_cache"

lemma busy_cache_reach: "cache_reach (\<lambda>_. True) busy_cache"
  unfolding busy_cache_def by (rule cache_reach.step [OF cache_reach.fresh cache_step.ensure])

lemma busy_cache_waits: "map e_key (waiting busy_cache) = [''services-list'']" "length (wire busy_cache) = 6"
  by code_simp+

lemma busy_cache_count: "count_key ''pods-list'' busy_cache = 1"
  by code_simp

theorem expensive_requests_bounded_witness:
  "waiting busy_cache \<noteq> [] \<and> length (filter costs_slot (on_wire busy_cache)) = 6 \<and>
   activeExpensive busy_cache = 6"
proof -
  have "waiting busy_cache \<noteq> []" using busy_cache_waits(1) by auto
  with expensive_requests_bounded [OF busy_cache_reach] show ?thesis by simp
qed

text \<open>
  Claim C19. Everything outstanding settles: from any reachable state, whatever order the requests
  end in, each ending takes exactly one request off the books, some request can always end while
  anything is outstanding, and after as many endings as there are requests on the wire or in the
  queue nothing is outstanding. So no queued request is ever lost and \<open>settled\<close> returns.
\<close>

theorem outstanding_requests_settle:
  assumes "cache_reach hf st" "ends st es st'"
  shows "length es \<le> load st \<and>
    (if length es = load st then \<not> outstanding st' else wire st' \<noteq> [])"
proof -
  have "cache_inv st'" "load st' + length es = load st"
    using ends_load [OF assms(2)] cache_reach_inv [OF assms(1)] by simp_all
  then show ?thesis
    using no_load_settled [of st'] waiting_needs_wire [of st'] by auto
qed

theorem outstanding_requests_settle_witness:
  "load busy_cache = 7 \<and> wire (finalize (fst (hd (wire busy_cache))) busy_cache) \<noteq> []"
proof -
  let ?e = "fst (hd (wire busy_cache))"
  have "wire busy_cache \<noteq> []" using busy_cache_waits(2) by auto
  then have "?e \<in> set (on_wire busy_cache)" by (simp add: hd_in_set)
  then have e: "ends busy_cache [?e] (finalize ?e busy_cache)" by (intro ends.intros)
  have "length (waiting busy_cache) = 1"
    using arg_cong [OF busy_cache_waits(1), of length] by simp
  then have "load busy_cache = 7" by (simp add: load_def busy_cache_waits(2))
  with outstanding_requests_settle [OF busy_cache_reach e] show ?thesis by simp
qed

text \<open>
  Refreshing never stacks: a manual refresh, a tick of the interval and a key's own
  timer start at most one request for a key, and none for a key that already has one on the wire,
  in the queue, or cancelled but not settled.
\<close>

theorem refresh_never_stacks:
  assumes "cache_reach hf st"
  shows "count_key k (refresh hf st) \<le> max 1 (count_key k st) \<and>
    count_key k (refresh_tick hf hidden st) \<le> max 1 (count_key k st) \<and>
    count_key k (offset_fired hf key st) \<le> max 1 (count_key k st)"
proof (intro conjI)
  have inv: "cache_inv st" and ok: "ranges_ok st" using cache_reach_inv [OF assms] by simp_all
  have inv': "cache_inv (st\<lparr>offsetTimers := x\<rparr>)" "cache_inv (st\<lparr>refreshTick := n\<rparr>)"
    and ok': "ranges_ok (st\<lparr>offsetTimers := x\<rparr>)" "ranges_ok (st\<lparr>refreshTick := n\<rparr>)" for x n
    using inv ok by (simp_all add: cache_inv_def ranges_ok_def)
  let ?c = "st\<lparr>offsetTimers := []\<rparr>"
  have "count_key k (run_all hf (dueEntries ?c 0) ?c) \<le> max 1 (count_key k ?c)"
    by (rule run_all_count [OF due_keys(1) [OF ok'(1)] due_idle [OF inv'(1) ok'(1)]])
  then show "count_key k (refresh hf st) \<le> max 1 (count_key k st)"
    by (simp add: refresh_def clearOffsetTimers_def Let_def)
  let ?t = "st\<lparr>refreshTick := refreshTick st + 1\<rparr>"
  have "count_key k (schedule hf ms (dueEntries ?t n) ?t) \<le> max 1 (count_key k ?t)" for ms n
    by (rule schedule_count [OF due_keys(1) [OF ok'(2)] due_idle [OF inv'(2) ok'(2)]])
  moreover have "count_key k ?t = count_key k st" by (simp add: count_key_def)
  ultimately show "count_key k (refresh_tick hf hidden st) \<le> max 1 (count_key k st)"
    by (simp add: refresh_tick_def Let_def split: option.split)
  let ?s = "st\<lparr>offsetTimers := filter (\<lambda>j. j \<noteq> key) (offsetTimers st)\<rparr>"
  have "count_key key ?s = 0" if "isDue ?s key (busyKeys ?s) 0"
    by (rule idle_count [OF inv'(1)]) (use that in \<open>auto simp: isDue_def\<close>)
  then have "count_key k (run hf key rg ?s) \<le> max 1 (count_key k st)"
    if "isDue ?s key (busyKeys ?s) 0" for rg
    using that run_count [of k hf key rg ?s] by (auto split: if_splits)
  then show "count_key k (offset_fired hf key st) \<le> max 1 (count_key k st)"
    by (simp add: offset_fired_def Let_def split: option.split)
qed

text \<open>
  A teardown is final: after it nothing is current, so no answer or failure of a request
  still on the wire changes what any key shows; no key it cancelled is left loading, and the
  range recorded for such a key is the range of the data it shows, so a later visit fetches
  what is missing.
\<close>

theorem abort_is_final:
  assumes "cache_reach hf st"
  shows "in_flight (abort st) = [] \<and>
    states (answered e v (abort st)) = states (abort st) \<and>
    states (failed e err (abort st)) = states (abort st) \<and>
    (\<forall>x \<in> set (in_flight st).
      \<not> ss_loading (state_of (abort st) (e_key x)) \<and>
      ss_data (state_of (abort st) (e_key x)) = ss_data (state_of st (e_key x)) \<and>
      map_of (fetchedRange (abort st)) (e_key x) = ss_range (state_of (abort st) (e_key x)))"
proof -
  have "\<not> is_current (abort st) e" by (simp add: is_current_def pending_for_def abort_in_flight)
  moreover have "state_of (clearOffsetTimers st) k = state_of st k" for k
    by (simp add: state_of_def clearOffsetTimers_def)
  ultimately show ?thesis
    using abort_in_flight [of st]
    by (auto simp: answered_def failed_def abort_def Let_def abort_loop_settles clearOffsetTimers_def)
qed

text \<open>
  A discovery answer that the feature is installed is never asked for again by the
  refresh loop; one that it is not is asked for again only every tenth tick, unless the cluster
  could not be asked, and then on every tick.
\<close>

theorem discovery_recheck:
  assumes "(key, rg) \<in> set (fetchedRange st)" "key \<in> set FAMILY_STATUS_KEYS"
    "key \<notin> set (busyKeys st)" "ss_data (state_of st key) = Some v"
  shows "(key, rg) \<in> set (dueEntries st tick) \<longleftrightarrow>
    \<not> featurePresent v \<and> (presenceUnknown v \<or> 10 dvd tick)"
  using assms
  by (auto simp: dueEntries_def Let_def isDue_def NEGATIVE_RECHECK_TICKS_def dvd_eq_mod_eq_0)

definition absent_status :: cache where
  "absent_status =
    empty_cache\<lparr>fetchedRange := [(''mesh-status'', ''1h'')],
      states := [(''mesh-status'', IDLE\<lparr>ss_data := Some (JObj [(''detected'', JStr [])])\<rparr>)]\<rparr>"

text \<open>
  Every source is issued in the first half of the refresh interval, so a read is over
  or timed out before the next tick looks at its key; a cheap one goes out on the tick itself.
\<close>

theorem refresh_offset_bounds:
  "sourceRefreshOffsetMs key ms \<le> ms div 2 \<and>
   (if 2 \<le> ms then sourceRefreshOffsetMs key ms < ms div 2 else sourceRefreshOffsetMs key ms = 0) \<and>
   (if is_cheap (fst (decodeSourceKey key)) then sourceRefreshOffsetMs key ms = 0 else True)"
  by (auto simp: sourceRefreshOffsetMs_def Let_def intro: less_imp_le)

text \<open>
  A failure is reported as a refusal of the account exactly when the server forbade the
  read, or answered not-found on one of the routes that have no other way to forbid; an ordinary
  not-found, a missing metrics binding and every transport failure never are.
\<close>

theorem classify_permission_iff:
  "classify err base = Permission \<longleftrightarrow>
   (\<exists>status reason m. err = ApiFailure status reason m \<and>
     (status = 403 \<or>
      (status = 404 \<and> reason \<noteq> Some METRICS_NOT_CONFIGURED_REASON \<and> base \<in> set NOT_FOUND_IS_REFUSAL)))"
proof -
  have r: "reason_kind base reason \<noteq> Some Permission" for reason
    by (auto simp: reason_kind_def REASON_KINDS_def split: option.splits if_splits)
  show ?thesis
    using r by (cases err) (auto split: option.split)
qed

end
