(* ===== verification/Path_Safety.thy ===== *)
theory Path_Safety
  imports Prelude
begin

text \<open>
  Traversal detection for proxied paths (\<open>src/frontend/server/path-safety.ts\<close>), with the
  language's \<open>decodeURIComponent\<close> it relies on. Decoding a path can produce any UTF-16 code
  unit, so the strings here are lists of code units; \<open>units\<close> turns a literal into one.
\<close>

type_synonym ustr = "nat list"

definition units :: "string \<Rightarrow> ustr" where
  "units s = map of_char s"

section \<open>decodeURIComponent\<close>

definition hex_digit :: "nat \<Rightarrow> nat option" where
  "hex_digit c =
    (if 48 \<le> c \<and> c \<le> 57 then Some (c - 48)
     else if 65 \<le> c \<and> c \<le> 70 then Some (c - 55)
     else if 97 \<le> c \<and> c \<le> 102 then Some (c - 87)
     else None)"

text \<open>One escape \<open>%XX\<close> at the front: its octet and what follows.\<close>

fun pct_octet :: "ustr \<Rightarrow> (nat \<times> ustr) option" where
  "pct_octet (p # a # b # r) =
    (if p \<noteq> 37 then None
     else case (hex_digit a, hex_digit b) of
         (Some x, Some y) \<Rightarrow> Some (16 * x + y, r)
       | _ \<Rightarrow> None)"
| "pct_octet _ = None"

fun pct_octets :: "nat \<Rightarrow> ustr \<Rightarrow> (nat list \<times> ustr) option" where
  "pct_octets 0 s = Some ([], s)"
| "pct_octets (Suc n) s =
    (case pct_octet s of
       None \<Rightarrow> None
     | Some (b, r) \<Rightarrow>
         (case pct_octets n r of None \<Rightarrow> None | Some (bs, r') \<Rightarrow> Some (b # bs, r')))"

text \<open>How many further octets a leading octet announces; \<open>None\<close> when it cannot lead.\<close>

definition continuations :: "nat \<Rightarrow> nat option" where
  "continuations b =
    (if b < 0x80 then Some 0
     else if b < 0xC0 then None
     else if b < 0xE0 then Some 1
     else if b < 0xF0 then Some 2
     else if b < 0xF8 then Some 3
     else None)"

definition is_continuation :: "nat \<Rightarrow> bool" where
  "is_continuation b \<longleftrightarrow> 0x80 \<le> b \<and> b < 0xC0"

text \<open>The code point of a well-formed UTF-8 sequence: no overlong form, no surrogate.\<close>

fun utf8_point :: "nat list \<Rightarrow> nat option" where
  "utf8_point [b] = (if b < 0x80 then Some b else None)"
| "utf8_point [b, c] =
    (if is_continuation c
     then let v = (b - 0xC0) * 0x40 + (c - 0x80) in if 0x80 \<le> v then Some v else None
     else None)"
| "utf8_point [b, c, d] =
    (if is_continuation c \<and> is_continuation d
     then let v = (b - 0xE0) * 0x1000 + (c - 0x80) * 0x40 + (d - 0x80)
          in if 0x800 \<le> v \<and> \<not> (0xD800 \<le> v \<and> v < 0xE000) then Some v else None
     else None)"
| "utf8_point [b, c, d, e] =
    (if is_continuation c \<and> is_continuation d \<and> is_continuation e
     then let v = (b - 0xF0) * 0x40000 + (c - 0x80) * 0x1000 + (d - 0x80) * 0x40 + (e - 0x80)
          in if 0x10000 \<le> v \<and> v < 0x110000 then Some v else None
     else None)"
| "utf8_point _ = None"

definition utf16 :: "nat \<Rightarrow> ustr" where
  "utf16 v =
    (if v < 0x10000 then [v]
     else [0xD800 + (v - 0x10000) div 0x400, 0xDC00 + (v - 0x10000) mod 0x400])"

text \<open>One step of the decoder: the units produced and the rest of the input.\<close>

definition decode_escape :: "ustr \<Rightarrow> (ustr \<times> ustr) option" where
  "decode_escape s =
    (case pct_octet s of
       None \<Rightarrow> None
     | Some (b, r) \<Rightarrow>
         (case continuations b of
            None \<Rightarrow> None
          | Some n \<Rightarrow>
              (case pct_octets n r of
                 None \<Rightarrow> None
               | Some (bs, r') \<Rightarrow>
                   (case utf8_point (b # bs) of None \<Rightarrow> None | Some v \<Rightarrow> Some (utf16 v, r')))))"

lemma pct_octet_length: "pct_octet s = Some (b, r) \<Longrightarrow> length s = length r + 3"
  by (cases s rule: pct_octet.cases) (auto split: if_splits option.splits)

lemma pct_octets_length: "pct_octets n s = Some (bs, r) \<Longrightarrow> length s = length r + 3 * n \<and> length bs = n"
  by (induction n arbitrary: s bs r) (fastforce split: option.splits dest: pct_octet_length)+

lemma decode_escape_length:
  assumes "decode_escape s = Some (out, r)"
  shows "length out + length r < length s"
proof -
  obtain b r1 n bs v where p: "pct_octet s = Some (b, r1)" "continuations b = Some n"
    "pct_octets n r1 = Some (bs, r)" "utf8_point (b # bs) = Some v" "out = utf16 v"
    using assms by (auto simp: decode_escape_def split: option.splits)
  have "length s = length r + 3 * n + 3"
    using pct_octet_length [OF p(1)] pct_octets_length [OF p(3)] by simp
  moreover have "length out \<le> 2" using p(5) by (simp add: utf16_def)
  ultimately show ?thesis by simp
qed

function decodeURIComponent :: "ustr \<Rightarrow> ustr option" where
  "decodeURIComponent [] = Some []"
| "decodeURIComponent (c # s) =
    (if c \<noteq> 37 then map_option ((#) c) (decodeURIComponent s)
     else case decode_escape (c # s) of
         None \<Rightarrow> None
       | Some (out, r) \<Rightarrow> map_option ((@) out) (decodeURIComponent r))"
  by pat_completeness auto
termination
  by (relation "measure length") (auto dest: decode_escape_length)

text \<open>
  Decoding never lengthens a string, shortens every string with an escape and leaves the others
  alone.
\<close>

lemma decode_length:
  "decodeURIComponent s = Some t \<Longrightarrow> length t \<le> length s \<and> (37 \<in> set s \<longrightarrow> length t < length s)"
proof (induction s arbitrary: t rule: decodeURIComponent.induct)
  case (2 c s)
  show ?case
  proof (cases "c = 37")
    case True
    obtain out r u where d: "decode_escape (c # s) = Some (out, r)" "decodeURIComponent r = Some u"
      "t = out @ u"
      using 2(3) True by (auto split: option.splits)
    have "length u \<le> length r" using 2(2) [OF _ d(1) refl d(2)] True by simp
    then show ?thesis using decode_escape_length [OF d(1)] d(3) by simp
  next
    case False
    obtain u where "decodeURIComponent s = Some u" "t = c # u" using 2(3) False by auto
    then show ?thesis using 2(1) False by auto
  qed
qed simp

lemma decode_plain: "37 \<notin> set s \<Longrightarrow> decodeURIComponent s = Some s"
  by (induction s) auto

lemma decode_changes: "37 \<in> set s \<Longrightarrow> decodeURIComponent s \<noteq> Some s"
  using decode_length [of s s] by auto

section \<open>The guard\<close>

text \<open>\<open>/\.\.|\/\/|%2e|%2f/i\<close>, tried at every position.\<close>

fun traversal_here :: "ustr \<Rightarrow> bool" where
  "traversal_here (a # b # r) =
    (a = 46 \<and> b = 46 \<or> a = 47 \<and> b = 47 \<or>
     a = 37 \<and> b = 50 \<and> (case r of [] \<Rightarrow> False | c # _ \<Rightarrow> c \<in> {69, 101, 70, 102}))"
| "traversal_here _ = False"

fun TRAVERSAL_PATTERN :: "ustr \<Rightarrow> bool" where
  "TRAVERSAL_PATTERN [] = False"
| "TRAVERSAL_PATTERN (c # s) = (traversal_here (c # s) \<or> TRAVERSAL_PATTERN s)"

definition MAX_DECODE_PASSES :: nat where
  "MAX_DECODE_PASSES = 8"

text \<open>The loop with its remaining passes; the forms found so far are \<open>forms\<close>.\<close>

fun decode_loop :: "nat \<Rightarrow> ustr \<Rightarrow> ustr list \<Rightarrow> ustr list option" where
  "decode_loop 0 current forms = (if 37 \<in> set current then None else Some forms)"
| "decode_loop (Suc n) current forms =
    (if 37 \<notin> set current then Some forms
     else case decodeURIComponent current of
         None \<Rightarrow> None
       | Some next \<Rightarrow>
           if next = current then Some forms else decode_loop n next (forms @ [next]))"

definition decodedForms :: "ustr \<Rightarrow> ustr list option" where
  "decodedForms path = decode_loop MAX_DECODE_PASSES path [path]"

definition hasTraversal :: "ustr \<Rightarrow> bool" where
  "hasTraversal path =
    (case decodedForms path of None \<Rightarrow> True | Some forms \<Rightarrow> list_ex TRAVERSAL_PATTERN forms)"

section \<open>What the guard decides\<close>

text \<open>A path decoded a number of times by somebody downstream.\<close>

fun decoded_times :: "nat \<Rightarrow> ustr \<Rightarrow> ustr option" where
  "decoded_times 0 s = Some s"
| "decoded_times (Suc n) s =
    (case decodeURIComponent s of None \<Rightarrow> None | Some t \<Rightarrow> decoded_times n t)"

lemma decoded_times_plain: "37 \<notin> set s \<Longrightarrow> decoded_times n s = Some s"
  by (induction n) (simp_all add: decode_plain)

definition clean_forms :: "ustr \<Rightarrow> bool" where
  "clean_forms s \<longleftrightarrow> (\<forall>n. \<exists>q. decoded_times n s = Some q \<and> \<not> TRAVERSAL_PATTERN q)"

lemma all_nat_split: "(\<forall>n. P n) \<longleftrightarrow> P 0 \<and> (\<forall>n. P (Suc n))"
  by (metis nat.exhaust)

lemma clean_forms_step:
  "decodeURIComponent s = Some t \<Longrightarrow> clean_forms s \<longleftrightarrow> \<not> TRAVERSAL_PATTERN s \<and> clean_forms t"
  unfolding clean_forms_def by (subst all_nat_split) simp

lemma clean_forms_plain: "37 \<notin> set s \<Longrightarrow> clean_forms s \<longleftrightarrow> \<not> TRAVERSAL_PATTERN s"
  by (simp add: clean_forms_def decoded_times_plain)

definition settles_within :: "nat \<Rightarrow> ustr \<Rightarrow> bool" where
  "settles_within n s \<longleftrightarrow> (case decoded_times n s of None \<Rightarrow> False | Some q \<Rightarrow> 37 \<notin> set q)"

lemma settles_plain: "37 \<notin> set s \<Longrightarrow> settles_within n s"
  by (simp add: settles_within_def decoded_times_plain)

lemma decode_loop_decides:
  "(case decode_loop n s forms of None \<Rightarrow> False | Some fs \<Rightarrow> \<not> list_ex TRAVERSAL_PATTERN fs) \<longleftrightarrow>
   (\<not> list_ex TRAVERSAL_PATTERN forms \<and> settles_within n s \<and> (TRAVERSAL_PATTERN s \<or> clean_forms s))"
  if "s = last forms" "forms \<noteq> []"
  using that
proof (induction n arbitrary: s forms)
  case 0
  have "list_ex TRAVERSAL_PATTERN forms \<or> \<not> TRAVERSAL_PATTERN s"
    using 0 last_in_set [of forms] by (auto simp: list_ex_iff)
  then show ?case by (auto simp: settles_within_def clean_forms_plain)
next
  case (Suc n)
  have last: "list_ex TRAVERSAL_PATTERN forms \<or> \<not> TRAVERSAL_PATTERN s"
    using Suc.prems last_in_set [of forms] by (auto simp: list_ex_iff)
  show ?case
  proof (cases "37 \<in> set s")
    case False
    then show ?thesis using last by (auto simp: settles_plain clean_forms_plain)
  next
    case pct: True
    show ?thesis
    proof (cases "decodeURIComponent s")
      case None
      then show ?thesis using pct by (simp add: settles_within_def)
    next
      case (Some t)
      have "t \<noteq> s" using decode_changes [OF pct] Some by auto
      moreover have "settles_within (Suc n) s = settles_within n t"
        using Some by (simp add: settles_within_def)
      moreover have "\<not> TRAVERSAL_PATTERN t" if "clean_forms t"
        using that by (auto simp: clean_forms_def dest: spec [of _ 0])
      ultimately show ?thesis
        using pct Some last Suc.IH [of t "forms @ [t]"] clean_forms_step [OF Some] by auto
    qed
  qed
qed

lemma not_hasTraversal_iff: "\<not> hasTraversal p \<longleftrightarrow> clean_forms p \<and> settles_within 8 p"
proof -
  have "\<not> TRAVERSAL_PATTERN p" if "clean_forms p"
    using that by (auto simp: clean_forms_def dest: spec [of _ 0])
  then show ?thesis
    using decode_loop_decides [of p "[p]" 8]
    by (auto simp: hasTraversal_def decodedForms_def MAX_DECODE_PASSES_def split: option.split)
qed

section \<open>Separators\<close>

text \<open>
  A decoding of a path the guard lets through has the dots and slashes of the raw path, in order:
  no segment appears, disappears or turns into \<open>.\<close> or \<open>..\<close>.
\<close>

definition separators :: "ustr \<Rightarrow> ustr" where
  "separators s = filter (\<lambda>c. c = 46 \<or> c = 47) s"

lemma separators_simps [simp]:
  "separators [] = []" "separators (xs @ ys) = separators xs @ separators ys"
  "separators (c # s) = (if c = 46 \<or> c = 47 then c # separators s else separators s)"
  by (simp_all add: separators_def)

lemma traversal_suffix: "TRAVERSAL_PATTERN ys \<Longrightarrow> TRAVERSAL_PATTERN (xs @ ys)"
  by (induction xs) auto

lemma hex_digit_cases:
  "hex_digit c = Some x \<Longrightarrow> x < 16 \<and> c \<noteq> 46 \<and> c \<noteq> 47 \<and> (x = 2 \<longrightarrow> c = 50) \<and>
    (x = 14 \<longrightarrow> c \<in> {69, 101}) \<and> (x = 15 \<longrightarrow> c \<in> {70, 102})"
  by (auto simp: hex_digit_def split: if_splits)

lemma pct_octetE:
  assumes "pct_octet s = Some (b, r)"
  obtains h l where "s = 37 # h # l # r" "separators [37, h, l] = []"
    "b = 46 \<or> b = 47 \<Longrightarrow> traversal_here s"
proof -
  obtain h l x y where s: "s = 37 # h # l # r" "hex_digit h = Some x" "hex_digit l = Some y"
    "b = 16 * x + y"
    using assms by (cases s rule: pct_octet.cases) (auto split: if_splits option.splits)
  note d = hex_digit_cases [OF s(2)] hex_digit_cases [OF s(3)]
  have "x = 2 \<and> (y = 14 \<or> y = 15)" if "b = 46 \<or> b = 47"
  proof -
    have "y < 16" using d by simp
    then show ?thesis using that s(4) by presburger
  qed
  then have "traversal_here s" if "b = 46 \<or> b = 47"
    using that d s(1) by auto
  then show thesis using that d s(1) by simp
qed

lemma pct_octets_separators:
  "pct_octets n s = Some (bs, r) \<Longrightarrow> \<exists>pre. s = pre @ r \<and> separators pre = []"
proof (induction n arbitrary: s bs r)
  case (Suc n)
  then obtain b r1 bs1 where p: "pct_octet s = Some (b, r1)" "pct_octets n r1 = Some (bs1, r)"
    by (auto split: option.splits)
  obtain h l where s: "s = [37, h, l] @ r1" "separators [37, h, l] = []"
    using p(1) by (rule pct_octetE) simp
  obtain pre where "r1 = pre @ r" "separators pre = []" using Suc.IH [OF p(2)] by blast
  then have "s = ([37, h, l] @ pre) @ r \<and> separators ([37, h, l] @ pre) = []"
    using s by (simp only: separators_simps append_assoc append_Nil)
  then show ?case by blast
qed simp

lemma multibyte_point: "utf8_point (b # c # bs) = Some v \<Longrightarrow> 0x80 \<le> v"
  by (cases "b # c # bs" rule: utf8_point.cases) (auto simp: Let_def split: if_splits)

lemma decode_escape_separators:
  assumes "decode_escape s = Some (out, r)" "\<not> traversal_here s"
  shows "separators out = [] \<and> (\<exists>pre. s = pre @ r \<and> separators pre = [])"
proof -
  obtain b r1 n bs v where p: "pct_octet s = Some (b, r1)" "continuations b = Some n"
    "pct_octets n r1 = Some (bs, r)" "utf8_point (b # bs) = Some v" "out = utf16 v"
    using assms by (auto simp: decode_escape_def split: option.splits)
  obtain h l where s: "s = [37, h, l] @ r1" "separators [37, h, l] = []" "b \<noteq> 46" "b \<noteq> 47"
    using p(1) by (rule pct_octetE) (use assms(2) in auto)
  obtain pre where pre: "r1 = pre @ r" "separators pre = []" using pct_octets_separators [OF p(3)] by blast
  have "v \<noteq> 46 \<and> v \<noteq> 47"
  proof (cases bs)
    case Nil
    then show ?thesis using p(4) s by (simp split: if_splits)
  next
    case (Cons c cs)
    then show ?thesis using multibyte_point [of b c cs v] p(4) by simp
  qed
  then have "separators out = []" using p(5) by (simp add: utf16_def)
  moreover have "s = ([37, h, l] @ pre) @ r \<and> separators ([37, h, l] @ pre) = []"
    using s pre by (simp only: separators_simps append_assoc append_Nil)
  ultimately show ?thesis by blast
qed

lemma decode_separators:
  "decodeURIComponent s = Some t \<Longrightarrow> \<not> TRAVERSAL_PATTERN s \<Longrightarrow> separators t = separators s"
proof (induction s arbitrary: t rule: decodeURIComponent.induct)
  case (2 c s)
  show ?case
  proof (cases "c = 37")
    case True
    obtain out r u where d: "decode_escape (c # s) = Some (out, r)" "decodeURIComponent r = Some u"
      "t = out @ u"
      using 2(3) True by (auto split: option.splits)
    have "\<not> traversal_here (c # s)" using 2(4) by simp
    from decode_escape_separators [OF d(1) this] obtain pre where
      pre: "separators out = []" "c # s = pre @ r" "separators pre = []" by blast
    have "\<not> TRAVERSAL_PATTERN r" using 2(4) traversal_suffix [of r pre] pre(2) by auto
    with 2(2) [OF _ d(1) refl d(2)] True have "separators u = separators r" by simp
    then show ?thesis using d(3) pre by (simp del: separators_simps(3))
  next
    case False
    then show ?thesis using 2 by auto
  qed
qed simp

lemma clean_separators:
  "clean_forms s \<Longrightarrow> \<exists>q. decoded_times n s = Some q \<and> \<not> TRAVERSAL_PATTERN q \<and> separators q = separators s"
proof (induction n arbitrary: s)
  case 0
  then show ?case by (auto simp: clean_forms_def dest: spec [of _ 0])
next
  case (Suc n)
  obtain t where t: "decodeURIComponent s = Some t"
    using Suc.prems by (auto simp: clean_forms_def dest!: spec [of _ "Suc 0"] split: option.splits)
  with Suc.prems have c: "clean_forms t" "\<not> TRAVERSAL_PATTERN s" by (simp_all add: clean_forms_step)
  from Suc.IH [OF c(1)] t decode_separators [OF t c(2)] show ?case by simp
qed

section \<open>Properties\<close>

text \<open>The spellings the guard refuses, wherever they occur in a form of the path.\<close>

definition refused_spellings :: "ustr list" where
  "refused_spellings = map units [''..'', ''//'', ''%2e'', ''%2E'', ''%2f'', ''%2F'']"

definition occurs :: "ustr \<Rightarrow> ustr \<Rightarrow> bool" where
  "occurs m s \<longleftrightarrow> (\<exists>xs ys. s = xs @ m @ ys)"

lemma occurs_Cons: "occurs m (c # s) \<longleftrightarrow> take (length m) (c # s) = m \<or> occurs m s"
proof
  assume "occurs m (c # s)"
  then obtain xs ys where e: "c # s = xs @ m @ ys" by (auto simp: occurs_def)
  show "take (length m) (c # s) = m \<or> occurs m s"
  proof (cases xs)
    case Nil
    with e show ?thesis by simp
  next
    case (Cons d zs)
    with e show ?thesis by (auto simp: occurs_def)
  qed
next
  assume "take (length m) (c # s) = m \<or> occurs m s"
  then show "occurs m (c # s)"
    unfolding occurs_def by (metis append_Cons append_Nil append_take_drop_id)
qed

lemma traversal_occurs: "TRAVERSAL_PATTERN s \<longleftrightarrow> list_ex (\<lambda>m. occurs m s) refused_spellings"
proof (induction s)
  case Nil
  show ?case by (simp add: refused_spellings_def occurs_def units_def)
next
  case (Cons c s)
  have "traversal_here (c # s) \<longleftrightarrow> list_ex (\<lambda>m. take (length m) (c # s) = m) refused_spellings"
    by (cases s; cases "tl s") (auto simp: refused_spellings_def units_def)
  with Cons show ?case
    by (auto simp: occurs_Cons list_ex_iff)
qed

text \<open>
  Claim C7. The guard lets a path through exactly when two things hold. However often the path is
  decoded, its escapes are well formed and the result contains neither two dots in a row, nor an
  empty segment (two slashes in a row), nor an escaped dot or slash; and eight decodings leave no
  escape. So a malformed escape, at any depth, and a nesting deeper than the pass bound are refused,
  and no number of decodings downstream turns an accepted path into one with a refused spelling.
\<close>

theorem traversal_guard_exact:
  "\<not> hasTraversal p \<longleftrightarrow>
    (\<forall>n. \<exists>q. decoded_times n p = Some q \<and> list_all (\<lambda>m. \<not> occurs m q) refused_spellings) \<and>
    (\<exists>q. decoded_times MAX_DECODE_PASSES p = Some q \<and> 37 \<notin> set q)"
  unfolding not_hasTraversal_iff clean_forms_def settles_within_def MAX_DECODE_PASSES_def traversal_occurs
  by (cases "decoded_times 8 p") (simp_all add: list_all_iff list_ex_iff)

text \<open>
  Every decoding of an accepted path has the same dots and slashes in the same order as
  the path itself: decoding moves no segment boundary and makes no dot segment.
\<close>

theorem accepted_path_keeps_segments:
  assumes "\<not> hasTraversal p"
  shows "\<exists>q. decoded_times n p = Some q \<and> separators q = separators p"
  using clean_separators [of p n] assms by (auto simp: not_hasTraversal_iff)

text \<open>Evaluation on literals.\<close>

lemma decode_loop_numeral:
  "decode_loop (numeral k) current forms =
    (if 37 \<notin> set current then Some forms
     else case decodeURIComponent current of
         None \<Rightarrow> None
       | Some next \<Rightarrow>
           if next = current then Some forms
           else decode_loop (pred_numeral k) next (forms @ [next]))"
  by (simp only: numeral_eq_Suc decode_loop.simps)

lemma decoded_times_numeral:
  "decoded_times (numeral k) s =
    (case decodeURIComponent s of None \<Rightarrow> None | Some t \<Rightarrow> decoded_times (pred_numeral k) t)"
  by (simp only: numeral_eq_Suc decoded_times.simps)

lemmas decode_eval =
  decode_loop_numeral decoded_times_numeral units_def decode_escape_def hex_digit_def
  continuations_def utf16_def hasTraversal_def decodedForms_def MAX_DECODE_PASSES_def

definition spaced_path :: ustr where
  "spaced_path = units ''v1/pods/a%2520b''"

end
