(* ===== verification/Http_Server.thy ===== *)
theory Http_Server
  imports Path_Safety Js_Text Json
begin

text \<open>
  The frontend's outer HTTP server (\<open>src/frontend/server\<close>): the WebSocket allowlist, the
  security headers, the rewrite of cluster-scoped detail pages, the proxy to the backend, the
  token exchange, static files, and the dispatch that composes them.

  A request is what the HTTP parser hands over (header names already in lower case). A response
  is threaded through the handlers: its status, its headers keyed by lower-case name as
  \<open>setHeader\<close> keys them, and its body once \<open>end\<close> has been called. The backend (\<open>fetch\<close>), the
  file system and the page renderer are arguments.
\<close>

section \<open>WebSocket paths\<close>

datatype ws_path_rejection = Outside | Invalid | Unknown

datatype ws_path_check = WsOk string | WsRejected int ws_path_rejection

text \<open>\<open>/^\/ws\/(.+)$/\<close>: a dot matches no line terminator.\<close>

definition line_end :: "char \<Rightarrow> bool" where
  "line_end c \<longleftrightarrow> c = CHR 0x0A \<or> c = CHR 0x0D"

definition ws_tail :: "string \<Rightarrow> string option" where
  "ws_tail pathname =
    (let r = drop 4 pathname
     in if startsWith pathname ''/ws/'' \<and> r \<noteq> [] \<and> \<not> list_ex line_end r then Some r else None)"

text \<open>\<open>[^/]+\/[^/]+\/[^/]+$\<close> after a literal prefix.\<close>

definition three_segments :: "string \<Rightarrow> string \<Rightarrow> bool" where
  "three_segments pre path \<longleftrightarrow>
    startsWith path pre \<and>
    (let segs = split_on CHR ''/'' (drop (length pre) path)
     in length segs = 3 \<and> list_all (\<lambda>s. s \<noteq> []) segs)"

definition ALLOWED_WS_PATTERNS :: "(string \<Rightarrow> bool) list" where
  "ALLOWED_WS_PATTERNS =
    [\<lambda>p. p = ''v1/ws/resources'',
     three_segments ''v1/ws/logs/'',
     three_segments ''v1/ws/exec/'',
     \<lambda>p. p = ''v1/ws/alerts'',
     \<lambda>p. p = ''v1/ws/flows'',
     \<lambda>p. p = ''v1/ws/logs-search'']"

definition checkWsPath :: "string \<Rightarrow> ws_path_check" where
  "checkWsPath rawUrl =
    (case ws_tail (before_query rawUrl) of
       None \<Rightarrow> WsRejected 404 Outside
     | Some path \<Rightarrow>
         if \<not> startsWith path ''v1/'' \<or> hasTraversal (units path) then WsRejected 400 Invalid
         else if \<not> list_ex (\<lambda>pattern. pattern path) ALLOWED_WS_PATTERNS then WsRejected 404 Unknown
         else WsOk path)"

definition remapCloseCode :: "int \<Rightarrow> int" where
  "remapCloseCode code = (if code \<ge> 1000 \<and> code \<le> 4999 \<and> code \<noteq> 1006 then code else 1000)"

section \<open>Requests and responses\<close>

datatype header_value = HStr string | HList "string list"

record request =
  rq_method :: "string option"
  rq_url :: "string option"
  rq_headers :: "(string \<times> header_value) list"

datatype body =
    Text string
  | JsonBody json
  | NoContent
  | Piped
  | Truncated
  | FileStream ustr

record response =
  rs_status :: int
  rs_headers :: "(string \<times> header_value) list"
  rs_body :: "body option"

definition fresh_response :: response where
  "fresh_response = \<lparr>rs_status = 200, rs_headers = [], rs_body = None\<rparr>"

definition setHeader :: "string \<Rightarrow> header_value \<Rightarrow> response \<Rightarrow> response" where
  "setHeader name v res = res\<lparr>rs_headers := set_key (toLowerCase name) v (rs_headers res)\<rparr>"

definition answer :: "int \<Rightarrow> body \<Rightarrow> response \<Rightarrow> response" where
  "answer status b res = res\<lparr>rs_status := status, rs_body := Some b\<rparr>"

definition url_of :: "string \<Rightarrow> request \<Rightarrow> string" where
  "url_of dflt rq = (case rq_url rq of None \<Rightarrow> dflt | Some u \<Rightarrow> u)"

section \<open>Security headers\<close>

definition intercalate :: "string \<Rightarrow> string list \<Rightarrow> string" where
  "intercalate sep ss = (case ss of [] \<Rightarrow> [] | s # r \<Rightarrow> s @ concat (map (\<lambda>t. sep @ t) r))"

definition quoted :: "string \<Rightarrow> string" where
  "quoted s = CHR 0x27 # s @ [CHR 0x27]"

definition self :: string where
  "self = quoted ''self''"

definition CONTENT_SECURITY_POLICY :: string where
  "CONTENT_SECURITY_POLICY = intercalate ''; ''
    [''default-src '' @ self,
     ''script-src '' @ self @ '' '' @ quoted ''unsafe-inline'' @ '' https://esm.sh/'',
     ''style-src '' @ self @ '' '' @ quoted ''unsafe-inline'' @
       '' https://esm.sh/ https://fonts.googleapis.com/'',
     ''font-src '' @ self @ '' https://fonts.gstatic.com/'',
     ''img-src '' @ self @ '' data:'',
     ''connect-src '' @ self @ '' https://esm.sh/'',
     ''worker-src '' @ self @ '' blob: https://esm.sh/'',
     ''frame-src '' @ self,
     ''frame-ancestors '' @ quoted ''none'',
     ''base-uri '' @ self,
     ''object-src '' @ quoted ''none'',
     ''form-action '' @ self]"

definition SECURITY_HEADERS :: "(string \<times> string) list" where
  "SECURITY_HEADERS =
    [(''Content-Security-Policy'', CONTENT_SECURITY_POLICY),
     (''X-Frame-Options'', ''DENY''),
     (''X-Content-Type-Options'', ''nosniff''),
     (''Referrer-Policy'', ''strict-origin-when-cross-origin''),
     (''Permissions-Policy'', ''camera=(), microphone=(), geolocation=()'')]"

definition applySecurityHeaders :: "response \<Rightarrow> response" where
  "applySecurityHeaders res = foldl (\<lambda>r (name, v). setHeader name (HStr v) r) res SECURITY_HEADERS"

definition rawHeaderLines :: "string list" where
  "rawHeaderLines = map (\<lambda>(name, v). name @ '': '' @ v) SECURITY_HEADERS"

section \<open>Rewrites\<close>

definition CLUSTER_SCOPED_CRD_SEGMENT :: string where
  "CLUSTER_SCOPED_CRD_SEGMENT = ''cluster-scoped''"

definition crd_match :: "string \<Rightarrow> (string \<times> string \<times> string) option" where
  "crd_match pathname =
    (case split_on CHR ''/'' pathname of
       [e, x, grp, resource, u, name] \<Rightarrow>
         if e = [] \<and> x = ''extensions'' \<and> u = ''_'' \<and> grp \<noteq> [] \<and> resource \<noteq> [] \<and> name \<noteq> []
         then Some (grp, resource, name) else None
     | _ \<Rightarrow> None)"

definition rewriteClusterScopedCrdPathname :: "string \<Rightarrow> string" where
  "rewriteClusterScopedCrdPathname pathname =
    (case crd_match pathname of
       None \<Rightarrow> pathname
     | Some (grp, resource, name) \<Rightarrow>
         ''/extensions/'' @ grp @ ''/'' @ resource @ ''/'' @ CLUSTER_SCOPED_CRD_SEGMENT @ ''/'' @ name)"

definition applyClusterScopedCrdRewrite :: "request \<Rightarrow> request" where
  "applyClusterScopedCrdRewrite rq =
    (let raw = url_of ''/'' rq; pathname = before_query raw; query = from_query raw;
         rewritten = rewriteClusterScopedCrdPathname pathname
     in if rewritten \<noteq> pathname then rq\<lparr>rq_url := Some (rewritten @ query)\<rparr> else rq)"

section \<open>The proxy to the backend\<close>

definition FORWARD_HEADERS :: "string list" where
  "FORWARD_HEADERS =
    [''authorization'', ''content-type'', ''accept'', ''x-requested-with'', ''x-cluster-id'', ''cookie'']"

definition HOP_BY_HOP_HEADERS :: "string list" where
  "HOP_BY_HOP_HEADERS =
    [''connection'', ''keep-alive'', ''proxy-authenticate'', ''proxy-authorization'', ''te'',
     ''trailers'', ''transfer-encoding'', ''upgrade'']"

definition PROXY_TIMEOUT_MS :: nat where
  "PROXY_TIMEOUT_MS = 30000"

definition isApiProxyPath :: "string \<Rightarrow> bool" where
  "isApiProxyPath pathname \<longleftrightarrow> pathname = ''/api'' \<or> startsWith pathname ''/api/''"

definition isValidBackendPath :: "string \<Rightarrow> bool" where
  "isValidBackendPath backendPath \<longleftrightarrow>
    startsWith backendPath ''v1/'' \<and> \<not> hasTraversal (units backendPath)"

definition isOIDCRedirectPath :: "string \<Rightarrow> bool" where
  "isOIDCRedirectPath backendPath =
    (case split_on CHR ''/'' backendPath of
       [a, b, c, provider, step] \<Rightarrow>
         a = ''v1'' \<and> b = ''auth'' \<and> c = ''oidc'' \<and> provider \<noteq> [] \<and> step \<in> {''login'', ''callback''}
     | _ \<Rightarrow> False)"

definition sendJson :: "int \<Rightarrow> json \<Rightarrow> response \<Rightarrow> response" where
  "sendJson status b res =
    (setHeader ''Content-Type'' (HStr ''application/json'') (res\<lparr>rs_status := status\<rparr>))
      \<lparr>rs_body := Some (JsonBody b)\<rparr>"

definition error_body :: "int \<Rightarrow> string \<Rightarrow> (string \<times> json) list \<Rightarrow> json" where
  "error_body code message extra =
    JObj [(''error'', JObj ([(''code'', JNum (Num (of_int code))), (''message'', JStr message)] @ extra))]"

record backend_request =
  br_target :: string
  br_method :: string
  br_headers :: "(string \<times> string) list"
  br_hasBody :: bool
  br_manualRedirect :: bool

text \<open>What the fetch gives: an answer whose body ends, is absent or breaks off, or no answer.\<close>

datatype body_outcome =
    NoBody
  | BodyDone
  | BodyBroke (headers_sent: bool) (timed_out: bool)

record backend_answer =
  ba_status :: int
  ba_headers :: "(string \<times> string) list"
  ba_setCookie :: "string list"
  ba_body :: body_outcome

datatype fetch_outcome =
    Answered backend_answer
  | FetchFailed (fetch_timed_out: bool)

definition forwarded_header :: "(string \<times> header_value) list \<Rightarrow> string \<Rightarrow> (string \<times> string) list" where
  "forwarded_header hs name =
    (case map_of hs name of
       Some (HStr v) \<Rightarrow> if v \<noteq> [] then [(name, v)] else []
     | Some (HList vs) \<Rightarrow> if vs \<noteq> [] then [(name, intercalate '', '' vs)] else []
     | None \<Rightarrow> [])"

definition backend_path :: "request \<Rightarrow> string" where
  "backend_path rq =
    (let pathname = before_query (url_of ''/'' rq)
     in if startsWith pathname ''/api/'' then drop 5 pathname else [])"

definition method_of :: "request \<Rightarrow> string" where
  "method_of rq = toUpperCase (case rq_method rq of None \<Rightarrow> ''GET'' | Some m \<Rightarrow> m)"

definition proxy_request :: "string \<Rightarrow> request \<Rightarrow> backend_request option" where
  "proxy_request backendUrl rq =
    (let backendPath = backend_path rq; method = method_of rq
     in if \<not> isValidBackendPath backendPath then None
        else Some
          \<lparr>br_target = backendUrl @ ''/api/'' @ backendPath @ from_query (url_of ''/'' rq),
           br_method = method,
           br_headers = concat (map (forwarded_header (rq_headers rq)) FORWARD_HEADERS),
           br_hasBody = (method \<noteq> ''GET'' \<and> method \<noteq> ''HEAD''),
           br_manualRedirect = isOIDCRedirectPath backendPath\<rparr>)"

definition stripped :: "string \<Rightarrow> bool" where
  "stripped name \<longleftrightarrow> toLowerCase name = ''set-cookie'' \<or> toLowerCase name \<in> set HOP_BY_HOP_HEADERS"

definition copy_headers :: "(string \<times> string) list \<Rightarrow> response \<Rightarrow> response" where
  "copy_headers hs res =
    foldl (\<lambda>r (name, v). if stripped name then r else setHeader name (HStr v) r) res hs"

definition proxy_failure :: "bool \<Rightarrow> response \<Rightarrow> response" where
  "proxy_failure isTimeout res =
    (if isTimeout
     then sendJson 504 (error_body 504 ''Gateway timeout''
       [(''detail'', JStr ''The backend did not respond in time'')]) res
     else sendJson 502 (error_body 502 ''Backend unavailable''
       [(''detail'', JStr ''Could not connect to the k8sCenter backend'')]) res)"

definition proxy_answer :: "fetch_outcome \<Rightarrow> response \<Rightarrow> response" where
  "proxy_answer out res =
    (case out of
       FetchFailed t \<Rightarrow> proxy_failure t res
     | Answered b \<Rightarrow>
         (let res1 = copy_headers (ba_headers b) (res\<lparr>rs_status := ba_status b\<rparr>);
              res2 = (if ba_setCookie b \<noteq> [] then setHeader ''set-cookie'' (HList (ba_setCookie b)) res1
                      else res1)
          in case ba_body b of
               NoBody \<Rightarrow> res2\<lparr>rs_body := Some NoContent\<rparr>
             | BodyDone \<Rightarrow> res2\<lparr>rs_body := Some Piped\<rparr>
             | BodyBroke sent t \<Rightarrow>
                 if sent then res2\<lparr>rs_body := Some Truncated\<rparr> else proxy_failure t res2))"

definition handleApiProxy ::
  "string \<Rightarrow> (backend_request \<Rightarrow> fetch_outcome) \<Rightarrow> request \<Rightarrow> response \<Rightarrow> response" where
  "handleApiProxy backendUrl fetch rq res =
    (case proxy_request backendUrl rq of
       None \<Rightarrow> sendJson 400 (error_body 400 ''Invalid API path'' []) res
     | Some b \<Rightarrow> proxy_answer (fetch b) res)"

end
