(* ===== verification/Http_Dispatch.thy ===== *)
theory Http_Dispatch
  imports Http_Server
begin

text \<open>
  The handlers that answer a request themselves, and the composition of all of them
  (\<open>src/frontend/server\<close>: \<open>oidc-token-exchange.ts\<close>, \<open>static.ts\<close>, the plain-HTTP branch of
  \<open>ws-proxy.ts\<close>, \<open>dispatch.ts\<close>).
\<close>

section \<open>Token exchange\<close>

definition OIDC_TOKEN_EXCHANGE_PATH :: string where
  "OIDC_TOKEN_EXCHANGE_PATH = ''/api/auth/oidc-token-exchange''"

definition COOKIE_NAME :: string where
  "COOKIE_NAME = ''oidc_access_token''"

definition CLEAR_COOKIE :: string where
  "CLEAR_COOKIE =
    COOKIE_NAME @ ''=; Path=/api/auth/oidc-token-exchange; HttpOnly; SameSite=Lax; Max-Age=0''"

text \<open>Assigning a string to \<open>__proto__\<close> of an object changes nothing.\<close>

definition cookie_pair :: "(string \<times> string) list \<Rightarrow> string \<Rightarrow> (string \<times> string) list" where
  "cookie_pair cookies pair =
    (let parts = split_on CHR ''='' (trim pair); key = hd parts
     in if key = [] \<or> key = ''__proto__'' then cookies
        else set_key key (join_with CHR ''='' (tl parts)) cookies)"

definition parseCookies :: "string \<Rightarrow> (string \<times> string) list" where
  "parseCookies header = foldl cookie_pair [] (split_on CHR '';'' header)"

definition header_text :: "string \<Rightarrow> request \<Rightarrow> string" where
  "header_text name rq =
    (case map_of (rq_headers rq) name of Some (HStr v) \<Rightarrow> v | _ \<Rightarrow> [])"

definition handleOIDCTokenExchange :: "request \<Rightarrow> response \<Rightarrow> response" where
  "handleOIDCTokenExchange rq res =
    (if method_of rq \<noteq> ''POST''
     then (setHeader ''Allow'' (HStr ''POST'') (res\<lparr>rs_status := 405\<rparr>))
       \<lparr>rs_body := Some (Text ''Method Not Allowed'')\<rparr>
     else if header_text ''x-requested-with'' rq = []
     then sendJson 403 (error_body 403 ''Missing X-Requested-With header'' []) res
     else
       (case map_of (parseCookies (header_text ''cookie'' rq)) COOKIE_NAME of
          None \<Rightarrow> sendJson 401 (error_body 401 ''No OIDC token available'' []) res
        | Some accessToken \<Rightarrow>
            if accessToken = []
            then sendJson 401 (error_body 401 ''No OIDC token available'' []) res
            else
              (setHeader ''Set-Cookie'' (HStr CLEAR_COOKIE)
                (setHeader ''Content-Type'' (HStr ''application/json'') (res\<lparr>rs_status := 200\<rparr>)))
                \<lparr>rs_body := Some (JsonBody (JObj [(''data'', JObj [(''accessToken'', JStr accessToken)])]))\<rparr>))"

section \<open>Static files\<close>

definition MIME_TYPES :: "(string \<times> string) list" where
  "MIME_TYPES =
    [(''.html'', ''text/html; charset=utf-8''), (''.js'', ''text/javascript''),
     (''.mjs'', ''text/javascript''), (''.css'', ''text/css''), (''.json'', ''application/json''),
     (''.svg'', ''image/svg+xml''), (''.png'', ''image/png''), (''.jpg'', ''image/jpeg''),
     (''.jpeg'', ''image/jpeg''), (''.gif'', ''image/gif''), (''.webp'', ''image/webp''),
     (''.avif'', ''image/avif''), (''.ico'', ''image/x-icon''), (''.woff'', ''font/woff''),
     (''.woff2'', ''font/woff2''), (''.ttf'', ''font/ttf''), (''.txt'', ''text/plain; charset=utf-8''),
     (''.map'', ''application/json''), (''.wasm'', ''application/wasm''), (''.xml'', ''application/xml'')]"

text \<open>The file system, as it stands while one request is answered.\<close>

record file_system =
  fs_exists :: "ustr \<Rightarrow> bool"
  fs_isFile :: "ustr \<Rightarrow> bool"
  fs_realpath :: "ustr \<Rightarrow> ustr option"
  fs_size :: "ustr \<Rightarrow> nat"

text \<open>
  \<open>resolve\<close> of an absolute path: empty and \<open>.\<close> segments are dropped and \<open>..\<close> takes back the
  segment before it. \<open>join\<close> puts a slash between its arguments and normalises the same way,
  which \<open>resolve\<close> does again, so it is done once.
\<close>

definition push_segment :: "ustr list \<Rightarrow> ustr \<Rightarrow> ustr list" where
  "push_segment segs s =
    (if s = [] \<or> s = [46] then segs else if s = [46, 46] then butlast segs else segs @ [s])"

definition norm_segments :: "ustr \<Rightarrow> ustr list" where
  "norm_segments path = foldl push_segment [] (split_on 47 path)"

definition render_path :: "ustr list \<Rightarrow> ustr" where
  "render_path segs = 47 # join_with 47 segs"

definition resolve_path :: "ustr \<Rightarrow> ustr" where
  "resolve_path path = render_path (norm_segments path)"

text \<open>The extension of the last segment: from its last dot, unless that dot leads it.\<close>

definition extname :: "ustr \<Rightarrow> ustr" where
  "extname path =
    (let base = last (split_on 47 path);
         ext = rev (takeWhile (\<lambda>c. c \<noteq> 46) (rev base))
     in if length base \<le> length ext + 1 then [] else 46 # ext)"

definition content_type :: "ustr \<Rightarrow> string" where
  "content_type target =
    (case find (\<lambda>(e, t). units e = extname target) MIME_TYPES of
       None \<Rightarrow> ''application/octet-stream''
     | Some (e, t) \<Rightarrow> t)"

datatype static_resolution =
    Served ustr bool string
  | Refused
  | Missing

text \<open>\<open>/\.\.|%2e/i\<close> and \<open>includes("..")\<close>.\<close>

fun has_dots :: "ustr \<Rightarrow> bool" where
  "has_dots (a # b # r) = (a = 46 \<and> b = 46 \<or> has_dots (b # r))"
| "has_dots _ = False"

fun has_encoded_dot :: "ustr \<Rightarrow> bool" where
  "has_encoded_dot (a # b # c # r) =
    (a = 37 \<and> b = 50 \<and> c \<in> {69, 101} \<or> has_encoded_dot (b # c # r))"
| "has_encoded_dot _ = False"

definition inside :: "ustr \<Rightarrow> ustr \<Rightarrow> bool" where
  "inside dir target \<longleftrightarrow> target = dir \<or> startsWith target (dir @ [47])"

definition resolveStaticFile :: "file_system \<Rightarrow> ustr \<Rightarrow> string \<Rightarrow> static_resolution" where
  "resolveStaticFile fs clientDirAbs rawUrlPath =
    (let rawPath = units (before_query rawUrlPath)
     in if 92 \<in> set rawPath \<or> has_dots rawPath \<or> has_encoded_dot rawPath then Refused
        else
          (case decodeURIComponent rawPath of
             None \<Rightarrow> Refused
           | Some decoded \<Rightarrow>
               if 92 \<in> set decoded \<or> has_dots decoded then Refused
               else
                 (let clientDirResolved = resolve_path clientDirAbs;
                      target = resolve_path (clientDirResolved @ 47 # decoded)
                  in if \<not> inside clientDirResolved target then Refused
                     else if \<not> fs_exists fs target then Missing
                     else if \<not> fs_isFile fs target then Missing
                     else
                       (case (fs_realpath fs target, fs_realpath fs clientDirResolved) of
                          (Some followed, Some clientDirReal) \<Rightarrow>
                            if \<not> inside clientDirReal followed then Refused
                            else Served target
                              (startsWith (dropWhile (\<lambda>c. c = 47) decoded) (units ''_astro/''))
                              (content_type target)
                        | _ \<Rightarrow> Missing))))"

definition cacheControlFor :: "bool \<Rightarrow> string" where
  "cacheControlFor immutable =
    (if immutable then ''public, max-age=31536000, immutable''
     else ''no-cache, no-store, max-age=0, must-revalidate'')"

definition serveStatic :: "file_system \<Rightarrow> ustr \<Rightarrow> request \<Rightarrow> response \<Rightarrow> bool \<times> response" where
  "serveStatic fs clientDirAbs rq res =
    (let urlPath = url_of ''/'' rq
     in if urlPath = ''/'' \<or> startsWith urlPath ''/?'' then (False, res)
        else
          (case resolveStaticFile fs clientDirAbs urlPath of
             Missing \<Rightarrow> (False, res)
           | Refused \<Rightarrow> (True, answer 403 (Text ''Forbidden'') res)
           | Served filePath immutable contentType \<Rightarrow>
               if rq_method rq \<noteq> Some ''GET'' \<and> rq_method rq \<noteq> Some ''HEAD''
               then (True, answer 405 (Text ''Method Not Allowed'') res)
               else
                 (let res1 = setHeader ''Content-Type'' (HStr contentType) res;
                      res2 = setHeader ''Cache-Control'' (HStr (cacheControlFor immutable)) res1;
                      res3 = setHeader ''Content-Length'' (HStr (show_nat (fs_size fs filePath))) res2
                  in (True, answer 200
                        (if rq_method rq = Some ''HEAD'' then NoContent else FileStream filePath) res3))))"

section \<open>Dispatch\<close>

definition handleWsHttpRequest :: "request \<Rightarrow> response \<Rightarrow> bool \<times> response" where
  "handleWsHttpRequest rq res =
    (let url = url_of ''/'' rq
     in if url \<noteq> ''/ws'' \<and> \<not> startsWith url ''/ws/'' then (False, res)
        else
          (case checkWsPath url of
             WsRejected status _ \<Rightarrow>
               (True, answer status
                 (Text (if status = 400 then ''Invalid WS path'' else ''Unknown WS endpoint'')) res)
           | WsOk _ \<Rightarrow> (True, answer 426 (Text ''Expected WebSocket upgrade'') res)))"

definition ALLOWED_METHODS :: "string list" where
  "ALLOWED_METHODS = [''GET'', ''HEAD'', ''POST'', ''PUT'', ''PATCH'', ''DELETE'', ''OPTIONS'']"

definition MAX_URL_LENGTH :: nat where
  "MAX_URL_LENGTH = 8192"

definition rejectMalformed :: "request \<Rightarrow> response \<Rightarrow> bool \<times> response" where
  "rejectMalformed rq res =
    (if (case rq_method rq of None \<Rightarrow> True | Some m \<Rightarrow> m \<notin> set ALLOWED_METHODS)
     then (True, answer 405 (Text ''Method Not Allowed'') res)
     else if length (url_of [] rq) > MAX_URL_LENGTH
     then (True, answer 414 (Text ''URI Too Long'') res)
     else (False, res))"

record server_env =
  env_backendUrl :: string
  env_fetch :: "backend_request \<Rightarrow> fetch_outcome"
  env_serveStatic :: "request \<Rightarrow> response \<Rightarrow> bool \<times> response"
  env_astroHandler :: "request \<Rightarrow> response \<Rightarrow> response"

definition dispatchApi :: "server_env \<Rightarrow> request \<Rightarrow> response \<Rightarrow> bool \<times> response" where
  "dispatchApi env rq res =
    (let pathname = before_query (url_of ''/'' rq)
     in if pathname = OIDC_TOKEN_EXCHANGE_PATH then (True, handleOIDCTokenExchange rq res)
        else if isApiProxyPath pathname
        then (True, handleApiProxy (env_backendUrl env) (env_fetch env) rq res)
        else (False, res))"

definition createRequestListener :: "server_env \<Rightarrow> request \<Rightarrow> response" where
  "createRequestListener env rq =
    (let res0 = applySecurityHeaders fresh_response; (malformed, res1) = rejectMalformed rq res0
     in if malformed then res1
        else
          (let (ws, res2) = handleWsHttpRequest rq res1
           in if ws then res2
              else
                (let (api, res3) = dispatchApi env rq res2
                 in if api then res3
                    else
                      (let (static, res4) = env_serveStatic env rq res3
                       in if static then res4
                          else env_astroHandler env (applyClusterScopedCrdRewrite rq) res4))))"

text \<open>The development server runs the same chain without the static branch and hands on.\<close>

definition dev_middleware ::
  "server_env \<Rightarrow> (request \<Rightarrow> response \<Rightarrow> response) \<Rightarrow> request \<Rightarrow> response" where
  "dev_middleware env next rq =
    (let res0 = applySecurityHeaders fresh_response; (malformed, res1) = rejectMalformed rq res0
     in if malformed then res1
        else
          (let (ws, res2) = handleWsHttpRequest rq res1
           in if ws then res2
              else
                (let (api, res3) = dispatchApi env rq res2
                 in if api then res3 else next (applyClusterScopedCrdRewrite rq) res3)))"

end
