(* ===== verification/Http_Properties.thy ===== *)
theory Http_Properties
  imports Http_Dispatch
begin

text \<open>
  What the outer server guarantees: what may reach the backend and under which path, what comes
  back to the browser, which files can be served, and that every answer carries the security
  headers.
\<close>

section \<open>Headers\<close>

lemma setHeader_simps [simp]:
  "rs_headers (setHeader name v res) = set_key (toLowerCase name) v (rs_headers res)"
  "rs_status (setHeader name v res) = rs_status res" "rs_body (setHeader name v res) = rs_body res"
  by (simp_all add: setHeader_def)

lemma answer_simps [simp]:
  "rs_headers (answer s b res) = rs_headers res" "rs_status (answer s b res) = s"
  "rs_body (answer s b res) = Some b"
  by (simp_all add: answer_def)

lemma sendJson_simps [simp]:
  "rs_headers (sendJson s b res) =
    set_key (toLowerCase ''Content-Type'') (HStr ''application/json'') (rs_headers res)"
  "rs_status (sendJson s b res) = s" "rs_body (sendJson s b res) = Some (JsonBody b)"
  by (simp_all add: sendJson_def)

definition security_names :: "string list" where
  "security_names = map (\<lambda>(name, v). toLowerCase name) SECURITY_HEADERS"

lemma security_names_eq:
  "security_names =
    [''content-security-policy'', ''x-frame-options'', ''x-content-type-options'',
     ''referrer-policy'', ''permissions-policy'']"
  by (simp add: security_names_def SECURITY_HEADERS_def lower_eval)

text \<open>A response that carries the five headers with their values.\<close>

definition guarded :: "response \<Rightarrow> bool" where
  "guarded res \<longleftrightarrow>
    list_all (\<lambda>(name, v). map_of (rs_headers res) (toLowerCase name) = Some (HStr v)) SECURITY_HEADERS"

lemma guarded_cong: "rs_headers r = rs_headers r' \<Longrightarrow> guarded r = guarded r'"
  by (simp add: guarded_def)

lemma guarded_set_other:
  "rs_headers r' = set_key k v (rs_headers r) \<Longrightarrow> k \<notin> set security_names \<Longrightarrow> guarded r \<Longrightarrow> guarded r'"
  by (auto simp: guarded_def list_all_iff security_names_def map_of_set_key image_iff)

lemma guarded_fresh: "guarded (applySecurityHeaders fresh_response)"
  by (simp add: guarded_def applySecurityHeaders_def SECURITY_HEADERS_def fresh_response_def
      map_of_set_key lower_eval)

lemma lower_names:
  "toLowerCase ''Content-Type'' = ''content-type''" "toLowerCase ''Allow'' = ''allow''"
  "toLowerCase ''Set-Cookie'' = ''set-cookie''" "toLowerCase ''set-cookie'' = ''set-cookie''"
  "toLowerCase ''Cache-Control'' = ''cache-control''"
  "toLowerCase ''Content-Length'' = ''content-length''"
  by (simp_all add: lower_eval)

lemma guarded_setHeader:
  "toLowerCase name \<notin> set security_names \<Longrightarrow> guarded r \<Longrightarrow> guarded (setHeader name v r)"
  by (rule guarded_set_other [of _ "toLowerCase name" v]) simp_all

lemma guarded_updates [simp]:
  "guarded (answer s b r) = guarded r" "guarded (r\<lparr>rs_body := x\<rparr>) = guarded r"
  "guarded (r\<lparr>rs_status := s\<rparr>) = guarded r"
  by (simp_all add: guarded_def)

lemma guarded_sendJson: "guarded r \<Longrightarrow> guarded (sendJson s b r)"
  by (rule guarded_set_other [of _ "''content-type''" "HStr ''application/json''" r])
    (simp_all add: lower_names security_names_eq)

text \<open>
  Each of the five headers has its value, or the value of a header of that name in \<open>hs\<close>, the headers
  of the backend's answer.
\<close>

definition kept :: "(string \<times> string) list \<Rightarrow> response \<Rightarrow> bool" where
  "kept hs res \<longleftrightarrow>
    list_all (\<lambda>(name, v).
      map_of (rs_headers res) (toLowerCase name) = Some (HStr v) \<or>
      list_ex (\<lambda>(n, w). toLowerCase n = toLowerCase name \<and>
        map_of (rs_headers res) (toLowerCase name) = Some (HStr w)) hs) SECURITY_HEADERS"

lemma kept_guarded: "guarded r \<Longrightarrow> kept hs r" "kept [] r = guarded r"
  by (auto simp: guarded_def kept_def list_all_iff)

lemma kept_cong: "rs_headers r = rs_headers r' \<Longrightarrow> kept hs r = kept hs r'"
  by (simp add: kept_def)

lemma kept_setHeader:
  "toLowerCase name \<notin> set security_names \<Longrightarrow> kept hs r \<Longrightarrow> kept hs (setHeader name v r)"
proof -
  assume a: "toLowerCase name \<notin> set security_names" "kept hs r"
  have "map_of (rs_headers (setHeader name v r)) (toLowerCase n) = map_of (rs_headers r) (toLowerCase n)"
    if "(n, w) \<in> set SECURITY_HEADERS" for n w
  proof -
    have "toLowerCase n \<in> set security_names" using that by (force simp: security_names_def)
    with a(1) show ?thesis by (auto simp: map_of_set_key)
  qed
  note same = this
  show "kept hs (setHeader name v r)"
    unfolding kept_def list_all_iff
  proof (intro ballI, clarify)
    fix n w
    assume n: "(n, w) \<in> set SECURITY_HEADERS"
      and "\<not> list_ex (\<lambda>(m, w). toLowerCase m = toLowerCase n \<and>
        map_of (rs_headers (setHeader name v r)) (toLowerCase n) = Some (HStr w)) hs"
    with bspec [OF a(2) [unfolded kept_def list_all_iff] n]
    show "map_of (rs_headers (setHeader name v r)) (toLowerCase n) = Some (HStr w)"
      unfolding same [OF n] by blast
  qed
qed

lemma kept_updates [simp]:
  "kept hs (r\<lparr>rs_body := x\<rparr>) = kept hs r" "kept hs (r\<lparr>rs_status := s\<rparr>) = kept hs r"
  "kept hs (answer s b r) = kept hs r"
  by (simp_all add: kept_def)

lemma kept_sendJson: "kept hs r \<Longrightarrow> kept hs (sendJson s b r)"
  using kept_setHeader [of "''Content-Type''" hs "r\<lparr>rs_status := s\<rparr>"]
  by (simp add: sendJson_def lower_names security_names_eq)

lemma kept_own: "(name, v) \<in> set hs \<Longrightarrow> kept hs r \<Longrightarrow> kept hs (setHeader name (HStr v) r)"
  by (fastforce simp: kept_def list_all_iff list_ex_iff map_of_set_key)

lemma kept_copy: "set hs \<subseteq> set hs0 \<Longrightarrow> kept hs0 r \<Longrightarrow> kept hs0 (copy_headers hs r)"
  unfolding copy_headers_def by (induction hs arbitrary: r) (auto simp: kept_own)

section \<open>Answers\<close>

lemma proxy_failure_ok:
  "kept hs r \<Longrightarrow> kept hs (proxy_failure t r)" "\<exists>b. rs_body (proxy_failure t r) = Some b"
  by (simp_all add: proxy_failure_def kept_sendJson)

definition answered_headers :: "fetch_outcome \<Rightarrow> (string \<times> string) list" where
  "answered_headers out = (case out of Answered a \<Rightarrow> ba_headers a | FetchFailed t \<Rightarrow> [])"

lemma proxy_answer_ok:
  assumes "guarded r"
  shows "kept (answered_headers out) (proxy_answer out r) \<and> rs_body (proxy_answer out r) \<noteq> None"
proof (cases out)
  case (Answered a)
  let ?hs = "ba_headers a" and ?r1 = "copy_headers (ba_headers a) (r\<lparr>rs_status := ba_status a\<rparr>)"
  have 1: "kept ?hs ?r1" using kept_guarded(1) [OF assms] by (simp add: kept_copy)
  have "kept ?hs (setHeader ''set-cookie'' v ?r1)" for v
    by (rule kept_setHeader [OF _ 1]) (simp add: lower_names security_names_eq)
  with 1 show ?thesis
    using proxy_failure_ok
    by (simp add: proxy_answer_def answered_headers_def Answered Let_def split: body_outcome.split)
qed (use proxy_failure_ok(1) [of "[]" r] proxy_failure_ok(2) [of _ r] assms in \<open>auto simp: proxy_answer_def answered_headers_def kept_guarded(2)\<close>)

lemma exchange_ok:
  assumes "guarded r"
  shows "guarded (handleOIDCTokenExchange rq r) \<and> rs_body (handleOIDCTokenExchange rq r) \<noteq> None"
proof -
  have set: "guarded (setHeader n v s)" if "guarded s" "n \<in> {''Allow'', ''Set-Cookie'', ''Content-Type''}" for n v s
    by (rule guarded_setHeader [OF _ that(1)]) (use that(2) in \<open>auto simp: lower_names security_names_eq\<close>)
  show ?thesis
    using assms by (auto simp: handleOIDCTokenExchange_def set guarded_sendJson split: option.split)
qed

lemma serveStatic_ok:
  assumes "guarded r"
  shows "(fst (serveStatic fs dir rq r) \<longrightarrow> rs_body (snd (serveStatic fs dir rq r)) \<noteq> None) \<and>
    guarded (snd (serveStatic fs dir rq r))"
proof -
  have set: "guarded (setHeader n v s)"
    if "guarded s" "n \<in> {''Content-Type'', ''Cache-Control'', ''Content-Length''}" for n v s
    by (rule guarded_setHeader [OF _ that(1)]) (use that(2) in \<open>auto simp: lower_names security_names_eq\<close>)
  show ?thesis
    using assms by (simp add: serveStatic_def Let_def set split: static_resolution.split)
qed

section \<open>Static paths\<close>

definition proper :: "ustr \<Rightarrow> bool" where
  "proper s \<longleftrightarrow> s \<noteq> [] \<and> s \<noteq> [46] \<and> s \<noteq> [46, 46] \<and> 47 \<notin> set s"

lemma push_all:
  "[46, 46] \<notin> set ss \<Longrightarrow> foldl push_segment segs ss = segs @ filter (\<lambda>s. s \<noteq> [] \<and> s \<noteq> [46]) ss"
  by (induction ss arbitrary: segs) (auto simp: push_segment_def)

lemma push_proper:
  "\<forall>s \<in> set ss. 47 \<notin> set s \<Longrightarrow> \<forall>s \<in> set segs. proper s \<Longrightarrow>
   \<forall>s \<in> set (foldl push_segment segs ss). proper s"
proof (induction ss arbitrary: segs)
  case (Cons t ss)
  have "\<forall>s \<in> set (push_segment segs t). proper s"
    using Cons.prems by (auto simp: push_segment_def proper_def dest: in_set_butlastD)
  with Cons show ?case by simp
qed simp

lemma norm_proper: "\<forall>s \<in> set (norm_segments p). proper s"
  unfolding norm_segments_def by (rule push_proper) (auto dest: split_on_pieces)

lemma split_render:
  "\<forall>s \<in> set segs. proper s \<Longrightarrow> split_on 47 (render_path segs) = [] # (if segs = [] then [[]] else segs)"
  by (simp add: render_path_def split_on_join proper_def)

lemma has_dots_infix: "has_dots (pre @ 46 # 46 # post)"
proof (induction pre)
  case (Cons a pre)
  then show ?case by (cases "pre @ 46 # 46 # post") simp_all
qed simp

lemma no_dot_dot: "\<not> has_dots s \<Longrightarrow> [46, 46] \<notin> set (split_on 47 s)"
  using split_on_infix [of "[46, 46]" 47 s] has_dots_infix by auto

lemma norm_append: "norm_segments (p @ 47 # d) = foldl push_segment (norm_segments p) (split_on 47 d)"
  by (simp add: norm_segments_def split_on_append)

lemma norm_render: "\<forall>s \<in> set segs. proper s \<Longrightarrow> norm_segments (render_path segs) = segs"
  using push_all [of segs "[]"]
  by (auto simp: norm_segments_def split_render push_segment_def proper_def filter_id_conv)

lemma norm_under:
  "\<not> has_dots decoded \<Longrightarrow> norm_segments (resolve_path dir @ 47 # decoded) =
    norm_segments dir @ filter (\<lambda>s. s \<noteq> [] \<and> s \<noteq> [46]) (split_on 47 decoded)"
  by (simp add: resolve_path_def norm_append norm_render norm_proper push_all no_dot_dot)

text \<open>
  Claim C23. A static file is served only from inside the client directory: its path is the
  directory's own segments followed by the non-empty, non-dot segments of the decoded request path,
  it is a file, and its real path after following symbolic links is the real client directory or
  lies below it.
\<close>

theorem static_file_contained:
  assumes "resolveStaticFile fs dir url = Served f immutable mime"
  shows "\<exists>decoded followed root.
    decodeURIComponent (units (before_query url)) = Some decoded \<and>
    f = render_path (norm_segments dir @ filter (\<lambda>s. s \<noteq> [] \<and> s \<noteq> [46]) (split_on 47 decoded)) \<and>
    [46, 46] \<notin> set (split_on 47 f) \<and> fs_isFile fs f \<and>
    fs_realpath fs f = Some followed \<and> fs_realpath fs (resolve_path dir) = Some root \<and>
    (followed = root \<or> startsWith followed (root @ [47]))"
proof -
  obtain decoded followed root where d: "decodeURIComponent (units (before_query url)) = Some decoded"
    "\<not> has_dots decoded" and f: "f = resolve_path (resolve_path dir @ 47 # decoded)"
    and fs: "fs_isFile fs f" "fs_realpath fs f = Some followed"
      "fs_realpath fs (resolve_path dir) = Some root" "inside root followed"
    using assms by (auto simp: resolveStaticFile_def Let_def split: if_splits option.splits)
  have segs: "f = render_path (norm_segments (resolve_path dir @ 47 # decoded))"
    by (simp add: f resolve_path_def)
  have "[46, 46] \<notin> set (split_on 47 f)"
    unfolding segs split_render [OF norm_proper]
    using norm_proper [of "resolve_path dir @ 47 # decoded"] by (auto simp: proper_def)
  then show ?thesis
    using d fs segs norm_under [OF d(2), of dir] by (auto simp: inside_def)
qed

definition one_file :: file_system where
  "one_file = \<lparr>fs_exists = (\<lambda>p. p = units ''/c/a.js''), fs_isFile = (\<lambda>p. p = units ''/c/a.js''),
    fs_realpath = Some, fs_size = (\<lambda>_. 7)\<rparr>"

theorem static_file_contained_witness:
  "resolveStaticFile one_file (units ''/c'') ''/%61.js?v=1'' =
     Served (units ''/c/a.js'') False ''text/javascript'' \<and>
   [46, 46] \<notin> set (split_on 47 (units ''/c/a.js''))"
proof -
  have r: "resolveStaticFile one_file (units ''/c'') ''/%61.js?v=1'' =
      Served (units ''/c/a.js'') False ''text/javascript''"
    by (simp add: resolveStaticFile_def Let_def before_query_def decode_eval resolve_path_def
        render_path_def norm_segments_def push_segment_def one_file_def inside_def startsWith_def
        content_type_def extname_def MIME_TYPES_def)
  from static_file_contained [OF r] r show ?thesis by blast
qed

section \<open>Requests to the backend\<close>

lemma from_query_shape: "from_query u = [] \<or> hd (from_query u) = CHR ''?''"
  using hd_dropWhile [of "\<lambda>c. c \<noteq> CHR ''?''" u] by (auto simp: from_query_def)

lemma before_query_plain: "CHR ''?'' \<notin> set (before_query u)"
  by (auto simp: before_query_def dest: set_takeWhileD)

lemma startsWith_drop: "startsWith s p \<Longrightarrow> p @ drop (length p) s = s"
  using append_take_drop_id [of "length p" s] by (simp add: startsWith_def)

lemma forwarded_cases:
  "forwarded_header hs name = [] \<or> (\<exists>v. forwarded_header hs name = [(name, v)])"
proof (cases "map_of hs name")
  case (Some h)
  then show ?thesis by (cases h) (simp_all add: forwarded_header_def)
qed (simp add: forwarded_header_def)

lemma forwarded_in:
  "(n, v) \<in> set (forwarded_header hs name) \<Longrightarrow> n = name \<and> forwarded_header hs name = [(name, v)]"
  using forwarded_cases [of hs name] by auto

lemma forwarded_distinct:
  "distinct names \<Longrightarrow> distinct (map fst (concat (map (forwarded_header hs) names)))"
proof (induction names)
  case (Cons n ns)
  have "map fst (forwarded_header hs n) \<in> {[], [n]}"
    using forwarded_cases [of hs n] by auto
  moreover have "n \<notin> fst ` set (concat (map (forwarded_header hs) ns))"
    using Cons.prems by (auto dest: forwarded_in)
  ultimately show ?case using Cons by (auto dest: forwarded_in)
qed simp

text \<open>
  Claim C10. Whatever the client sends, a request that reaches the backend goes to
  \<open>/api/v1/\<close> of the configured backend with the client's own path and query; however often that
  path is decoded on the way, it stays free of traversal and keeps its segments; and it carries
  only allowlisted headers, each once and with the client's value, and a body only when the method
  can have one.
\<close>

theorem forwarded_request_safe:
  assumes "proxy_request backendUrl rq = Some b"
  shows "\<exists>path query.
    url_of ''/'' rq = ''/api/v1/'' @ path @ query \<and>
    br_target b = backendUrl @ ''/api/v1/'' @ path @ query \<and>
    CHR ''?'' \<notin> set path \<and> (query = [] \<or> hd query = CHR ''?'') \<and>
    (\<forall>n. \<exists>q. decoded_times n (units (''v1/'' @ path)) = Some q \<and> \<not> TRAVERSAL_PATTERN q \<and>
      separators q = separators (units (''v1/'' @ path))) \<and>
    distinct (map fst (br_headers b)) \<and>
    list_all (\<lambda>(name, v). name \<in> set FORWARD_HEADERS \<and>
      forwarded_header (rq_headers rq) name = [(name, v)]) (br_headers b) \<and>
    (br_hasBody b \<longleftrightarrow> br_method b \<notin> {''GET'', ''HEAD''})"
proof -
  let ?p = "backend_path rq" and ?u = "url_of ''/'' rq"
  have b: "isValidBackendPath ?p"
    "br_target b = backendUrl @ ''/api/'' @ ?p @ from_query ?u"
    "br_headers b = concat (map (forwarded_header (rq_headers rq)) FORWARD_HEADERS)"
    "br_hasBody b \<longleftrightarrow> br_method b \<notin> {''GET'', ''HEAD''}"
    using assms by (auto simp: proxy_request_def Let_def split: if_splits)
  obtain path where v1: "?p = ''v1/'' @ path"
    using b(1) by (auto simp: isValidBackendPath_def startsWith_iff)
  then have "startsWith (before_query ?u) ''/api/''" "?p = drop 5 (before_query ?u)"
    by (auto simp: backend_path_def Let_def split: if_splits)
  then have bq: "before_query ?u = ''/api/v1/'' @ path"
    using v1 by (auto simp: startsWith_iff)
  then have u: "?u = ''/api/v1/'' @ path @ from_query ?u" "CHR ''?'' \<notin> set path"
    using before_from_query [of ?u] before_query_plain [of ?u] by simp_all
  have clean: "clean_forms (units (''v1/'' @ path))"
    using b(1) v1 by (simp add: isValidBackendPath_def not_hasTraversal_iff)
  have hs: "list_all (\<lambda>(name, v). name \<in> set FORWARD_HEADERS \<and>
      forwarded_header (rq_headers rq) name = [(name, v)]) (br_headers b)"
    unfolding b(3) list_all_iff
    by (auto dest!: forwarded_in)
  have "distinct (map fst (br_headers b))"
    unfolding b(3) by (rule forwarded_distinct) (simp add: FORWARD_HEADERS_def)
  with u b(2,4) v1 clean_separators [OF clean] from_query_shape [of ?u] hs show ?thesis
    by (intro exI [of _ path] exI [of _ "from_query ?u"]) simp
qed

definition encoded_get :: request where
  "encoded_get = \<lparr>rq_method = Some ''get'', rq_url = Some ''/api/v1/pods/a%20b?x=1'',
    rq_headers = [(''cookie'', HStr ''s=1''), (''host'', HStr ''h'')]\<rparr>"

theorem forwarded_request_safe_witness:
  "proxy_request ''http://b'' encoded_get =
     Some \<lparr>br_target = ''http://b/api/v1/pods/a%20b?x=1'', br_method = ''GET'',
       br_headers = [(''cookie'', ''s=1'')], br_hasBody = False, br_manualRedirect = False\<rparr> \<and>
   (\<exists>path query. ''/api/v1/pods/a%20b?x=1'' = ''/api/v1/'' @ path @ query \<and> CHR ''?'' \<notin> set path)"
proof -
  have r: "proxy_request ''http://b'' encoded_get =
     Some \<lparr>br_target = ''http://b/api/v1/pods/a%20b?x=1'', br_method = ''GET'',
       br_headers = [(''cookie'', ''s=1'')], br_hasBody = False, br_manualRedirect = False\<rparr>"
    by (simp add: proxy_request_def Let_def backend_path_def encoded_get_def url_of_def before_query_def
        from_query_def startsWith_def method_of_def upper_eval isValidBackendPath_def decode_eval
        FORWARD_HEADERS_def forwarded_header_def isOIDCRedirectPath_def)
  from forwarded_request_safe [OF r] r show ?thesis
    by (auto simp: encoded_get_def url_of_def)
qed

section \<open>Answers from the backend\<close>

definition withheld :: "string \<Rightarrow> bool" where
  "withheld name \<longleftrightarrow> name = ''set-cookie'' \<or> name \<in> set HOP_BY_HOP_HEADERS"

lemma copy_headers_withheld:
  "withheld name \<Longrightarrow> map_of (rs_headers (copy_headers hs r)) name = map_of (rs_headers r) name"
  unfolding copy_headers_def
proof (induction hs arbitrary: r)
  case (Cons h hs)
  obtain n v where h: "h = (n, v)" by (cases h)
  have "map_of (rs_headers (setHeader n (HStr v) r)) name = map_of (rs_headers r) name" if "\<not> stripped n"
    using that Cons.prems by (auto simp: stripped_def withheld_def map_of_set_key)
  with Cons show ?case by (simp add: h)
qed simp

lemma hop_names: "name \<in> set HOP_BY_HOP_HEADERS \<Longrightarrow> name \<noteq> ''content-type'' \<and> name \<noteq> ''set-cookie''"
  by (auto simp: HOP_BY_HOP_HEADERS_def)

lemma proxy_failure_headers:
  "name \<noteq> ''content-type'' \<Longrightarrow> map_of (rs_headers (proxy_failure t r)) name = map_of (rs_headers r) name"
  "rs_status (proxy_failure t r) = (if t then 504 else 502)"
  by (simp_all add: proxy_failure_def map_of_set_key lower_names)

lemma proxy_answer_withheld:
  assumes "name \<in> set HOP_BY_HOP_HEADERS"
  shows "map_of (rs_headers (proxy_answer out r)) name = map_of (rs_headers r) name"
  using hop_names [OF assms] copy_headers_withheld [of name] assms
  by (simp add: proxy_answer_def Let_def proxy_failure_headers withheld_def map_of_set_key lower_names
      split: fetch_outcome.split body_outcome.split)

lemma proxy_answer_cookies:
  "map_of (rs_headers (proxy_answer (Answered a) r)) ''set-cookie'' =
    (if ba_setCookie a = [] then map_of (rs_headers r) ''set-cookie'' else Some (HList (ba_setCookie a)))"
  using copy_headers_withheld [of "''set-cookie''"]
  by (simp add: proxy_answer_def Let_def proxy_failure_headers withheld_def map_of_set_key lower_names
      split: body_outcome.split)

lemma copy_headers_status [simp]: "rs_status (copy_headers hs r) = rs_status r"
  unfolding copy_headers_def by (induction hs arbitrary: r) (simp_all add: case_prod_beta)

text \<open>
  What the proxy sends back: no hop-by-hop header of the backend, cookies one by one
  instead of folded into one line, the backend's status when it answered, 504 when it timed out
  and 502 when it could not be reached, also when the body broke off before anything was sent, and
  400 without asking it when the path is not one it may be asked.
\<close>

theorem proxied_answer:
  "list_all (\<lambda>name. map_of (rs_headers (handleApiProxy url fetch rq res)) name = map_of (rs_headers res) name)
     HOP_BY_HOP_HEADERS \<and>
   (case proxy_request url rq of
      None \<Rightarrow> rs_status (handleApiProxy url fetch rq res) = 400
    | Some b \<Rightarrow>
        (case fetch b of
           FetchFailed t \<Rightarrow> rs_status (handleApiProxy url fetch rq res) = (if t then 504 else 502)
         | Answered a \<Rightarrow>
             map_of (rs_headers (handleApiProxy url fetch rq res)) ''set-cookie'' =
               (if ba_setCookie a = [] then map_of (rs_headers res) ''set-cookie''
                else Some (HList (ba_setCookie a))) \<and>
             rs_status (handleApiProxy url fetch rq res) =
               (case ba_body a of
                  BodyBroke sent t \<Rightarrow> if sent then ba_status a else if t then 504 else 502
                | _ \<Rightarrow> ba_status a)))"
proof (cases "proxy_request url rq")
  case None
  then show ?thesis
    by (auto simp: handleApiProxy_def list_all_iff map_of_set_key lower_names dest: hop_names)
next
  case (Some b)
  then have h: "handleApiProxy url fetch rq res = proxy_answer (fetch b) res"
    by (simp add: handleApiProxy_def)
  have "rs_status (proxy_answer (Answered a) res) =
      (case ba_body a of BodyBroke sent t \<Rightarrow> if sent then ba_status a else if t then 504 else 502
        | _ \<Rightarrow> ba_status a)" for a
    by (simp add: proxy_answer_def Let_def proxy_failure_headers split: body_outcome.split)
  moreover have "rs_status (proxy_answer (FetchFailed t) res) = (if t then 504 else 502)" for t
    by (simp add: proxy_answer_def proxy_failure_headers)
  ultimately show ?thesis
    unfolding h using Some proxy_answer_withheld proxy_answer_cookies
    by (simp add: list_all_iff split: fetch_outcome.split)
qed

section \<open>Dispatch\<close>

definition ws_url :: "request \<Rightarrow> bool" where
  "ws_url rq \<longleftrightarrow> url_of ''/'' rq = ''/ws'' \<or> startsWith (url_of ''/'' rq) ''/ws/''"

definition api_url :: "request \<Rightarrow> bool" where
  "api_url rq \<longleftrightarrow> isApiProxyPath (before_query (url_of ''/'' rq))"

lemma malformed_ok:
  assumes "guarded r"
  shows "if fst (rejectMalformed rq r)
    then guarded (snd (rejectMalformed rq r)) \<and> rs_body (snd (rejectMalformed rq r)) \<noteq> None
    else snd (rejectMalformed rq r) = r"
  using assms by (simp add: rejectMalformed_def)

lemma ws_http_ok:
  assumes "guarded r"
  shows "if ws_url rq
    then fst (handleWsHttpRequest rq r) \<and> guarded (snd (handleWsHttpRequest rq r)) \<and>
      rs_body (snd (handleWsHttpRequest rq r)) \<noteq> None
    else handleWsHttpRequest rq r = (False, r)"
  using assms by (auto simp: handleWsHttpRequest_def ws_url_def Let_def split: ws_path_check.split)

lemma exchange_is_api: "before_query (url_of ''/'' rq) = OIDC_TOKEN_EXCHANGE_PATH \<Longrightarrow> api_url rq"
  by (simp add: api_url_def isApiProxyPath_def OIDC_TOKEN_EXCHANGE_PATH_def startsWith_def)

text \<open>The headers of the backend's answer to a request, where the backend is asked at all.\<close>

definition backend_headers :: "server_env \<Rightarrow> request \<Rightarrow> (string \<times> string) list" where
  "backend_headers env rq =
    (case proxy_request (env_backendUrl env) rq of
       None \<Rightarrow> []
     | Some b \<Rightarrow> answered_headers (env_fetch env b))"

lemma api_ok:
  assumes "guarded r"
  shows "if api_url rq
    then fst (dispatchApi env rq r) \<and> kept (backend_headers env rq) (snd (dispatchApi env rq r)) \<and>
      rs_body (snd (dispatchApi env rq r)) \<noteq> None
    else dispatchApi env rq r = (False, r)"
proof -
  let ?p = "handleApiProxy (env_backendUrl env) (env_fetch env) rq r"
  have "kept (backend_headers env rq) ?p \<and> rs_body ?p \<noteq> None"
    using proxy_answer_ok [OF assms] kept_guarded(1) [OF guarded_sendJson [OF assms]]
    by (simp add: handleApiProxy_def backend_headers_def split: option.split)
  then show ?thesis
    using exchange_ok [OF assms] kept_guarded(1) exchange_is_api [of rq]
    by (auto simp: dispatchApi_def Let_def api_url_def)
qed

lemma static_passed: "\<not> fst (serveStatic fs dir rq r) \<Longrightarrow> snd (serveStatic fs dir rq r) = r"
  by (auto simp: serveStatic_def Let_def split: if_splits static_resolution.splits)

text \<open>
  Claim C24. No answer of this server loses a security header. A request is either handed to the
  page renderer, with a response on which exactly the five headers are set, or it is answered here,
  and then each of the five has its value; the one exception is a request under \<open>/api\<close> that was
  forwarded: a header of the same name in the backend's own answer takes its place. The renderer
  gets no request under \<open>/ws\<close> or \<open>/api\<close>, and nothing is assumed of the backend or of the files.
\<close>

theorem answers_keep_security_headers:
  "let env' = env\<lparr>env_serveStatic := serveStatic fs dir\<rparr>; ans = createRequestListener env' rq
   in if ws_url rq \<or> api_url rq
      then rs_body ans \<noteq> None \<and> (if api_url rq then kept (backend_headers env rq) ans else guarded ans)
      else guarded ans \<and> rs_body ans \<noteq> None \<or>
        ans = env_astroHandler env (applyClusterScopedCrdRewrite rq) (applySecurityHeaders fresh_response)"
proof -
  let ?r = "applySecurityHeaders fresh_response" and ?env = "env\<lparr>env_serveStatic := serveStatic fs dir\<rparr>"
  note g = guarded_fresh
  have "backend_headers ?env rq = backend_headers env rq" by (simp add: backend_headers_def cong: option.case_cong)
  then show ?thesis
    using malformed_ok [OF g, of rq] ws_http_ok [OF g, of rq] api_ok [OF g, of rq ?env]
      serveStatic_ok [OF g, of fs dir rq] static_passed [of fs dir rq ?r] kept_guarded(1)
    by (auto simp: createRequestListener_def Let_def case_prod_beta split: if_splits)
qed

text \<open>A backend that answers with a frame policy of its own: it replaces that header and no other.\<close>

definition framing_env :: server_env where
  "framing_env = \<lparr>env_backendUrl = ''http://b'',
    env_fetch = (\<lambda>_. Answered \<lparr>ba_status = 200,
      ba_headers = [(''X-Frame-Options'', ''SAMEORIGIN''), (''Content-Type'', ''text/html'')], ba_setCookie = [],
      ba_body = BodyDone\<rparr>),
    env_serveStatic = (\<lambda>_ res. (False, res)), env_astroHandler = (\<lambda>_ res. res)\<rparr>"

definition framed_get :: request where
  "framed_get = \<lparr>rq_method = Some ''GET'', rq_url = Some ''/api/v1/pods'', rq_headers = []\<rparr>"

theorem answers_keep_security_headers_witness:
  "let ans = createRequestListener (framing_env\<lparr>env_serveStatic := serveStatic one_file (units ''/c'')\<rparr>) framed_get
   in rs_body ans \<noteq> None \<and> rs_status ans = 200 \<and>
     map_of (rs_headers ans) ''x-frame-options'' = Some (HStr ''SAMEORIGIN'') \<and>
     map_of (rs_headers ans) ''x-content-type-options'' = Some (HStr ''nosniff'')"
proof -
  let ?ans = "createRequestListener (framing_env\<lparr>env_serveStatic := serveStatic one_file (units ''/c'')\<rparr>) framed_get"
  note eval = framed_get_def framing_env_def url_of_def before_query_def
  have api: "api_url framed_get" by (simp add: api_url_def isApiProxyPath_def startsWith_def eval)
  have "proxy_request ''http://b'' framed_get \<noteq> None"
    by (simp add: proxy_request_def Let_def backend_path_def startsWith_def isValidBackendPath_def decode_eval eval)
  then have hs: "backend_headers framing_env framed_get =
      [(''X-Frame-Options'', ''SAMEORIGIN''), (''Content-Type'', ''text/html'')]"
    by (auto simp: backend_headers_def answered_headers_def framing_env_def)
  have "kept [(''X-Frame-Options'', ''SAMEORIGIN''), (''Content-Type'', ''text/html'')] ?ans \<and> rs_body ?ans \<noteq> None"
    using answers_keep_security_headers [of one_file "units ''/c''" framing_env framed_get] api hs by (simp add: Let_def)
  moreover have "rs_status ?ans = 200 \<and> map_of (rs_headers ?ans) ''x-frame-options'' = Some (HStr ''SAMEORIGIN'')"
    by (simp add: createRequestListener_def Let_def rejectMalformed_def ALLOWED_METHODS_def MAX_URL_LENGTH_def
        handleWsHttpRequest_def dispatchApi_def OIDC_TOKEN_EXCHANGE_PATH_def isApiProxyPath_def handleApiProxy_def
        proxy_request_def backend_path_def startsWith_def isValidBackendPath_def decode_eval proxy_answer_def
        copy_headers_def stripped_def HOP_BY_HOP_HEADERS_def lower_eval map_of_set_key eval)
  ultimately show ?thesis
    by (simp add: kept_def SECURITY_HEADERS_def lower_eval)
qed

text \<open>
  The routes do not leak into each other: the answer to a request under \<open>/ws\<close> or
  \<open>/api\<close> depends on neither the files nor the pages, and the answer to any request whose path
  is not an acceptable backend path does not depend on the backend.
\<close>

theorem routes_isolated:
  "(if ws_url rq \<or> api_url rq
    then createRequestListener (env\<lparr>env_serveStatic := s, env_astroHandler := a\<rparr>) rq =
      createRequestListener env rq
    else True) \<and>
   (if isValidBackendPath (backend_path rq) \<and> api_url rq then True
    else createRequestListener (env\<lparr>env_fetch := f\<rparr>) rq = createRequestListener env rq)"
proof (intro conjI)
  let ?m = "rejectMalformed rq (applySecurityHeaders fresh_response)"
  let ?w = "handleWsHttpRequest rq (snd ?m)"
  have ws: "fst ?w" if "ws_url rq"
    using that by (auto simp: handleWsHttpRequest_def ws_url_def Let_def split: ws_path_check.split)
  have api: "fst (dispatchApi env rq (snd ?w))" if "api_url rq"
    using that by (simp add: dispatchApi_def api_url_def Let_def)
  have same: "dispatchApi (env\<lparr>env_serveStatic := s, env_astroHandler := a\<rparr>) rq r = dispatchApi env rq r" for r
    by (simp add: dispatchApi_def Let_def)
  show "if ws_url rq \<or> api_url rq
    then createRequestListener (env\<lparr>env_serveStatic := s, env_astroHandler := a\<rparr>) rq =
      createRequestListener env rq
    else True"
    using ws api by (auto simp: createRequestListener_def Let_def case_prod_beta same)
  have "dispatchApi (env\<lparr>env_fetch := f\<rparr>) rq r = dispatchApi env rq r"
    if "\<not> (isValidBackendPath (backend_path rq) \<and> api_url rq)" for r
    using that by (auto simp: dispatchApi_def Let_def api_url_def handleApiProxy_def proxy_request_def)
  then show "if isValidBackendPath (backend_path rq) \<and> api_url rq then True
    else createRequestListener (env\<lparr>env_fetch := f\<rparr>) rq = createRequestListener env rq"
    by (simp add: createRequestListener_def Let_def case_prod_beta)
qed

section \<open>Token exchange\<close>

text \<open>
  The token leaves the cookie only for a POST that carries \<open>X-Requested-With\<close>, and
  then with a header that clears the cookie; every other request gets 405, 403 or 401 and no
  token.
\<close>

theorem token_exchange_exact:
  "rs_body (handleOIDCTokenExchange rq res) =
     Some (JsonBody (JObj [(''data'', JObj [(''accessToken'', JStr t)])])) \<longleftrightarrow>
   method_of rq = ''POST'' \<and> header_text ''x-requested-with'' rq \<noteq> [] \<and> t \<noteq> [] \<and>
   map_of (parseCookies (header_text ''cookie'' rq)) COOKIE_NAME = Some t \<and>
   rs_status (handleOIDCTokenExchange rq res) = 200 \<and>
   map_of (rs_headers (handleOIDCTokenExchange rq res)) ''set-cookie'' = Some (HStr CLEAR_COOKIE)"
  by (auto simp: handleOIDCTokenExchange_def error_body_def map_of_set_key lower_names split: option.split)

section \<open>WebSocket paths\<close>

lemma three_segments_iff:
  "three_segments pre path \<longleftrightarrow>
    (\<exists>a b c. path = pre @ a @ CHR ''/'' # b @ CHR ''/'' # c \<and> a \<noteq> [] \<and> b \<noteq> [] \<and> c \<noteq> [] \<and>
      CHR ''/'' \<notin> set a \<union> set b \<union> set c)"
  (is "?l \<longleftrightarrow> ?r")
proof
  assume ?l
  then obtain r where r: "path = pre @ r" "length (split_on CHR ''/'' r) = 3"
    "\<forall>s \<in> set (split_on CHR ''/'' r). s \<noteq> []"
    by (auto simp: three_segments_def startsWith_iff Let_def list_all_iff)
  from r(2) obtain a b c where abc: "split_on CHR ''/'' r = [a, b, c]"
    by (auto simp: numeral_3_eq_3 length_Suc_conv)
  have "r = a @ CHR ''/'' # b @ CHR ''/'' # c"
    using join_split [of "CHR ''/''" r] abc by (simp del: join_split)
  moreover have "CHR ''/'' \<notin> set a \<union> set b \<union> set c"
    using split_on_pieces [of _ "CHR ''/''" r] abc by simp
  ultimately show ?r using r abc by auto
next
  assume ?r
  then show ?l
    by (auto simp: three_segments_def Let_def split_on_append split_on_plain)
qed

text \<open>
  A WebSocket upgrade is relayed for exactly six shapes of path under \<open>/ws/\<close>: the
  four fixed channels, and logs or exec followed by three non-empty segments, and only when every
  decoding of the path is free of traversal. Nothing else reaches the backend's sockets.
\<close>

theorem ws_path_allowed_iff:
  "checkWsPath url = WsOk p \<longleftrightarrow>
    (\<exists>query. url = ''/ws/'' @ p @ query \<and> (query = [] \<or> hd query = CHR ''?'')) \<and>
    CHR ''?'' \<notin> set p \<and> \<not> list_ex line_end p \<and> \<not> hasTraversal (units p) \<and>
    (p \<in> {''v1/ws/resources'', ''v1/ws/alerts'', ''v1/ws/flows'', ''v1/ws/logs-search''} \<or>
     (\<exists>pre a b c. (pre = ''v1/ws/logs/'' \<or> pre = ''v1/ws/exec/'') \<and>
       p = pre @ a @ CHR ''/'' # b @ CHR ''/'' # c \<and>
       a \<noteq> [] \<and> b \<noteq> [] \<and> c \<noteq> [] \<and> CHR ''/'' \<notin> set a \<union> set b \<union> set c))"
proof -
  have pat: "list_ex (\<lambda>f. f p) ALLOWED_WS_PATTERNS \<longleftrightarrow>
    (p \<in> {''v1/ws/resources'', ''v1/ws/alerts'', ''v1/ws/flows'', ''v1/ws/logs-search''} \<or>
     (\<exists>pre a b c. (pre = ''v1/ws/logs/'' \<or> pre = ''v1/ws/exec/'') \<and>
       p = pre @ a @ CHR ''/'' # b @ CHR ''/'' # c \<and>
       a \<noteq> [] \<and> b \<noteq> [] \<and> c \<noteq> [] \<and> CHR ''/'' \<notin> set a \<union> set b \<union> set c))"
    (is "_ \<longleftrightarrow> _ \<or> ?segs")
  proof -
    have "?segs \<longleftrightarrow> three_segments ''v1/ws/logs/'' p \<or> three_segments ''v1/ws/exec/'' p"
      unfolding three_segments_iff by blast
    then show ?thesis unfolding ALLOWED_WS_PATTERNS_def list_ex_iff list.set bex_simps insert_iff empty_iff by blast
  qed
  have v1: "startsWith (''v1/'' @ r) ''v1/''" for r by (simp add: startsWith_def)
  have "p = ''v1/'' @ ''ws/resources'' \<or> p = ''v1/'' @ ''ws/alerts'' \<or> p = ''v1/'' @ ''ws/flows'' \<or>
      p = ''v1/'' @ ''ws/logs-search'' \<or> (\<exists>r. p = ''v1/'' @ r)"
    if "list_ex (\<lambda>f. f p) ALLOWED_WS_PATTERNS"
    using that unfolding pat by auto
  with v1 have pre: "startsWith p ''v1/'' \<and> p \<noteq> []" if "list_ex (\<lambda>f. f p) ALLOWED_WS_PATTERNS"
    using that by fastforce
  have bq: "before_query url = ''/ws/'' @ p \<longleftrightarrow>
    (\<exists>query. url = ''/ws/'' @ p @ query \<and> (query = [] \<or> hd query = CHR ''?'')) \<and> CHR ''?'' \<notin> set p"
  proof
    assume b: "before_query url = ''/ws/'' @ p"
    have "url = ''/ws/'' @ p @ from_query url" using before_from_query [of url] b by simp
    then show "(\<exists>query. url = ''/ws/'' @ p @ query \<and> (query = [] \<or> hd query = CHR ''?'')) \<and> CHR ''?'' \<notin> set p"
      using from_query_shape [of url] before_query_plain [of url] b by auto
  next
    assume "(\<exists>query. url = ''/ws/'' @ p @ query \<and> (query = [] \<or> hd query = CHR ''?'')) \<and> CHR ''?'' \<notin> set p"
    then obtain query where q: "url = ''/ws/'' @ p @ query" "query = [] \<or> hd query = CHR ''?''" "CHR ''?'' \<notin> set p"
      by blast
    have "takeWhile (\<lambda>c. c \<noteq> CHR ''?'') query = []" using q(2) by (cases query) auto
    then show "before_query url = ''/ws/'' @ p"
      using q(1,3) by (auto simp: before_query_def takeWhile_append)
  qed
  have tail: "ws_tail (before_query url) = Some p \<longleftrightarrow>
      before_query url = ''/ws/'' @ p \<and> p \<noteq> [] \<and> \<not> list_ex line_end p"
    by (auto simp: ws_tail_def Let_def startsWith_iff split: if_splits)
  have "checkWsPath url = WsOk p \<longleftrightarrow> ws_tail (before_query url) = Some p \<and>
      startsWith p ''v1/'' \<and> \<not> hasTraversal (units p) \<and> list_ex (\<lambda>f. f p) ALLOWED_WS_PATTERNS"
    by (auto simp: checkWsPath_def split: option.splits if_splits)
  then have "checkWsPath url = WsOk p \<longleftrightarrow> before_query url = ''/ws/'' @ p \<and> \<not> list_ex line_end p \<and>
      \<not> hasTraversal (units p) \<and> list_ex (\<lambda>f. f p) ALLOWED_WS_PATTERNS"
    using pre tail by blast
  then show ?thesis unfolding bq pat by (simp only: conj_assoc)
qed

end
