(* ===== verification/Ws_Bridge.thy ===== *)
theory Ws_Bridge
  imports Http_Server
begin

text \<open>
  The WebSocket bridge (\<open>src/frontend/server/ws-proxy.ts\<close>): the upgrade listener, and one bridged
  connection as a state machine whose events are the callbacks of the two sockets and the three
  timers, in any order.

  The state holds the closure's variables and what the bridge does to the sockets: their ready
  states, what was sent on each leg, the close frames and the pings. A payload is its bytes as
  sent, so \<open>Buffer.byteLength\<close> is its length. The socket library is an argument: \<open>accepts\<close> says
  which close codes its \<open>close\<close> takes; with any other it throws, which the bridge swallows.
\<close>

section \<open>Upgrades\<close>

definition MAX_QUEUE_MESSAGES :: nat where
  "MAX_QUEUE_MESSAGES = 32"

definition MAX_QUEUE_BYTES :: nat where
  "MAX_QUEUE_BYTES = 256 * 1024"

definition HANDSHAKE_TIMEOUT_MS :: nat where
  "HANDSHAKE_TIMEOUT_MS = 10000"

definition IDLE_TIMEOUT_MS :: nat where
  "IDLE_TIMEOUT_MS = 60000"

definition KEEPALIVE_PING_MS :: nat where
  "KEEPALIVE_PING_MS = 20000"

definition crlf :: string where
  "crlf = [CHR 0x0D, CHR 0x0A]"

definition writeRawRejection :: "nat \<Rightarrow> string \<Rightarrow> string" where
  "writeRawRejection status message =
    (let statusText = (if status = 400 then ''Bad Request'' else if status = 404 then ''Not Found''
                       else ''Upgrade Required'')
     in intercalate crlf
          ([''HTTP/1.1 '' @ show_nat status @ '' '' @ statusText] @ rawHeaderLines @
           [''Content-Type: text/plain; charset=utf-8'',
            ''Content-Length: '' @ show_nat (length message), ''Connection: close'', '''', '''']) @ message)"

datatype upgrade_outcome = LeftAlone | RawRejection nat string | Bridged string

definition upgrade_header :: "request \<Rightarrow> string" where
  "upgrade_header rq = (case map_of (rq_headers rq) ''upgrade'' of Some (HStr v) \<Rightarrow> v | _ \<Rightarrow> [])"

definition on_upgrade :: "bool \<Rightarrow> request \<Rightarrow> upgrade_outcome" where
  "on_upgrade ownUnmatchedPaths rq =
    (case checkWsPath (url_of [] rq) of
       WsRejected status reason \<Rightarrow>
         if reason = Outside \<and> \<not> ownUnmatchedPaths then LeftAlone
         else RawRejection (nat status)
           (if status = 400 then ''Invalid WS path'' else ''Unknown WS endpoint'')
     | WsOk path \<Rightarrow>
         if toLowerCase (upgrade_header rq) \<noteq> ''websocket''
         then RawRejection 426 ''Expected WebSocket upgrade''
         else if map_of (rq_headers rq) ''sec-websocket-protocol'' \<noteq> None
         then RawRejection 400 ''WebSocket subprotocols are not supported''
         else Bridged path)"

section \<open>One connection\<close>

datatype ready_state = Connecting | Open | Closing | Closed

record bridge_options =
  maxQueueMessages :: nat
  maxQueueBytes :: nat
  handshakeTimeoutMs :: nat
  idleTimeoutMs :: nat

record bridge =
  clientWs :: ready_state
  backendSocket :: ready_state
  queue :: "string list"
  queueBytes :: nat
  closed :: bool
  idleTimer :: bool
  handshakeTimer :: bool
  keepaliveTimer :: bool
  to_backend :: "string list"
  to_client :: "string list"
  close_frames :: "(int \<times> string) list"
  pings :: nat

text \<open>\<open>protocol\<close> and \<open>host\<close> are those of the parsed backend URL.\<close>

definition backend_ws_url :: "string \<Rightarrow> string \<Rightarrow> string \<Rightarrow> string" where
  "backend_ws_url protocol host path =
    (if protocol = ''https:'' then ''wss:'' else ''ws:'') @ ''//'' @ host @ ''/api/'' @ path"

definition bridgeConnection :: bridge where
  "bridgeConnection =
    \<lparr>clientWs = Open, backendSocket = Connecting, queue = [], queueBytes = 0, closed = False,
     idleTimer = True, handshakeTimer = True, keepaliveTimer = True, to_backend = [], to_client = [],
     close_frames = [], pings = 0\<rparr>"

definition clearTimers :: "bridge \<Rightarrow> bridge" where
  "clearTimers b = b\<lparr>idleTimer := False, handshakeTimer := False, keepaliveTimer := False\<rparr>"

text \<open>
  A code the socket library refuses makes its \<open>close\<close> throw, which the code swallows: no close frame
  goes out. \<open>Open\<close> says that the connection is up; whether the library marks the socket as closing
  before it throws is not told apart.
\<close>

definition close_client :: "(int \<Rightarrow> bool) \<Rightarrow> int \<Rightarrow> string \<Rightarrow> bridge \<Rightarrow> bridge" where
  "close_client accepts code reason b =
    (if clientWs b = Open \<and> accepts (remapCloseCode code)
     then b\<lparr>clientWs := Closing, close_frames := close_frames b @ [(remapCloseCode code, reason)]\<rparr>
     else b)"

definition close_backend :: "bridge \<Rightarrow> bridge" where
  "close_backend b =
    (if backendSocket b = Open \<or> backendSocket b = Connecting then b\<lparr>backendSocket := Closing\<rparr> else b)"

definition closeBoth :: "(int \<Rightarrow> bool) \<Rightarrow> int \<Rightarrow> string \<Rightarrow> bridge \<Rightarrow> bridge" where
  "closeBoth accepts code reason b =
    (if closed b then b
     else close_backend (close_client accepts code reason (clearTimers (b\<lparr>closed := True\<rparr>))))"

definition resetIdle :: "bridge \<Rightarrow> bridge" where
  "resetIdle b = b\<lparr>idleTimer := True\<rparr>"

definition keepalivePeriod :: "bridge_options \<Rightarrow> nat" where
  "keepalivePeriod opts = max 50 (min KEEPALIVE_PING_MS (idleTimeoutMs opts div 3))"

definition on_idle :: "(int \<Rightarrow> bool) \<Rightarrow> bridge \<Rightarrow> bridge" where
  "on_idle accepts b = closeBoth accepts 1000 ''idle timeout'' (b\<lparr>idleTimer := False\<rparr>)"

definition on_keepalive :: "bridge \<Rightarrow> bridge" where
  "on_keepalive b = (if closed b \<or> clientWs b \<noteq> Open then b else b\<lparr>pings := pings b + 1\<rparr>)"

definition on_handshake_timeout :: "(int \<Rightarrow> bool) \<Rightarrow> bridge \<Rightarrow> bridge" where
  "on_handshake_timeout accepts b =
    (let b1 = b\<lparr>handshakeTimer := False\<rparr>
     in if backendSocket b1 \<noteq> Open then closeBoth accepts 1011 ''backend handshake timeout'' b1 else b1)"

definition on_client_message ::
  "(int \<Rightarrow> bool) \<Rightarrow> bridge_options \<Rightarrow> string \<Rightarrow> bridge \<Rightarrow> bridge" where
  "on_client_message accepts opts payload b =
    (if closed b then b
     else
       (let b1 = resetIdle b
        in if backendSocket b1 = Open then b1\<lparr>to_backend := to_backend b1 @ [payload]\<rparr>
           else if backendSocket b1 \<noteq> Connecting then b1
           else if length (queue b1) + 1 > maxQueueMessages opts \<or>
                   queueBytes b1 + length payload > maxQueueBytes opts
           then closeBoth accepts 1009 ''queue limit exceeded'' b1
           else b1\<lparr>queue := queue b1 @ [payload], queueBytes := queueBytes b1 + length payload\<rparr>))"

definition on_backend_open :: "bridge \<Rightarrow> bridge" where
  "on_backend_open b =
    (let b0 = b\<lparr>backendSocket := Open\<rparr>
     in if closed b0 then b0
        else b0\<lparr>handshakeTimer := False, queue := [], queueBytes := 0,
                to_backend := to_backend b0 @ queue b0\<rparr>)"

definition on_backend_message :: "string \<Rightarrow> bridge \<Rightarrow> bridge" where
  "on_backend_message payload b =
    (if closed b then b
     else
       (let b1 = resetIdle b
        in if clientWs b1 \<noteq> Open then b1 else b1\<lparr>to_client := to_client b1 @ [payload]\<rparr>))"

definition on_backend_close :: "(int \<Rightarrow> bool) \<Rightarrow> int \<Rightarrow> string \<Rightarrow> bridge \<Rightarrow> bridge" where
  "on_backend_close accepts code reason b =
    closeBoth accepts (remapCloseCode code) reason (b\<lparr>backendSocket := Closed\<rparr>)"

definition on_client_close :: "bridge \<Rightarrow> bridge" where
  "on_client_close b =
    (let b0 = b\<lparr>clientWs := Closed\<rparr>
     in if closed b0 then b0 else close_backend (clearTimers (b0\<lparr>closed := True\<rparr>)))"

definition on_client_error :: "bridge \<Rightarrow> bridge" where
  "on_client_error b = close_backend b"

section \<open>Events\<close>

text \<open>
  Besides the callbacks, either peer may start closing, which moves its socket out of the open
  state before its close event. The list is what the client has sent while the bridge was up.
\<close>

inductive bridge_step ::
  "(int \<Rightarrow> bool) \<Rightarrow> bridge_options \<Rightarrow> bridge \<Rightarrow> string list \<Rightarrow> bridge \<Rightarrow> bool"
  for accepts opts where
  client_message: "clientWs b = Open \<Longrightarrow>
    bridge_step accepts opts b (if closed b then [] else [m]) (on_client_message accepts opts m b)"
| client_alive: "clientWs b \<noteq> Closed \<Longrightarrow> bridge_step accepts opts b [] (resetIdle b)"
| client_closing: "clientWs b = Open \<Longrightarrow> bridge_step accepts opts b [] (b\<lparr>clientWs := Closing\<rparr>)"
| client_close: "clientWs b \<noteq> Closed \<Longrightarrow> bridge_step accepts opts b [] (on_client_close b)"
| client_error: "clientWs b \<noteq> Closed \<Longrightarrow> bridge_step accepts opts b [] (on_client_error b)"
| backend_open: "backendSocket b = Connecting \<Longrightarrow> bridge_step accepts opts b [] (on_backend_open b)"
| backend_message: "backendSocket b \<in> {Open, Closing} \<Longrightarrow>
    bridge_step accepts opts b [] (on_backend_message m b)"
| backend_closing: "backendSocket b = Open \<Longrightarrow> bridge_step accepts opts b [] (b\<lparr>backendSocket := Closing\<rparr>)"
| backend_close: "backendSocket b \<noteq> Closed \<Longrightarrow>
    bridge_step accepts opts b [] (on_backend_close accepts code reason b)"
| idle: "idleTimer b \<Longrightarrow> bridge_step accepts opts b [] (on_idle accepts b)"
| handshake: "handshakeTimer b \<Longrightarrow> bridge_step accepts opts b [] (on_handshake_timeout accepts b)"
| keepalive: "keepaliveTimer b \<Longrightarrow> bridge_step accepts opts b [] (on_keepalive b)"

inductive bridge_run ::
  "(int \<Rightarrow> bool) \<Rightarrow> bridge_options \<Rightarrow> bridge \<Rightarrow> string list \<Rightarrow> bool" for accepts opts where
  start: "bridge_run accepts opts bridgeConnection []"
| step: "bridge_run accepts opts b sent \<Longrightarrow> bridge_step accepts opts b ms b' \<Longrightarrow>
    bridge_run accepts opts b' (sent @ ms)"

lemmas bridge_defs =
  on_client_message_def resetIdle_def closeBoth_def close_client_def close_backend_def
  clearTimers_def on_client_close_def on_client_error_def on_backend_open_def on_backend_message_def
  on_backend_close_def on_idle_def on_handshake_timeout_def on_keepalive_def Let_def

section \<open>Invariants\<close>

definition queue_ok :: "bridge_options \<Rightarrow> bridge \<Rightarrow> bool" where
  "queue_ok opts b \<longleftrightarrow>
    length (queue b) \<le> maxQueueMessages opts \<and> queueBytes b \<le> maxQueueBytes opts \<and>
    queueBytes b = sum_list (map length (queue b))"

definition order_ok :: "bridge \<Rightarrow> string list \<Rightarrow> bool" where
  "order_ok b sent \<longleftrightarrow>
    (\<exists>dropped. sent = to_backend b @ queue b @ dropped \<and>
      (\<not> closed b \<and> backendSocket b \<in> {Connecting, Open} \<longrightarrow> dropped = [])) \<and>
    (\<not> closed b \<and> backendSocket b = Open \<longrightarrow> queue b = [])"

definition timers_ok :: "bridge \<Rightarrow> bool" where
  "timers_ok b \<longleftrightarrow>
    (closed b \<longrightarrow> backendSocket b \<in> {Closing, Closed} \<and> \<not> handshakeTimer b \<and> \<not> keepaliveTimer b) \<and>
    (\<not> closed b \<longrightarrow> idleTimer b \<and> keepaliveTimer b \<and> clientWs b \<noteq> Closed \<and>
      (backendSocket b = Connecting \<longrightarrow> handshakeTimer b))"

definition frames_ok :: "(int \<Rightarrow> bool) \<Rightarrow> bridge \<Rightarrow> bool" where
  "frames_ok accepts b \<longleftrightarrow>
    (\<not> closed b \<longrightarrow> close_frames b = []) \<and> length (close_frames b) \<le> 1 \<and>
    list_all (\<lambda>(c, r). 1000 \<le> c \<and> c \<le> 4999 \<and> c \<noteq> 1006 \<and> accepts c) (close_frames b)"

lemma remap_range: "1000 \<le> remapCloseCode c \<and> remapCloseCode c \<le> 4999 \<and> remapCloseCode c \<noteq> 1006"
  by (simp add: remapCloseCode_def)

lemma queue_step: "bridge_step accepts opts b ms b' \<Longrightarrow> queue_ok opts b \<Longrightarrow> queue_ok opts b'"
  by (induction rule: bridge_step.induct) (simp_all add: bridge_defs queue_ok_def)

lemma timers_step: "bridge_step accepts opts b ms b' \<Longrightarrow> timers_ok b \<Longrightarrow> timers_ok b'"
proof (induction rule: bridge_step.induct)
  case (client_message b m)
  then show ?case
    by (cases "closed b"; cases "backendSocket b") (simp_all add: bridge_defs timers_ok_def)
qed (auto simp: bridge_defs timers_ok_def intro: ready_state.exhaust)

lemma frames_step: "bridge_step accepts opts b ms b' \<Longrightarrow> frames_ok accepts b \<Longrightarrow> frames_ok accepts b'"
  by (induction rule: bridge_step.induct) (simp_all add: bridge_defs frames_ok_def remap_range)

lemma order_step:
  "bridge_step accepts opts b ms b' \<Longrightarrow> order_ok b sent \<Longrightarrow> order_ok b' (sent @ ms)"
proof (induction rule: bridge_step.induct)
  case (client_message b m)
  then show ?case
    by (cases "closed b"; cases "backendSocket b") (auto simp: bridge_defs order_ok_def)
qed (auto simp: bridge_defs order_ok_def)

lemma bridge_run_ok:
  "bridge_run accepts opts b sent \<Longrightarrow> queue_ok opts b \<and> timers_ok b \<and> frames_ok accepts b \<and> order_ok b sent"
proof (induction rule: bridge_run.induct)
  case start
  show ?case
    by (simp add: queue_ok_def timers_ok_def frames_ok_def order_ok_def bridgeConnection_def)
next
  case (step b sent ms b')
  then show ?case by (simp add: queue_step timers_step frames_step order_step)
qed

lemma closed_step:
  "bridge_step accepts opts b ms b' \<Longrightarrow> closed b \<Longrightarrow>
   closed b' \<and> ms = [] \<and> to_backend b' = to_backend b \<and> to_client b' = to_client b \<and>
   close_frames b' = close_frames b \<and> pings b' = pings b"
  by (induction rule: bridge_step.induct) (auto simp: bridge_defs)

inductive bridge_later ::
  "(int \<Rightarrow> bool) \<Rightarrow> bridge_options \<Rightarrow> bridge \<Rightarrow> bridge \<Rightarrow> bool" for accepts opts where
  now: "bridge_later accepts opts b b"
| later: "bridge_later accepts opts b b' \<Longrightarrow> bridge_step accepts opts b' ms b'' \<Longrightarrow>
    bridge_later accepts opts b b''"

section \<open>Properties\<close>

text \<open>
  Claim C12. Under every order of socket events and timers the bridge relays the client's messages
  to the backend in the order they came, none twice: what was sent followed by what is queued is a
  prefix of what the client sent, all of it while the bridge is up and the backend connecting
  or open; once the backend is open nothing is left in the queue; and the queue never exceeds
  its message and byte limits.
\<close>

theorem bridge_relays_in_order:
  assumes "bridge_run accepts opts b sent"
  shows "\<exists>dropped. sent = to_backend b @ queue b @ dropped \<and>
    (if closed b \<or> backendSocket b \<in> {Closing, Closed} then True else dropped = []) \<and>
    (if closed b \<or> backendSocket b \<noteq> Open then True else queue b = []) \<and>
    length (queue b) \<le> maxQueueMessages opts \<and>
    sum_list (map length (queue b)) \<le> maxQueueBytes opts"
proof -
  have ok: "queue_ok opts b" "order_ok b sent" using bridge_run_ok [OF assms] by simp_all
  have "backendSocket b \<in> {Connecting, Open}" if "backendSocket b \<notin> {Closing, Closed}"
    using that by (cases "backendSocket b") simp_all
  then show ?thesis using ok by (auto simp: queue_ok_def order_ok_def)
qed

definition default_options :: bridge_options where
  "default_options = \<lparr>maxQueueMessages = MAX_QUEUE_MESSAGES, maxQueueBytes = MAX_QUEUE_BYTES,
    handshakeTimeoutMs = HANDSHAKE_TIMEOUT_MS, idleTimeoutMs = IDLE_TIMEOUT_MS\<rparr>"

definition authed :: bridge where
  "authed = on_backend_open (on_client_message (\<lambda>c. c \<noteq> 1005) default_options ''auth'' bridgeConnection)"

lemma authed_run: "bridge_run (\<lambda>c. c \<noteq> 1005) default_options authed [''auth'']"
proof -
  let ?b = "on_client_message (\<lambda>c. c \<noteq> 1005) default_options ''auth'' bridgeConnection"
  have "bridge_run (\<lambda>c. c \<noteq> 1005) default_options ?b ([] @ (if closed bridgeConnection then [] else [''auth'']))"
    by (rule bridge_run.step [OF bridge_run.start bridge_step.client_message])
      (simp add: bridgeConnection_def)
  then have "bridge_run (\<lambda>c. c \<noteq> 1005) default_options ?b [''auth'']"
    by (simp add: bridgeConnection_def)
  from bridge_run.step [OF this bridge_step.backend_open] show ?thesis
    by (simp add: authed_def on_client_message_def bridgeConnection_def default_options_def resetIdle_def
        MAX_QUEUE_MESSAGES_def MAX_QUEUE_BYTES_def)
qed

lemma authed_state:
  "closed authed = False" "clientWs authed = Open" "backendSocket authed = Open" "to_backend authed = [''auth'']"
  "close_frames authed = []"
  by (simp_all add: authed_def on_backend_open_def Let_def on_client_message_def bridgeConnection_def
      default_options_def resetIdle_def MAX_QUEUE_MESSAGES_def MAX_QUEUE_BYTES_def)

theorem bridge_relays_in_order_witness:
  "queue authed = [] \<and> length (queue authed) \<le> 32 \<and> to_backend authed = [''auth'']"
  using bridge_relays_in_order [OF authed_run]
  by (auto simp: authed_state default_options_def MAX_QUEUE_MESSAGES_def)

text \<open>
  A torn-down bridge stays down and silent: whatever happens afterwards, nothing more is
  relayed on either leg and no ping or second close frame goes out, the backend leg is no longer
  open, and the one close frame the client may have got carries a code a peer may send.
\<close>

theorem bridge_teardown_final:
  assumes "bridge_run accepts opts b sent" "closed b" "bridge_later accepts opts b b'"
  shows "closed b' \<and> to_backend b' = to_backend b \<and> to_client b' = to_client b \<and> pings b' = pings b \<and>
    close_frames b' = close_frames b \<and> length (close_frames b) \<le> 1 \<and>
    list_all (\<lambda>(c, r). 1000 \<le> c \<and> c \<le> 4999 \<and> c \<noteq> 1006 \<and> accepts c) (close_frames b) \<and>
    backendSocket b' \<in> {Closing, Closed}"
proof -
  have ok: "frames_ok accepts b" "timers_ok b" using bridge_run_ok [OF assms(1)] by simp_all
  have "closed b' \<and> to_backend b' = to_backend b \<and> to_client b' = to_client b \<and> pings b' = pings b \<and>
      close_frames b' = close_frames b \<and> timers_ok b'"
    using assms(3,2) ok(2)
  proof (induction rule: bridge_later.induct)
    case (later b b' ms b'')
    then show ?case using closed_step [OF later.hyps(2)] timers_step [OF later.hyps(2)] by simp
  qed simp
  then show ?thesis using ok by (simp add: frames_ok_def timers_ok_def)
qed

definition torn_down :: bridge where
  "torn_down = on_idle (\<lambda>c. c \<noteq> 1005) authed"

text \<open>
  Claim C27. No connection outlives its peers: while the bridge is up the idle timer is armed and
  its firing tears the bridge down, and while the backend is still connecting so does the
  handshake timer's.
\<close>

theorem bridge_always_reaped:
  assumes "bridge_run accepts opts b sent" "\<not> closed b"
  shows "idleTimer b \<and> closed (on_idle accepts b) \<and>
    (if backendSocket b = Connecting
     then handshakeTimer b \<and> closed (on_handshake_timeout accepts b) else True)"
  using bridge_run_ok [OF assms(1)] assms(2)
  by (auto simp: timers_ok_def bridge_defs)

theorem bridge_always_reaped_witness:
  "\<not> closed authed \<and> closed (on_idle (\<lambda>c. c \<noteq> 1005) authed)"
  using bridge_always_reaped [OF authed_run] by (simp add: authed_state)

text \<open>
  Claim C40. A backend that closes without a status, which its close event reports as code 1005,
  leaves the browser's socket open for good when the socket library refuses to send that code:
  the bridge counts itself closed, has no timer left, and no later timer or backend event closes
  the client.
\<close>

theorem no_status_close_strands_client:
  assumes "\<not> accepts 1005" "bridge_run accepts opts b sent" "\<not> closed b" "clientWs b = Open"
    "backendSocket b \<noteq> Closed"
  shows "bridge_run accepts opts (on_backend_close accepts 1005 reason b) sent \<and>
    closed (on_backend_close accepts 1005 reason b) \<and>
    clientWs (on_backend_close accepts 1005 reason b) = Open \<and>
    close_frames (on_backend_close accepts 1005 reason b) = [] \<and>
    \<not> idleTimer (on_backend_close accepts 1005 reason b) \<and>
    clientWs (on_idle accepts (resetIdle (on_backend_close accepts 1005 reason b))) = Open"
proof -
  have "close_frames b = []" using bridge_run_ok [OF assms(2)] assms(3) by (simp add: frames_ok_def)
  moreover have "bridge_run accepts opts (on_backend_close accepts 1005 reason b) (sent @ [])"
    by (rule bridge_run.step [OF assms(2) bridge_step.backend_close [OF assms(5)]])
  ultimately show ?thesis
    using assms by (auto simp: bridge_defs remapCloseCode_def)
qed

theorem no_status_close_strands_client_witness:
  "clientWs (on_backend_close (\<lambda>c. c \<noteq> 1005) 1005 [] authed) = Open \<and>
   closed (on_backend_close (\<lambda>c. c \<noteq> 1005) 1005 [] authed)"
  using no_status_close_strands_client [OF _ authed_run, of "[]"] by (simp add: authed_state)

end
