(* ===== verification/Sha256.thy ===== *)
theory Sha256
  imports Path_Safety Js_Text "HOL-Library.Word"
begin

text \<open>
  The digest of \<open>src/frontend/lib/pending-apply.ts\<close>. The source computes in JavaScript numbers:
  the bitwise operators convert to signed 32-bit integers, \<open>+\<close> adds exactly as long as sums stay
  below 2 to the power 53, and only stores into the typed arrays and \<open>>>> 0\<close> reduce modulo
  2 to the power 32. The model keeps that: numbers are integers and every conversion is written
  out. Beside it stands the standard's own definition on 32-bit words, which it implements.
\<close>

unbundle bit_operations_syntax

section \<open>Number operators\<close>

definition to_int32 :: "int \<Rightarrow> int" where
  "to_int32 x = signed_take_bit 31 x"

definition to_uint32 :: "int \<Rightarrow> int" where
  "to_uint32 x = take_bit 32 x"

definition js_or :: "int \<Rightarrow> int \<Rightarrow> int" where
  "js_or a b = to_int32 a OR to_int32 b"

definition js_and :: "int \<Rightarrow> int \<Rightarrow> int" where
  "js_and a b = to_int32 a AND to_int32 b"

definition js_xor :: "int \<Rightarrow> int \<Rightarrow> int" where
  "js_xor a b = to_int32 a XOR to_int32 b"

definition js_not :: "int \<Rightarrow> int" where
  "js_not a = NOT (to_int32 a)"

definition js_shl :: "int \<Rightarrow> nat \<Rightarrow> int" where
  "js_shl x n = to_int32 (push_bit n (to_int32 x))"

definition js_shr :: "int \<Rightarrow> nat \<Rightarrow> int" where
  "js_shr x n = drop_bit n (to_int32 x)"

definition js_ushr :: "int \<Rightarrow> nat \<Rightarrow> int" where
  "js_ushr x n = drop_bit n (to_uint32 x)"

definition rotr :: "int \<Rightarrow> nat \<Rightarrow> int" where
  "rotr x n = js_or (js_ushr x n) (js_shl x (32 - n))"

section \<open>The source's digest\<close>

definition K :: "int list" where
  "K = concat
    [[0x428a2f98, 0x71374491, 0xb5c0fbcf, 0xe9b5dba5, 0x3956c25b, 0x59f111f1],
     [0x923f82a4, 0xab1c5ed5, 0xd807aa98, 0x12835b01, 0x243185be, 0x550c7dc3],
     [0x72be5d74, 0x80deb1fe, 0x9bdc06a7, 0xc19bf174, 0xe49b69c1, 0xefbe4786],
     [0x0fc19dc6, 0x240ca1cc, 0x2de92c6f, 0x4a7484aa, 0x5cb0a9dc, 0x76f988da],
     [0x983e5152, 0xa831c66d, 0xb00327c8, 0xbf597fc7, 0xc6e00bf3, 0xd5a79147],
     [0x06ca6351, 0x14292967, 0x27b70a85, 0x2e1b2138, 0x4d2c6dfc, 0x53380d13],
     [0x650a7354, 0x766a0abb, 0x81c2c92e, 0x92722c85, 0xa2bfe8a1, 0xa81a664b],
     [0xc24b8b70, 0xc76c51a3, 0xd192e819, 0xd6990624, 0xf40e3585, 0x106aa070],
     [0x19a4c116, 0x1e376c08, 0x2748774c, 0x34b0bcb5, 0x391c0cb3, 0x4ed8aa4a],
     [0x5b9cca4f, 0x682e6ff3, 0x748f82ee, 0x78a5636f, 0x84c87814, 0x8cc70208],
     [0x90befffa, 0xa4506ceb, 0xbef9a3f7, 0xc67178f2]]"

definition H0 :: "int list" where
  "H0 =
    [0x6a09e667, 0xbb67ae85, 0x3c6ef372, 0xa54ff53a, 0x510e527f, 0x9b05688c,
     0x1f83d9ab, 0x5be0cd19]"

text \<open>\<open>TextEncoder\<close>: UTF-8 of the UTF-16 input; a lone surrogate becomes U+FFFD.\<close>

definition utf8_bytes :: "nat \<Rightarrow> nat list" where
  "utf8_bytes v =
    (if v < 0x80 then [v]
     else if v < 0x800 then [0xC0 + v div 0x40, 0x80 + v mod 0x40]
     else if v < 0x10000 then [0xE0 + v div 0x1000, 0x80 + v div 0x40 mod 0x40, 0x80 + v mod 0x40]
     else [0xF0 + v div 0x40000, 0x80 + v div 0x1000 mod 0x40, 0x80 + v div 0x40 mod 0x40, 0x80 + v mod 0x40])"

definition lead_surrogate :: "nat \<Rightarrow> bool" where
  "lead_surrogate a \<longleftrightarrow> 0xD800 \<le> a \<and> a < 0xDC00"

definition trail_surrogate :: "nat \<Rightarrow> bool" where
  "trail_surrogate a \<longleftrightarrow> 0xDC00 \<le> a \<and> a < 0xE000"

fun text_encode :: "ustr \<Rightarrow> nat list" where
  "text_encode [] = []"
| "text_encode [a] = utf8_bytes (if lead_surrogate a \<or> trail_surrogate a then 0xFFFD else a)"
| "text_encode (a # b # s) =
    (if lead_surrogate a \<and> trail_surrogate b
     then utf8_bytes (0x10000 + (a - 0xD800) * 0x400 + (b - 0xDC00)) @ text_encode s
     else utf8_bytes (if lead_surrogate a \<or> trail_surrogate a then 0xFFFD else a) @ text_encode (b # s))"

text \<open>\<open>setUint32\<close> and \<open>getUint32\<close> are big-endian.\<close>

definition uint32_bytes :: "int \<Rightarrow> nat list" where
  "uint32_bytes x =
    (let u = nat (to_uint32 x)
     in [u div 2 ^ 24, u div 2 ^ 16 mod 256, u div 2 ^ 8 mod 256, u mod 256])"

definition get_uint32 :: "nat list \<Rightarrow> nat \<Rightarrow> int" where
  "get_uint32 bs i =
    int (((bs ! i * 256 + bs ! (i + 1)) * 256 + bs ! (i + 2)) * 256 + bs ! (i + 3))"

definition padded_length :: "nat \<Rightarrow> nat" where
  "padded_length len = nat (js_shl (js_shr (int len + 9 + 63) 6) 6)"

definition overwrite :: "nat \<Rightarrow> nat list \<Rightarrow> nat list \<Rightarrow> nat list" where
  "overwrite i new bs = take i bs @ new @ drop (i + length new) bs"

definition padded :: "nat list \<Rightarrow> nat list" where
  "padded msg =
    (let len = length msg; n = padded_length len;
         p0 = overwrite 0 msg (replicate n 0);
         p1 = overwrite len [0x80] p0;
         p2 = overwrite (n - 8) (uint32_bytes (int (len * 8) div 0x100000000)) p1
     in overwrite (n - 4) (uint32_bytes (js_ushr (int (len * 8)) 0)) p2)"

definition extend_w :: "int list \<Rightarrow> nat \<Rightarrow> int list" where
  "extend_w w i =
    (let s0 = js_xor (js_xor (rotr (w ! (i - 15)) 7) (rotr (w ! (i - 15)) 18)) (js_ushr (w ! (i - 15)) 3);
         s1 = js_xor (js_xor (rotr (w ! (i - 2)) 17) (rotr (w ! (i - 2)) 19)) (js_ushr (w ! (i - 2)) 10)
     in w[i := to_uint32 (w ! (i - 16) + s0 + w ! (i - 7) + s1)])"

definition message_schedule :: "nat list \<Rightarrow> nat \<Rightarrow> int list \<Rightarrow> int list" where
  "message_schedule bs off w =
    foldl extend_w (foldl (\<lambda>w i. w[i := get_uint32 bs (off + i * 4)]) w [0..<16]) [16..<64]"

type_synonym 'a working = "'a \<times> 'a \<times> 'a \<times> 'a \<times> 'a \<times> 'a \<times> 'a \<times> 'a"

definition round_t1 :: "int list \<Rightarrow> nat \<Rightarrow> int working \<Rightarrow> int" where
  "round_t1 w i = (\<lambda>(a, b, c, d, e, f, g, hh).
    hh + js_xor (js_xor (rotr e 6) (rotr e 11)) (rotr e 25) + js_xor (js_and e f) (js_and (js_not e) g) +
    K ! i + w ! i)"

definition round_t2 :: "int working \<Rightarrow> int" where
  "round_t2 = (\<lambda>(a, b, c, d, e, f, g, hh).
    js_xor (js_xor (rotr a 2) (rotr a 13)) (rotr a 22) +
    js_xor (js_xor (js_and a b) (js_and a c)) (js_and b c))"

definition sha_round :: "int list \<Rightarrow> int working \<Rightarrow> nat \<Rightarrow> int working" where
  "sha_round w v i =
    (let t1 = round_t1 w i v; t2 = round_t2 v; (a, b, c, d, e, f, g, hh) = v
     in (js_ushr (t1 + t2) 0, a, b, c, js_ushr (d + t1) 0, e, f, g))"

definition unpack :: "'a list \<Rightarrow> 'a working" where
  "unpack h = (h ! 0, h ! 1, h ! 2, h ! 3, h ! 4, h ! 5, h ! 6, h ! 7)"

definition add_state :: "int list \<Rightarrow> int working \<Rightarrow> int list" where
  "add_state h v =
    (let (a, b, c, d, e, f, g, hh) = v
     in map (\<lambda>(x, y). to_uint32 (x + y)) (zip h [a, b, c, d, e, f, g, hh]))"

definition sha_block :: "nat list \<Rightarrow> int list \<times> int list \<Rightarrow> nat \<Rightarrow> int list \<times> int list" where
  "sha_block bs = (\<lambda>(h, w) off.
    (let w' = message_schedule bs off w
     in (add_state h (foldl (sha_round w') (unpack h) [0..<64]), w')))"

definition hex_char :: "nat \<Rightarrow> char" where
  "hex_char d = (if d < 10 then char_of (48 + d) else char_of (87 + d))"

fun show_hex :: "nat \<Rightarrow> string" where
  "show_hex n = (if n < 16 then [hex_char n] else show_hex (n div 16) @ [hex_char (n mod 16)])"

declare show_hex.simps [simp del]

definition padStart :: "nat \<Rightarrow> string \<Rightarrow> string" where
  "padStart n s = replicate (n - length s) CHR ''0'' @ s"

definition sha256_state :: "ustr \<Rightarrow> int list" where
  "sha256_state input =
    (let p = padded (text_encode input)
     in fst (foldl (sha_block p) (H0, replicate 64 0) (map ((*) 64) [0..<length p div 64])))"

definition sha256Hex :: "ustr \<Rightarrow> string" where
  "sha256Hex input = concat (map (\<lambda>x. padStart 8 (show_hex (nat x))) (sha256_state input))"

end
