(* ===== verification/Sha256_Refines.thy ===== *)
theory Sha256_Refines
  imports Complex_Main Sha256
begin

text \<open>
  SHA-256 as the standard defines it, on 32-bit words and with the schedule built afresh for
  every block, and the proof that the source's number arithmetic computes it.
\<close>

section \<open>The standard\<close>

type_synonym w32 = "32 word"

definition ROTR :: "nat \<Rightarrow> w32 \<Rightarrow> w32" where
  "ROTR n x = drop_bit n x OR push_bit (32 - n) x"

definition Ch :: "w32 \<Rightarrow> w32 \<Rightarrow> w32 \<Rightarrow> w32" where
  "Ch x y z = (x AND y) XOR (NOT x AND z)"

definition Maj :: "w32 \<Rightarrow> w32 \<Rightarrow> w32 \<Rightarrow> w32" where
  "Maj x y z = (x AND y) XOR (x AND z) XOR (y AND z)"

definition Sigma0 :: "w32 \<Rightarrow> w32" where
  "Sigma0 x = ROTR 2 x XOR ROTR 13 x XOR ROTR 22 x"

definition Sigma1 :: "w32 \<Rightarrow> w32" where
  "Sigma1 x = ROTR 6 x XOR ROTR 11 x XOR ROTR 25 x"

definition sigma0 :: "w32 \<Rightarrow> w32" where
  "sigma0 x = ROTR 7 x XOR ROTR 18 x XOR drop_bit 3 x"

definition sigma1 :: "w32 \<Rightarrow> w32" where
  "sigma1 x = ROTR 17 x XOR ROTR 19 x XOR drop_bit 10 x"

definition std_pad :: "nat list \<Rightarrow> nat list" where
  "std_pad msg =
    msg @ [0x80] @ replicate (nat ((55 - int (length msg)) mod 64)) 0 @
    map (\<lambda>k. 8 * length msg div 256 ^ k mod 256) [7, 6, 5, 4, 3, 2, 1, 0]"

definition std_word :: "nat list \<Rightarrow> nat \<Rightarrow> w32" where
  "std_word bs i = word_of_int (get_uint32 bs i)"

definition std_extend :: "w32 list \<Rightarrow> nat \<Rightarrow> w32 list" where
  "std_extend w i = w @ [sigma1 (w ! (i - 2)) + w ! (i - 7) + sigma0 (w ! (i - 15)) + w ! (i - 16)]"

definition std_schedule :: "nat list \<Rightarrow> nat \<Rightarrow> w32 list" where
  "std_schedule bs off =
    foldl std_extend (map (\<lambda>i. std_word bs (off + i * 4)) [0..<16]) [16..<64]"

text \<open>
  The constants are the first 32 bits of the fractional parts of the cube roots of the first
  sixty-four primes and of the square roots of the first eight.
\<close>

definition root_bits :: "nat \<Rightarrow> nat \<Rightarrow> int" where
  "root_bits k p = \<lfloor>root k (real p) * 2 ^ 32\<rfloor> mod 2 ^ 32"

definition std_primes :: "nat list" where
  "std_primes =
    [2, 3, 5, 7, 11, 13, 17, 19, 23, 29, 31, 37, 41, 43, 47, 53, 59, 61, 67, 71, 73, 79, 83, 89, 97, 101, 103,
     107, 109, 113, 127, 131, 137, 139, 149, 151, 157, 163, 167, 173, 179, 181, 191, 193, 197, 199, 211, 223,
     227, 229, 233, 239, 241, 251, 257, 263, 269, 271, 277, 281, 283, 293, 307, 311]"

definition std_K :: "int list" where
  "std_K = map (root_bits 3) std_primes"

definition std_H0 :: "int list" where
  "std_H0 = map (root_bits 2) (take 8 std_primes)"

definition std_round :: "w32 list \<Rightarrow> w32 working \<Rightarrow> nat \<Rightarrow> w32 working" where
  "std_round w = (\<lambda>(a, b, c, d, e, f, g, h) i.
    (let T1 = h + Sigma1 e + Ch e f g + word_of_int (std_K ! i) + w ! i; T2 = Sigma0 a + Maj a b c
     in (T1 + T2, a, b, c, d + T1, e, f, g)))"

definition std_block :: "nat list \<Rightarrow> w32 list \<Rightarrow> nat \<Rightarrow> w32 list" where
  "std_block bs h off =
    (let (a, b, c, d, e, f, g, hh) = foldl (std_round (std_schedule bs off)) (unpack h) [0..<64]
     in map2 (+) h [a, b, c, d, e, f, g, hh])"

definition SHA256 :: "nat list \<Rightarrow> w32 list" where
  "SHA256 msg =
    foldl (std_block (std_pad msg)) (map word_of_int std_H0)
      (map ((*) 64) [0..<length (std_pad msg) div 64])"

section \<open>Constants\<close>

lemma root_bits_eq:
  assumes "0 < k" "0 \<le> c" "c ^ k \<le> int p * 2 ^ (32 * k)" "int p * 2 ^ (32 * k) < (c + 1) ^ k"
  shows "root_bits k p = c mod 2 ^ 32"
proof -
  let ?x = "root k (real p) * 2 ^ 32"
  have x: "?x = root k (real p * 2 ^ (32 * k))"
    using assms(1) real_root_power_cancel [of k "2 ^ 32"]
    by (simp add: real_root_mult power_mult [symmetric] del: power_numeral)
  have le: "real_of_int (c ^ k) \<le> real_of_int (int p * 2 ^ (32 * k))"
    and less: "real_of_int (int p * 2 ^ (32 * k)) < real_of_int ((c + 1) ^ k)"
    using assms(3,4) by (simp_all only: of_int_le_iff of_int_less_iff)
  have "root k (real_of_int c ^ k) \<le> ?x" "?x < root k ((real_of_int c + 1) ^ k)"
    unfolding x using real_root_le_mono [OF assms(1) le] real_root_less_mono [OF assms(1) less]
    by (simp_all del: power_numeral)
  then have "real_of_int c \<le> ?x" "?x < real_of_int c + 1"
    using assms(1,2) by (simp_all add: real_root_power_cancel)
  then have "\<lfloor>?x\<rfloor> = c" by (simp add: floor_eq_iff)
  then show ?thesis by (simp add: root_bits_def)
qed

text \<open>\<open>r\<close> is the integer part of the root.\<close>

definition is_root_bits :: "nat \<Rightarrow> nat \<times> int \<Rightarrow> int \<Rightarrow> bool" where
  "is_root_bits k = (\<lambda>(p, r) b.
    0 \<le> r \<and> 0 \<le> b \<and> b < 2 ^ 32 \<and> (r * 2 ^ 32 + b) ^ k \<le> int p * 2 ^ (32 * k) \<and>
    int p * 2 ^ (32 * k) < (r * 2 ^ 32 + b + 1) ^ k)"

lemma root_bits_is:
  assumes "0 < k" "is_root_bits k (p, r) b"
  shows "b = root_bits k p"
proof -
  have "root_bits k p = (r * 2 ^ 32 + b) mod 2 ^ 32"
    using assms by (intro root_bits_eq) (simp_all add: is_root_bits_def)
  then show ?thesis using assms(2) by (simp add: is_root_bits_def)
qed

lemma root_bits_list:
  assumes "0 < k" "list_all2 (is_root_bits k) (zip ps rs) bs" "length ps = length rs"
  shows "bs = map (root_bits k) ps"
proof (rule nth_equalityI)
  show len: "length bs = length (map (root_bits k) ps)" using list_all2_lengthD [OF assms(2)] assms(3) by simp
  fix i assume "i < length bs"
  then show "bs ! i = map (root_bits k) ps ! i"
    using root_bits_is [OF assms(1), of "ps ! i" "rs ! i"] list_all2_nthD2 [OF assms(2), of i] len assms(3) by simp
qed

lemma K_roots: "std_K = K"
  unfolding std_K_def
  by (rule root_bits_list [symmetric, where rs = "map (\<lambda>p. if p < 8 then 1 else if p < 27 then 2 else if p < 64 then 3
        else if p < 125 then 4 else if p < 216 then 5 else 6) std_primes"])
    (simp_all add: K_def std_primes_def is_root_bits_def)

lemma H0_roots: "std_H0 = H0"
  unfolding std_H0_def
  by (rule root_bits_list [symmetric, where rs = "[1, 1, 2, 2, 3, 3, 4, 4]"])
    (simp_all add: H0_def std_primes_def is_root_bits_def)

section \<open>Operators\<close>

abbreviation W :: "int \<Rightarrow> w32" where
  "W \<equiv> word_of_int"

lemma W_int32 [simp]: "W (to_int32 x) = W x"
  by (simp add: to_int32_def word_of_int_eq_iff take_bit_signed_take_bit)

lemma W_uint32 [simp]: "W (to_uint32 x) = W x"
  by (simp add: to_uint32_def word_of_int_eq_iff)

lemma W_bits [simp]:
  "W (js_or a b) = W a OR W b" "W (js_and a b) = W a AND W b" "W (js_xor a b) = W a XOR W b"
  "W (js_not a) = NOT (W a)"
  by (simp_all add: js_or_def js_and_def js_xor_def js_not_def of_int_or_eq of_int_and_eq
      of_int_xor_eq of_int_not_eq)

lemma W_ushr [simp]: "W (js_ushr x n) = drop_bit n (W x)"
  unfolding js_ushr_def to_uint32_def by transfer simp

lemma W_shl [simp]: "W (js_shl x n) = push_bit n (W x)"
proof -
  have "W (push_bit n y) = push_bit n (W y)" for y
    by transfer simp
  then show ?thesis by (simp add: js_shl_def)
qed

lemma W_rotr [simp]: "W (rotr x n) = ROTR n (W x)"
  by (simp add: rotr_def ROTR_def)

section \<open>The schedule\<close>

lemma extend_nth:
  assumes "length w = 64" "16 \<le> i" "i < 64"
  shows "W (extend_w w i ! i) =
      sigma1 (W (w ! (i - 2))) + W (w ! (i - 7)) + sigma0 (W (w ! (i - 15))) + W (w ! (i - 16))"
    and "j \<noteq> i \<Longrightarrow> extend_w w i ! j = w ! j" and "length (extend_w w i) = 64"
  using assms by (simp_all add: extend_w_def Let_def sigma0_def sigma1_def xor.assoc)

lemma std_extend_length: "length (foldl std_extend w is) = length w + length is"
  by (induction "is" arbitrary: w) (simp_all add: std_extend_def)

lemma schedule_prefix:
  assumes "length w = 64" "map W (take 16 w) = s" "16 \<le> n" "n \<le> 64"
  shows "map W (take n (foldl extend_w w [16..<n])) = foldl std_extend s [16..<n] \<and>
    length (foldl extend_w w [16..<n]) = 64"
  using assms(3,4)
proof (induction n rule: dec_induct)
  case base
  then show ?case using assms by simp
next
  case (step n)
  let ?a = "foldl extend_w w [16..<n]" and ?s = "foldl std_extend s [16..<n]"
  have IH: "map W (take n ?a) = ?s" "length ?a = 64" using step by simp_all
  have at: "W (?a ! j) = ?s ! j" if "j < n" for j
    using that IH step.prems by (simp flip: IH(1))
  have "take (Suc n) (extend_w ?a n) = take n ?a @ [extend_w ?a n ! n]"
  proof -
    have "take n (extend_w ?a n) = take n ?a"
      using extend_nth(2,3) [OF IH(2), of n] step IH(2) by (intro nth_equalityI) simp_all
    then show ?thesis using take_Suc_conv_app_nth [of n "extend_w ?a n"] extend_nth(3) [OF IH(2), of n] step by simp
  qed
  then show ?case
    using step IH extend_nth(1,3) [OF IH(2), of n] at [of "n - 2"] at [of "n - 7"] at [of "n - 15"] at [of "n - 16"]
    by (simp add: std_extend_def)
qed

lemma load_words:
  assumes "length w = 64" "n \<le> 16"
  shows "take n (foldl (\<lambda>w i. w[i := f i]) w [0..<n]) = map f [0..<n] \<and>
    length (foldl (\<lambda>w i. w[i := f i]) w [0..<n]) = 64"
  using assms(2)
proof (induction n)
  case (Suc n)
  then show ?case by (simp add: take_Suc_conv_app_nth)
qed (simp add: assms)

lemma sixteen_le: "16 \<le> (64 :: nat)"
  by simp

lemma schedule_refines:
  assumes "length w = 64"
  shows "map W (message_schedule bs off w) = std_schedule bs off \<and> length (message_schedule bs off w) = 64"
proof -
  let ?w = "foldl (\<lambda>w i. w[i := get_uint32 bs (off + i * 4)]) w [0..<16]"
  have w: "take 16 ?w = map (\<lambda>i. get_uint32 bs (off + i * 4)) [0..<16]" "length ?w = 64"
    using load_words [OF assms, of 16 "\<lambda>i. get_uint32 bs (off + i * 4)"]
    by (simp_all del: upt_rec_numeral)
  have "map W (take 16 ?w) = map (\<lambda>i. std_word bs (off + i * 4)) [0..<16]"
    unfolding w(1) by (simp add: std_word_def comp_def del: upt_rec_numeral)
  note pre = schedule_prefix [OF w(2) this, of 64, OF sixteen_le order_refl]
  have "map W (take 64 (message_schedule bs off w)) = std_schedule bs off"
    unfolding message_schedule_def std_schedule_def by (rule conjunct1 [OF pre])
  moreover have "length (message_schedule bs off w) = 64"
    unfolding message_schedule_def by (rule conjunct2 [OF pre])
  ultimately show ?thesis by simp
qed

section \<open>The rounds\<close>

definition wmap :: "('a \<Rightarrow> 'b) \<Rightarrow> 'a working \<Rightarrow> 'b working" where
  "wmap k = (\<lambda>(a, b, c, d, e, f, g, h). (k a, k b, k c, k d, k e, k f, k g, k h))"

lemma working_exhaust:
  obtains a b c d e f g h where "v = (a, b, c, d, e, f, g, h)"
proof -
  obtain a b c d e f r where "v = (a, b, c, d, e, f, r)" by (cases v)
  then show thesis using that by (cases r) simp
qed

lemma round_refines:
  assumes "i < length w"
  shows "wmap W (sha_round w v i) = std_round (map W w) (wmap W v) i"
proof -
  obtain a b c d e f g h where "v = (a, b, c, d, e, f, g, h)" by (rule working_exhaust)
  then show ?thesis
    using assms
    by (simp add: sha_round_def round_t1_def round_t2_def std_round_def K_roots wmap_def Let_def Sigma0_def
        Sigma1_def Ch_def Maj_def xor.assoc)
qed

lemma rounds_refine:
  "\<forall>i \<in> set is. i < length w \<Longrightarrow>
   wmap W (foldl (sha_round w) v is) = foldl (std_round (map W w)) (wmap W v) is"
  by (induction "is" arbitrary: v) (simp_all add: round_refines)

lemma unpack_map: "length h = 8 \<Longrightarrow> wmap f (unpack h) = unpack (map f h)"
  by (simp add: wmap_def unpack_def)

lemma add_zip:
  "map W (map (\<lambda>(x, y). to_uint32 (x + y)) (zip h vs)) = map2 (+) (map W h) (map W vs)"
  by (induction h vs rule: list_induct2') simp_all

lemma block_refines:
  assumes "length h = 8" "length w = 64"
  shows "map W (fst (sha_block bs (h, w) off)) = std_block bs (map W h) off \<and>
    length (fst (sha_block bs (h, w) off)) = 8 \<and> length (snd (sha_block bs (h, w) off)) = 64"
proof -
  let ?w = "message_schedule bs off w"
  have w: "map W ?w = std_schedule bs off" "length ?w = 64"
    using schedule_refines [OF assms(2)] by simp_all
  obtain a b c d e f g hh where v: "foldl (sha_round ?w) (unpack h) [0..<64] = (a, b, c, d, e, f, g, hh)"
    by (rule working_exhaust)
  have "foldl (std_round (std_schedule bs off)) (unpack (map W h)) [0..<64] =
      (W a, W b, W c, W d, W e, W f, W g, W hh)"
    using rounds_refine [of "[0..<64]" ?w "unpack h"] w unpack_map [OF assms(1), of W] v
    by (simp add: wmap_def del: upt_rec_numeral)
  then show ?thesis
    using v w assms add_zip [of h "[a, b, c, d, e, f, g, hh]"]
    by (simp add: sha_block_def std_block_def add_state_def Let_def del: upt_rec_numeral map_map)
qed

section \<open>Padding\<close>

lemma to_int32_small: "0 \<le> x \<Longrightarrow> x < 2 ^ 31 \<Longrightarrow> to_int32 x = x"
  by (simp add: to_int32_def signed_take_bit_int_eq_self_iff)

lemma padded_length_eq:
  assumes "len + 72 < 2 ^ 31"
  shows "padded_length len = 64 * ((len + 72) div 64)"
proof -
  have i: "int len + 72 < 2 ^ 31" using assms by simp
  have "(int len + 72) div 64 * 64 \<le> int len + 72" by simp
  then show ?thesis
    using i
    by (simp add: padded_length_def js_shl_def js_shr_def to_int32_small drop_bit_eq_div push_bit_eq_mult
        nat_mult_distrib nat_div_distrib nat_add_distrib mult.commute pos_imp_zdiv_nonneg_iff)
qed

lemma overwrite_middle: "length b = length c \<Longrightarrow> overwrite (length a) b (a @ c @ d) = a @ b @ d"
  by (simp add: overwrite_def)

lemma byte_of_low:
  assumes "k \<le> 24"
  shows "(m mod 2 ^ 32) div 2 ^ k mod 2 ^ 8 = m div 2 ^ k mod (2 :: nat) ^ 8"
proof -
  have "min 8 (32 - k) = 8" using assms by linarith
  then show ?thesis
    unfolding take_bit_eq_mod [symmetric] drop_bit_eq_div [symmetric] drop_bit_take_bit take_bit_take_bit
    by simp
qed

lemma uint32_bytes_eq:
  assumes "x < 2 ^ 32"
  shows "uint32_bytes (int x) = map (\<lambda>k. x div 256 ^ k mod 256) [3, 2, 1, 0]"
proof -
  have "to_uint32 (int x) = int x" using assms by (simp add: to_uint32_def take_bit_int_eq_self_iff)
  moreover have "x div 2 ^ 24 < 256" using assms by (simp add: less_mult_imp_div_less)
  ultimately show ?thesis by (simp add: uint32_bytes_def Let_def)
qed

lemma length_bytes:
  assumes "m < 2 ^ 64"
  shows "uint32_bytes (int m div 0x100000000) @ uint32_bytes (js_ushr (int m) 0) =
    map (\<lambda>k. m div 256 ^ k mod 256) [7, 6, 5, 4, 3, 2, 1, 0]"
proof -
  have hi: "uint32_bytes (int (m div 2 ^ 32)) = map (\<lambda>k. m div 2 ^ 32 div 256 ^ k mod 256) [3, 2, 1, 0]"
    by (rule uint32_bytes_eq) (use assms in \<open>simp add: less_mult_imp_div_less\<close>)
  have lo: "uint32_bytes (int (m mod 2 ^ 32)) = map (\<lambda>k. m mod 2 ^ 32 div 256 ^ k mod 256) [3, 2, 1, 0]"
    by (rule uint32_bytes_eq) simp
  have low: "m mod 2 ^ 32 div 256 ^ k mod 256 = m div 256 ^ k mod 256" if "k \<le> 3" for k
    using byte_of_low [of "8 * k" m] that by (simp add: power_mult)
  have "int m div 0x100000000 = int (m div 2 ^ 32)" by (simp add: zdiv_int)
  moreover have "js_ushr (int m) 0 = int (m mod 2 ^ 32)"
    by (simp add: js_ushr_def to_uint32_def take_bit_eq_mod zmod_int)
  moreover have "map (\<lambda>k. m mod 2 ^ 32 div 256 ^ k mod 256) [3, 2, 1, 0] = map (\<lambda>k. m div 256 ^ k mod 256) [3, 2, 1, 0]"
    by (rule map_cong [OF refl], rule low) auto
  ultimately show ?thesis
    using hi lo by (simp only:) (simp add: div_mult2_eq [symmetric])
qed

lemma padded_refines:
  assumes "length msg + 72 < 2 ^ 31"
  shows "padded msg = std_pad msg"
proof -
  let ?len = "length msg"
  let ?n = "padded_length ?len"
  define z where "z = nat ((55 - int ?len) mod 64)"
  have n: "?n = ?len + 1 + z + 8"
  proof -
    define q r where "q = (?len + 72) div 64" and "r = (?len + 72) mod 64"
    have qr: "?len + 72 = 64 * q + r" "r < 64" by (simp_all add: q_def r_def)
    have "int (?len + 72) = int (64 * q + r)" using qr(1) by (rule arg_cong)
    then have "55 - int ?len = (63 - int r) + 64 * (1 - int q)" by simp
    then have "(55 - int ?len) mod 64 = (63 - int r) mod 64" by (simp only: mod_mult_self2)
    then have "z = 63 - r" using qr(2) by (simp add: z_def)
    then show ?thesis using padded_length_eq [OF assms] qr by (simp add: q_def [symmetric])
  qed
  let ?hi = "uint32_bytes (int (?len * 8) div 0x100000000)"
  let ?lo = "uint32_bytes (js_ushr (int (?len * 8)) 0)"
  have len4: "length (uint32_bytes x) = 4" for x by (simp add: uint32_bytes_def Let_def)
  have "replicate ?n (0 :: nat) = [] @ replicate ?len 0 @ ([0] @ replicate z 0 @ replicate 4 0 @ replicate 4 0)"
    by (simp add: n replicate_add [symmetric] flip: replicate_Suc)
  then have p0: "overwrite 0 msg (replicate ?n 0) = msg @ [0] @ replicate z 0 @ replicate 4 0 @ replicate 4 0"
    using overwrite_middle [of msg "replicate ?len 0" "[]"] by simp
  have p1: "overwrite ?len [0x80] (overwrite 0 msg (replicate ?n 0)) =
      (msg @ [0x80] @ replicate z 0) @ replicate 4 0 @ replicate 4 0"
    unfolding p0 using overwrite_middle [of "[0x80]" "[0]" msg] by simp
  have p2: "overwrite (?n - 8) ?hi (overwrite ?len [0x80] (overwrite 0 msg (replicate ?n 0))) =
      (msg @ [0x80] @ replicate z 0) @ ?hi @ replicate 4 0"
    unfolding p1 using overwrite_middle [of ?hi "replicate 4 0" "msg @ [0x80] @ replicate z 0"] len4
    by (simp add: n)
  have "overwrite (?n - 4) ?lo (overwrite (?n - 8) ?hi (overwrite ?len [0x80] (overwrite 0 msg (replicate ?n 0)))) =
      (msg @ [0x80] @ replicate z 0 @ ?hi) @ ?lo"
    unfolding p2 using overwrite_middle [of ?lo "replicate 4 0" "msg @ [0x80] @ replicate z 0 @ ?hi" "[]"] len4
    by (simp add: n add.left_commute)
  moreover have "?len * 8 < 2 ^ 64" using assms by simp
  ultimately show ?thesis
    using length_bytes [of "?len * 8"] by (simp add: padded_def Let_def std_pad_def z_def mult.commute)
qed

section \<open>The digest\<close>

definition in_uint32 :: "int \<Rightarrow> bool" where
  "in_uint32 x \<longleftrightarrow> 0 \<le> x \<and> x < 2 ^ 32"

lemma uint32_range: "in_uint32 (to_uint32 x)"
  using take_bit_int_less_exp [of 32 x] by (simp add: in_uint32_def to_uint32_def)

lemma blocks_refine:
  "length h = 8 \<Longrightarrow> length w = 64 \<Longrightarrow>
   map W (fst (foldl (sha_block bs) (h, w) offs)) = foldl (std_block bs) (map W h) offs"
proof (induction offs arbitrary: h w)
  case (Cons off offs)
  obtain h' w' where hw: "sha_block bs (h, w) off = (h', w')" by (cases "sha_block bs (h, w) off")
  with block_refines [OF Cons.prems, of bs off] Cons.IH [of h' w'] show ?case by simp
qed simp

lemma block_range: "list_all in_uint32 (fst (sha_block bs (h, w) off))"
  by (auto simp: sha_block_def add_state_def Let_def list_all_iff uint32_range split: prod.split)

lemma state_range: "list_all in_uint32 (sha256_state input)"
proof -
  have "list_all in_uint32 (fst hw) \<Longrightarrow> list_all in_uint32 (fst (foldl (sha_block bs) hw offs))" for bs hw offs
  proof (induction offs arbitrary: hw)
    case (Cons off offs)
    then show ?case using block_range [of bs "fst hw" "snd hw" off] by simp
  qed simp
  then show ?thesis by (simp add: sha256_state_def Let_def H0_def in_uint32_def)
qed

lemma state_refines:
  assumes "length (text_encode input) + 72 < 2 ^ 31"
  shows "map W (sha256_state input) = SHA256 (text_encode input)"
  unfolding sha256_state_def SHA256_def H0_roots Let_def padded_refines [OF assms]
  by (rule blocks_refine) (simp_all add: H0_def)

lemma state_length: "length (sha256_state input) = 8"
proof -
  have "length (fst hw) = 8 \<Longrightarrow> length (snd hw) = 64 \<Longrightarrow> length (fst (foldl (sha_block bs) hw offs)) = 8"
    for bs hw offs
  proof (induction offs arbitrary: hw)
    case (Cons off offs)
    then show ?case using block_refines [of "fst hw" "snd hw" bs off] by simp
  qed simp
  then show ?thesis by (simp add: sha256_state_def Let_def H0_def)
qed

lemma nat_unat:
  assumes "in_uint32 x"
  shows "nat x = unat (W x)"
proof -
  have "take_bit 32 x = x" using assms by (simp add: in_uint32_def take_bit_int_eq_self_iff)
  then have "uint (W x) = x" by (simp add: uint_word_of_int_eq)
  then show ?thesis by (metis nat_uint_eq)
qed

lemma hex_length: "x < 16 ^ Suc k \<Longrightarrow> length (show_hex x) \<le> Suc k"
proof (induction k arbitrary: x)
  case (Suc k)
  then have "x div 16 < 16 ^ Suc k" by (simp add: less_mult_imp_div_less)
  with Suc.IH show ?case by (subst show_hex.simps) simp
qed (simp add: show_hex.simps)

definition is_hex :: "char \<Rightarrow> bool" where
  "is_hex c \<longleftrightarrow> c \<in> set ''0123456789abcdef''"

lemma hex_char_ok:
  assumes "d < 16"
  shows "is_hex (hex_char d)"
proof -
  have "list_all (\<lambda>d. is_hex (hex_char d)) [0..<16]" by code_simp
  then show ?thesis using assms by (simp add: list_all_iff del: upt_rec_numeral)
qed

lemma hex_ok: "list_all is_hex (show_hex x)"
  by (induction x rule: show_hex.induct) (subst show_hex.simps, auto simp: hex_char_ok)

section \<open>Exactness\<close>

text \<open>
  Adding integers models adding numbers only while every sum stays where a double is exact. The
  operands are typed-array elements and results of bitwise operators, so no sum comes near
  2 to the power 53.
\<close>

definition in_int32 :: "int \<Rightarrow> bool" where
  "in_int32 x \<longleftrightarrow> - (2 ^ 31) \<le> x \<and> x < 2 ^ 31"

lemma int32_range: "in_int32 (to_int32 x)"
  using signed_take_bit_int_greater_eq_minus_exp [of 31 x] signed_take_bit_int_less_exp [of 31 x]
  by (simp add: in_int32_def to_int32_def)

lemma bits_range: "in_int32 (js_xor a b)"
proof -
  have "js_xor a b = to_int32 (a XOR b)"
    by (rule bit_eqI) (simp add: js_xor_def to_int32_def bit_signed_take_bit_iff bit_xor_iff)
  then show ?thesis by (simp add: int32_range)
qed

lemma round_sums_exact:
  assumes "list_all in_uint32 [a, b, c, d, e, f, g, hh]" "in_uint32 (w ! i)" "i < 64"
  shows "\<bar>round_t1 w i (a, b, c, d, e, f, g, hh) + round_t2 (a, b, c, d, e, f, g, hh)\<bar> < 2 ^ 53 \<and>
    \<bar>d + round_t1 w i (a, b, c, d, e, f, g, hh)\<bar> < 2 ^ 53"
proof -
  have "list_all in_uint32 K" "length K = 64" by (simp_all add: K_def in_uint32_def)
  then have "in_uint32 (K ! i)" using assms(3) by (simp add: list_all_length)
  moreover have "in_int32 (js_xor (js_xor (rotr e 6) (rotr e 11)) (rotr e 25))"
    "in_int32 (js_xor (js_and e f) (js_and (js_not e) g))"
    "in_int32 (js_xor (js_xor (rotr a 2) (rotr a 13)) (rotr a 22))"
    "in_int32 (js_xor (js_xor (js_and a b) (js_and a c)) (js_and b c))"
    by (rule bits_range)+
  ultimately show ?thesis
    using assms(1,2) by (simp add: round_t1_def round_t2_def in_uint32_def in_int32_def abs_less_iff)
qed

section \<open>Properties\<close>

text \<open>
  Claim C13. The digest the browser computes in JavaScript numbers is SHA-256: for every request
  key whose UTF-8 form is shorter than about two gigabytes it is the hexadecimal text of the
  standard's hash of that form, constants included, although the source reuses one schedule array for all blocks and
  adds without reducing.
\<close>

theorem sha256Hex_refines_standard:
  assumes "length (text_encode input) + 72 < 2 ^ 31"
  shows "sha256Hex input =
    concat (map (\<lambda>w. padStart 8 (show_hex (unat w))) (SHA256 (text_encode input)))"
proof -
  have "map (\<lambda>x. padStart 8 (show_hex (nat x))) (sha256_state input) =
      map (\<lambda>x. padStart 8 (show_hex (unat (W x)))) (sha256_state input)"
    using state_range [of input] by (intro map_cong refl) (simp add: list_all_iff nat_unat)
  then show ?thesis
    unfolding sha256Hex_def state_refines [OF assms, symmetric] map_map comp_def by (rule arg_cong)
qed

theorem sha256Hex_refines_standard_witness:
  "sha256Hex [] = concat (map (\<lambda>w. padStart 8 (show_hex (unat w))) (SHA256 []))"
  using sha256Hex_refines_standard [of "[]"] by simp

text \<open>
  The digest is always sixty-four lower-case hexadecimal digits, so every storage key it
  makes has the same length.
\<close>

theorem sha256Hex_shape: "length (sha256Hex input) = 64 \<and> list_all is_hex (sha256Hex input)"
proof -
  have pad: "length (padStart 8 (show_hex (nat x))) = 8 \<and> list_all is_hex (padStart 8 (show_hex (nat x)))"
    if "in_uint32 x" for x
  proof -
    have "nat x < 16 ^ Suc 7" using that by (simp add: in_uint32_def nat_less_iff)
    then have "length (show_hex (nat x)) \<le> 8" using hex_length [of "nat x" 7] by simp
    moreover have "is_hex CHR ''0''" by (simp add: is_hex_def)
    ultimately show ?thesis using hex_ok [of "nat x"] by (simp add: padStart_def list_all_iff ball_Un)
  qed
  have "length (concat (map (\<lambda>x. padStart 8 (show_hex (nat x))) xs)) = 8 * length xs \<and>
      list_all is_hex (concat (map (\<lambda>x. padStart 8 (show_hex (nat x))) xs))"
    if "list_all in_uint32 xs" for xs
    using that by (induction xs) (simp_all add: pad)
  from this [OF state_range] state_length show ?thesis by (simp add: sha256Hex_def)
qed

end
