(* ===== verification/Pending_Apply.thy ===== *)
theory Pending_Apply
  imports Sha256_Refines Json
begin

text \<open>
  Selection of a cluster (\<open>src/frontend/src/lib/cluster.ts\<close>) and the session store of applies
  whose outcome is unknown (\<open>src/frontend/lib/pending-apply.ts\<close>).

  A browser store is a list of keys with their texts, or \<open>None\<close> when reaching it throws. A text is
  the JSON value it parses to, or \<open>None\<close> when it does not parse; every writer stores a JSON
  text. \<open>refuses\<close> says whether the store refuses the write (quota).
\<close>

type_synonym storage = "(string \<times> json option) list option"

definition get_item :: "string \<Rightarrow> (string \<times> json option) list \<Rightarrow> json option option" where
  "get_item k s = map_of s k"

definition remove_item ::
  "string \<Rightarrow> (string \<times> json option) list \<Rightarrow> (string \<times> json option) list" where
  "remove_item k s = filter (\<lambda>p. fst p \<noteq> k) s"

definition store_item :: "bool \<Rightarrow> string \<Rightarrow> json \<Rightarrow> storage \<Rightarrow> storage" where
  "store_item refuses k v st =
    (case st of None \<Rightarrow> None | Some s \<Rightarrow> if refuses then Some s else Some (set_key k (Some v) s))"

section \<open>The selected cluster\<close>

definition LOCAL_CLUSTER_ID :: string where
  "LOCAL_CLUSTER_ID = ''local''"

definition LOCAL_GENERATION :: string where
  "LOCAL_GENERATION = ''local''"

definition UNKNOWN_GENERATION :: string where
  "UNKNOWN_GENERATION = ''unknown''"

definition TARGET_KEY :: string where
  "TARGET_KEY = ''k8scenter.clusterTarget''"

definition LEGACY_CLUSTER_KEY :: string where
  "LEGACY_CLUSTER_KEY = ''k8scenter.selectedCluster''"

record cluster_target =
  ct_clusterId :: string
  ct_generation :: string
  ct_epoch :: nat

definition nonempty_string :: "json option \<Rightarrow> string option" where
  "nonempty_string v = (case v of Some (JStr s) \<Rightarrow> if s = [] then None else Some s | _ \<Rightarrow> None)"

text \<open>
  The legacy value is plain text, not JSON; \<open>legacy\<close> is that text where the key has one. An empty
  text counts as absent, so the entry under \<open>TARGET_KEY\<close> is taken to be a non-empty text.
\<close>

definition readPersistedTarget :: "storage \<Rightarrow> string option \<Rightarrow> string \<times> string" where
  "readPersistedTarget st legacy =
    (let fallback = (LOCAL_CLUSTER_ID, LOCAL_GENERATION)
     in case st of
          None \<Rightarrow> fallback
        | Some s \<Rightarrow>
            (case get_item TARGET_KEY s of
               Some (Some (JObj fs)) \<Rightarrow>
                 (case nonempty_string (field ''clusterId'' fs) of
                    None \<Rightarrow> fallback
                  | Some clusterId \<Rightarrow>
                      if clusterId = LOCAL_CLUSTER_ID then fallback
                      else (clusterId,
                        case nonempty_string (field ''generation'' fs) of
                          None \<Rightarrow> UNKNOWN_GENERATION | Some g \<Rightarrow> g))
             | Some _ \<Rightarrow> fallback
             | None \<Rightarrow>
                 (case legacy of
                    None \<Rightarrow> fallback
                  | Some l \<Rightarrow>
                      if l = [] \<or> l = LOCAL_CLUSTER_ID then fallback else (l, UNKNOWN_GENERATION))))"

definition persistTarget :: "bool \<Rightarrow> string \<Rightarrow> string \<Rightarrow> storage \<Rightarrow> storage" where
  "persistTarget refuses clusterId generation st =
    store_item refuses TARGET_KEY
      (JObj [(''clusterId'', JStr clusterId), (''generation'', JStr generation)]) st"

definition switchCluster :: "string \<Rightarrow> string \<Rightarrow> cluster_target \<Rightarrow> cluster_target" where
  "switchCluster i generation t =
    (let clusterId = (if i = [] then LOCAL_CLUSTER_ID else i);
         gen = (if clusterId = LOCAL_CLUSTER_ID then LOCAL_GENERATION
                else if generation = [] then UNKNOWN_GENERATION else generation)
     in if clusterId = ct_clusterId t \<and> gen = ct_generation t then t
        else if clusterId = ct_clusterId t \<and> ct_generation t = UNKNOWN_GENERATION
        then t\<lparr>ct_generation := gen\<rparr>
        else \<lparr>ct_clusterId = clusterId, ct_generation = gen, ct_epoch = ct_epoch t + 1\<rparr>)"

text \<open>
  A pair names the local cluster under its own generation, or a remote one under a non-empty
  generation; every selection does, and so does every pair read back from a store.
\<close>

definition target_pair_ok :: "string \<Rightarrow> string \<Rightarrow> bool" where
  "target_pair_ok c g \<longleftrightarrow> c \<noteq> [] \<and> g \<noteq> [] \<and> (c = LOCAL_CLUSTER_ID \<longrightarrow> g = LOCAL_GENERATION)"

lemma switch_pair_ok:
  "target_pair_ok (ct_clusterId t) (ct_generation t) \<Longrightarrow>
   target_pair_ok (ct_clusterId (switchCluster i g t)) (ct_generation (switchCluster i g t))"
  by (auto simp: switchCluster_def Let_def target_pair_ok_def LOCAL_CLUSTER_ID_def LOCAL_GENERATION_def
      UNKNOWN_GENERATION_def)

lemma persisted_pair_ok:
  "target_pair_ok (fst (readPersistedTarget st l)) (snd (readPersistedTarget st l))"
  by (auto simp: readPersistedTarget_def Let_def target_pair_ok_def nonempty_string_def
      LOCAL_CLUSTER_ID_def LOCAL_GENERATION_def UNKNOWN_GENERATION_def
      split: option.split json.split)

lemma persist_round_trip:
  assumes "target_pair_ok c g"
  shows "readPersistedTarget (persistTarget False c g (Some s)) l = (c, g)"
  using assms
  by (auto simp: readPersistedTarget_def persistTarget_def store_item_def get_item_def map_of_set_key
      nonempty_string_def field_def target_pair_ok_def Let_def LOCAL_CLUSTER_ID_def LOCAL_GENERATION_def)

section \<open>The pending attempt\<close>

record pending_attempt =
  pa_id :: string
  pa_requestKey :: ustr
  pa_at :: rat

definition PENDING_ATTEMPT_TTL_MS :: rat where
  "PENDING_ATTEMPT_TTL_MS = 10 * 60 * 1000"

definition PENDING_STORAGE_PREFIX :: string where
  "PENDING_STORAGE_PREFIX = ''kubecenter:pending-apply:''"

definition stored_attempt :: "string \<Rightarrow> rat \<Rightarrow> json option \<Rightarrow> (string \<times> rat) option" where
  "stored_attempt digest now parsed =
    (case parsed of
       Some (JObj fs) \<Rightarrow>
         (case (field ''id'' fs, field ''at'' fs, field ''digest'' fs) of
            (Some (JStr i), Some (JNum (Num t)), Some (JStr stored)) \<Rightarrow>
              if i \<noteq> [] \<and> stored = digest \<and> now - t \<ge> 0 \<and> now - t < PENDING_ATTEMPT_TTL_MS
              then Some (i, t) else None
          | _ \<Rightarrow> None)
     | _ \<Rightarrow> None)"

definition readStoredAttempt :: "ustr \<Rightarrow> rat \<Rightarrow> storage \<Rightarrow> pending_attempt option \<times> storage" where
  "readStoredAttempt requestKey now st =
    (let digest = sha256Hex requestKey; storageKey = PENDING_STORAGE_PREFIX @ digest
     in case st of
          None \<Rightarrow> (None, None)
        | Some s \<Rightarrow>
            (case get_item storageKey s of
               None \<Rightarrow> (None, Some s)
             | Some parsed \<Rightarrow>
                 (case stored_attempt digest now parsed of
                    Some (i, t) \<Rightarrow> (Some \<lparr>pa_id = i, pa_requestKey = requestKey, pa_at = t\<rparr>, Some s)
                  | None \<Rightarrow> (None, Some (remove_item storageKey s)))))"

definition writeStoredAttempt :: "bool \<Rightarrow> pending_attempt \<Rightarrow> storage \<Rightarrow> storage" where
  "writeStoredAttempt refuses a st =
    (let digest = sha256Hex (pa_requestKey a)
     in store_item refuses (PENDING_STORAGE_PREFIX @ digest)
          (JObj [(''id'', JStr (pa_id a)), (''at'', JNum (Num (pa_at a))), (''digest'', JStr digest)]) st)"

definition clearStoredAttempt :: "ustr \<Rightarrow> storage \<Rightarrow> storage" where
  "clearStoredAttempt requestKey st =
    map_option (remove_item (PENDING_STORAGE_PREFIX @ sha256Hex requestKey)) st"

definition clearPendingApplies :: "storage \<Rightarrow> storage" where
  "clearPendingApplies st =
    map_option (filter (\<lambda>p. \<not> startsWith (fst p) PENDING_STORAGE_PREFIX)) st"

section \<open>Reading back\<close>

lemma map_of_remove: "map_of (remove_item k s) j = (if j = k then None else map_of s j)"
  by (induction s) (auto simp: remove_item_def)

text \<open>The attempt a store gives for a request.\<close>

definition stored_for :: "ustr \<Rightarrow> rat \<Rightarrow> storage \<Rightarrow> pending_attempt option" where
  "stored_for key now st = fst (readStoredAttempt key now st)"

lemma read_after_write:
  assumes "pa_id a \<noteq> []" "0 \<le> now - pa_at a" "now - pa_at a < PENDING_ATTEMPT_TTL_MS"
  shows "stored_for (pa_requestKey a) now (writeStoredAttempt False a (Some s)) = Some a"
  using assms
  by (simp add: stored_for_def readStoredAttempt_def writeStoredAttempt_def store_item_def get_item_def
      map_of_set_key stored_attempt_def field_def Let_def)

lemma read_after_clear [simp]: "stored_for key now (clearStoredAttempt key st) = None"
  by (cases st)
    (simp_all add: stored_for_def readStoredAttempt_def clearStoredAttempt_def get_item_def map_of_remove Let_def)

lemma map_of_filter_prefix:
  "map_of (filter (\<lambda>p. \<not> startsWith (fst p) pre) s) (pre @ k) = None"
  by (induction s) auto

lemma read_after_clear_all [simp]: "stored_for key now (clearPendingApplies st) = None"
  by (cases st)
    (simp_all add: stored_for_def readStoredAttempt_def clearPendingApplies_def get_item_def
      map_of_filter_prefix Let_def)

end
