(* ===== verification/Yaml_Apply.thy ===== *)
theory Yaml_Apply
  imports Pending_Apply
begin

text \<open>
  The editor's validate and apply machine (\<open>src/frontend/lib/yaml-apply.ts\<close>, \<open>useYamlApply\<close>): the
  hook's signals and references are one record, together with the session store and the cluster
  selection they read. The asynchronous handlers are cut at their awaits into a press and an
  answer. The server, the clock and the random source are the environment: their values are
  arguments. The success callback is the consumer's and left out.
\<close>

section \<open>Failures\<close>

datatype apply_failure =
    ApiFail (af_status: int) (af_reason: "string option") (af_extra: "(string \<times> json) list") (af_message: string)
  | PlainError string
  | NotAnError

definition errorExtra :: "(string \<times> json) list \<Rightarrow> string \<Rightarrow> string option" where
  "errorExtra extra key = (case map_of extra key of Some (JStr s) \<Rightarrow> Some s | _ \<Rightarrow> None)"

definition errorExtraFlag :: "(string \<times> json) list \<Rightarrow> string \<Rightarrow> bool option" where
  "errorExtraFlag extra key = (case map_of extra key of Some (JBool b) \<Rightarrow> Some b | _ \<Rightarrow> None)"

datatype refusal_reason =
    ReceiptStoreUnavailable | OperationIdConflict | OperationInFlight | OperationIdReused

record tracked_refusal =
  tr_reason :: refusal_reason
  tr_message :: string
  tr_receiptId :: "string option"
  tr_applied :: "bool option"
  tr_retrySameOperationId :: "bool option"

definition plain_refusal :: "refusal_reason \<Rightarrow> string \<Rightarrow> tracked_refusal" where
  "plain_refusal r m =
    \<lparr>tr_reason = r, tr_message = m, tr_receiptId = None, tr_applied = None, tr_retrySameOperationId = None\<rparr>"

fun trackedApplyRefusal :: "apply_failure \<Rightarrow> tracked_refusal option" where
  "trackedApplyRefusal (ApiFail status reason extra m) =
    (if status = 503 \<and> reason = Some ''receipt_store_unavailable''
     then Some ((plain_refusal ReceiptStoreUnavailable
       ''The change record could not be saved, so nothing was applied. Try again shortly, or turn off change tracking to apply without a record.'')
         \<lparr>tr_applied := errorExtraFlag extra ''applied'',
          tr_retrySameOperationId := errorExtraFlag extra ''retrySameOperationId''\<rparr>)
     else if status \<noteq> 409 then None
     else if reason = Some ''operation_id_conflict''
     then Some (plain_refusal OperationIdConflict
       ''This apply could not be recorded because its operation id is already in use. Nothing was applied. Apply again to start a new change.'')
     else if reason = Some ''operation_in_flight''
     then Some ((plain_refusal OperationInFlight
       ''This apply is still running. Check its change receipt instead of applying again.'')
         \<lparr>tr_receiptId := (case errorExtra extra ''receiptId'' of
            None \<Rightarrow> None | Some r \<Rightarrow> if r = [] then None else Some r)\<rparr>)
     else if reason = Some ''operation_id_reused''
     then Some (plain_refusal OperationIdReused
       ''This operation id was already used for different content or a different cluster. Nothing was applied by this request. Validate again and apply as a new change.'')
     else None)"
| "trackedApplyRefusal _ = None"

fun isIndeterminateApplyFailure :: "apply_failure \<Rightarrow> bool" where
  "isIndeterminateApplyFailure (ApiFail status reason _ _) =
    (status \<ge> 500 \<or> status = 409 \<and> reason = Some ''operation_in_flight'')"
| "isIndeterminateApplyFailure _ = True"

definition attemptMayHaveApplied :: "apply_failure \<Rightarrow> tracked_refusal option \<Rightarrow> bool" where
  "attemptMayHaveApplied err refusal =
    (case refusal of
       Some r \<Rightarrow>
         if tr_reason r = ReceiptStoreUnavailable
         then tr_applied r \<noteq> Some False \<or> tr_retrySameOperationId r = Some True
         else False
     | None \<Rightarrow>
         if (case err of ApiFail status _ _ _ \<Rightarrow> status = 409 | _ \<Rightarrow> False) then False
         else isIndeterminateApplyFailure err)"

definition normalizeClusterId :: "string \<Rightarrow> string" where
  "normalizeClusterId i = (if i = [] then LOCAL_CLUSTER_ID else i)"

fun pinRefusalMessage :: "apply_failure \<Rightarrow> string option" where
  "pinRefusalMessage (ApiFail status reason extra m) =
    (if status \<noteq> 409 then None
     else if reason = Some ''cluster_pin_mismatch''
     then Some (''Apply refused: the preview ran against cluster \"'' @
       (case errorExtra extra ''pinnedClusterId'' of None \<Rightarrow> ''unknown'' | Some c \<Rightarrow> c) @
       ''\", but this request was sent to \"'' @
       (case errorExtra extra ''requestClusterId'' of None \<Rightarrow> ''unknown'' | Some c \<Rightarrow> c) @
       ''\". Nothing was applied. Validate again to apply.'')
     else if reason = Some ''cluster_generation_mismatch''
     then Some ''Apply refused: the cluster you previewed has been re-registered since the preview. Nothing was applied. Validate again to apply.''
     else None)"
| "pinRefusalMessage _ = None"

fun failure_message :: "string \<Rightarrow> apply_failure \<Rightarrow> string" where
  "failure_message dflt (ApiFail _ _ _ m) = m"
| "failure_message dflt (PlainError m) = m"
| "failure_message dflt NotAnError = dflt"

section \<open>The request and its key\<close>

record apply_options =
  ao_force :: bool
  ao_pinApplyToPreview :: bool
  ao_tracked :: bool
  ao_repairOf :: "string option"

record request_input =
  ri_force :: bool
  ri_pin :: "(string \<times> string) option"
  ri_repairOf :: "string option"
  ri_clusterId :: string
  ri_userId :: "string option"
  ri_yaml :: string

text \<open>The query parameters in order; the browser serialises them.\<close>

definition buildApplyQuery :: "request_input \<Rightarrow> string option \<Rightarrow> (string \<times> string) list" where
  "buildApplyQuery i trackedOperationId =
    (if ri_force i then [(''force'', ''true'')] else []) @
    (case ri_pin i of None \<Rightarrow> []
     | Some (c, g) \<Rightarrow> [(''targetCluster'', c), (''targetGeneration'', g)]) @
    (case trackedOperationId of None \<Rightarrow> []
     | Some t \<Rightarrow>
         if t = [] then []
         else (''trackedOperationId'', t) #
           (case ri_repairOf i of None \<Rightarrow> [] | Some r \<Rightarrow> if r = [] then [] else [(''repairOf'', r)]))"

text \<open>\<open>JSON.stringify\<close> of a string, \<open>null\<close> and the array the key is made of.\<close>

definition quote_char :: "char \<Rightarrow> string" where
  "quote_char c =
    (let n = of_char c :: nat
     in if c = CHR 0x22 \<or> c = CHR 0x5C then [CHR 0x5C, c]
        else if n = 8 then [CHR 0x5C, CHR ''b'']
        else if n = 9 then [CHR 0x5C, CHR ''t'']
        else if n = 10 then [CHR 0x5C, CHR ''n'']
        else if n = 12 then [CHR 0x5C, CHR ''f'']
        else if n = 13 then [CHR 0x5C, CHR ''r'']
        else if n < 32 then [CHR 0x5C, CHR ''u'', CHR ''0'', CHR ''0'', hex_char (n div 16), hex_char (n mod 16)]
        else [c])"

definition quote_string :: "string \<Rightarrow> string" where
  "quote_string s = CHR 0x22 # concat (map quote_char s) @ [CHR 0x22]"

definition quote_option :: "string option \<Rightarrow> string" where
  "quote_option s = (case s of None \<Rightarrow> ''null'' | Some t \<Rightarrow> quote_string t)"

definition requestKey :: "request_input \<Rightarrow> string" where
  "requestKey i =
    ''['' @ (if ri_force i then ''true'' else ''false'') @ '','' @
    (case ri_pin i of
       None \<Rightarrow> ''null''
     | Some (c, g) \<Rightarrow>
         CHR ''{'' # quote_string ''targetCluster'' @ '':'' @ quote_string c @ '','' @
         quote_string ''targetGeneration'' @ '':'' @ quote_string g @ ''}'') @ '','' @
    quote_option (ri_repairOf i) @ '','' @ quote_string (ri_clusterId i) @ '','' @
    quote_option (ri_userId i) @ '','' @ quote_string (ri_yaml i) @ '']''"

section \<open>The hook\<close>

record validate_response =
  vr_body :: json
  vr_targetCluster :: string
  vr_targetGeneration :: string

record apply_pin =
  pin_target :: cluster_target
  pin_targetCluster :: string
  pin_targetGeneration :: string
  pin_pinnedAt :: rat

record apply_call =
  ac_reusedId :: bool
  ac_key :: ustr

record applier =
  yamlContent :: string
  applying :: bool
  validating :: bool
  ap_error :: "string option"
  ap_result :: "json option"
  ap_preview :: "validate_response option"
  ap_pin :: "apply_pin option"
  lastOperationId :: "string option"
  attemptOutcomeUnknown :: bool
  trackedRefusal :: "tracked_refusal option"
  pendingAttempt :: "pending_attempt option"
  validateAbort :: "(cluster_target \<times> bool) option"
  apply_sent :: "apply_call option"
  ap_session :: storage
  ap_target :: cluster_target
  ap_userId :: "string option"

definition fresh_hook :: "string \<Rightarrow> storage \<Rightarrow> cluster_target \<Rightarrow> string option \<Rightarrow> applier" where
  "fresh_hook yaml st t u =
    \<lparr>yamlContent = yaml, applying = False, validating = False, ap_error = None, ap_result = None,
     ap_preview = None, ap_pin = None, lastOperationId = None, attemptOutcomeUnknown = False,
     trackedRefusal = None, pendingAttempt = None, validateAbort = None, apply_sent = None,
     ap_session = st, ap_target = t, ap_userId = u\<rparr>"

definition pinStale :: "applier \<Rightarrow> bool" where
  "pinStale h =
    (case ap_pin h of
       None \<Rightarrow> False
     | Some p \<Rightarrow>
         if ct_clusterId (pin_target p) \<noteq> ct_clusterId (ap_target h) then True
         else ct_generation (pin_target p) \<noteq> UNKNOWN_GENERATION \<and>
              ct_generation (pin_target p) \<noteq> ct_generation (ap_target h))"

text \<open>The effect on the epoch: a preview in flight for another epoch is aborted.\<close>

definition switch_effect :: "applier \<Rightarrow> applier" where
  "switch_effect h =
    h\<lparr>validateAbort := map_option (\<lambda>(t, a). (t, a \<or> ct_epoch t \<noteq> ct_epoch (ap_target h))) (validateAbort h)\<rparr>"

definition clearPin :: "applier \<Rightarrow> applier" where
  "clearPin h = h\<lparr>ap_pin := None, ap_preview := None\<rparr>"

definition handleValidate :: "applier \<Rightarrow> applier" where
  "handleValidate h =
    (if applying h \<or> validating h then h
     else h\<lparr>validateAbort := Some (ap_target h, False), validating := True, ap_error := None,
            ap_result := None, ap_preview := None, ap_pin := None, trackedRefusal := None,
            lastOperationId := None, attemptOutcomeUnknown := False\<rparr>)"

definition finish_validate :: "applier \<Rightarrow> applier" where
  "finish_validate h = h\<lparr>validateAbort := None, validating := False\<rparr>"

definition validate_resolved :: "cluster_target \<Rightarrow> validate_response \<Rightarrow> rat \<Rightarrow> applier \<Rightarrow> applier" where
  "validate_resolved t data now h =
    finish_validate
      (if ct_epoch (ap_target h) \<noteq> ct_epoch t then h
       else if normalizeClusterId (vr_targetCluster data) \<noteq> normalizeClusterId (ct_clusterId t)
       then h\<lparr>ap_error := Some (''Validation ran against cluster \"'' @ vr_targetCluster data @
              ''\" instead of \"'' @ ct_clusterId t @ ''\". Validate again.'')\<rparr>
       else h\<lparr>ap_preview := Some data,
              ap_pin := Some \<lparr>pin_target = t, pin_targetCluster = vr_targetCluster data,
                pin_targetGeneration = vr_targetGeneration data, pin_pinnedAt = now\<rparr>\<rparr>)"

definition validate_rejected :: "cluster_target \<Rightarrow> bool \<Rightarrow> apply_failure \<Rightarrow> applier \<Rightarrow> applier" where
  "validate_rejected t was_aborted err h =
    finish_validate
      (if was_aborted \<or> ct_epoch (ap_target h) \<noteq> ct_epoch t then h
       else h\<lparr>ap_error := Some (failure_message ''Validation failed'' err)\<rparr>)"

definition releaseAttempt :: "ustr \<Rightarrow> applier \<Rightarrow> applier" where
  "releaseAttempt key h =
    h\<lparr>pendingAttempt := None, ap_session := clearStoredAttempt key (ap_session h)\<rparr>"

text \<open>What a failed apply leaves behind; \<open>key\<close> is the request's key once it was built.\<close>

definition releases :: "bool \<Rightarrow> apply_failure \<Rightarrow> bool" where
  "releases reusedId err \<longleftrightarrow>
    \<not> isIndeterminateApplyFailure err \<or>
    (case trackedApplyRefusal err of
       None \<Rightarrow> False
     | Some r \<Rightarrow>
         tr_reason r = ReceiptStoreUnavailable \<and>
         (case tr_retrySameOperationId r of Some b \<Rightarrow> \<not> b | None \<Rightarrow> \<not> reusedId))"

definition apply_caught :: "bool \<Rightarrow> ustr \<Rightarrow> apply_failure \<Rightarrow> applier \<Rightarrow> applier" where
  "apply_caught reusedId key err h =
    (let trackedFailure = trackedApplyRefusal err;
         h1 = (if releases reusedId err then releaseAttempt key h else h);
         h2 = h1\<lparr>attemptOutcomeUnknown :=
                 (lastOperationId h1 \<noteq> None \<and> attemptMayHaveApplied err trackedFailure)\<rparr>;
         h3 = (case trackedFailure of
                 Some r \<Rightarrow> h2\<lparr>trackedRefusal := Some r, ap_error := Some (tr_message r)\<rparr>
               | None \<Rightarrow>
                   (case pinRefusalMessage err of
                      Some m \<Rightarrow> h2\<lparr>ap_pin := None, ap_preview := None, ap_error := Some m\<rparr>
                    | None \<Rightarrow> h2\<lparr>ap_error := Some (failure_message ''Apply failed'' err)\<rparr>))
     in h3\<lparr>applying := False, apply_sent := None\<rparr>)"

definition request_of :: "apply_options \<Rightarrow> applier \<Rightarrow> request_input" where
  "request_of opts h =
    (let pinned = (if ao_pinApplyToPreview opts then ap_pin h else None)
     in \<lparr>ri_force = ao_force opts,
         ri_pin = map_option (\<lambda>p. (pin_targetCluster p, pin_targetGeneration p)) pinned,
         ri_repairOf = ao_repairOf opts,
         ri_clusterId = (case pinned of Some p \<Rightarrow> ct_clusterId (pin_target p)
                         | None \<Rightarrow> ct_clusterId (ap_target h)),
         ri_userId = ap_userId h,
         ri_yaml = yamlContent h\<rparr>)"

text \<open>The attempt a tracked press continues, and the store after looking for it.\<close>

definition find_pending :: "ustr \<Rightarrow> rat \<Rightarrow> applier \<Rightarrow> pending_attempt option \<times> storage" where
  "find_pending key now h =
    (case pendingAttempt h of
       Some mem \<Rightarrow>
         if pa_requestKey mem = key \<and> now - pa_at mem < PENDING_ATTEMPT_TTL_MS then (Some mem, ap_session h)
         else readStoredAttempt key now (ap_session h)
     | None \<Rightarrow> readStoredAttempt key now (ap_session h))"

record apply_request =
  ar_query :: "(string \<times> string) list"
  ar_input :: request_input
  ar_id :: "string option"

text \<open>
  A press of Apply: the new state and the request sent, if any. \<open>uuid\<close> is what \<open>uuidv4()\<close> would
  give, \<open>None\<close> where it throws for want of a random source.
\<close>

definition send_apply ::
  "request_input \<Rightarrow> bool \<Rightarrow> string option \<Rightarrow> applier \<Rightarrow> applier \<times> apply_request option" where
  "send_apply i reusedId opid h =
    (h\<lparr>lastOperationId := opid,
       apply_sent := Some \<lparr>ac_reusedId = reusedId, ac_key = units (requestKey i)\<rparr>\<rparr>,
     Some \<lparr>ar_query = buildApplyQuery i opid, ar_input = i, ar_id = opid\<rparr>)"

definition handleApply ::
  "apply_options \<Rightarrow> rat \<Rightarrow> string option \<Rightarrow> bool \<Rightarrow> applier \<Rightarrow> applier \<times> apply_request option" where
  "handleApply opts now uuid refuses h =
    (if applying h \<or> validating h then (h, None)
     else
       (let h0 = h\<lparr>lastOperationId := None, attemptOutcomeUnknown := False\<rparr>
        in if ao_pinApplyToPreview opts \<and> ap_pin h0 = None
           then (h0\<lparr>ap_error := Some ''Validate first, so the apply is tied to a reviewed cluster.''\<rparr>, None)
           else
             (let h1 = h0\<lparr>applying := True, ap_error := None, ap_result := None, trackedRefusal := None\<rparr>;
                  i = request_of opts h1; key = units (requestKey i)
              in if \<not> ao_tracked opts then send_apply i False None (releaseAttempt key h1)
                 else
                   (let (pending, st) = find_pending key now h1; h2 = h1\<lparr>ap_session := st\<rparr>
                    in case (pending, uuid) of
                         (None, None) \<Rightarrow>
                           (apply_caught False key
                              (PlainError ''No secure random source is available to generate an id'') h2, None)
                       | (Some a, _) \<Rightarrow>
                           send_apply i True (Some (pa_id a))
                             (h2\<lparr>pendingAttempt := Some a, ap_session := writeStoredAttempt refuses a st\<rparr>)
                       | (None, Some u) \<Rightarrow>
                           (let a = \<lparr>pa_id = u, pa_requestKey = key, pa_at = now\<rparr>
                            in send_apply i False (Some u)
                                 (h2\<lparr>pendingAttempt := Some a, ap_session := writeStoredAttempt refuses a st\<rparr>))))))"

definition apply_resolved :: "apply_call \<Rightarrow> json \<Rightarrow> applier \<Rightarrow> applier" where
  "apply_resolved call data h =
    (releaseAttempt (ac_key call) h)\<lparr>ap_result := Some data, applying := False, apply_sent := None\<rparr>"

definition apply_rejected :: "apply_call \<Rightarrow> apply_failure \<Rightarrow> applier \<Rightarrow> applier" where
  "apply_rejected call err h = apply_caught (ac_reusedId call) (ac_key call) err h"

end
