(* ===== verification/Yaml_Apply_Runs.thy ===== *)
theory Yaml_Apply_Runs
  imports Yaml_Apply
begin

text \<open>
  Runs of the apply machine: presses, answers, edits, cluster switches, remounts, late answers to
  a call whose page is gone, logins and logouts, in any order; and what they keep.
\<close>

section \<open>The request key names the request\<close>

text \<open>Reading one character of a quoted string back.\<close>

definition hex_value :: "char \<Rightarrow> nat" where
  "hex_value c = (let n = of_char c :: nat in if n < 58 then n - 48 else n - 87)"

definition escaped :: "char \<Rightarrow> char" where
  "escaped e =
    (if e = CHR ''b'' then CHR 0x08 else if e = CHR ''t'' then CHR 0x09 else if e = CHR ''n'' then CHR 0x0A
     else if e = CHR ''f'' then CHR 0x0C else if e = CHR ''r'' then CHR 0x0D else e)"

fun unquote :: "string \<Rightarrow> char \<times> string" where
  "unquote (c # e # y # z # h # l # t) =
    (if c \<noteq> CHR 0x5C then (c, e # y # z # h # l # t)
     else if e = CHR ''u'' then (char_of (16 * hex_value h + hex_value l), t)
     else (escaped e, y # z # h # l # t))"
| "unquote (c # e # t) = (if c \<noteq> CHR 0x5C then (c, e # t) else (escaped e, t))"
| "unquote (c # t) = (c, t)"
| "unquote [] = (CHR 0x00, [])"

lemma hex_value_char: "d < 16 \<Longrightarrow> hex_value (hex_char d) = d"
  by (simp add: hex_value_def hex_char_def Let_def)

lemma unquote_plain: "c \<noteq> CHR 0x5C \<Longrightarrow> unquote (c # r) = (c, r)"
  by (cases "c # r" rule: unquote.cases) auto

lemma unquote_short: "e \<noteq> CHR ''u'' \<Longrightarrow> unquote (CHR 0x5C # e # r) = (escaped e, r)"
  by (cases "CHR 0x5C # e # r" rule: unquote.cases) auto

lemma char_code: "of_char c = (n :: nat) \<Longrightarrow> char_of n = c"
  by (metis char_of_char)

lemma unquote_quote: "unquote (quote_char c @ r) = (c, r)"
proof -
  let ?n = "of_char c :: nat"
  have e: "escaped CHR ''b'' = char_of (8 :: nat)" "escaped CHR ''t'' = char_of (9 :: nat)"
    "escaped CHR ''n'' = char_of (10 :: nat)" "escaped CHR ''f'' = char_of (12 :: nat)"
    "escaped CHR ''r'' = char_of (13 :: nat)" "escaped CHR 0x22 = CHR 0x22" "escaped CHR 0x5C = CHR 0x5C"
    by (simp_all add: escaped_def char_of_def bit_Suc_0_iff)
  consider "c = CHR 0x22 \<or> c = CHR 0x5C" | "?n \<in> {8, 9, 10, 12, 13}"
    | "c \<noteq> CHR 0x22" "c \<noteq> CHR 0x5C" "?n \<notin> {8, 9, 10, 12, 13}" "?n < 32"
    | "c \<noteq> CHR 0x22" "c \<noteq> CHR 0x5C" "\<not> ?n < 32"
    by blast
  then show ?thesis
  proof cases
    case 1
    then show ?thesis using e by (auto simp: quote_char_def unquote_short)
  next
    case 2
    then have "c \<noteq> CHR 0x22 \<and> c \<noteq> CHR 0x5C" by auto
    then show ?thesis using 2 e
      by (auto simp: quote_char_def Let_def unquote_short intro: char_code)
  next
    case 3
    then have "quote_char c = [CHR 0x5C, CHR ''u'', CHR ''0'', CHR ''0'', hex_char (?n div 16), hex_char (?n mod 16)]"
      by (simp add: quote_char_def Let_def)
    moreover have "hex_value (hex_char (?n div 16)) = ?n div 16" "hex_value (hex_char (?n mod 16)) = ?n mod 16"
      using 3 by (simp_all add: hex_value_char)
    ultimately show ?thesis by simp
  next
    case 4
    then have "quote_char c = [c]" by (auto simp: quote_char_def Let_def)
    then show ?thesis using 4 by (simp add: unquote_plain)
  qed
qed

lemma quote_char_inj:
  assumes "quote_char c @ r = quote_char d @ r'"
  shows "c = d \<and> r = r'"
proof -
  have "(c, r) = unquote (quote_char d @ r')" unfolding assms [symmetric] by (rule unquote_quote [symmetric])
  then show ?thesis unfolding unquote_quote by (simp only: prod.inject)
qed

lemma quote_char_open: "quote_char c @ r \<noteq> CHR 0x22 # r'"
proof -
  have "quote_char c \<noteq> [] \<and> hd (quote_char c) \<noteq> CHR 0x22" by (simp add: quote_char_def Let_def)
  then show ?thesis by (cases "quote_char c") auto
qed

lemma quote_body_inj:
  "concat (map quote_char s) @ CHR 0x22 # r = concat (map quote_char t) @ CHR 0x22 # r' \<Longrightarrow>
   s = t \<and> r = r'"
proof (induction s arbitrary: t)
  case Nil
  show ?case
  proof (cases t)
    case (Cons d u)
    then show ?thesis
      using Nil.prems quote_char_open [of d "concat (map quote_char u) @ CHR 0x22 # r'" r] by simp
  qed (use Nil.prems in simp)
next
  case (Cons c s)
  show ?case
  proof (cases t)
    case Nil
    then show ?thesis
      using Cons.prems quote_char_open [of c "concat (map quote_char s) @ CHR 0x22 # r" r'] by simp
  next
    case t: (Cons d u)
    then have "quote_char c @ (concat (map quote_char s) @ CHR 0x22 # r) =
        quote_char d @ (concat (map quote_char u) @ CHR 0x22 # r')"
      using Cons.prems by simp
    from quote_char_inj [OF this] Cons.IH [of u] t show ?thesis by simp
  qed
qed

lemma quote_string_inj: "quote_string s @ r = quote_string t @ r' \<Longrightarrow> s = t \<and> r = r'"
  using quote_body_inj [of s r t r'] by (simp add: quote_string_def)

lemma quote_option_inj: "quote_option s @ r = quote_option t @ r' \<Longrightarrow> s = t \<and> r = r'"
  using quote_string_inj [of "the s" r "the t" r']
  by (auto simp: quote_option_def quote_string_def split: option.splits)

lemma quote_string_head: "quote_string s = CHR 0x22 # concat (map quote_char s) @ [CHR 0x22]"
  by (simp add: quote_string_def)

definition pin_text :: "(string \<times> string) option \<Rightarrow> string" where
  "pin_text p =
    (case p of
       None \<Rightarrow> ''null''
     | Some (c, g) \<Rightarrow>
         CHR ''{'' # quote_string ''targetCluster'' @ '':'' @ quote_string c @ '','' @
         quote_string ''targetGeneration'' @ '':'' @ quote_string g @ ''}'')"

lemma pin_text_inj: "pin_text p @ r = pin_text q @ r' \<Longrightarrow> p = q \<and> r = r'"
proof (cases p; cases q)
  fix a b assume "pin_text p @ r = pin_text q @ r'" and pq: "p = Some a" "q = Some b"
  then have 1: "quote_string (fst a) @ '','' @ quote_string ''targetGeneration'' @ '':'' @
      quote_string (snd a) @ ''}'' @ r =
    quote_string (fst b) @ '','' @ quote_string ''targetGeneration'' @ '':'' @ quote_string (snd b) @ ''}'' @ r'"
    by (simp add: pin_text_def case_prod_beta)
  have 2: "quote_string (snd a) @ ''}'' @ r = quote_string (snd b) @ ''}'' @ r'"
    using quote_string_inj [OF 1] by simp
  show ?thesis
    using quote_string_inj [OF 1] quote_string_inj [OF 2] pq by (simp add: prod_eq_iff)
qed (auto simp: pin_text_def)

lemma requestKey_inj:
  assumes "requestKey i = requestKey j"
  shows "i = j"
proof -
  let ?rest = "\<lambda>i. '','' @ quote_option (ri_repairOf i) @ '','' @ quote_string (ri_clusterId i) @ '','' @
    quote_option (ri_userId i) @ '','' @ quote_string (ri_yaml i) @ '']''"
  have f: "ri_force i = ri_force j \<and> pin_text (ri_pin i) @ ?rest i = pin_text (ri_pin j) @ ?rest j"
    using assms by (auto simp: requestKey_def pin_text_def [symmetric] split: if_splits)
  note p = pin_text_inj [OF f [THEN conjunct2]]
  then have "quote_option (ri_repairOf i) @ ('','' @ quote_string (ri_clusterId i) @ '','' @
      quote_option (ri_userId i) @ '','' @ quote_string (ri_yaml i) @ '']'') =
    quote_option (ri_repairOf j) @ ('','' @ quote_string (ri_clusterId j) @ '','' @
      quote_option (ri_userId j) @ '','' @ quote_string (ri_yaml j) @ '']'')" by simp
  note r = quote_option_inj [OF this]
  then have "quote_string (ri_clusterId i) @ ('','' @ quote_option (ri_userId i) @ '','' @
      quote_string (ri_yaml i) @ '']'') =
    quote_string (ri_clusterId j) @ ('','' @ quote_option (ri_userId j) @ '','' @
      quote_string (ri_yaml j) @ '']'')" by simp
  note c = quote_string_inj [OF this]
  then have "quote_option (ri_userId i) @ ('','' @ quote_string (ri_yaml i) @ '']'') =
    quote_option (ri_userId j) @ ('','' @ quote_string (ri_yaml j) @ '']'')" by simp
  note u = quote_option_inj [OF this]
  then have "quote_string (ri_yaml i) @ '']'' = quote_string (ri_yaml j) @ '']''" by simp
  from quote_string_inj [OF this] f p r c u show ?thesis by simp
qed

lemma units_inj: "units s = units t \<Longrightarrow> s = t"
  unfolding units_def by (erule map_injective) (simp add: inj_def)

section \<open>Runs\<close>

text \<open>The operation ids sent so far, each with the request it went out with.\<close>

type_synonym sends = "(string \<times> request_input) list"

definition tracked_send :: "apply_request option \<Rightarrow> sends" where
  "tracked_send r =
    (case r of None \<Rightarrow> [] | Some q \<Rightarrow> (case ar_id q of None \<Rightarrow> [] | Some i \<Rightarrow> [(i, ar_input q)]))"

definition sent_calls :: "applier \<Rightarrow> apply_call list" where
  "sent_calls h = (case apply_sent h of None \<Rightarrow> [] | Some c \<Rightarrow> [c])"

text \<open>
  The list of calls holds those whose page has gone: their answers still reach the store.
  The random source never repeats an id.
\<close>

inductive apply_run :: "applier \<Rightarrow> apply_call list \<Rightarrow> sends \<Rightarrow> bool" where
  start: "clearPendingApplies st = st \<Longrightarrow> apply_run (fresh_hook yaml st t u) [] []"
| validate: "apply_run h os ss \<Longrightarrow> apply_run (handleValidate h) os ss"
| validated: "apply_run h os ss \<Longrightarrow> validateAbort h = Some (t, a) \<Longrightarrow>
    apply_run (validate_resolved t data now h) os ss"
| invalid: "apply_run h os ss \<Longrightarrow> validateAbort h = Some (t, a) \<Longrightarrow>
    apply_run (validate_rejected t a err h) os ss"
| press: "apply_run h os ss \<Longrightarrow> (\<And>u. uuid = Some u \<Longrightarrow> u \<notin> fst ` set ss) \<Longrightarrow>
    handleApply opts now uuid refuses h = (h', r) \<Longrightarrow> apply_run h' os (ss @ tracked_send r)"
| answered: "apply_run h os ss \<Longrightarrow> apply_sent h = Some c \<Longrightarrow> apply_run (apply_resolved c data h) os ss"
| refused: "apply_run h os ss \<Longrightarrow> apply_sent h = Some c \<Longrightarrow> apply_run (apply_rejected c err h) os ss"
| edit: "apply_run h os ss \<Longrightarrow> apply_run (h\<lparr>yamlContent := yaml\<rparr>) os ss"
| switch: "apply_run h os ss \<Longrightarrow>
    apply_run (switch_effect (h\<lparr>ap_target := switchCluster i g (ap_target h)\<rparr>)) os ss"
| unpin: "apply_run h os ss \<Longrightarrow> apply_run (clearPin h) os ss"
| remount: "apply_run h os ss \<Longrightarrow>
    apply_run (fresh_hook yaml (ap_session h) (ap_target h) (ap_userId h)) (os @ sent_calls h) ss"
| late: "apply_run h os ss \<Longrightarrow> c \<in> set os \<Longrightarrow>
    apply_run (h\<lparr>ap_session := clearStoredAttempt (ac_key c) (ap_session h)\<rparr>) os ss"
| logout: "apply_run h os ss \<Longrightarrow>
    apply_run (h\<lparr>ap_session := clearPendingApplies (ap_session h), ap_userId := None\<rparr>) os ss"
| login: "apply_run h os ss \<Longrightarrow> apply_run (h\<lparr>ap_userId := u\<rparr>) os ss"

section \<open>The store holds ids of the requests it is keyed by\<close>

definition digest_of :: "request_input \<Rightarrow> string" where
  "digest_of x = sha256Hex (units (requestKey x))"

definition store_inv :: "sends \<Rightarrow> storage \<Rightarrow> bool" where
  "store_inv ss st \<longleftrightarrow>
    (\<forall>s k v. st = Some s \<longrightarrow> map_of s k = Some v \<longrightarrow> startsWith k PENDING_STORAGE_PREFIX \<longrightarrow>
      (\<exists>i t x. v = Some (JObj [(''id'', JStr i), (''at'', JNum (Num t)), (''digest'', JStr (digest_of x))]) \<and>
        (i, x) \<in> set ss))"

lemma store_inv_mono: "store_inv ss st \<Longrightarrow> set ss \<subseteq> set ss' \<Longrightarrow> store_inv ss' st"
  unfolding store_inv_def by blast

lemma store_inv_shrink:
  "store_inv ss (Some s) \<Longrightarrow> (\<And>k v. map_of s' k = Some v \<Longrightarrow> map_of s k = Some v) \<Longrightarrow> store_inv ss (Some s')"
  unfolding store_inv_def by blast

lemma store_inv_clear: "store_inv ss st \<Longrightarrow> store_inv ss (clearStoredAttempt key st)"
  by (cases st) (auto simp: clearStoredAttempt_def map_of_remove split: if_splits intro: store_inv_shrink)

lemma map_of_filter_not: "map_of (filter (\<lambda>p. \<not> P (fst p)) s) k = (if P k then None else map_of s k)"
  by (induction s) auto

lemma store_inv_clear_all: "store_inv ss (clearPendingApplies st)"
proof (cases st)
  case (Some s)
  have "map_of (filter (\<lambda>p. \<not> startsWith (fst p) PENDING_STORAGE_PREFIX) s) k = None"
    if "startsWith k PENDING_STORAGE_PREFIX" for k
    using that map_of_filter_not [of "\<lambda>k. startsWith k PENDING_STORAGE_PREFIX" s k] by simp
  with Some show ?thesis by (auto simp: clearPendingApplies_def store_inv_def)
qed (simp add: clearPendingApplies_def store_inv_def)

lemma store_inv_read: "store_inv ss st \<Longrightarrow> store_inv ss (snd (readStoredAttempt key now st))"
  by (cases st)
    (auto simp: readStoredAttempt_def Let_def map_of_remove split: option.split if_splits intro: store_inv_shrink)

lemma store_inv_write:
  assumes "store_inv ss st" "(pa_id a, x) \<in> set ss" "pa_requestKey a = units (requestKey x)"
  shows "store_inv ss (writeStoredAttempt refuses a st)"
proof (cases st)
  case (Some s)
  have "sha256Hex (pa_requestKey a) = digest_of x" using assms(3) by (simp add: digest_of_def)
  with Some assms(1,2) show ?thesis
    by (auto simp: writeStoredAttempt_def store_item_def store_inv_def map_of_set_key Let_def split: if_splits)
qed (simp add: writeStoredAttempt_def store_item_def store_inv_def)

lemma stored_names_request:
  assumes "store_inv ss st" "stored_for (units (requestKey x)) now st = Some a"
  shows "pa_requestKey a = units (requestKey x) \<and> (\<exists>y. (pa_id a, y) \<in> set ss \<and> digest_of y = digest_of x)"
proof -
  let ?k = "PENDING_STORAGE_PREFIX @ digest_of x"
  obtain s v i t where s: "st = Some s" "map_of s ?k = Some v"
    "stored_attempt (digest_of x) now v = Some (i, t)"
    "a = \<lparr>pa_id = i, pa_requestKey = units (requestKey x), pa_at = t\<rparr>"
    using assms(2)
    by (auto simp: stored_for_def readStoredAttempt_def get_item_def Let_def digest_of_def split: option.splits)
  obtain i' t' y where v: "v = Some (JObj [(''id'', JStr i'), (''at'', JNum (Num t')), (''digest'', JStr (digest_of y))])"
    "(i', y) \<in> set ss"
    using assms(1) s(1,2) unfolding store_inv_def by (metis startsWith_append)
  have "i = i' \<and> digest_of y = digest_of x"
    using s(3) v(1) by (auto simp: stored_attempt_def field_def split: if_splits)
  then show ?thesis using s(4) v(2) by auto
qed

section \<open>Operation ids\<close>

definition mem_inv :: "sends \<Rightarrow> pending_attempt option \<Rightarrow> bool" where
  "mem_inv ss p \<longleftrightarrow>
    (\<forall>a. p = Some a \<longrightarrow> (\<exists>x. (pa_id a, x) \<in> set ss \<and> pa_requestKey a = units (requestKey x)))"

definition ids_inv :: "sends \<Rightarrow> bool" where
  "ids_inv ss \<longleftrightarrow> (\<forall>i x y. (i, x) \<in> set ss \<longrightarrow> (i, y) \<in> set ss \<longrightarrow> x = y)"

definition run_inv :: "applier \<Rightarrow> sends \<Rightarrow> bool" where
  "run_inv h ss \<longleftrightarrow> store_inv ss (ap_session h) \<and> mem_inv ss (pendingAttempt h) \<and> ids_inv ss"

lemma mem_inv_simps [simp]: "mem_inv ss None"
  by (simp add: mem_inv_def)

lemma run_inv_send:
  assumes "store_inv ss st" "ids_inv ss" "pa_requestKey a = units (requestKey x)"
    "pa_id a \<notin> fst ` set ss \<or> (pa_id a, x) \<in> set ss"
    "ap_session h = writeStoredAttempt refuses a st" "pendingAttempt h = Some a"
  shows "run_inv h (ss @ [(pa_id a, x)])"
proof -
  let ?ss = "ss @ [(pa_id a, x)]"
  have "store_inv ?ss st" using store_inv_mono [OF assms(1), of ?ss] by auto
  then have "store_inv ?ss (ap_session h)" unfolding assms(5) by (rule store_inv_write) (simp_all add: assms(3))
  moreover have "z = x" if "(pa_id a, z) \<in> set ss" for z
    using assms(2,4) that imageI [OF that, of fst] by (auto simp: ids_inv_def)
  then have "ids_inv ?ss" using assms(2) by (auto simp: ids_inv_def)
  moreover have "mem_inv ?ss (Some a)" using assms(3) unfolding mem_inv_def by auto
  ultimately show ?thesis using assms(6) by (simp add: run_inv_def)
qed

lemma find_pending_cases:
  obtains (memory) m where "pendingAttempt h = Some m" "pa_requestKey m = k"
      "find_pending k now h = (Some m, ap_session h)"
    | (stored) "find_pending k now h = readStoredAttempt k now (ap_session h)"
proof (cases "pendingAttempt h")
  case None
  then show thesis using stored by (simp add: find_pending_def)
next
  case (Some m)
  show thesis
  proof (cases "pa_requestKey m = k \<and> now - pa_at m < PENDING_ATTEMPT_TTL_MS")
    case True
    then show thesis using memory [OF Some] Some by (simp add: find_pending_def)
  next
    case False
    then show thesis using stored Some by (auto simp: find_pending_def)
  qed
qed

lemma find_pending_names:
  assumes "run_inv h ss" "find_pending (units (requestKey x)) now h = (p, st)"
  shows "store_inv ss st \<and>
    (\<forall>a. p = Some a \<longrightarrow> pa_requestKey a = units (requestKey x) \<and>
      (\<exists>y. (pa_id a, y) \<in> set ss \<and> digest_of y = digest_of x))"
proof (cases rule: find_pending_cases [of h "units (requestKey x)" now])
  case (memory m)
  obtain y where y: "(pa_id m, y) \<in> set ss" "units (requestKey y) = units (requestKey x)"
    using assms(1) memory(1,2) unfolding run_inv_def mem_inv_def by metis
  then have "digest_of y = digest_of x" by (simp add: digest_of_def)
  then show ?thesis using memory y(1) assms by (auto simp: run_inv_def)
next
  case stored
  have inv: "store_inv ss (ap_session h)" using assms(1) by (simp add: run_inv_def)
  have "st = snd (readStoredAttempt (units (requestKey x)) now (ap_session h))"
    "p = stored_for (units (requestKey x)) now (ap_session h)"
    using arg_cong [OF assms(2), of snd] arg_cong [OF assms(2), of fst] stored
    by (simp_all add: stored_for_def)
  then show ?thesis using store_inv_read [OF inv] stored_names_request [OF inv] by simp
qed

lemma caught_inv: "run_inv h ss \<Longrightarrow> run_inv (apply_caught b key err h) ss"
  by (auto simp: apply_caught_def Let_def releaseAttempt_def run_inv_def store_inv_clear split: option.split)

lemma release_inv: "run_inv h ss \<Longrightarrow> run_inv (releaseAttempt key h) ss"
  by (simp add: releaseAttempt_def run_inv_def store_inv_clear)

lemma press_inv:
  assumes inv: "run_inv h ss" and fresh: "\<And>u. uuid = Some u \<Longrightarrow> u \<notin> fst ` set ss"
    and press: "handleApply opts now uuid refuses h = (h', r)"
    and inj: "inj_on digest_of (snd ` set (ss @ tracked_send r))"
  shows "run_inv h' (ss @ tracked_send r)"
proof -
  define h1 where "h1 = h\<lparr>lastOperationId := None, attemptOutcomeUnknown := False, applying := True,
    ap_error := None, ap_result := None, trackedRefusal := None\<rparr>"
  define x where "x = request_of opts h1"
  let ?k = "units (requestKey x)"
  obtain p st where f: "find_pending ?k now h1 = (p, st)" by (cases "find_pending ?k now h1")
  have inv1: "run_inv h1 ss" using inv by (simp add: run_inv_def h1_def)
  note names = find_pending_names [OF inv1 f]
  have ids: "ids_inv ss" using inv by (simp add: run_inv_def)
  consider (none) "r = None" "h' = h \<or> ap_session h' = ap_session h \<and> pendingAttempt h' = pendingAttempt h"
    | (plain) "r = Some \<lparr>ar_query = buildApplyQuery x None, ar_input = x, ar_id = None\<rparr>"
        "run_inv h' ss = run_inv (releaseAttempt ?k h1) ss"
    | (random) "r = None" "h' = apply_caught False ?k
        (PlainError ''No secure random source is available to generate an id'') (h1\<lparr>ap_session := st\<rparr>)"
    | (retry) a where "p = Some a" "tracked_send r = [(pa_id a, x)]"
        "ap_session h' = writeStoredAttempt refuses a st" "pendingAttempt h' = Some a"
    | (new) u where "uuid = Some u" "tracked_send r = [(u, x)]"
        "ap_session h' = writeStoredAttempt refuses \<lparr>pa_id = u, pa_requestKey = ?k, pa_at = now\<rparr> st"
        "pendingAttempt h' = Some \<lparr>pa_id = u, pa_requestKey = ?k, pa_at = now\<rparr>"
    using press f
    by (auto simp: handleApply_def Let_def send_apply_def tracked_send_def h1_def [symmetric] x_def run_inv_def
        split: if_splits option.splits)
  then show ?thesis
  proof cases
    case none
    then show ?thesis using inv by (auto simp: tracked_send_def run_inv_def)
  next
    case plain
    then show ?thesis using release_inv [OF inv1] by (simp add: tracked_send_def)
  next
    case random
    have "run_inv (h1\<lparr>ap_session := st\<rparr>) ss" using inv1 names by (simp add: run_inv_def)
    then show ?thesis using random caught_inv by (simp add: tracked_send_def)
  next
    case retry
    then obtain y where y: "(pa_id a, y) \<in> set ss" "digest_of y = digest_of x" "pa_requestKey a = ?k"
      using names by auto
    have "y = x" using inj y(1,2) retry(2) by (auto simp: inj_on_def image_iff)
    then show ?thesis
      using run_inv_send [of ss st a x h' refuses] retry y names ids by simp
  next
    case new
    then show ?thesis
      using run_inv_send [of ss st "\<lparr>pa_id = u, pa_requestKey = ?k, pa_at = now\<rparr>" x h' refuses] fresh [OF new(1)] names ids
      by simp
  qed
qed

lemma apply_run_inv: "apply_run h os ss \<Longrightarrow> inj_on digest_of (snd ` set ss) \<Longrightarrow> run_inv h ss"
proof (induction rule: apply_run.induct)
  case (start st yaml t u)
  have "store_inv [] (clearPendingApplies st)" by (rule store_inv_clear_all)
  then show ?case using start by (simp add: run_inv_def fresh_hook_def ids_inv_def)
next
  case (press h os ss uuid opts now refuses h' r)
  have "inj_on digest_of (snd ` set ss)" using press.prems by (rule inj_on_subset) auto
  then show ?case using press_inv [OF press.IH press.hyps(2) press.hyps(3) press.prems] by simp
next
  case (answered h os ss c data)
  then show ?case using release_inv [of h ss] by (simp add: apply_resolved_def run_inv_def)
next
  case (refused h os ss c err)
  then show ?case by (simp add: apply_rejected_def caught_inv)
next
  case (late h os ss c)
  then show ?case by (simp add: run_inv_def store_inv_clear)
next
  case (logout h os ss)
  then show ?case by (simp add: run_inv_def store_inv_clear_all)
qed (simp_all add: run_inv_def handleValidate_def validate_resolved_def validate_rejected_def
    finish_validate_def switch_effect_def clearPin_def fresh_hook_def)

section \<open>Pins\<close>

definition pin_ok :: "applier \<Rightarrow> bool" where
  "pin_ok h \<longleftrightarrow>
    (\<forall>p. ap_pin h = Some p \<longrightarrow>
      normalizeClusterId (pin_targetCluster p) = normalizeClusterId (ct_clusterId (pin_target p)))"

definition calls_ok :: "applier \<Rightarrow> bool" where
  "calls_ok h \<longleftrightarrow>
    (applying h \<longleftrightarrow> apply_sent h \<noteq> None) \<and> (validating h \<longleftrightarrow> validateAbort h \<noteq> None) \<and>
    \<not> (applying h \<and> validating h)"

lemma caught_pin: "pin_ok h \<Longrightarrow> pin_ok (apply_caught b key err h)"
  by (auto simp: apply_caught_def Let_def releaseAttempt_def pin_ok_def split: option.split)

lemma caught_calls: "\<not> validating h \<Longrightarrow> validateAbort h = None \<Longrightarrow> calls_ok (apply_caught b key err h)"
  by (auto simp: apply_caught_def Let_def releaseAttempt_def calls_ok_def split: option.split)

lemma handleApply_keeps_pin:
  "handleApply opts now uuid refuses h = (h', r) \<Longrightarrow> pin_ok h \<Longrightarrow> pin_ok h'"
  by (auto simp: handleApply_def Let_def send_apply_def releaseAttempt_def
      split: if_splits option.splits prod.splits intro!: caught_pin)
    (auto simp: pin_ok_def)

lemma handleApply_keeps_calls:
  assumes "handleApply opts now uuid refuses h = (h', r)" "calls_ok h"
  shows "calls_ok h'"
proof (cases "applying h \<or> validating h")
  case True
  then show ?thesis using assms by (simp add: handleApply_def)
next
  case False
  then have "apply_sent h = None" "validateAbort h = None" "\<not> validating h" "\<not> applying h"
    using assms(2) unfolding calls_ok_def by blast+
  then show ?thesis
    using assms(1)
    by (auto simp: handleApply_def Let_def send_apply_def releaseAttempt_def
        split: if_splits option.splits prod.splits intro!: caught_calls)
      (auto simp: calls_ok_def)
qed

lemmas idle_defs = handleValidate_def validate_resolved_def validate_rejected_def finish_validate_def
  clearPin_def fresh_hook_def switch_effect_def apply_resolved_def releaseAttempt_def

lemma apply_run_pin: "apply_run h os ss \<Longrightarrow> pin_ok h"
proof (induction rule: apply_run.induct)
  case (press h os ss uuid opts now refuses h' r)
  show ?case by (rule handleApply_keeps_pin [OF press.hyps(3) press.IH])
next
  case (refused h os ss c err)
  then show ?case by (simp add: apply_rejected_def caught_pin)
qed (simp_all add: pin_ok_def idle_defs)

lemma apply_run_calls: "apply_run h os ss \<Longrightarrow> calls_ok h"
proof (induction rule: apply_run.induct)
  case (press h os ss uuid opts now refuses h' r)
  show ?case by (rule handleApply_keeps_calls [OF press.hyps(3) press.IH])
next
  case (refused h os ss c err)
  have "\<not> validating h" "validateAbort h = None"
    using refused.IH refused.hyps(2) unfolding calls_ok_def by blast+
  then show ?case by (simp add: apply_rejected_def caught_calls)
qed (simp_all del: not_None_eq add: calls_ok_def idle_defs, blast+)

end
