(* ===== verification/Yaml_Apply_Properties.thy ===== *)
theory Yaml_Apply_Properties
  imports Yaml_Apply_Runs
begin

text \<open>
  The properties of the apply machine: what an operation id names, when a retry continues an
  attempt and when it starts a new one, and where a pinned apply goes.
\<close>

section \<open>One tracked press\<close>

lemma request_of_fields:
  "ap_pin h' = ap_pin h \<Longrightarrow> ap_target h' = ap_target h \<Longrightarrow> ap_userId h' = ap_userId h \<Longrightarrow>
   yamlContent h' = yamlContent h \<Longrightarrow> request_of opts h' = request_of opts h"
  by (simp add: request_of_def Let_def split: option.split)

lemma find_pending_key: "find_pending k now h = (Some a, st) \<Longrightarrow> pa_requestKey a = k"
  by (cases rule: find_pending_cases [of h k now])
    (auto simp: readStoredAttempt_def Let_def split: option.splits)

text \<open>What a press that sends leaves in the hook.\<close>

lemma tracked_press_sent:
  assumes press: "handleApply opts now uuid refuses h = (h', Some q)" and tracked: "ao_tracked opts"
  obtains a st where "pendingAttempt h' = Some a" "pa_requestKey a = units (requestKey (request_of opts h))"
    "q = \<lparr>ar_query = buildApplyQuery (request_of opts h) (Some (pa_id a)), ar_input = request_of opts h,
          ar_id = Some (pa_id a)\<rparr>"
    "ap_session h' = writeStoredAttempt refuses a st" "st = None \<longleftrightarrow> ap_session h = None"
    "\<And>c. apply_sent h' = Some c \<Longrightarrow> ac_key c = units (requestKey (request_of opts h))"
proof -
  define h1 where "h1 = h\<lparr>lastOperationId := None, attemptOutcomeUnknown := False, applying := True,
    ap_error := None, ap_result := None, trackedRefusal := None\<rparr>"
  have r: "request_of opts h1 = request_of opts h" by (rule request_of_fields) (simp_all add: h1_def)
  let ?k = "units (requestKey (request_of opts h))"
  obtain p st where f: "find_pending ?k now h1 = (p, st)" by (cases "find_pending ?k now h1")
  have st: "st = None \<longleftrightarrow> ap_session h = None"
    using f by (cases rule: find_pending_cases [of h1 ?k now])
      (auto simp: h1_def readStoredAttempt_def Let_def split: option.splits)
  show thesis
  proof (cases p)
    case (Some a)
    show thesis
      by (rule that [of a st])
        (use press tracked f Some r st find_pending_key [of ?k now h1 a st] in
          \<open>auto simp: handleApply_def Let_def send_apply_def h1_def [symmetric] split: if_splits\<close>)
  next
    case None
    then obtain u where u: "uuid = Some u"
      using press tracked f r
      by (auto simp: handleApply_def Let_def h1_def [symmetric] split: if_splits option.splits)
    show thesis
      by (rule that [of "\<lparr>pa_id = u, pa_requestKey = ?k, pa_at = now\<rparr>" st])
        (use press tracked f None u r st in
          \<open>auto simp: handleApply_def Let_def send_apply_def h1_def [symmetric] split: if_splits\<close>)
  qed
qed

lemma press_keeps_subject:
  assumes "handleApply opts now uuid refuses h = (h', Some q)"
  shows "yamlContent h' = yamlContent h" "ap_target h' = ap_target h" "ap_userId h' = ap_userId h"
    "ap_pin h' = ap_pin h" "\<not> validating h'" "ao_pinApplyToPreview opts \<longrightarrow> ap_pin h \<noteq> None"
  using assms
  by (auto simp: handleApply_def Let_def send_apply_def releaseAttempt_def
      split: if_splits option.splits prod.splits)

text \<open>A press whose attempt is found sends it again; one that finds none sends the new id.\<close>

lemma tracked_press_found:
  assumes "ao_tracked opts" "\<not> applying h" "\<not> validating h" "ao_pinApplyToPreview opts \<longrightarrow> ap_pin h \<noteq> None"
    and "\<And>h1. pendingAttempt h1 = pendingAttempt h \<Longrightarrow> ap_session h1 = ap_session h \<Longrightarrow>
      fst (find_pending (units (requestKey (request_of opts h))) now h1) = p"
    and "p = None \<longrightarrow> uuid = Some u"
  shows "\<exists>h'. handleApply opts now uuid refuses h =
    (h', Some \<lparr>ar_query = buildApplyQuery (request_of opts h) (Some (case p of Some a \<Rightarrow> pa_id a | None \<Rightarrow> u)),
               ar_input = request_of opts h, ar_id = Some (case p of Some a \<Rightarrow> pa_id a | None \<Rightarrow> u)\<rparr>)"
proof -
  define h1 where "h1 = h\<lparr>lastOperationId := None, attemptOutcomeUnknown := False, applying := True,
    ap_error := None, ap_result := None, trackedRefusal := None\<rparr>"
  have r: "request_of opts h1 = request_of opts h" by (rule request_of_fields) (simp_all add: h1_def)
  have "fst (find_pending (units (requestKey (request_of opts h))) now h1) = p"
    by (rule assms(5)) (simp_all add: h1_def)
  then obtain st where f: "find_pending (units (requestKey (request_of opts h))) now h1 = (p, st)"
    by (metis prod.collapse)
  show ?thesis
    using assms(1-4,6) r f
    by (cases p) (simp_all add: handleApply_def Let_def send_apply_def h1_def [symmetric])
qed

text \<open>A failure that keeps the attempt leaves the subject, the pin and the store alone.\<close>

lemma kept_refusal: "\<not> releases b err \<Longrightarrow> pinRefusalMessage err = None"
  by (cases err) (auto simp: releases_def)

lemma caught_kept:
  assumes "\<not> releases b err"
  shows "ap_session (apply_caught b key err h) = ap_session h"
    "pendingAttempt (apply_caught b key err h) = pendingAttempt h"
    "ap_pin (apply_caught b key err h) = ap_pin h"
  using assms kept_refusal [OF assms]
  by (simp_all add: apply_caught_def Let_def split: option.split)

lemma caught_subject:
  "yamlContent (apply_caught b key err h) = yamlContent h" "ap_target (apply_caught b key err h) = ap_target h"
  "ap_userId (apply_caught b key err h) = ap_userId h" "\<not> applying (apply_caught b key err h)"
  "validating (apply_caught b key err h) = validating h"
  by (simp_all add: apply_caught_def Let_def releaseAttempt_def split: option.split)

section \<open>Retries\<close>

text \<open>
  What a failed call says of the attempt, as the interface documents it. Nothing is known without an
  answer, on a server error, and while the operation is still running. A receipt store that failed
  (503) says itself whether the id may be used again; silent about it, it leaves only an id open
  that had been sent before. Every other answer is definite.
\<close>

fun outcome_unknown :: "bool \<Rightarrow> apply_failure \<Rightarrow> bool" where
  "outcome_unknown sent_before (ApiFail status reason extra m) =
    (if status = 503 \<and> reason = Some ''receipt_store_unavailable''
     then (case map_of extra ''retrySameOperationId'' of Some (JBool same) \<Rightarrow> same | _ \<Rightarrow> sent_before)
     else status \<ge> 500 \<or> status = 409 \<and> reason = Some ''operation_in_flight'')"
| "outcome_unknown sent_before (PlainError m) = True"
| "outcome_unknown sent_before NotAnError = True"

lemma releases_known: "releases reusedId err \<longleftrightarrow> \<not> outcome_unknown reusedId err"
  by (cases err)
    (auto simp: releases_def plain_refusal_def errorExtraFlag_def split: option.split json.split)

text \<open>Whether a press continues an id that was sent before.\<close>

definition continues :: "apply_options \<Rightarrow> rat \<Rightarrow> applier \<Rightarrow> bool" where
  "continues opts now h \<longleftrightarrow> fst (find_pending (units (requestKey (request_of opts h))) now h) \<noteq> None"

lemma press_reuses:
  assumes "ao_tracked opts" "handleApply opts now uuid refuses h = (h', Some q)" "apply_sent h' = Some c"
  shows "ac_reusedId c \<longleftrightarrow> continues opts now h"
proof -
  define h1 where "h1 = h\<lparr>lastOperationId := None, attemptOutcomeUnknown := False, applying := True,
    ap_error := None, ap_result := None, trackedRefusal := None\<rparr>"
  have r: "request_of opts h1 = request_of opts h" by (rule request_of_fields) (simp_all add: h1_def)
  have "find_pending k now h1 = find_pending k now h" for k by (simp add: find_pending_def h1_def split: option.split)
  then show ?thesis
    using assms r
    by (auto simp: handleApply_def Let_def send_apply_def continues_def h1_def [symmetric]
        split: if_splits option.splits prod.splits)
qed

lemma reloaded_fields:
  assumes "r = fresh_hook y st t u \<or> r = validate_resolved t data now (handleValidate (fresh_hook y st t u))"
  shows "\<not> applying r" "\<not> validating r" "pendingAttempt r = None" "ap_session r = st"
  using assms
  by (elim disjE; simp add: fresh_hook_def validate_resolved_def handleValidate_def finish_validate_def)+

text \<open>
  Claim C22. A tracked attempt whose outcome is unknown is continued, and only such a one. Say the
  call of a press failed and the next press, within ten minutes of the attempt's start, builds the
  same request. If the failure leaves the outcome unknown, the same request goes out again under the
  same operation id although a new one could be drawn; the same holds after a page reload, for
  a hook mounted afresh on the session store (if that took the attempt), with or without a new
  validation. If the failure is definite, the request goes out under a new id.
\<close>

theorem unknown_outcome_continued:
  assumes tracked: "ao_tracked opts" and press: "handleApply opts now uuid refuses h = (h', Some q)"
    and sent: "apply_sent h' = Some c" and attempt: "pendingAttempt h' = Some a"
    and young: "pa_at a \<le> now'" "now' - pa_at a < PENDING_ATTEMPT_TTL_MS" and id: "pa_id a \<noteq> []"
    and later: "r = apply_rejected c err h' \<or>
      ap_session h \<noteq> None \<and> \<not> refuses \<and>
      (let f = fresh_hook (yamlContent h) (ap_session (apply_rejected c err h')) t u
       in r = f \<or> r = validate_resolved t data vnow (handleValidate f))"
    and same: "request_of opts r = request_of opts h" "ao_pinApplyToPreview opts \<longrightarrow> ap_pin r \<noteq> None"
  shows "\<exists>h2. handleApply opts now' (Some u') refuses' r =
    (h2, Some (if outcome_unknown (continues opts now h) err then q
               else q\<lparr>ar_query := buildApplyQuery (request_of opts h) (Some u'), ar_id := Some u'\<rparr>))"
proof -
  let ?i = "request_of opts h" and ?r = "apply_rejected c err h'" and ?k = "units (requestKey (request_of opts h))"
  obtain st where a: "pa_requestKey a = ?k"
    "q = \<lparr>ar_query = buildApplyQuery ?i (Some (pa_id a)), ar_input = ?i, ar_id = Some (pa_id a)\<rparr>"
    "ap_session h' = writeStoredAttempt refuses a st" "st = None \<longleftrightarrow> ap_session h = None" "ac_key c = ?k"
    by (rule tracked_press_sent [OF press tracked]) (use attempt sent in auto)
  have unknown: "releases (ac_reusedId c) err \<longleftrightarrow> \<not> outcome_unknown (continues opts now h) err"
    using releases_known press_reuses [OF tracked press sent] by simp
  define p where "p = (if outcome_unknown (continues opts now h) err then Some a else None)"
  have fresh: "r \<noteq> ?r \<Longrightarrow> \<not> applying r \<and> \<not> validating r \<and> pendingAttempt r = None \<and>
      ap_session r = ap_session ?r \<and> ap_session h \<noteq> None \<and> \<not> refuses"
    using later reloaded_fields [of r "yamlContent h" "ap_session ?r" t u data vnow] by (auto simp: Let_def)
  have idle: "\<not> applying r" "\<not> validating r"
    using fresh press_keeps_subject [OF press] by (cases "r = ?r"; simp add: apply_rejected_def caught_subject)+
  have mem: "pendingAttempt ?r = p \<and> (p = None \<longrightarrow> ap_session ?r = clearStoredAttempt ?k (ap_session h'))"
    using unknown attempt a(5)
    by (auto simp: p_def apply_rejected_def apply_caught_def releaseAttempt_def Let_def split: option.split)
  have store: "stored_for ?k now' (ap_session ?r) = p" if g: "ap_session h \<noteq> None" "\<not> refuses"
  proof (cases "outcome_unknown (continues opts now h) err")
    case True
    then have "ap_session ?r = ap_session h'" using caught_kept unknown by (simp add: apply_rejected_def)
    moreover obtain s where "st = Some s" using a(4) g(1) by auto
    ultimately show ?thesis using read_after_write [of a now' s] True a(1,3) g(2) young id by (simp add: p_def)
  next
    case False
    then have "ap_session ?r = clearStoredAttempt ?k (ap_session h')" using mem by (simp add: p_def)
    then show ?thesis using False by (simp add: p_def)
  qed
  have found: "fst (find_pending ?k now' h1) = p"
    if "pendingAttempt h1 = pendingAttempt r" "ap_session h1 = ap_session r" for h1
  proof (cases "r = ?r")
    case True
    then show ?thesis
      using mem that young a(1) read_after_clear [of ?k now' "ap_session h'"]
      by (auto simp: find_pending_def p_def stored_for_def split: option.splits if_splits)
  next
    case False
    then show ?thesis using fresh store that by (simp add: find_pending_def stored_for_def)
  qed
  show ?thesis
    using tracked_press_found [of opts r now' p "Some u'" u' refuses'] tracked idle same found a(2)
    by (auto simp: p_def split: if_splits)
qed

definition sample_options :: apply_options where
  "sample_options = \<lparr>ao_force = False, ao_pinApplyToPreview = False, ao_tracked = True, ao_repairOf = None\<rparr>"

definition sample_hook :: applier where
  "sample_hook = fresh_hook ''kind: Pod'' (Some []) \<lparr>ct_clusterId = ''local'', ct_generation = ''local'', ct_epoch = 0\<rparr> None"

lemma sample_press:
  obtains h' q c where "handleApply sample_options 0 (Some ''op-1'') False sample_hook = (h', Some q)"
    "apply_sent h' = Some c" "ac_reusedId c = False" "ar_id q = Some ''op-1''"
    "pendingAttempt h' = Some \<lparr>pa_id = ''op-1'',
       pa_requestKey = units (requestKey (request_of sample_options sample_hook)), pa_at = 0\<rparr>"
proof (rule that [of "fst (handleApply sample_options 0 (Some ''op-1'') False sample_hook)"
      "the (snd (handleApply sample_options 0 (Some ''op-1'') False sample_hook))"
      "\<lparr>ac_reusedId = False, ac_key = units (requestKey (request_of sample_options sample_hook))\<rparr>"])
qed (simp_all add: handleApply_def sample_hook_def sample_options_def fresh_hook_def Let_def send_apply_def
    find_pending_def readStoredAttempt_def get_item_def request_of_def)

text \<open>
  An attempt that was answered, or whose failure is definite, is over: the next press of
  the same request goes out under the id the random source gives, never under the old one.
\<close>

theorem settled_attempt_not_reused:
  assumes tracked: "ao_tracked opts" and press: "handleApply opts now uuid refuses h = (h', Some q)"
    and sent: "apply_sent h' = Some c"
    and settled: "r = apply_resolved c data h' \<or> releases (ac_reusedId c) err \<and> r = apply_rejected c err h'"
    and pinned: "ao_pinApplyToPreview opts \<longrightarrow> ap_pin r \<noteq> None"
    and same: "request_of opts r = request_of opts h"
  shows "\<exists>h2. handleApply opts now' (Some u) refuses' r =
    (h2, Some (q\<lparr>ar_query := buildApplyQuery (request_of opts h) (Some u), ar_id := Some u\<rparr>))"
proof -
  let ?i = "request_of opts h"
  obtain a :: pending_attempt where q: "q = \<lparr>ar_query = buildApplyQuery ?i (Some (pa_id a)), ar_input = ?i, ar_id = Some (pa_id a)\<rparr>"
    by (rule tracked_press_sent [OF press tracked]) (rule that)
  have c: "ac_key c = units (requestKey ?i)"
    by (rule tracked_press_sent [OF press tracked]) (use sent in blast)
  have idle: "\<not> applying r" "\<not> validating r"
    using settled press_keeps_subject [OF press]
    by (auto simp: apply_resolved_def apply_rejected_def caught_subject releaseAttempt_def)
  have "pendingAttempt r = None \<and> ap_session r = clearStoredAttempt (units (requestKey ?i)) (ap_session h')"
    using settled c
    by (auto simp: apply_resolved_def apply_rejected_def releaseAttempt_def apply_caught_def Let_def split: option.split)
  then show ?thesis
    using tracked_press_found [of opts r now' None "Some u" u refuses'] tracked idle pinned same q
      read_after_clear [of "units (requestKey ?i)" now' "ap_session h'"]
    by (simp add: find_pending_def stored_for_def)
qed

section \<open>Runs\<close>

text \<open>
  Claim C4. Under every order of presses, answers, edits, cluster switches, reloads, late answers,
  logins and logouts, and unless two different requests that were sent have the same SHA-256
  digest, an operation id goes out with one request only: the same text, cluster, pin, user,
  force flag and repair reference.
\<close>

theorem operation_id_names_one_request:
  assumes "apply_run h os ss" and "inj_on digest_of (snd ` set ss)"
    and "(i, x) \<in> set ss" and "(i, y) \<in> set ss"
  shows "x = y"
  using apply_run_inv [OF assms(1,2)] assms(3,4) unfolding run_inv_def ids_inv_def by blast

lemma sample_run:
  "\<exists>h. apply_run h [] [(''op-1'', request_of sample_options sample_hook), (''op-1'', request_of sample_options sample_hook)]"
proof -
  have 0: "apply_run sample_hook [] []"
    unfolding sample_hook_def by (rule apply_run.start) (simp add: clearPendingApplies_def)
  obtain h' q c where p: "handleApply sample_options 0 (Some ''op-1'') False sample_hook = (h', Some q)"
    "apply_sent h' = Some c" "ac_reusedId c = False" "ar_id q = Some ''op-1''"
    "pendingAttempt h' = Some \<lparr>pa_id = ''op-1'',
       pa_requestKey = units (requestKey (request_of sample_options sample_hook)), pa_at = 0\<rparr>"
    by (rule sample_press)
  let ?x = "request_of sample_options sample_hook"
  have x: "ar_input q = ?x"
    by (rule tracked_press_sent [OF p(1)]) (simp_all add: sample_options_def)
  have 1: "apply_run h' [] [(''op-1'', ?x)]"
    using apply_run.press [OF 0 _ p(1)] p(4) x by (simp add: tracked_send_def)
  have 2: "apply_run (apply_rejected c NotAnError h') [] [(''op-1'', ?x)]"
    by (rule apply_run.refused [OF 1 p(2)])
  let ?r = "apply_rejected c NotAnError h'"
  have k: "\<not> releases (ac_reusedId c) NotAnError" by (simp add: releases_def)
  have "\<exists>h2. handleApply sample_options 1000 None False ?r =
      (h2, Some \<lparr>ar_query = buildApplyQuery ?x (Some ''op-1''), ar_input = ?x, ar_id = Some ''op-1''\<rparr>)"
  proof -
    have i: "request_of sample_options ?r = ?x"
      by (rule request_of_fields)
        (simp_all add: apply_rejected_def caught_kept [OF k] caught_subject press_keeps_subject [OF p(1)])
    show ?thesis
      using tracked_press_found [of sample_options ?r 1000 "pendingAttempt h'" None undefined False] i p(5)
        press_keeps_subject [OF p(1)]
      by (simp add: apply_rejected_def caught_kept [OF k] caught_subject sample_options_def find_pending_def
          PENDING_ATTEMPT_TTL_MS_def)
  qed
  then obtain h2 where h2: "handleApply sample_options 1000 None False ?r =
      (h2, Some \<lparr>ar_query = buildApplyQuery ?x (Some ''op-1''), ar_input = ?x, ar_id = Some ''op-1''\<rparr>)" ..
  show ?thesis
    using apply_run.press [OF 2 _ h2] by (auto simp: tracked_send_def)
qed

theorem operation_id_names_one_request_witness:
  "\<exists>h ss. apply_run h [] ss \<and> length ss = 2 \<and> inj_on digest_of (snd ` set ss) \<and>
     (\<forall>x y. (''op-1'', x) \<in> set ss \<and> (''op-1'', y) \<in> set ss \<longrightarrow> x = y)"
proof -
  let ?x = "request_of sample_options sample_hook"
  obtain h where run: "apply_run h [] [(''op-1'', ?x), (''op-1'', ?x)]" using sample_run by blast
  have inj: "inj_on digest_of (snd ` set [(''op-1'', ?x), (''op-1'', ?x)])" by simp
  show ?thesis
    by (intro exI [of _ h] exI [of _ "[(''op-1'', ?x), (''op-1'', ?x)]"] conjI allI impI run inj)
      (simp, use operation_id_names_one_request [OF run inj] in blast)
qed

text \<open>
  Claim C25. An apply tied to its preview goes out only after a validation, and to the cluster that
  validation ran on: the address of the request is the cluster selected when the preview was asked
  for, the cluster the preview answered from is the same one (the empty id meaning the local
  cluster), and the query carries the cluster and generation the preview reported. A cluster
  switch in between changes none of it.
\<close>

theorem pinned_apply_goes_to_preview:
  assumes run: "apply_run h os ss" and pinned: "ao_pinApplyToPreview opts"
    and press: "handleApply opts now uuid refuses h = (h', Some q)"
  shows "\<exists>p. ap_pin h = Some p \<and> ri_clusterId (ar_input q) = ct_clusterId (pin_target p) \<and>
    normalizeClusterId (pin_targetCluster p) = normalizeClusterId (ri_clusterId (ar_input q)) \<and>
    {(''targetCluster'', pin_targetCluster p), (''targetGeneration'', pin_targetGeneration p)} \<subseteq> set (ar_query q)"
proof -
  obtain p where p: "ap_pin h = Some p" using press_keeps_subject(6) [OF press] pinned by auto
  have "ar_input q = request_of opts h \<and> (\<exists>t. ar_query q = buildApplyQuery (request_of opts h) t)"
    using press
    by (auto simp: handleApply_def Let_def send_apply_def request_of_def split: if_splits option.splits prod.splits)
  then show ?thesis
    using p pinned apply_run_pin [OF run]
    by (auto simp: request_of_def pin_ok_def buildApplyQuery_def)
qed

text \<open>A preview answered by the remote cluster it was asked of, before the selection moves away.\<close>

definition pinned_options :: apply_options where
  "pinned_options = \<lparr>ao_force = False, ao_pinApplyToPreview = True, ao_tracked = False, ao_repairOf = None\<rparr>"

definition remote_target :: cluster_target where
  "remote_target = \<lparr>ct_clusterId = ''east'', ct_generation = ''g1'', ct_epoch = 0\<rparr>"

definition previewed_hook :: applier where
  "previewed_hook =
    switch_effect ((validate_resolved remote_target
      \<lparr>vr_body = JNull, vr_targetCluster = ''east'', vr_targetGeneration = ''g1''\<rparr> 5
      (handleValidate (fresh_hook ''kind: Pod'' None remote_target None)))
      \<lparr>ap_target := switchCluster ''local'' ''local'' remote_target\<rparr>)"

lemma previewed_run: "apply_run previewed_hook [] []"
proof -
  let ?h = "fresh_hook ''kind: Pod'' None remote_target None"
  have "apply_run (handleValidate ?h) [] []"
    by (intro apply_run.validate apply_run.start) (simp add: clearPendingApplies_def)
  then have "apply_run (validate_resolved remote_target
      \<lparr>vr_body = JNull, vr_targetCluster = ''east'', vr_targetGeneration = ''g1''\<rparr> 5 (handleValidate ?h)) [] []"
    by (rule apply_run.validated [where a = False]) (simp add: handleValidate_def fresh_hook_def)
  from apply_run.switch [OF this, of "''local''" "''local''"] show ?thesis
    by (simp add: previewed_hook_def validate_resolved_def finish_validate_def handleValidate_def fresh_hook_def
        remote_target_def)
qed

theorem pinned_apply_goes_to_preview_witness:
  "\<exists>h' q. handleApply pinned_options 9 None False previewed_hook = (h', Some q) \<and>
     ct_clusterId (ap_target previewed_hook) = ''local'' \<and> ri_clusterId (ar_input q) = ''east'' \<and>
     (''targetCluster'', ''east'') \<in> set (ar_query q)"
proof -
  note eval = previewed_hook_def validate_resolved_def finish_validate_def handleValidate_def fresh_hook_def
    remote_target_def switch_effect_def
  obtain h' q where press: "handleApply pinned_options 9 None False previewed_hook = (h', Some q)"
    by (simp add: handleApply_def pinned_options_def send_apply_def Let_def eval)
  have pin: "ap_pin previewed_hook = Some \<lparr>pin_target = remote_target, pin_targetCluster = ''east'',
      pin_targetGeneration = ''g1'', pin_pinnedAt = 5\<rparr>"
    by (simp add: eval)
  have "ct_clusterId (ap_target previewed_hook) = ''local''"
    by (simp add: eval switchCluster_def LOCAL_CLUSTER_ID_def LOCAL_GENERATION_def Let_def)
  then show ?thesis
    using pinned_apply_goes_to_preview [OF previewed_run _ press] press pin
    by (auto simp: pinned_options_def remote_target_def)
qed

text \<open>
  A tracked, pinned apply fails with 502; the page is reloaded, the text validated again on the same
  cluster, and Apply pressed: the attempt is continued.
\<close>

definition tracked_pinned :: apply_options where
  "tracked_pinned = \<lparr>ao_force = False, ao_pinApplyToPreview = True, ao_tracked = True, ao_repairOf = None\<rparr>"

definition east_answer :: validate_response where
  "east_answer = \<lparr>vr_body = JNull, vr_targetCluster = ''east'', vr_targetGeneration = ''g1''\<rparr>"

definition reviewed :: "storage \<Rightarrow> rat \<Rightarrow> applier" where
  "reviewed st now =
    validate_resolved remote_target east_answer now (handleValidate (fresh_hook ''kind: Pod'' st remote_target None))"

lemmas review_eval = reviewed_def validate_resolved_def finish_validate_def handleValidate_def fresh_hook_def
  remote_target_def east_answer_def

lemma reviewed_request: "request_of tracked_pinned (reviewed st now) = request_of tracked_pinned (reviewed (Some []) 5)"
  by (simp add: request_of_def tracked_pinned_def review_eval)

lemma reviewed_press:
  obtains h' q c where "handleApply tracked_pinned 9 (Some ''op-1'') False (reviewed (Some []) 5) = (h', Some q)"
    "apply_sent h' = Some c" "ar_id q = Some ''op-1''"
    "pendingAttempt h' = Some \<lparr>pa_id = ''op-1'',
       pa_requestKey = units (requestKey (request_of tracked_pinned (reviewed (Some []) 5))), pa_at = 9\<rparr>"
proof (rule that [of "fst (handleApply tracked_pinned 9 (Some ''op-1'') False (reviewed (Some []) 5))"
      "the (snd (handleApply tracked_pinned 9 (Some ''op-1'') False (reviewed (Some []) 5)))"
      "\<lparr>ac_reusedId = False, ac_key = units (requestKey (request_of tracked_pinned (reviewed (Some []) 5)))\<rparr>"])
qed (simp_all add: handleApply_def tracked_pinned_def review_eval Let_def send_apply_def find_pending_def
    readStoredAttempt_def get_item_def request_of_def)

theorem unknown_outcome_continued_witness:
  "\<exists>h' q c h2. handleApply tracked_pinned 9 (Some ''op-1'') False (reviewed (Some []) 5) = (h', Some q) \<and>
     ar_id q = Some ''op-1'' \<and> apply_sent h' = Some c \<and>
     handleApply tracked_pinned 1000 (Some ''op-2'') False
       (reviewed (ap_session (apply_rejected c (ApiFail 502 None [] ''Bad gateway'') h')) 900) = (h2, Some q)"
proof -
  let ?h = "reviewed (Some []) 5" and ?err = "ApiFail 502 None [] ''Bad gateway''"
  obtain h' q c where p: "handleApply tracked_pinned 9 (Some ''op-1'') False ?h = (h', Some q)"
    "apply_sent h' = Some c" "ar_id q = Some ''op-1''"
    "pendingAttempt h' = Some \<lparr>pa_id = ''op-1'', pa_requestKey = units (requestKey (request_of tracked_pinned ?h)), pa_at = 9\<rparr>"
    by (rule reviewed_press)
  let ?r = "reviewed (ap_session (apply_rejected c ?err h')) 900"
  have "?r = apply_rejected c ?err h' \<or>
      ap_session ?h \<noteq> None \<and> \<not> False \<and>
      (let f = fresh_hook (yamlContent ?h) (ap_session (apply_rejected c ?err h')) remote_target None
       in ?r = f \<or> ?r = validate_resolved remote_target east_answer 900 (handleValidate f))"
    by (simp add: Let_def) (simp add: review_eval)
  from unknown_outcome_continued [OF _ p(1,2,4) _ _ _ this reviewed_request, of 1000 "''op-2''" False] p(1-3)
  show ?thesis by (auto simp: tracked_pinned_def PENDING_ATTEMPT_TTL_MS_def review_eval)
qed

end
