(* ===== verification/Eso_Observer.thy ===== *)
theory Eso_Observer
  imports Js_Text
begin

text \<open>
  The observer of a forced secret sync (\<open>src/frontend/lib/eso-refresh-observer.ts\<close>): the reducer
  \<open>reduceObserver\<close>, the poll schedule of \<open>createRefreshPoller\<close>, and the page around them
  (\<open>src/frontend/src/islands/ESOExternalSecretDetail.tsx\<close>, \<open>dispatch\<close>, \<open>onForceSync\<close>). The clock,
  the reads and \<open>Date.parse\<close> (whose answer outside one format is the engine's own) are arguments.
\<close>

section \<open>The reducer\<close>

datatype correlation = Strong | Weak

datatype eso_status = Synced | SyncFailed | Refreshing | Stale | Drifted | StatusUnknown

record baseline =
  bl_uid :: string
  bl_resourceVersion :: string
  bl_generation :: "rat option"
  bl_refreshTime :: "string option"
  bl_readyLastTransitionTime :: "string option"
  bl_syncedResourceVersion :: "string option"
  bl_requestedAt :: string

record sample =
  sm_uid :: string
  sm_status :: eso_status
  sm_lastSyncTime :: "string option"
  sm_syncedResourceVersion :: "string option"
  sm_readyReason :: "string option"
  sm_readyMessage :: "string option"

datatype observer_phase =
    Idle | Requested | AwaitingObservation | ObservedSuccess | ObservedFailure
  | TimedOut | Cancelled | AccessLost | TargetChanged

record outcome =
  oc_reason :: "string option"
  oc_message :: "string option"
  oc_attributable :: bool

record observer_state =
  ob_phase :: observer_phase
  ob_baseline :: "baseline option"
  ob_correlation :: "correlation option"
  ob_priorStatus :: "eso_status option"
  ob_attempt :: nat
  ob_consecutiveErrors :: nat
  ob_deadlineMs :: "rat option"
  ob_unavailable :: bool
  ob_outcome :: "outcome option"

datatype observer_event =
    ERequest
  | ERequestFailed
  | EAccepted baseline correlation "eso_status option" rat
  | ESample sample rat
  | EForbidden
  | ENotFound
  | EError
  | EClusterChanged
  | ETick rat
  | ECancel

definition OBSERVE_TIMEOUT_MS :: rat where
  "OBSERVE_TIMEOUT_MS = 90000"

definition MAX_CONSECUTIVE_ERRORS :: nat where
  "MAX_CONSECUTIVE_ERRORS = 3"

definition INITIAL_OBSERVER_STATE :: observer_state where
  "INITIAL_OBSERVER_STATE =
    \<lparr>ob_phase = Idle, ob_baseline = None, ob_correlation = None, ob_priorStatus = None, ob_attempt = 0,
     ob_consecutiveErrors = 0, ob_deadlineMs = None, ob_unavailable = False, ob_outcome = None\<rparr>"

definition isTerminal :: "observer_phase \<Rightarrow> bool" where
  "isTerminal p \<longleftrightarrow>
    p \<in> {ObservedSuccess, ObservedFailure, TimedOut, Cancelled, AccessLost, TargetChanged}"

definition isObserving :: "observer_phase \<Rightarrow> bool" where
  "isObserving p \<longleftrightarrow> p = Requested \<or> p = AwaitingObservation"

type_synonym date_parse = "string \<Rightarrow> rat option"

definition parseMs :: "date_parse \<Rightarrow> string option \<Rightarrow> rat option" where
  "parseMs parse t = (case t of None \<Rightarrow> None | Some s \<Rightarrow> if s = [] then None else parse s)"

definition isNewEvidence :: "date_parse \<Rightarrow> baseline \<Rightarrow> sample \<Rightarrow> correlation \<Rightarrow> bool" where
  "isNewEvidence parse b s c =
    (if c = Strong
     then (case (parseMs parse (bl_refreshTime b), parseMs parse (sm_lastSyncTime s)) of
             (Some before, Some after) \<Rightarrow> after > before
           | _ \<Rightarrow> False)
     else (case sm_syncedResourceVersion s of
             None \<Rightarrow> False
           | Some v \<Rightarrow> v \<noteq> [] \<and> Some v \<noteq> bl_syncedResourceVersion b))"

definition isNewFailure :: "eso_status option \<Rightarrow> sample \<Rightarrow> bool" where
  "isNewFailure prior s \<longleftrightarrow> sm_status s = SyncFailed \<and> prior \<noteq> Some SyncFailed"

definition expired :: "observer_state \<Rightarrow> rat \<Rightarrow> bool" where
  "expired st nowMs = (case ob_deadlineMs st of None \<Rightarrow> False | Some d \<Rightarrow> nowMs \<ge> d)"

definition failure_outcome :: "sample \<Rightarrow> bool \<Rightarrow> outcome" where
  "failure_outcome s attributable =
    \<lparr>oc_reason = sm_readyReason s, oc_message = sm_readyMessage s, oc_attributable = attributable\<rparr>"

definition applySample :: "date_parse \<Rightarrow> observer_state \<Rightarrow> sample \<Rightarrow> rat \<Rightarrow> observer_state" where
  "applySample parse st s nowMs =
    (case (ob_baseline st, ob_correlation st) of
       (Some b, Some c) \<Rightarrow>
         if sm_uid s \<noteq> bl_uid b then st\<lparr>ob_phase := TargetChanged\<rparr>
         else
           (let polled = st\<lparr>ob_attempt := ob_attempt st + 1, ob_consecutiveErrors := 0\<rparr>
            in if expired polled nowMs then polled\<lparr>ob_phase := TimedOut\<rparr>
               else if isNewEvidence parse b s c
               then (if sm_status s = SyncFailed
                     then polled\<lparr>ob_phase := ObservedFailure, ob_outcome := Some (failure_outcome s (c = Strong))\<rparr>
                     else polled\<lparr>ob_phase := ObservedSuccess\<rparr>)
               else if isNewFailure (ob_priorStatus st) s
               then polled\<lparr>ob_phase := ObservedFailure, ob_outcome := Some (failure_outcome s False)\<rparr>
               else polled)
     | _ \<Rightarrow> st)"

definition after_error :: "observer_state \<Rightarrow> observer_state" where
  "after_error st =
    (let consecutiveErrors = ob_consecutiveErrors st + 1
     in if consecutiveErrors \<ge> MAX_CONSECUTIVE_ERRORS
        then st\<lparr>ob_consecutiveErrors := consecutiveErrors, ob_phase := TimedOut, ob_unavailable := True\<rparr>
        else st\<lparr>ob_consecutiveErrors := consecutiveErrors, ob_attempt := ob_attempt st + 1\<rparr>)"

definition reduceObserver :: "date_parse \<Rightarrow> observer_state \<Rightarrow> observer_event \<Rightarrow> observer_state" where
  "reduceObserver parse st e =
    (if e = ERequest then INITIAL_OBSERVER_STATE\<lparr>ob_phase := Requested\<rparr>
     else if isTerminal (ob_phase st) \<or> ob_phase st = Idle then st
     else
       (case e of
          ERequestFailed \<Rightarrow> if ob_phase st = Requested then INITIAL_OBSERVER_STATE else st
        | EAccepted b c prior nowMs \<Rightarrow>
            if ob_phase st \<noteq> Requested then st
            else INITIAL_OBSERVER_STATE\<lparr>ob_phase := AwaitingObservation, ob_baseline := Some b,
              ob_correlation := Some c, ob_priorStatus := prior, ob_deadlineMs := Some (nowMs + OBSERVE_TIMEOUT_MS)\<rparr>
        | ECancel \<Rightarrow> st\<lparr>ob_phase := Cancelled\<rparr>
        | EClusterChanged \<Rightarrow> st\<lparr>ob_phase := TargetChanged\<rparr>
        | _ \<Rightarrow>
            if ob_phase st \<noteq> AwaitingObservation then st
            else (case e of
                    ESample s nowMs \<Rightarrow> applySample parse st s nowMs
                  | EForbidden \<Rightarrow> st\<lparr>ob_phase := AccessLost\<rparr>
                  | ENotFound \<Rightarrow> st\<lparr>ob_phase := TargetChanged\<rparr>
                  | EError \<Rightarrow> after_error st
                  | ETick nowMs \<Rightarrow> if expired st nowMs then st\<lparr>ob_phase := TimedOut\<rparr> else st
                  | _ \<Rightarrow> st)))"

definition nextPollDelayMs :: "nat \<Rightarrow> rat" where
  "nextPollDelayMs attempt =
    (if attempt = 0 then 1000 else if attempt = 1 then 2000 else if attempt = 2 then 3000 else 5000)"

section \<open>What the page says\<close>

datatype observer_tone = ToneInfo | ToneSuccess | ToneDanger | ToneMuted | ToneWarning

definition failureText :: "observer_state \<Rightarrow> string" where
  "failureText st =
    (let part = (\<lambda>t. case t of None \<Rightarrow> [] | Some s \<Rightarrow> s);
         both = (\<lambda>r m. r @ (if r \<noteq> [] \<and> m \<noteq> [] then '': '' else []) @ m);
         why = (case ob_outcome st of None \<Rightarrow> [] | Some oc \<Rightarrow> both (part (oc_reason oc)) (part (oc_message oc)));
         lead = (if (case ob_outcome st of None \<Rightarrow> False | Some oc \<Rightarrow> oc_attributable oc)
                 then ''Sync failed after your request''
                 else ''A sync failure was observed after your request'')
     in if why \<noteq> [] then lead @ '': '' @ why else lead @ ''.'')"

text \<open>The ellipsis of the waiting lines is written as three dots.\<close>

definition describeObserver :: "observer_state \<Rightarrow> (string \<times> observer_tone) option" where
  "describeObserver st =
    (case ob_phase st of
       Requested \<Rightarrow> Some (''Requesting a sync...'', ToneInfo)
     | AwaitingObservation \<Rightarrow>
         Some (if ob_correlation st = Some Strong
               then ''Sync requested. Waiting for External Secrets Operator to reconcile...''
               else ''Sync requested. Waiting for a change to this ExternalSecret...'', ToneInfo)
     | ObservedSuccess \<Rightarrow>
         Some (if ob_correlation st = Some Strong
               then ''Synced. External Secrets Operator reconciled after your request.''
               else ''A new sync was observed after your request.'', ToneSuccess)
     | ObservedFailure \<Rightarrow> Some (failureText st, ToneDanger)
     | TimedOut \<Rightarrow>
         Some (if ob_unavailable st
               then ''Request accepted, but this ExternalSecret could not be read to confirm the outcome.''
               else ''Request accepted. No new reconciliation observed within 90 s.'', ToneMuted)
     | AccessLost \<Rightarrow>
         Some (''You no longer have access to this ExternalSecret. The refresh may still be in progress.'', ToneWarning)
     | TargetChanged \<Rightarrow>
         Some (''This ExternalSecret was replaced or the cluster changed. Discarded the pending observation.'', ToneWarning)
     | _ \<Rightarrow> None)"

section \<open>The page and its poller\<close>

text \<open>
  \<open>open_polls\<close> are the reads whose answer is still to come, each with whether its controller was
  aborted; timers hold what they were armed with.
\<close>

record eso_page =
  pg_observer :: observer_state
  forceSyncing :: bool
  evidenceEpoch :: nat
  pollTimer :: "rat option"
  deadlineTimer :: "rat option"
  inFlight :: "nat option"
  pg_running :: bool
  open_polls :: "(nat \<times> bool) list"
  next_poll :: nat

definition fresh_page :: eso_page where
  "fresh_page =
    \<lparr>pg_observer = INITIAL_OBSERVER_STATE, forceSyncing = False, evidenceEpoch = 0, pollTimer = None,
     deadlineTimer = None, inFlight = None, pg_running = False, open_polls = [], next_poll = 0\<rparr>"

definition abort_poll :: "nat option \<Rightarrow> (nat \<times> bool) list \<Rightarrow> (nat \<times> bool) list" where
  "abort_poll i ps = map (\<lambda>(j, a). (j, a \<or> i = Some j)) ps"

definition stop_poller :: "eso_page \<Rightarrow> eso_page" where
  "stop_poller p =
    p\<lparr>open_polls := abort_poll (inFlight p) (open_polls p), pollTimer := None, deadlineTimer := None,
      inFlight := None, pg_running := False\<rparr>"

definition dispatch :: "date_parse \<Rightarrow> observer_event \<Rightarrow> eso_page \<Rightarrow> eso_page" where
  "dispatch parse e p =
    (let nxt = reduceObserver parse (pg_observer p) e
     in if nxt = pg_observer p then p
        else
          (let p1 = p\<lparr>pg_observer := nxt\<rparr>
           in if isTerminal (ob_phase nxt)
              then (let p2 = stop_poller p1
                    in if ob_phase nxt = ObservedSuccess \<or> ob_phase nxt = ObservedFailure
                       then p2\<lparr>evidenceEpoch := evidenceEpoch p2 + 1\<rparr> else p2)
              else p1))"

definition waiting :: "eso_page \<Rightarrow> bool" where
  "waiting p \<longleftrightarrow> ob_phase (pg_observer p) = AwaitingObservation"

definition still_waiting :: "(eso_page \<Rightarrow> eso_page) \<Rightarrow> eso_page \<Rightarrow> eso_page" where
  "still_waiting continue p = (if waiting p then continue p else stop_poller p)"

definition schedule_poll :: "eso_page \<Rightarrow> eso_page" where
  "schedule_poll p = p\<lparr>pollTimer := Some (nextPollDelayMs (ob_attempt (pg_observer p)))\<rparr>"

definition poll_fires :: "date_parse \<Rightarrow> rat \<Rightarrow> eso_page \<Rightarrow> eso_page" where
  "poll_fires parse now p =
    still_waiting
      (\<lambda>q. q\<lparr>inFlight := Some (next_poll q), open_polls := open_polls q @ [(next_poll q, False)],
             next_poll := next_poll q + 1\<rparr>)
      (dispatch parse (ETick now) (p\<lparr>pollTimer := None\<rparr>))"

definition close_poll :: "nat \<Rightarrow> eso_page \<Rightarrow> eso_page" where
  "close_poll i p = p\<lparr>open_polls := filter (\<lambda>q. fst q \<noteq> i) (open_polls p)\<rparr>"

text \<open>How a read ends: with the object or nothing, or by a failure with or without a status.\<close>

datatype poll_end = Answer "sample option" | Failure "int option"

definition poll_event :: "poll_end \<Rightarrow> rat \<Rightarrow> observer_event" where
  "poll_event r now =
    (case r of
       Answer (Some s) \<Rightarrow> ESample s now
     | Answer None \<Rightarrow> EError
     | Failure status \<Rightarrow> if status = Some 403 then EForbidden else if status = Some 404 then ENotFound else EError)"

definition poll_ends :: "date_parse \<Rightarrow> nat \<Rightarrow> bool \<Rightarrow> poll_end \<Rightarrow> rat \<Rightarrow> eso_page \<Rightarrow> eso_page" where
  "poll_ends parse i was_aborted r now p =
    (let p0 = close_poll i p
     in if was_aborted then p0
        else still_waiting schedule_poll ((dispatch parse (poll_event r now) p0)\<lparr>inFlight := None\<rparr>))"

definition deadline_fires :: "date_parse \<Rightarrow> rat \<Rightarrow> rat \<Rightarrow> eso_page \<Rightarrow> eso_page" where
  "deadline_fires parse deadlineMs now p =
    still_waiting id
      (dispatch parse (ETick (max now deadlineMs))
        (p\<lparr>deadlineTimer := None, open_polls := abort_poll (inFlight p) (open_polls p)\<rparr>))"

definition begin_polling :: "rat \<Rightarrow> eso_page \<Rightarrow> eso_page" where
  "begin_polling now p =
    (if pg_running p \<or> \<not> waiting p then p
     else schedule_poll (p\<lparr>pg_running := True,
       deadlineTimer := Some (case ob_deadlineMs (pg_observer p) of Some d \<Rightarrow> d | None \<Rightarrow> now)\<rparr>))"

definition onForceSync :: "date_parse \<Rightarrow> eso_page \<Rightarrow> eso_page" where
  "onForceSync parse p =
    (if forceSyncing p \<or> pg_running p then p
     else dispatch parse ERequest (p\<lparr>forceSyncing := True\<rparr>))"

definition sync_accepted ::
  "date_parse \<Rightarrow> baseline \<Rightarrow> correlation \<Rightarrow> eso_status option \<Rightarrow> rat \<Rightarrow> eso_page \<Rightarrow> eso_page" where
  "sync_accepted parse b c prior now p =
    (begin_polling now (dispatch parse (EAccepted b c prior now) p))\<lparr>forceSyncing := False\<rparr>"

text \<open>Refused, or accepted without a baseline.\<close>

definition sync_not_observed :: "date_parse \<Rightarrow> eso_page \<Rightarrow> eso_page" where
  "sync_not_observed parse p = (dispatch parse ERequestFailed p)\<lparr>forceSyncing := False\<rparr>"

definition cluster_changed :: "date_parse \<Rightarrow> eso_page \<Rightarrow> eso_page" where
  "cluster_changed parse p = dispatch parse EClusterChanged (stop_poller p)"

end
