(* ===== verification/Eso_Observer_Runs.thy ===== *)
theory Eso_Observer_Runs
  imports Eso_Observer
begin

text \<open>
  Runs of the page that observes a forced sync: presses, answers to the request, timers, answers
  to polls, cluster switches and leaving the page, in any order; and what they keep.
\<close>

section \<open>Steps\<close>

datatype page_event =
    Press
  | Accepted baseline correlation "eso_status option" rat
  | NotObserved
  | PollTimer rat
  | PollEnds nat poll_end rat
  | Deadline rat
  | ClusterChanged
  | Leave

text \<open>\<open>None\<close> where the event cannot happen.\<close>

fun page_step :: "date_parse \<Rightarrow> page_event \<Rightarrow> eso_page \<Rightarrow> eso_page option" where
  "page_step parse Press p = Some (onForceSync parse p)"
| "page_step parse (Accepted b c prior now) p =
    (if forceSyncing p then Some (sync_accepted parse b c prior now p) else None)"
| "page_step parse NotObserved p = (if forceSyncing p then Some (sync_not_observed parse p) else None)"
| "page_step parse (PollTimer now) p = (if pollTimer p = None then None else Some (poll_fires parse now p))"
| "page_step parse (PollEnds i r now) p =
    (case map_of (open_polls p) i of None \<Rightarrow> None | Some a \<Rightarrow> Some (poll_ends parse i a r now p))"
| "page_step parse (Deadline now) p =
    (case deadlineTimer p of None \<Rightarrow> None | Some d \<Rightarrow> Some (deadline_fires parse d now p))"
| "page_step parse ClusterChanged p = Some (cluster_changed parse p)"
| "page_step parse Leave p = Some (stop_poller p)"

text \<open>
  What happened since the last press that was taken: the request accepted, with the baseline and the
  status the page showed then; reads sent; and reads judged, each with the time it was judged at.
\<close>

datatype page_note =
    NoteAccepted baseline correlation "eso_status option" rat
  | NoteRead nat
  | NoteJudged nat sample rat

fun noted :: "page_event \<Rightarrow> eso_page \<Rightarrow> eso_page \<Rightarrow> page_note list \<Rightarrow> page_note list" where
  "noted Press p q l = (if forceSyncing p \<or> pg_running p then l else [])"
| "noted (Accepted b c prior now) p q l = l @ [NoteAccepted b c prior now]"
| "noted (PollTimer now) p q l = (if next_poll q = next_poll p then l else l @ [NoteRead (next_poll p)])"
| "noted (PollEnds i (Answer (Some s)) now) p q l =
    (if map_of (open_polls p) i = Some False then l @ [NoteJudged i s now] else l)"
| "noted e p q l = l"

inductive page_run :: "date_parse \<Rightarrow> eso_page \<Rightarrow> page_note list \<Rightarrow> bool" for parse :: date_parse where
  start: "page_run parse fresh_page []"
| step: "page_run parse p l \<Longrightarrow> page_step parse e p = Some q \<Longrightarrow> page_run parse q (noted e p q l)"

section \<open>The reducer\<close>

text \<open>A read sent after the acceptance, and one that was also judged.\<close>

definition read_after ::
  "baseline \<Rightarrow> correlation \<Rightarrow> eso_status option \<Rightarrow> rat \<Rightarrow> nat \<Rightarrow> page_note list \<Rightarrow> bool" where
  "read_after b c prior t0 i l \<longleftrightarrow>
    (\<exists>l1 l2 l3. l = l1 @ NoteAccepted b c prior t0 # l2 @ NoteRead i # l3)"

definition judged_after ::
  "baseline \<Rightarrow> correlation \<Rightarrow> eso_status option \<Rightarrow> rat \<Rightarrow> sample \<Rightarrow> rat \<Rightarrow> page_note list \<Rightarrow> bool" where
  "judged_after b c prior t0 s t l \<longleftrightarrow>
    (\<exists>i l1 l2 l3 l4. l = l1 @ NoteAccepted b c prior t0 # l2 @ NoteRead i # l3 @ NoteJudged i s t # l4)"

lemma after_mono:
  "read_after b c prior t0 i l \<Longrightarrow> read_after b c prior t0 i (l @ l')"
  "judged_after b c prior t0 s t l \<Longrightarrow> judged_after b c prior t0 s t (l @ l')"
  by (fastforce simp: read_after_def judged_after_def)+

lemma read_noted: "NoteAccepted b c prior t0 \<in> set l \<Longrightarrow> read_after b c prior t0 i (l @ [NoteRead i])"
  by (fastforce simp: read_after_def in_set_conv_decomp)

lemma judged_noted: "read_after b c prior t0 i l \<Longrightarrow> judged_after b c prior t0 s t (l @ [NoteJudged i s t])"
  by (fastforce simp: read_after_def judged_after_def)

definition observes :: "observer_state \<Rightarrow> baseline \<Rightarrow> correlation \<Rightarrow> rat \<Rightarrow> bool" where
  "observes st b c t0 \<longleftrightarrow>
    ob_baseline st = Some b \<and> ob_correlation st = Some c \<and> ob_deadlineMs st = Some (t0 + OBSERVE_TIMEOUT_MS)"

definition saw_success ::
  "date_parse \<Rightarrow> baseline \<Rightarrow> correlation \<Rightarrow> rat \<Rightarrow> eso_status option \<Rightarrow> page_note list \<Rightarrow> bool" where
  "saw_success parse b c t0 prior l \<longleftrightarrow>
    (\<exists>s t. judged_after b c prior t0 s t l \<and> sm_uid s = bl_uid b \<and> t < t0 + OBSERVE_TIMEOUT_MS \<and>
      isNewEvidence parse b s c \<and> sm_status s \<noteq> SyncFailed)"

definition saw_failure ::
  "date_parse \<Rightarrow> baseline \<Rightarrow> correlation \<Rightarrow> rat \<Rightarrow> eso_status option \<Rightarrow> outcome option \<Rightarrow> page_note list \<Rightarrow> bool" where
  "saw_failure parse b c t0 prior oc l \<longleftrightarrow>
    (\<exists>s t. judged_after b c prior t0 s t l \<and> sm_uid s = bl_uid b \<and> t < t0 + OBSERVE_TIMEOUT_MS \<and>
      sm_status s = SyncFailed \<and> (isNewEvidence parse b s c \<or> prior \<noteq> Some SyncFailed) \<and>
      oc = Some (failure_outcome s (c = Strong \<and> isNewEvidence parse b s c)))"

definition evidence_ok :: "date_parse \<Rightarrow> observer_state \<Rightarrow> page_note list \<Rightarrow> bool" where
  "evidence_ok parse st l \<longleftrightarrow>
    (ob_phase st \<in> {AwaitingObservation, ObservedSuccess, ObservedFailure} \<longrightarrow>
      (\<exists>b c t0. observes st b c t0 \<and> NoteAccepted b c (ob_priorStatus st) t0 \<in> set l \<and>
        (ob_phase st = ObservedSuccess \<longrightarrow> saw_success parse b c t0 (ob_priorStatus st) l) \<and>
        (ob_phase st = ObservedFailure \<longrightarrow> saw_failure parse b c t0 (ob_priorStatus st) (ob_outcome st) l)))"

lemma saw_mono:
  "saw_success parse b c t0 prior l \<Longrightarrow> saw_success parse b c t0 prior (l @ l')"
  "saw_failure parse b c t0 prior oc l \<Longrightarrow> saw_failure parse b c t0 prior oc (l @ l')"
  unfolding saw_success_def saw_failure_def using after_mono(2) by blast+

lemma evidence_mono: "evidence_ok parse st l \<Longrightarrow> evidence_ok parse st (l @ l')"
  unfolding evidence_ok_def using saw_mono by (metis Un_iff set_append)

lemma evidence_other:
  "ob_phase st \<notin> {AwaitingObservation, ObservedSuccess, ObservedFailure} \<Longrightarrow> evidence_ok parse st l"
  by (simp add: evidence_ok_def)

lemma evidence_sample:
  assumes "evidence_ok parse st l" "ob_phase st = AwaitingObservation"
    and read: "\<And>b c t0. observes st b c t0 \<Longrightarrow> read_after b c (ob_priorStatus st) t0 i l"
  shows "evidence_ok parse (applySample parse st s now) (l @ [NoteJudged i s now])"
proof -
  obtain b c t0 where o: "observes st b c t0" "NoteAccepted b c (ob_priorStatus st) t0 \<in> set l"
    using assms(1,2) by (auto simp: evidence_ok_def)
  let ?d = "t0 + OBSERVE_TIMEOUT_MS" and ?l = "l @ [NoteJudged i s now]" and ?prior = "ob_priorStatus st"
  have j: "judged_after b c ?prior t0 s now ?l" by (rule judged_noted [OF read [OF o(1)]])
  note st = o(1) [unfolded observes_def]
  note eval = applySample_def st Let_def expired_def evidence_ok_def observes_def assms(2)
  have fail: "saw_failure parse b c t0 ?prior (Some (failure_outcome s (c = Strong \<and> isNewEvidence parse b s c))) ?l"
    if "sm_uid s = bl_uid b" "now < ?d" "sm_status s = SyncFailed" "isNewEvidence parse b s c \<or> ?prior \<noteq> Some SyncFailed"
    unfolding saw_failure_def using j that by blast
  have succ: "saw_success parse b c t0 ?prior ?l"
    if "sm_uid s = bl_uid b" "now < ?d" "sm_status s \<noteq> SyncFailed" "isNewEvidence parse b s c"
    unfolding saw_success_def using j that by blast
  show ?thesis
  proof (cases "sm_uid s = bl_uid b \<and> now < ?d")
    case False
    then show ?thesis using o(2) by (auto simp: eval not_less)
  next
    case True
    then show ?thesis using fail succ o(2) by (auto simp: eval isNewFailure_def)
  qed
qed

lemma evidence_error:
  assumes "evidence_ok parse st l" "ob_phase st = AwaitingObservation"
  shows "evidence_ok parse (after_error st) l"
  using assms by (auto simp: after_error_def Let_def evidence_ok_def observes_def)

lemma terminal_simps [simp]:
  "\<not> isTerminal Idle" "\<not> isTerminal Requested" "\<not> isTerminal AwaitingObservation" "isTerminal ObservedSuccess"
  "isTerminal ObservedFailure" "isTerminal TimedOut" "isTerminal Cancelled" "isTerminal AccessLost"
  "isTerminal TargetChanged"
  by (simp_all add: isTerminal_def)

lemma phase_cases:
  "isTerminal x \<or> x = Idle \<or> x = Requested \<or> x = AwaitingObservation"
  by (cases x) simp_all

lemma reduce_terminal: "isTerminal (ob_phase st) \<Longrightarrow> e \<noteq> ERequest \<Longrightarrow> reduceObserver parse st e = st"
  by (simp add: reduceObserver_def)

text \<open>Only a sample can carry evidence in; an acceptance brings the baseline.\<close>

lemma reduce_evidence:
  assumes "evidence_ok parse st l" "\<And>s t. e \<noteq> ESample s t" "\<And>b c prior now. e \<noteq> EAccepted b c prior now"
  shows "evidence_ok parse (reduceObserver parse st e) l"
proof (cases e)
  case (EAccepted b c prior now)
  then show ?thesis using assms(3) by blast
next
  case (ESample s t)
  then show ?thesis using assms(2) by blast
qed (use assms(1) evidence_error [OF assms(1)] in
  \<open>auto simp: reduceObserver_def INITIAL_OBSERVER_STATE_def evidence_other\<close>)

lemma reduce_evidence_accepted:
  assumes "evidence_ok parse st l"
  shows "evidence_ok parse (reduceObserver parse st (EAccepted b c prior now)) (l @ [NoteAccepted b c prior now])"
proof (cases "ob_phase st = Requested")
  case True
  then show ?thesis
    by (simp add: reduceObserver_def INITIAL_OBSERVER_STATE_def evidence_ok_def observes_def isTerminal_def)
next
  case False
  then have "reduceObserver parse st (EAccepted b c prior now) = st" by (simp add: reduceObserver_def)
  then show ?thesis using assms by (simp add: evidence_mono)
qed

lemma reduce_evidence_sample:
  assumes "evidence_ok parse st l"
    and "\<And>b c t0. observes st b c t0 \<Longrightarrow> read_after b c (ob_priorStatus st) t0 i l"
  shows "evidence_ok parse (reduceObserver parse st (ESample s t)) (l @ [NoteJudged i s t])"
proof (cases "ob_phase st = AwaitingObservation")
  case True
  then show ?thesis using evidence_sample [OF assms(1) True assms(2)] by (simp add: reduceObserver_def)
next
  case False
  then have "reduceObserver parse st (ESample s t) = st" by (simp add: reduceObserver_def)
  then show ?thesis using assms(1) by (simp add: evidence_mono)
qed

section \<open>The page keeps the reducer's state\<close>

lemma observer_stop [simp]: "pg_observer (stop_poller p) = pg_observer p"
  by (simp add: stop_poller_def)

lemma observer_dispatch [simp]: "pg_observer (dispatch parse e p) = reduceObserver parse (pg_observer p) e"
  by (simp add: dispatch_def Let_def)

lemma observer_steps [simp]:
  "pg_observer (poll_fires parse now p) = reduceObserver parse (pg_observer p) (ETick now)"
  "pg_observer (poll_ends parse i a r now p) =
    (if a then pg_observer p else reduceObserver parse (pg_observer p) (poll_event r now))"
  "pg_observer (deadline_fires parse d now p) = reduceObserver parse (pg_observer p) (ETick (max now d))"
  "pg_observer (onForceSync parse p) =
    (if forceSyncing p \<or> pg_running p then pg_observer p else reduceObserver parse (pg_observer p) ERequest)"
  "pg_observer (sync_accepted parse b c prior now p) = reduceObserver parse (pg_observer p) (EAccepted b c prior now)"
  "pg_observer (sync_not_observed parse p) = reduceObserver parse (pg_observer p) ERequestFailed"
  "pg_observer (cluster_changed parse p) = reduceObserver parse (pg_observer p) EClusterChanged"
  by (simp_all add: poll_fires_def poll_ends_def deadline_fires_def onForceSync_def sync_accepted_def
      sync_not_observed_def cluster_changed_def still_waiting_def begin_polling_def schedule_poll_def
      close_poll_def Let_def)

lemma request_evidence: "evidence_ok parse (reduceObserver parse st ERequest) l"
  by (simp add: reduceObserver_def evidence_ok_def)

section \<open>One chain of polls\<close>

definition polls_ok :: "eso_page \<Rightarrow> bool" where
  "polls_ok p \<longleftrightarrow>
    distinct (map fst (open_polls p)) \<and> (\<forall>q \<in> set (open_polls p). fst q < next_poll p) \<and>
    (\<forall>i. (i, False) \<in> set (open_polls p) \<longleftrightarrow> inFlight p = Some i)"

definition chain_ok :: "eso_page \<Rightarrow> bool" where
  "chain_ok p \<longleftrightarrow>
    (if pg_running p
     then waiting p \<and> \<not> forceSyncing p \<and> deadlineTimer p \<noteq> None \<and>
       deadlineTimer p = ob_deadlineMs (pg_observer p) \<and> (pollTimer p = None \<longleftrightarrow> inFlight p \<noteq> None)
     else pollTimer p = None \<and> deadlineTimer p = None \<and> inFlight p = None)"

lemma abort_poll_fst: "map fst (abort_poll i ps) = map fst ps"
  by (induction ps) (auto simp: abort_poll_def)

lemma abort_poll_in: "(j, False) \<in> set (abort_poll i ps) \<longleftrightarrow> (j, False) \<in> set ps \<and> i \<noteq> Some j"
  by (induction ps) (auto simp: abort_poll_def)

lemma abort_poll_bound: "(\<forall>q \<in> set (abort_poll i ps). fst q < n) \<longleftrightarrow> (\<forall>q \<in> set ps. fst q < n)"
  by (auto simp: abort_poll_def)

lemma stop_ok: "polls_ok p \<Longrightarrow> polls_ok (stop_poller p)" "chain_ok (stop_poller p)"
  by (simp_all add: stop_poller_def polls_ok_def chain_ok_def abort_poll_fst abort_poll_in abort_poll_bound)

lemma polls_ok_observer [simp]: "polls_ok (p\<lparr>pg_observer := st\<rparr>) = polls_ok p"
  by (simp add: polls_ok_def)

text \<open>An event leaves the timers alone unless it ends the wait.\<close>

lemma dispatch_cases:
  obtains (same) "dispatch parse e p = p"
    | (moved) "dispatch parse e p = p\<lparr>pg_observer := reduceObserver parse (pg_observer p) e\<rparr>"
        "\<not> isTerminal (ob_phase (reduceObserver parse (pg_observer p) e))"
    | (ended) n where "dispatch parse e p = (stop_poller (p\<lparr>pg_observer := reduceObserver parse (pg_observer p) e\<rparr>))\<lparr>evidenceEpoch := n\<rparr>"
        "isTerminal (ob_phase (reduceObserver parse (pg_observer p) e))"
proof (cases "reduceObserver parse (pg_observer p) e = pg_observer p")
  case True
  then show thesis using same by (simp add: dispatch_def Let_def)
next
  case False
  show thesis
  proof (cases "isTerminal (ob_phase (reduceObserver parse (pg_observer p) e))")
    case True
    let ?o = "reduceObserver parse (pg_observer p) e"
    have "dispatch parse e p = (stop_poller (p\<lparr>pg_observer := ?o\<rparr>))
        \<lparr>evidenceEpoch := evidenceEpoch p + (if ob_phase ?o = ObservedSuccess \<or> ob_phase ?o = ObservedFailure then 1 else 0)\<rparr>"
      using False True by (simp add: dispatch_def Let_def stop_poller_def)
    then show thesis using True by (rule ended)
  next
    case nt: False
    then show thesis using False moved by (simp add: dispatch_def Let_def)
  qed
qed

lemma dispatch_polls: "polls_ok p \<Longrightarrow> polls_ok (dispatch parse e p)"
  by (cases rule: dispatch_cases [of parse e p])
    (simp_all add: polls_ok_def stop_poller_def abort_poll_fst abort_poll_in abort_poll_bound)

lemma reduce_waiting:
  assumes "ob_phase st = AwaitingObservation" "e \<noteq> ERequest"
  shows "isTerminal (ob_phase (reduceObserver parse st e)) \<or>
    ob_phase (reduceObserver parse st e) = AwaitingObservation \<and>
    ob_deadlineMs (reduceObserver parse st e) = ob_deadlineMs st"
  using assms
  by (cases e) (auto simp: reduceObserver_def applySample_def after_error_def Let_def split: option.split)

lemma dispatch_waiting:
  assumes "waiting p" "e \<noteq> ERequest"
  obtains (on) st where "dispatch parse e p = p\<lparr>pg_observer := st\<rparr>" "ob_phase st = AwaitingObservation"
      "ob_deadlineMs st = ob_deadlineMs (pg_observer p)"
    | (off) st n where "dispatch parse e p = (stop_poller (p\<lparr>pg_observer := st\<rparr>))\<lparr>evidenceEpoch := n\<rparr>"
      "isTerminal (ob_phase st)"
proof (cases rule: dispatch_cases [of parse e p])
  case same
  then show thesis using on [of "pg_observer p"] assms(1) by (simp add: waiting_def)
next
  case moved
  then show thesis using on reduce_waiting [of "pg_observer p" e parse] assms by (auto simp: waiting_def)
next
  case (ended n)
  then show thesis using off by blast
qed

lemma not_request:
  "ETick now \<noteq> ERequest" "poll_event r now \<noteq> ERequest" "EAccepted b c prior now \<noteq> ERequest"
  by (auto simp: poll_event_def split: poll_end.split option.split)

lemma poll_fires_ok:
  assumes "polls_ok p" "chain_ok p" "pollTimer p \<noteq> None"
  shows "polls_ok (poll_fires parse now p) \<and> chain_ok (poll_fires parse now p)"
proof -
  let ?p = "p\<lparr>pollTimer := None\<rparr>"
  have r: "pg_running p" "waiting ?p" "inFlight p = None" "\<not> forceSyncing p" "deadlineTimer p \<noteq> None"
    "deadlineTimer p = ob_deadlineMs (pg_observer p)"
    using assms(2,3) by (auto simp: chain_ok_def waiting_def split: if_splits)
  from r(2) not_request(1) show ?thesis
  proof (cases rule: dispatch_waiting [where e = "ETick now" and parse = parse])
    case (on st)
    have "next_poll p \<notin> fst ` set (open_polls p)" using assms(1) by (force simp: polls_ok_def)
    then show ?thesis
      using on r assms(1)
      by (auto simp: poll_fires_def still_waiting_def waiting_def polls_ok_def chain_ok_def less_Suc_eq)
  next
    case (off st n)
    then show ?thesis
      using assms(1)
      by (auto simp: poll_fires_def still_waiting_def waiting_def polls_ok_def chain_ok_def stop_poller_def
          abort_poll_fst abort_poll_in abort_poll_bound)
  qed
qed

lemmas poll_defs = still_waiting_def schedule_poll_def waiting_def polls_ok_def chain_ok_def stop_poller_def
  abort_poll_fst abort_poll_in abort_poll_bound

lemma close_poll_ok:
  assumes "polls_ok p" "(i, False) \<in> set (open_polls p)"
  shows "polls_ok ((close_poll i p)\<lparr>inFlight := None\<rparr>)"
  using assms by (auto simp: polls_ok_def close_poll_def distinct_map inj_on_def)

lemma close_aborted_ok:
  assumes "polls_ok p" "(i, True) \<in> set (open_polls p)"
  shows "polls_ok (close_poll i p)"
proof -
  have "(i, False) \<notin> set (open_polls p)"
    using assms eq_key_imp_eq_value [of "open_polls p" i True False] by (auto simp: polls_ok_def)
  then have "inFlight p \<noteq> Some i" using assms(1) by (auto simp: polls_ok_def)
  then show ?thesis using assms(1) by (auto simp: polls_ok_def close_poll_def distinct_map inj_on_def)
qed

lemma poll_ends_ok:
  assumes "polls_ok p" "chain_ok p" "(i, a) \<in> set (open_polls p)"
  shows "polls_ok (poll_ends parse i a r now p) \<and> chain_ok (poll_ends parse i a r now p)"
proof (cases a)
  case True
  then show ?thesis
    using assms close_aborted_ok [of p i] by (auto simp: poll_ends_def close_poll_def chain_ok_def waiting_def)
next
  case False
  then have "inFlight p = Some i" using assms(1,3) by (simp add: polls_ok_def)
  then have run: "pg_running p" "waiting (close_poll i p)" "\<not> forceSyncing p" "deadlineTimer p \<noteq> None"
    "deadlineTimer p = ob_deadlineMs (pg_observer p)" "pollTimer p = None"
    using assms(2) by (auto simp: chain_ok_def waiting_def close_poll_def split: if_splits)
  have closed: "polls_ok ((close_poll i p)\<lparr>inFlight := None\<rparr>)"
    using close_poll_ok [OF assms(1)] assms(3) False by simp
  from run(2) not_request(2) show ?thesis
  proof (cases rule: dispatch_waiting [where e = "poll_event r now" and parse = parse])
    case (on st)
    then show ?thesis
      using False run closed by (auto simp: poll_ends_def Let_def poll_defs close_poll_def)
  next
    case (off st n)
    then have "\<not> waiting (dispatch parse (poll_event r now) (close_poll i p))" by (auto simp: waiting_def)
    moreover have "polls_ok (dispatch parse (poll_event r now) (close_poll i p))"
      using closed off by (auto simp: polls_ok_def stop_poller_def close_poll_def abort_poll_fst abort_poll_in abort_poll_bound)
    ultimately show ?thesis
      using False off closed
      by (auto simp: poll_ends_def Let_def poll_defs close_poll_def)
  qed
qed

lemma deadline_fires_ends:
  assumes "chain_ok p" "deadlineTimer p = Some d"
  shows "deadline_fires parse d now p = stop_poller (p\<lparr>pg_observer := (pg_observer p)\<lparr>ob_phase := TimedOut\<rparr>\<rparr>)"
proof -
  have w: "ob_phase (pg_observer p) = AwaitingObservation" "ob_deadlineMs (pg_observer p) = Some d"
    using assms by (auto simp: chain_ok_def waiting_def split: if_splits)
  have idem: "abort_poll None (abort_poll i ps) = abort_poll i ps"
    "abort_poll i (abort_poll i ps) = abort_poll i ps" for i ps
    by (auto simp: abort_poll_def)
  have "(pg_observer p)\<lparr>ob_phase := TimedOut\<rparr> \<noteq> pg_observer p"
  proof
    assume "(pg_observer p)\<lparr>ob_phase := TimedOut\<rparr> = pg_observer p"
    then have "ob_phase ((pg_observer p)\<lparr>ob_phase := TimedOut\<rparr>) = ob_phase (pg_observer p)" by (rule arg_cong)
    then show False unfolding w(1) by simp
  qed
  then show ?thesis
    using w
    by (auto simp: deadline_fires_def still_waiting_def waiting_def dispatch_def Let_def reduceObserver_def
        expired_def stop_poller_def idem)
qed

lemma onForceSync_ok:
  assumes "polls_ok p" "chain_ok p"
  shows "polls_ok (onForceSync parse p) \<and> chain_ok (onForceSync parse p)"
proof (cases "forceSyncing p \<or> pg_running p")
  case False
  then have idle: "chain_ok (p\<lparr>forceSyncing := True\<rparr>)" "polls_ok (p\<lparr>forceSyncing := True\<rparr>)"
    using assms by (simp_all add: chain_ok_def polls_ok_def)
  then show ?thesis
    using False by (cases rule: dispatch_cases [of parse ERequest "p\<lparr>forceSyncing := True\<rparr>"])
      (auto simp: onForceSync_def chain_ok_def poll_defs)
qed (use assms in \<open>simp add: onForceSync_def\<close>)

lemma idle_dispatch_ok:
  assumes "polls_ok p" "chain_ok p" "\<not> pg_running p"
  shows "polls_ok (dispatch parse e p)" "chain_ok (dispatch parse e p)" "\<not> pg_running (dispatch parse e p)"
    "forceSyncing (dispatch parse e p) = forceSyncing p"
  using assms by (cases rule: dispatch_cases [of parse e p]; auto simp: chain_ok_def poll_defs)+

lemma syncing_idle: "chain_ok p \<Longrightarrow> forceSyncing p \<Longrightarrow> \<not> pg_running p"
  by (auto simp: chain_ok_def)

lemma chain_ok_syncing: "chain_ok p \<Longrightarrow> \<not> pg_running p \<Longrightarrow> chain_ok (p\<lparr>forceSyncing := b\<rparr>)"
  "polls_ok p \<Longrightarrow> polls_ok (p\<lparr>forceSyncing := b\<rparr>)"
  by (simp_all add: chain_ok_def polls_ok_def)

lemma accepted_ok:
  assumes "polls_ok p" "chain_ok p" "forceSyncing p" "evidence_ok parse (pg_observer p) l"
  shows "polls_ok (sync_accepted parse b c prior now p) \<and> chain_ok (sync_accepted parse b c prior now p)"
proof -
  let ?q = "dispatch parse (EAccepted b c prior now) p"
  note ok = idle_dispatch_ok [OF assms(1,2) syncing_idle [OF assms(2,3)], of parse "EAccepted b c prior now"]
  have "evidence_ok parse (pg_observer ?q) (l @ [NoteAccepted b c prior now])"
    using reduce_evidence_accepted [OF assms(4)] by simp
  then have "waiting ?q \<Longrightarrow> ob_deadlineMs (pg_observer ?q) \<noteq> None"
    by (auto simp: evidence_ok_def observes_def waiting_def)
  then show ?thesis
    using ok
    by (auto simp: sync_accepted_def begin_polling_def schedule_poll_def chain_ok_def polls_ok_def waiting_def)
qed

lemma page_step_ok:
  assumes "polls_ok p" "chain_ok p" "evidence_ok parse (pg_observer p) l" "page_step parse e p = Some q"
  shows "polls_ok q \<and> chain_ok q"
proof (cases e)
  case Press
  then show ?thesis using assms onForceSync_ok by auto
next
  case (Accepted b c prior now)
  then show ?thesis using assms accepted_ok by (auto split: if_splits)
next
  case NotObserved
  then have "forceSyncing p" "q = sync_not_observed parse p" using assms(4) by (auto split: if_splits)
  then show ?thesis
    using idle_dispatch_ok [OF assms(1,2) syncing_idle] assms(2) chain_ok_syncing
    by (simp add: sync_not_observed_def)
next
  case (PollTimer now)
  then show ?thesis using assms poll_fires_ok by (auto split: if_splits)
next
  case (PollEnds i r now)
  then obtain a where "map_of (open_polls p) i = Some a" "q = poll_ends parse i a r now p"
    using assms(4) by (auto split: option.splits)
  then show ?thesis using poll_ends_ok [OF assms(1,2) map_of_SomeD] by simp
next
  case (Deadline now)
  then obtain d where "deadlineTimer p = Some d" "q = deadline_fires parse d now p"
    using assms(4) by (auto split: option.splits)
  then have "q = stop_poller (p\<lparr>pg_observer := (pg_observer p)\<lparr>ob_phase := TimedOut\<rparr>\<rparr>)"
    using deadline_fires_ends [OF assms(2)] by simp
  then show ?thesis using stop_ok assms(1) by simp
next
  case ClusterChanged
  then show ?thesis
    using assms idle_dispatch_ok [of "stop_poller p" parse EClusterChanged] stop_ok [of p]
    by (auto simp: cluster_changed_def stop_poller_def)
next
  case Leave
  then show ?thesis using assms stop_ok by auto
qed

subsection \<open>The reads behind the evidence\<close>

definition reads_noted :: "eso_page \<Rightarrow> page_note list \<Rightarrow> bool" where
  "reads_noted p l \<longleftrightarrow>
    (\<forall>i b c t0. inFlight p = Some i \<and> observes (pg_observer p) b c t0 \<longrightarrow>
      read_after b c (ob_priorStatus (pg_observer p)) t0 i l)"

lemma observes_unique:
  "observes st b c t0 \<Longrightarrow> observes st b' c' t0' \<Longrightarrow> b = b' \<and> c = c' \<and> t0 = t0'"
  by (simp add: observes_def)

lemma noted_extends: "e \<noteq> Press \<Longrightarrow> \<exists>l'. noted e p q l = l @ l'"
  by (cases "(e, p, q, l)" rule: noted.cases) auto

lemma reads_none: "inFlight q = None \<Longrightarrow> reads_noted q l"
  by (simp add: reads_noted_def)

lemma dispatch_idle: "inFlight p = None \<Longrightarrow> inFlight (dispatch parse e p) = None"
  by (cases rule: dispatch_cases [of parse e p]) (simp_all add: stop_poller_def)

lemma idle_inFlight: "chain_ok p \<Longrightarrow> \<not> pg_running p \<Longrightarrow> inFlight p = None"
  by (simp add: chain_ok_def)

lemma reads_poll_fires:
  assumes "chain_ok p" "pollTimer p \<noteq> None" "evidence_ok parse (pg_observer p) l"
  shows "reads_noted (poll_fires parse now p) (noted (PollTimer now) p (poll_fires parse now p) l)"
proof -
  let ?p = "p\<lparr>pollTimer := None\<rparr>" and ?q = "poll_fires parse now p"
  have "waiting ?p" using assms(1,2) by (auto simp: chain_ok_def waiting_def split: if_splits)
  from this not_request(1) show ?thesis
  proof (cases rule: dispatch_waiting [where e = "ETick now" and parse = parse])
    case (on st)
    then have q: "?q = p\<lparr>pollTimer := None, pg_observer := st, inFlight := Some (next_poll p),
        open_polls := open_polls p @ [(next_poll p, False)], next_poll := next_poll p + 1\<rparr>"
      by (simp add: poll_fires_def still_waiting_def waiting_def)
    have "evidence_ok parse (pg_observer ?q) l" using reduce_evidence [OF assms(3)] by simp
    then obtain b c t0 where "observes st b c t0" "NoteAccepted b c (ob_priorStatus st) t0 \<in> set l"
      using on(2) q by (auto simp: evidence_ok_def)
    then show ?thesis
      using observes_unique read_noted by (fastforce simp: reads_noted_def q)
  next
    case (off st n)
    then have "inFlight ?q = None" by (auto simp: poll_fires_def still_waiting_def waiting_def stop_poller_def)
    then show ?thesis by (rule reads_none)
  qed
qed

lemma reads_step:
  assumes "chain_ok p" "evidence_ok parse (pg_observer p) l" "reads_noted p l" "page_step parse e p = Some q"
  shows "reads_noted q (noted e p q l)"
proof (cases e)
  case Press
  then show ?thesis
    using assms dispatch_idle idle_inFlight [OF assms(1)] by (auto simp: onForceSync_def intro: reads_none)
next
  case (Accepted b c prior now)
  then have "inFlight p = None" "q = sync_accepted parse b c prior now p"
    using assms(1,4) idle_inFlight syncing_idle by (auto split: if_splits)
  then show ?thesis
    using dispatch_idle by (auto simp: sync_accepted_def begin_polling_def schedule_poll_def intro!: reads_none)
next
  case NotObserved
  then have "inFlight p = None" "q = sync_not_observed parse p"
    using assms(1,4) idle_inFlight syncing_idle by (auto split: if_splits)
  then show ?thesis using dispatch_idle by (auto simp: sync_not_observed_def intro!: reads_none)
next
  case (PollTimer now)
  then have "pollTimer p \<noteq> None" "q = poll_fires parse now p" using assms(4) by (auto split: if_splits)
  then show ?thesis using reads_poll_fires [OF assms(1) _ assms(2)] PollTimer by simp
next
  case (PollEnds i r now)
  then obtain a where a: "map_of (open_polls p) i = Some a" "q = poll_ends parse i a r now p"
    using assms(4) by (auto split: option.splits)
  obtain l' where l': "noted e p q l = l @ l'" using noted_extends PollEnds by blast
  show ?thesis
  proof (cases a)
    case True
    then show ?thesis
      using a assms(3) l' after_mono(1) by (auto simp: reads_noted_def poll_ends_def close_poll_def)
  next
    case False
    then show ?thesis
      using a by (auto simp: poll_ends_def Let_def still_waiting_def schedule_poll_def stop_poller_def intro!: reads_none)
  qed
next
  case (Deadline now)
  then show ?thesis
    using assms(1,4) deadline_fires_ends [OF assms(1)]
    by (auto simp: stop_poller_def intro!: reads_none split: option.splits)
next
  case ClusterChanged
  then show ?thesis
    using assms(4) dispatch_idle by (auto simp: cluster_changed_def stop_poller_def intro!: reads_none)
next
  case Leave
  then show ?thesis using assms(4) by (auto simp: stop_poller_def intro!: reads_none)
qed

lemma noted_step:
  assumes "polls_ok p" "evidence_ok parse (pg_observer p) l" "reads_noted p l" "page_step parse e p = Some q"
  shows "evidence_ok parse (pg_observer q) (noted e p q l)"
proof (cases e)
  case (PollEnds i r now)
  then obtain a where a: "map_of (open_polls p) i = Some a" "q = poll_ends parse i a r now p"
    using assms(4) by (auto split: option.splits)
  obtain l' where l': "noted e p q l = l @ l'" using noted_extends PollEnds by blast
  show ?thesis
  proof (cases "\<exists>s. \<not> a \<and> r = Answer (Some s)")
    case True
    then obtain s where s: "\<not> a" "r = Answer (Some s)" by blast
    then have "inFlight p = Some i" using assms(1) map_of_SomeD [OF a(1)] by (simp add: polls_ok_def)
    then show ?thesis
      using reduce_evidence_sample [OF assms(2), of i s now] assms(3) s a PollEnds
      by (simp add: reads_noted_def poll_event_def)
  next
    case False
    then have "a \<or> (\<forall>s t. poll_event r now \<noteq> ESample s t)"
      by (auto simp: poll_event_def split: poll_end.split option.split)
    moreover have "\<forall>b c prior now'. poll_event r now \<noteq> EAccepted b c prior now'"
      by (auto simp: poll_event_def split: poll_end.split option.split)
    ultimately show ?thesis
      using a l' assms(2) reduce_evidence [OF assms(2), of "poll_event r now"] by (auto intro: evidence_mono)
  qed
next
  case (Accepted b c prior now)
  then show ?thesis using assms reduce_evidence_accepted by (auto split: if_splits)
next
  case Press
  then show ?thesis using assms request_evidence by auto
next
  case (PollTimer now)
  have "evidence_ok parse (reduceObserver parse (pg_observer p) (ETick now)) l" by (rule reduce_evidence [OF assms(2)]) simp_all
  then show ?thesis using assms(4) PollTimer by (auto split: if_splits intro: evidence_mono)
qed (use assms in \<open>auto split: if_splits option.splits intro: reduce_evidence\<close>)

lemma page_run_inv:
  "page_run parse p l \<Longrightarrow> polls_ok p \<and> chain_ok p \<and> evidence_ok parse (pg_observer p) l \<and> reads_noted p l"
proof (induction rule: page_run.induct)
  case start
  show ?case
    by (simp add: fresh_page_def polls_ok_def chain_ok_def INITIAL_OBSERVER_STATE_def evidence_ok_def reads_noted_def)
next
  case (step p l e q)
  then show ?case using page_step_ok noted_step reads_step by blast
qed

lemma page_run_ok: "page_run parse p l \<Longrightarrow> polls_ok p \<and> chain_ok p"
  using page_run_inv by blast

section \<open>Properties\<close>

text \<open>
  Claim C14. The page reports an outcome of a forced sync only on a read of its own. Since the press,
  the request was accepted with some baseline, a read was sent after that, and its answer, for the
  same object, was judged within ninety seconds of the acceptance. A success rests on a read that
  shows a reconcile newer than the baseline and no failure. A failure rests on a read that shows a
  failing object; without newer evidence it is reported only if the status the page showed at the
  acceptance, which may be stale, was not a failure already. It is laid to the request exactly when
  the evidence is strong, a later refresh time; and what it quotes is what that read said.
\<close>

theorem sync_outcome_rests_on_later_read:
  assumes "page_run parse p l" and "ob_phase (pg_observer p) \<in> {ObservedSuccess, ObservedFailure}"
  shows "\<exists>b c prior t0 i s t l1 l2 l3 l4.
    l = l1 @ NoteAccepted b c prior t0 # l2 @ NoteRead i # l3 @ NoteJudged i s t # l4 \<and>
    sm_uid s = bl_uid b \<and> t < t0 + OBSERVE_TIMEOUT_MS \<and>
    (if ob_phase (pg_observer p) = ObservedSuccess
     then isNewEvidence parse b s c \<and> sm_status s \<noteq> SyncFailed
     else sm_status s = SyncFailed \<and> (isNewEvidence parse b s c \<or> prior \<noteq> Some SyncFailed) \<and>
       ob_outcome (pg_observer p) =
         Some \<lparr>oc_reason = sm_readyReason s, oc_message = sm_readyMessage s,
               oc_attributable = (c = Strong \<and> isNewEvidence parse b s c)\<rparr>)"
proof -
  let ?o = "pg_observer p"
  obtain b c t0 where o:
    "ob_phase ?o = ObservedSuccess \<longrightarrow> saw_success parse b c t0 (ob_priorStatus ?o) l"
    "ob_phase ?o = ObservedFailure \<longrightarrow> saw_failure parse b c t0 (ob_priorStatus ?o) (ob_outcome ?o) l"
    using page_run_inv [OF assms(1)] assms(2) unfolding evidence_ok_def by auto
  show ?thesis
  proof (cases "ob_phase ?o = ObservedSuccess")
    case True
    then obtain s t where s: "judged_after b c (ob_priorStatus ?o) t0 s t l" "sm_uid s = bl_uid b"
      "t < t0 + OBSERVE_TIMEOUT_MS" "isNewEvidence parse b s c" "sm_status s \<noteq> SyncFailed"
      using o(1) by (auto simp: saw_success_def)
    then show ?thesis using True unfolding judged_after_def by fastforce
  next
    case False
    then obtain s t where s: "judged_after b c (ob_priorStatus ?o) t0 s t l" "sm_uid s = bl_uid b"
      "t < t0 + OBSERVE_TIMEOUT_MS" "sm_status s = SyncFailed"
      "isNewEvidence parse b s c \<or> ob_priorStatus ?o \<noteq> Some SyncFailed"
      "ob_outcome ?o = Some (failure_outcome s (c = Strong \<and> isNewEvidence parse b s c))"
      using o(2) assms(2) by (auto simp: saw_failure_def)
    then show ?thesis using False unfolding judged_after_def failure_outcome_def by fastforce
  qed
qed

text \<open>A press that is accepted, then one poll that finds a later refresh time.\<close>

definition sample_parse :: date_parse where
  "sample_parse s = Some (rat_of_nat (length s))"

definition sample_baseline :: baseline where
  "sample_baseline =
    \<lparr>bl_uid = ''u1'', bl_resourceVersion = ''1'', bl_generation = None, bl_refreshTime = Some ''t'',
     bl_readyLastTransitionTime = None, bl_syncedResourceVersion = None, bl_requestedAt = ''t''\<rparr>"

definition sample_read :: sample where
  "sample_read =
    \<lparr>sm_uid = ''u1'', sm_status = Synced, sm_lastSyncTime = Some ''tt'', sm_syncedResourceVersion = None,
     sm_readyReason = None, sm_readyMessage = None\<rparr>"

fun page_steps ::
  "date_parse \<Rightarrow> page_event list \<Rightarrow> eso_page \<Rightarrow> page_note list \<Rightarrow> (eso_page \<times> page_note list) option" where
  "page_steps parse [] p l = Some (p, l)"
| "page_steps parse (e # es) p l =
    (case page_step parse e p of None \<Rightarrow> None | Some q \<Rightarrow> page_steps parse es q (noted e p q l))"

lemma page_steps_run: "page_steps parse es p l = Some (q, l') \<Longrightarrow> page_run parse p l \<Longrightarrow> page_run parse q l'"
  by (induction es arbitrary: p l) (auto split: option.splits intro: page_run.step)

lemmas page_eval = fresh_page_def onForceSync_def sync_accepted_def poll_fires_def poll_ends_def poll_event_def
  dispatch_def stop_poller_def begin_polling_def schedule_poll_def still_waiting_def waiting_def close_poll_def
  reduceObserver_def applySample_def INITIAL_OBSERVER_STATE_def expired_def isNewEvidence_def parseMs_def
  sample_parse_def sample_baseline_def sample_read_def OBSERVE_TIMEOUT_MS_def Let_def

definition accepted_press :: "page_note list" where
  "accepted_press = [NoteAccepted sample_baseline Strong (Some Synced) 0]"

definition failing_read :: sample where
  "failing_read = sample_read\<lparr>sm_status := SyncFailed, sm_lastSyncTime := Some ''t'', sm_readyReason := Some ''NoStore''\<rparr>"

lemma sample_pages:
  "\<exists>p. page_run sample_parse p accepted_press \<and> pg_running p"
  "\<exists>p. page_run sample_parse p (accepted_press @ [NoteRead 0, NoteJudged 0 failing_read 1000]) \<and>
     ob_phase (pg_observer p) = ObservedFailure"
proof -
  let ?two = "[Press, Accepted sample_baseline Strong (Some Synced) 0]"
  let ?all = "?two @ [PollTimer 1000, PollEnds 0 (Answer (Some failing_read)) 1000]"
  have "\<exists>p. page_steps sample_parse ?two fresh_page [] = Some (p, accepted_press) \<and> pg_running p"
    by (simp add: page_eval accepted_press_def)
  then show "\<exists>p. page_run sample_parse p accepted_press \<and> pg_running p"
    using page_steps_run page_run.start by blast
  have "\<exists>p. page_steps sample_parse ?all fresh_page [] =
      Some (p, accepted_press @ [NoteRead 0, NoteJudged 0 failing_read 1000]) \<and> ob_phase (pg_observer p) = ObservedFailure"
    by (simp add: page_eval accepted_press_def failing_read_def isNewFailure_def)
  then show "\<exists>p. page_run sample_parse p (accepted_press @ [NoteRead 0, NoteJudged 0 failing_read 1000]) \<and>
      ob_phase (pg_observer p) = ObservedFailure"
    using page_steps_run page_run.start by blast
qed

text \<open>A failure without newer evidence: reported, quoted, and not laid to the request.\<close>

theorem sync_outcome_rests_on_later_read_witness:
  "\<exists>p oc. page_run sample_parse p (accepted_press @ [NoteRead 0, NoteJudged 0 failing_read 1000]) \<and>
     ob_phase (pg_observer p) = ObservedFailure \<and> ob_outcome (pg_observer p) = Some oc \<and>
     oc_reason oc = Some ''NoStore'' \<and> \<not> oc_attributable oc"
proof -
  let ?l = "accepted_press @ [NoteRead 0, NoteJudged 0 failing_read 1000]"
  obtain p where p: "page_run sample_parse p ?l" "ob_phase (pg_observer p) = ObservedFailure"
    using sample_pages(2) by blast
  then have "ob_phase (pg_observer p) \<in> {ObservedSuccess, ObservedFailure}" by simp
  from sync_outcome_rests_on_later_read [OF p(1) this] p(2)
  obtain b c prior t0 i s t l1 l2 l3 l4 where l: "?l = l1 @ NoteAccepted b c prior t0 # l2 @ NoteRead i # l3 @ NoteJudged i s t # l4"
    and oc: "ob_outcome (pg_observer p) = Some \<lparr>oc_reason = sm_readyReason s, oc_message = sm_readyMessage s,
      oc_attributable = (c = Strong \<and> isNewEvidence sample_parse b s c)\<rparr>"
    by auto
  have "NoteJudged i s t \<in> set ?l" "NoteAccepted b c prior t0 \<in> set ?l" unfolding l by simp_all
  then have "s = failing_read" "b = sample_baseline" "c = Strong" by (simp_all add: accepted_press_def)
  then show ?thesis
    using p oc by (auto simp: failing_read_def sample_read_def sample_baseline_def isNewEvidence_def parseMs_def sample_parse_def)
qed

text \<open>
  There is one chain of polls: at most one read is unanswered and not aborted, and while
  the page observes either that read or the timer of the next one is pending, never both. When it
  does not observe, nothing is armed and every unanswered read is aborted.
\<close>

theorem one_chain_of_polls:
  assumes "page_run parse p l"
  shows "length (filter (\<lambda>q. \<not> snd q) (open_polls p)) + (if pollTimer p = None then 0 else 1) =
    (if pg_running p then 1 else 0)"
proof -
  note ok = page_run_ok [OF assms]
  let ?f = "filter (\<lambda>q. \<not> snd q) (open_polls p)"
  have iff: "x \<in> set ?f \<longleftrightarrow> (\<exists>i. inFlight p = Some i \<and> x = (i, False))" for x
    using ok by (cases x) (auto simp: polls_ok_def)
  have d: "distinct ?f" using ok by (simp add: polls_ok_def distinct_map)
  have "set ?f = (case inFlight p of None \<Rightarrow> {} | Some i \<Rightarrow> {(i, False)})"
    by (rule set_eqI) (simp only: iff, simp split: option.split)
  then have "length ?f = (if inFlight p = None then 0 else 1)"
    using distinct_card [OF d] by (simp split: option.splits)
  then show ?thesis using ok by (auto simp: chain_ok_def split: if_splits)
qed

text \<open>
  Claim C28. The wait always ends: while the page observes, the deadline timer is armed for the
  observation's own deadline, and when it fires, whatever the clock then reads and even if a read
  never answers, the page reports a timeout, disarms everything and aborts every unanswered read.
\<close>

theorem observation_always_ends:
  assumes "page_run parse p l" and "pg_running p"
  shows "\<exists>d. deadlineTimer p = Some d \<and> ob_deadlineMs (pg_observer p) = Some d \<and>
    (\<forall>now. \<exists>q. page_step parse (Deadline now) p = Some q \<and> ob_phase (pg_observer q) = TimedOut \<and>
      \<not> pg_running q \<and> pollTimer q = None \<and> deadlineTimer q = None \<and> (\<forall>(i, a) \<in> set (open_polls q). a))"
proof -
  note ok = page_run_ok [OF assms(1)]
  obtain d where d: "deadlineTimer p = Some d" "ob_deadlineMs (pg_observer p) = Some d"
    using ok assms(2) by (auto simp: chain_ok_def)
  let ?q = "stop_poller (p\<lparr>pg_observer := (pg_observer p)\<lparr>ob_phase := TimedOut\<rparr>\<rparr>)"
  have q: "page_step parse (Deadline now) p = Some ?q" for now
    using d deadline_fires_ends [of p d parse now] ok by simp
  have "polls_ok ?q" using ok stop_ok by simp
  then have "(i, False) \<notin> set (open_polls ?q)" for i by (simp add: polls_ok_def stop_poller_def)
  then have "\<forall>(i, a) \<in> set (open_polls ?q). a" by (metis (full_types) case_prodI2)
  then show ?thesis using d q by (auto simp: stop_poller_def)
qed

theorem observation_always_ends_witness:
  "\<exists>p q. page_run sample_parse p accepted_press \<and> pg_running p \<and> page_step sample_parse (Deadline 5) p = Some q \<and>
     ob_phase (pg_observer q) = TimedOut"
proof -
  obtain p where p: "page_run sample_parse p accepted_press" "pg_running p" using sample_pages(1) by blast
  then show ?thesis using observation_always_ends [OF p] by blast
qed

text \<open>
  A reported outcome is final: once the observation has ended, no timer, late answer or
  cluster switch changes what is reported; only a new press starts over.
\<close>

theorem reported_outcome_final:
  assumes "isTerminal (ob_phase (pg_observer p))" and "e \<noteq> Press" and "page_step parse e p = Some q"
  shows "pg_observer q = pg_observer p"
  using assms reduce_terminal [OF assms(1), of _ parse] not_request(2)
  by (cases e) (auto split: if_splits option.splits)

text \<open>
  Leaving the page while the request is unanswered does not end the observation: the acceptance
  that arrives afterwards starts the polls of a page that is gone.
\<close>

lemma acceptance_after_leave_polls:
  "\<exists>q. page_steps sample_parse [Press, Leave, Accepted sample_baseline Strong None 0] fresh_page [] = Some (q, [NoteAccepted sample_baseline Strong None 0]) \<and>
     pg_running q \<and> pollTimer q = Some 1000"
  by (simp add: page_eval nextPollDelayMs_def)

end
