(* ===== verification/Api_Transport.thy ===== *)
theory Api_Transport
  imports Pending_Apply
begin

text \<open>
  The browser's API client and session (\<open>src/frontend/lib/api.ts\<close>, \<open>src/frontend/lib/auth.ts\<close>,
  \<open>src/frontend/src/lib/session-boot.ts\<close>): the module variables and signals are one record, and
  every asynchronous function is cut at its awaits, so any number of requests interleave with the
  single token refresh, logins, logouts, cluster switches and each other. The server is the
  environment: its answers are arguments of the steps. Header names are lower-case, as \<open>Headers\<close>
  keeps them.
\<close>

section \<open>Requests and answers\<close>

record request_init =
  rq_path :: string
  rq_method :: "string option"
  rq_clusterId :: "string option"
  rq_body :: "string option"
  rq_headers :: "(string \<times> string) list"

record fetch_request =
  ft_url :: string
  ft_method :: "string option"
  ft_headers :: "(string \<times> string) list"
  ft_body :: "string option"

record http_response =
  rs_status :: int
  rs_statusText :: string
  rs_json :: "json option"

definition truthy :: "string option \<Rightarrow> bool" where
  "truthy s = (case s of None \<Rightarrow> False | Some t \<Rightarrow> t \<noteq> [])"

definition set_when :: "bool \<Rightarrow> string \<Rightarrow> string \<Rightarrow> (string \<times> string) list \<Rightarrow> (string \<times> string) list" where
  "set_when b k v hs = (if b then set_key k v hs else hs)"

definition doFetch :: "request_init \<Rightarrow> string \<Rightarrow> string option \<Rightarrow> fetch_request" where
  "doFetch init targetCluster token =
    (let h1 = set_when (truthy token) ''authorization'' (''Bearer '' @ (case token of None \<Rightarrow> [] | Some t \<Rightarrow> t))
                (rq_headers init);
         h2 = set_key ''x-cluster-id'' targetCluster h1;
         h3 = set_when (map_of h2 ''content-type'' = None \<and> truthy (rq_body init)) ''content-type'' ''application/json'' h2;
         h4 = set_when (truthy (rq_method init) \<and> rq_method init \<noteq> Some ''GET'') ''x-requested-with'' ''XMLHttpRequest'' h3
     in \<lparr>ft_url = ''/api'' @ rq_path init, ft_method = rq_method init, ft_headers = h4, ft_body = rq_body init\<rparr>)"

definition response_ok :: "http_response \<Rightarrow> bool" where
  "response_ok r \<longleftrightarrow> 200 \<le> rs_status r \<and> rs_status r < 300"

datatype send_outcome =
    SendOk http_response
  | SendApiError (se_status: int) (se_code: json) (se_detail: json) (se_reason: "json option")
  | SendThrew

text \<open>\<open>errorBody?.error?.[key]\<close>, with \<open>null\<close> read as missing by the caller's \<open>??\<close>.\<close>

definition error_field :: "json option \<Rightarrow> string \<Rightarrow> json option" where
  "error_field errorBody key = opt_field key (obj (opt_field ''error'' (obj errorBody)))"

definition coalesce :: "json option \<Rightarrow> json \<Rightarrow> json" where
  "coalesce v d = (case v of None \<Rightarrow> d | Some JNull \<Rightarrow> d | Some w \<Rightarrow> w)"

definition error_of :: "http_response \<Rightarrow> send_outcome" where
  "error_of r =
    SendApiError (rs_status r) (coalesce (error_field (rs_json r) ''code'') (JNum (Num (of_int (rs_status r)))))
      (coalesce (error_field (rs_json r) ''message'') (JStr (rs_statusText r)))
      (error_field (rs_json r) ''reason'')"

definition session_expired :: send_outcome where
  "session_expired = SendApiError 401 (JNum (Num 401)) (JStr ''Session expired'') None"

text \<open>\<open>api()\<close>: the envelope's \<open>data\<close>; the outer \<open>None\<close> is an exception.\<close>

definition api_data :: "send_outcome \<Rightarrow> json option option" where
  "api_data oc =
    (case oc of
       SendOk r \<Rightarrow>
         if rs_status r = 204 then Some None
         else (case rs_json r of
                 None \<Rightarrow> None
               | Some JNull \<Rightarrow> None
               | Some (JObj fs) \<Rightarrow> Some (field ''data'' fs)
               | Some _ \<Rightarrow> Some None)
     | _ \<Rightarrow> None)"

text \<open>\<open>res.data.key\<close>, which throws on \<open>undefined\<close> and \<open>null\<close>.\<close>

definition data_field :: "string \<Rightarrow> json option option \<Rightarrow> json option option" where
  "data_field key d =
    (case d of
       Some (Some (JObj fs)) \<Rightarrow> Some (field key fs)
     | Some (Some JNull) \<Rightarrow> None
     | Some (Some _) \<Rightarrow> Some None
     | _ \<Rightarrow> None)"

section \<open>State\<close>

text \<open>
  Where a call of \<open>send\<close> stands. An awaited refresh that has settled leaves its waiters to be
  resumed one by one.
\<close>

datatype send_phase =
    AwaitJoin | JoinSettled bool | FetchFirst | AwaitRefresh | RefreshSettled bool | FetchAgain

datatype api_caller =
    PlainCall | PermissionRefresh | CurrentUser | LoginCall | LogoutCall | OidcCall

record api_call =
  cl_id :: nat
  cl_caller :: api_caller
  cl_init :: request_init
  cl_target :: string
  cl_joined :: "bool option"
  cl_phase :: send_phase

record transport =
  accessToken :: "string option"
  refreshPromise :: bool
  tr_target :: cluster_target
  selectedNamespace :: string
  tr_calls :: "api_call list"
  tr_next :: nat
  atLogin :: bool
  userSignal :: "json option"
  rbacSignal :: "json option"
  loadingSignal :: bool
  loadAttempted :: bool
  refreshingPermissions :: bool
  tr_session :: storage
  captureFallback :: "(string \<times> json option) list"
  tr_fetches :: "(nat \<times> fetch_request) list"
  tr_issued :: "(nat \<times> request_init \<times> string) list"
  refresh_posts :: nat
  refresh_answers :: nat

text \<open>
  The last four fields only record: the fetches made, the calls as they were issued with the
  cluster each was decided for, and how many refreshes were sent and answered.
\<close>

definition fresh_transport :: "cluster_target \<Rightarrow> storage \<Rightarrow> transport" where
  "fresh_transport ct st =
    \<lparr>accessToken = None, refreshPromise = False, tr_target = ct, selectedNamespace = ''all'', tr_calls = [],
     tr_next = 0, atLogin = False, userSignal = None, rbacSignal = None, loadingSignal = False,
     loadAttempted = False, refreshingPermissions = False, tr_session = st, captureFallback = [],
     tr_fetches = [], tr_issued = [],
     refresh_posts = 0, refresh_answers = 0\<rparr>"

section \<open>Sending\<close>

definition refreshSession :: "transport \<Rightarrow> transport" where
  "refreshSession t =
    (if refreshPromise t then t else t\<lparr>refreshPromise := True, refresh_posts := refresh_posts t + 1\<rparr>)"

definition put_call :: "api_call \<Rightarrow> transport \<Rightarrow> transport" where
  "put_call c t = t\<lparr>tr_calls := map (\<lambda>d. if cl_id d = cl_id c then c else d) (tr_calls t)\<rparr>"

definition drop_call :: "nat \<Rightarrow> transport \<Rightarrow> transport" where
  "drop_call i t = t\<lparr>tr_calls := filter (\<lambda>d. cl_id d \<noteq> i) (tr_calls t)\<rparr>"

definition log_fetch :: "api_call \<Rightarrow> transport \<Rightarrow> transport" where
  "log_fetch c t =
    t\<lparr>tr_fetches := tr_fetches t @ [(cl_id c, doFetch (cl_init c) (cl_target c) (accessToken t))]\<rparr>"

definition send :: "api_caller \<Rightarrow> request_init \<Rightarrow> transport \<Rightarrow> transport" where
  "send caller init t =
    (let targetCluster = (case rq_clusterId init of Some c \<Rightarrow> c | None \<Rightarrow> ct_clusterId (tr_target t));
         join = (\<not> truthy (accessToken t) \<and> refreshPromise t);
         c = \<lparr>cl_id = tr_next t, cl_caller = caller, cl_init = init, cl_target = targetCluster, cl_joined = None,
              cl_phase = (if join then AwaitJoin else FetchFirst)\<rparr>;
         t1 = t\<lparr>tr_calls := tr_calls t @ [c], tr_next := tr_next t + 1,
                tr_issued := tr_issued t @ [(tr_next t, init, targetCluster)]\<rparr>
     in if join then t1 else log_fetch c t1)"

definition get_init :: "string \<Rightarrow> request_init" where
  "get_init path = \<lparr>rq_path = path, rq_method = Some ''GET'', rq_clusterId = None, rq_body = None, rq_headers = []\<rparr>"

definition post_init :: "string \<Rightarrow> string option \<Rightarrow> request_init" where
  "post_init path body =
    \<lparr>rq_path = path, rq_method = Some ''POST'', rq_clusterId = None, rq_body = body, rq_headers = []\<rparr>"

section \<open>The session layer\<close>

definition uri_hex :: "nat \<Rightarrow> char" where
  "uri_hex d = (if d < 10 then char_of (48 + d) else char_of (55 + d))"

definition uri_byte :: "nat \<Rightarrow> string" where
  "uri_byte b = [CHR ''%'', uri_hex (b div 16), uri_hex (b mod 16)]"

definition uri_plain :: "char \<Rightarrow> bool" where
  "uri_plain c =
    (let n = of_char c :: nat
     in 48 \<le> n \<and> n \<le> 57 \<or> 65 \<le> n \<and> n \<le> 90 \<or> 97 \<le> n \<and> n \<le> 122 \<or> c \<in> set ''-_.!~*()'' \<or> n = 39)"

definition encodeURIComponent :: "string \<Rightarrow> string" where
  "encodeURIComponent s =
    concat (map (\<lambda>c. let n = of_char c :: nat
      in if uri_plain c then [c] else if n < 128 then uri_byte n
         else uri_byte (192 + n div 64) @ uri_byte (128 + n mod 64)) s)"

definition refreshPermissions :: "string \<Rightarrow> transport \<Rightarrow> transport" where
  "refreshPermissions namespace t =
    (if \<not> truthy (accessToken t) \<or> refreshingPermissions t then t
     else send PermissionRefresh (get_init (''/v1/auth/me?namespace='' @ encodeURIComponent namespace))
            (t\<lparr>refreshingPermissions := True\<rparr>))"

text \<open>The callback \<open>auth.ts\<close> registers for refused requests.\<close>

definition on403Callback :: "transport \<Rightarrow> transport" where
  "on403Callback t =
    (let ns = selectedNamespace t in if ns \<noteq> [] \<and> ns \<noteq> ''all'' then refreshPermissions ns t else t)"

definition fetchCurrentUser :: "string option \<Rightarrow> transport \<Rightarrow> transport" where
  "fetchCurrentUser namespace t =
    send CurrentUser
      (get_init (''/v1/auth/me'' @ (case namespace of None \<Rightarrow> [] | Some n \<Rightarrow>
         if n = [] then [] else ''?namespace='' @ encodeURIComponent n)))
      (t\<lparr>loadAttempted := True, loadingSignal := True\<rparr>)"

definition token_of :: "json option \<Rightarrow> string option" where
  "token_of v = (case v of Some (JStr s) \<Rightarrow> Some s | _ \<Rightarrow> None)"

text \<open>What each caller does once its call has ended.\<close>

text \<open>The records of pending incident captures: in the session store under a prefix of their own, or in memory.\<close>

definition PENDING_CAPTURE_PREFIX :: string where
  "PENDING_CAPTURE_PREFIX = ''kubecenter.capture-pending:''"

definition clearPendingCaptures :: "transport \<Rightarrow> transport" where
  "clearPendingCaptures t =
    t\<lparr>captureFallback := [],
      tr_session := map_option (filter (\<lambda>p. \<not> startsWith (fst p) PENDING_CAPTURE_PREFIX)) (tr_session t)\<rparr>"

definition logged_out :: "transport \<Rightarrow> transport" where
  "logged_out t =
    (clearPendingCaptures
      (t\<lparr>accessToken := None, userSignal := None, rbacSignal := None, loadAttempted := False,
         tr_session := clearPendingApplies (tr_session t)\<rparr>))
    \<lparr>tr_target := switchCluster LOCAL_CLUSTER_ID LOCAL_GENERATION (tr_target t)\<rparr>"

definition call_ended :: "api_caller \<Rightarrow> send_outcome \<Rightarrow> transport \<Rightarrow> transport" where
  "call_ended caller oc t =
    (let d = api_data oc
     in case caller of
          PlainCall \<Rightarrow> t
        | PermissionRefresh \<Rightarrow>
            t\<lparr>rbacSignal := (case data_field ''rbac'' d of None \<Rightarrow> None | Some v \<Rightarrow> v), refreshingPermissions := False\<rparr>
        | CurrentUser \<Rightarrow>
            (case (data_field ''user'' d, data_field ''rbac'' d) of
               (Some u, Some r) \<Rightarrow> t\<lparr>userSignal := u, rbacSignal := r, loadingSignal := False\<rparr>
             | _ \<Rightarrow> t\<lparr>userSignal := None, rbacSignal := None, loadingSignal := False\<rparr>)
        | LoginCall \<Rightarrow>
            (case data_field ''accessToken'' d of
               None \<Rightarrow> t
             | Some v \<Rightarrow> fetchCurrentUser None (t\<lparr>accessToken := token_of v\<rparr>))
        | OidcCall \<Rightarrow>
            (case data_field ''accessToken'' d of
               None \<Rightarrow> t
             | Some v \<Rightarrow> if truthy (token_of v) then fetchCurrentUser None (t\<lparr>accessToken := token_of v\<rparr>) else t)
        | LogoutCall \<Rightarrow> logged_out t)"

section \<open>Answers\<close>

definition end_call :: "api_call \<Rightarrow> send_outcome \<Rightarrow> transport \<Rightarrow> transport" where
  "end_call c oc t = call_ended (cl_caller c) oc (drop_call (cl_id c) t)"

definition expire :: "api_call \<Rightarrow> transport \<Rightarrow> transport" where
  "expire c t = end_call c session_expired (t\<lparr>accessToken := None, atLogin := True\<rparr>)"

text \<open>The last answer of a call.\<close>

definition conclude :: "api_call \<Rightarrow> http_response \<Rightarrow> transport \<Rightarrow> transport" where
  "conclude c r t =
    (if response_ok r then end_call c (SendOk r) t
     else end_call c (error_of r)
       (if rs_status r = 403 \<and> \<not> startsWith (rq_path (cl_init c)) ''/v1/auth/'' then on403Callback t else t))"

definition fetch_answered :: "api_call \<Rightarrow> http_response \<Rightarrow> transport \<Rightarrow> transport" where
  "fetch_answered c r t =
    (if cl_phase c = FetchFirst \<and> rs_status r = 401
     then (if cl_joined c = Some False then expire c t
           else put_call (c\<lparr>cl_phase := AwaitRefresh\<rparr>) (refreshSession t))
     else conclude c r t)"

definition resumed :: "api_call \<Rightarrow> transport \<Rightarrow> transport" where
  "resumed c t =
    (case cl_phase c of
       JoinSettled ok \<Rightarrow>
         (let d = c\<lparr>cl_joined := Some ok, cl_phase := FetchFirst\<rparr> in log_fetch d (put_call d t))
     | RefreshSettled True \<Rightarrow> (let d = c\<lparr>cl_phase := FetchAgain\<rparr> in log_fetch d (put_call d t))
     | RefreshSettled False \<Rightarrow> expire c t
     | _ \<Rightarrow> t)"

text \<open>The refresh settles: with a token, or without one (refused, failed, or past its deadline).\<close>

definition wake :: "bool \<Rightarrow> send_phase \<Rightarrow> send_phase" where
  "wake ok ph = (case ph of AwaitJoin \<Rightarrow> JoinSettled ok | AwaitRefresh \<Rightarrow> RefreshSettled ok | _ \<Rightarrow> ph)"

text \<open>
  One step does what the code does in two places, \<open>refreshAccessToken\<close> storing the token and the \<open>finally\<close> of the
  shared promise clearing it: the second follows the first with nothing of another call between.
\<close>

definition refresh_settled :: "string option \<Rightarrow> transport \<Rightarrow> transport" where
  "refresh_settled tok t =
    (let ok = truthy tok
     in t\<lparr>accessToken := (if ok then tok else accessToken t), refreshPromise := False,
          refresh_answers := refresh_answers t + 1,
          tr_calls := map (\<lambda>c. c\<lparr>cl_phase := wake ok (cl_phase c)\<rparr>) (tr_calls t)\<rparr>)"

definition bootSession :: "transport \<Rightarrow> transport" where
  "bootSession t = (if truthy (accessToken t) then t else refreshSession t)"

end
