(* ===== verification/Api_Transport_Runs.thy ===== *)
theory Api_Transport_Runs
  imports Api_Transport
begin

text \<open>
  Runs of the API client: calls, answers, failures, the refresh, logins, logouts, permission
  reads, namespace choices and cluster switches in any order; and what they keep.
\<close>

section \<open>Steps\<close>

datatype api_event =
    IssueCall request_init
  | IssueLogin string
  | IssueLogout
  | IssueOidc
  | IssueUser "string option"
  | IssuePermissions string
  | ChooseNamespace string
  | SwitchCluster string string
  | Boot
  | Answered nat http_response
  | Threw nat
  | Resume nat
  | Settled "string option"

definition find_call :: "nat \<Rightarrow> transport \<Rightarrow> api_call option" where
  "find_call i t = find (\<lambda>c. cl_id c = i) (tr_calls t)"

definition fetching :: "send_phase \<Rightarrow> bool" where
  "fetching ph \<longleftrightarrow> ph = FetchFirst \<or> ph = FetchAgain"

definition settled_phase :: "send_phase \<Rightarrow> bool" where
  "settled_phase ph = (case ph of JoinSettled _ \<Rightarrow> True | RefreshSettled _ \<Rightarrow> True | _ \<Rightarrow> False)"

definition on_call :: "nat \<Rightarrow> (send_phase \<Rightarrow> bool) \<Rightarrow> (api_call \<Rightarrow> transport \<Rightarrow> transport) \<Rightarrow> transport \<Rightarrow> transport option" where
  "on_call i guard f t =
    (case find_call i t of None \<Rightarrow> None | Some c \<Rightarrow> if guard (cl_phase c) then Some (f c t) else None)"

fun api_step :: "api_event \<Rightarrow> transport \<Rightarrow> transport option" where
  "api_step (IssueCall init) t = Some (send PlainCall init t)"
| "api_step (IssueLogin body) t = Some (send LoginCall (post_init ''/v1/auth/login'' (Some body)) t)"
| "api_step IssueLogout t = Some (send LogoutCall (post_init ''/v1/auth/logout'' None) t)"
| "api_step IssueOidc t = Some (send OidcCall (post_init ''/auth/oidc-token-exchange'' None) t)"
| "api_step (IssueUser ns) t = Some (fetchCurrentUser ns t)"
| "api_step (IssuePermissions ns) t = Some (refreshPermissions ns t)"
| "api_step (ChooseNamespace ns) t = Some (t\<lparr>selectedNamespace := ns\<rparr>)"
| "api_step (SwitchCluster i g) t = Some (t\<lparr>tr_target := switchCluster i g (tr_target t)\<rparr>)"
| "api_step Boot t = Some (bootSession t)"
| "api_step (Answered i r) t = on_call i fetching (\<lambda>c. fetch_answered c r) t"
| "api_step (Threw i) t = on_call i fetching (\<lambda>c. end_call c SendThrew) t"
| "api_step (Resume i) t = on_call i settled_phase resumed t"
| "api_step (Settled tok) t = (if refreshPromise t then Some (refresh_settled tok t) else None)"

inductive api_run :: "transport \<Rightarrow> bool" where
  start: "api_run (fresh_transport ct st)"
| step: "api_run t \<Longrightarrow> api_step e t = Some t' \<Longrightarrow> api_run t'"

section \<open>The books of the calls\<close>

definition fetch_count :: "nat \<Rightarrow> transport \<Rightarrow> nat" where
  "fetch_count i t = length (filter (\<lambda>p. fst p = i) (tr_fetches t))"

definition phase_count :: "send_phase \<Rightarrow> nat" where
  "phase_count ph =
    (case ph of AwaitJoin \<Rightarrow> 0 | JoinSettled _ \<Rightarrow> 0 | FetchFirst \<Rightarrow> 1 | AwaitRefresh \<Rightarrow> 1
     | RefreshSettled _ \<Rightarrow> 1 | FetchAgain \<Rightarrow> 2)"

definition call_booked :: "transport \<Rightarrow> api_call \<Rightarrow> bool" where
  "call_booked t c \<longleftrightarrow>
    (cl_id c, cl_init c, cl_target c) \<in> set (tr_issued t) \<and> fetch_count (cl_id c) t = phase_count (cl_phase c)"

definition calls_booked :: "transport \<Rightarrow> bool" where
  "calls_booked t \<longleftrightarrow>
    distinct (map cl_id (tr_calls t)) \<and> (\<forall>c \<in> set (tr_calls t). cl_id c < tr_next t \<and> call_booked t c) \<and>
    distinct (map fst (tr_issued t)) \<and> (\<forall>x \<in> set (tr_issued t). fst x < tr_next t) \<and>
    (\<forall>(i, f) \<in> set (tr_fetches t). i < tr_next t \<and>
      (\<exists>init tg tok. (i, init, tg) \<in> set (tr_issued t) \<and> f = doFetch init tg tok)) \<and>
    (\<forall>i. fetch_count i t \<le> 2)"

text \<open>The books depend on the calls and the three logs alone.\<close>

lemma calls_booked_cong:
  "tr_calls t' = tr_calls t \<Longrightarrow> tr_next t' = tr_next t \<Longrightarrow> tr_issued t' = tr_issued t \<Longrightarrow>
   tr_fetches t' = tr_fetches t \<Longrightarrow> calls_booked t' = calls_booked t"
  by (simp add: calls_booked_def call_booked_def fetch_count_def)

lemma phase_count_le: "phase_count ph \<le> 2"
  by (simp add: phase_count_def split: send_phase.split)

lemma fetch_count_log:
  "fetch_count i (log_fetch c t) = fetch_count i t + (if i = cl_id c then 1 else 0)"
  by (simp add: fetch_count_def log_fetch_def)

lemma log_fetch_simps [simp]:
  "tr_calls (log_fetch c t) = tr_calls t" "tr_next (log_fetch c t) = tr_next t"
  "tr_issued (log_fetch c t) = tr_issued t" "accessToken (log_fetch c t) = accessToken t"
  "refreshPromise (log_fetch c t) = refreshPromise t" "refreshingPermissions (log_fetch c t) = refreshingPermissions t"
  "refresh_posts (log_fetch c t) = refresh_posts t" "refresh_answers (log_fetch c t) = refresh_answers t"
  by (simp_all add: log_fetch_def)

lemma fetch_count_fresh: "calls_booked t \<Longrightarrow> tr_next t \<le> i \<Longrightarrow> fetch_count i t = 0"
  by (force simp: calls_booked_def fetch_count_def filter_empty_conv)

text \<open>Logging a fetch of a call whose phase already counts it.\<close>

lemma booked_log:
  assumes "c \<in> set (tr_calls t)" "fetch_count (cl_id c) t + 1 = phase_count (cl_phase c)"
    and "distinct (map cl_id (tr_calls t))" "distinct (map fst (tr_issued t))"
    and "\<forall>x \<in> set (tr_issued t). fst x < tr_next t"
    and "\<forall>d \<in> set (tr_calls t). cl_id d < tr_next t \<and> (cl_id d, cl_init d, cl_target d) \<in> set (tr_issued t)"
    and "\<forall>d \<in> set (tr_calls t). d \<noteq> c \<longrightarrow> fetch_count (cl_id d) t = phase_count (cl_phase d)"
    and "\<forall>(i, f) \<in> set (tr_fetches t). i < tr_next t \<and>
      (\<exists>init tg tok. (i, init, tg) \<in> set (tr_issued t) \<and> f = doFetch init tg tok)"
    and "\<forall>i. i \<noteq> cl_id c \<longrightarrow> fetch_count i t \<le> 2"
  shows "calls_booked (log_fetch c t)"
proof -
  have other: "cl_id d \<noteq> cl_id c" if "d \<in> set (tr_calls t)" "d \<noteq> c" for d
    using assms(1,3) that by (auto simp: distinct_map inj_on_def)
  have booked: "call_booked (log_fetch c t) d" if "d \<in> set (tr_calls t)" for d
    using assms(2,6,7) that other by (cases "d = c") (auto simp: call_booked_def fetch_count_log)
  have logs: "\<forall>(i, f) \<in> set (tr_fetches (log_fetch c t)). i < tr_next t \<and>
      (\<exists>init tg tok. (i, init, tg) \<in> set (tr_issued t) \<and> f = doFetch init tg tok)"
    using assms(1,6,8) by (fastforce simp: log_fetch_def)
  have "fetch_count i (log_fetch c t) \<le> 2" for i
    using assms(2,9) phase_count_le [of "cl_phase c"] by (simp add: fetch_count_log)
  then show ?thesis using assms(3-6) booked logs by (auto simp: calls_booked_def)
qed

lemma booked_drop: "calls_booked t \<Longrightarrow> calls_booked (drop_call i t)"
  by (auto simp: calls_booked_def drop_call_def call_booked_def fetch_count_def distinct_map inj_on_def)

lemma put_call_set:
  assumes "c \<in> set (tr_calls t)" "distinct (map cl_id (tr_calls t))" "cl_id d = cl_id c"
  shows "set (tr_calls (put_call d t)) = insert d (set (tr_calls t) - {c})"
proof -
  have "cl_id x = cl_id c \<longleftrightarrow> x = c" if "x \<in> set (tr_calls t)" for x
    using assms(1,2) that by (auto simp: distinct_map inj_on_def)
  then show ?thesis using assms(1,3) by (auto simp: put_call_def)
qed

lemma put_call_ids: "map cl_id (tr_calls (put_call d t)) = map cl_id (tr_calls t)"
  by (simp add: put_call_def)

lemma put_call_simps [simp]:
  "tr_next (put_call d t) = tr_next t" "tr_issued (put_call d t) = tr_issued t"
  "tr_fetches (put_call d t) = tr_fetches t" "fetch_count i (put_call d t) = fetch_count i t"
  "accessToken (put_call d t) = accessToken t" "refreshPromise (put_call d t) = refreshPromise t"
  "refreshingPermissions (put_call d t) = refreshingPermissions t"
  "refresh_posts (put_call d t) = refresh_posts t" "refresh_answers (put_call d t) = refresh_answers t"
  by (simp_all add: put_call_def fetch_count_def)

lemma booked_put:
  assumes "calls_booked t" "c \<in> set (tr_calls t)" "cl_id d = cl_id c" "cl_init d = cl_init c"
    "cl_target d = cl_target c" "phase_count (cl_phase d) = phase_count (cl_phase c)"
  shows "calls_booked (put_call d t)"
proof -
  have ids: "distinct (map cl_id (tr_calls t))" using assms(1) by (simp add: calls_booked_def)
  have "call_booked (put_call d t) x = call_booked t x" for x by (simp add: call_booked_def)
  moreover have "cl_id d < tr_next t \<and> call_booked t d"
    using assms by (auto simp: calls_booked_def call_booked_def)
  ultimately show ?thesis
    using assms(1) by (auto simp: calls_booked_def put_call_ids put_call_set [OF assms(2) ids assms(3)])
qed

lemma booked_put_fetch:
  assumes "calls_booked t" "c \<in> set (tr_calls t)" "cl_id d = cl_id c" "cl_init d = cl_init c"
    "cl_target d = cl_target c" "phase_count (cl_phase d) = phase_count (cl_phase c) + 1"
  shows "calls_booked (log_fetch d (put_call d t))"
proof (rule booked_log)
  have ids: "distinct (map cl_id (tr_calls t))" using assms(1) by (simp add: calls_booked_def)
  note s = put_call_set [OF assms(2) ids assms(3)]
  show "d \<in> set (tr_calls (put_call d t))" by (simp add: s)
  show "fetch_count (cl_id d) (put_call d t) + 1 = phase_count (cl_phase d)"
    using assms by (auto simp: calls_booked_def call_booked_def)
  show "distinct (map cl_id (tr_calls (put_call d t)))" using ids by (simp add: put_call_ids)
  show "\<forall>x \<in> set (tr_calls (put_call d t)). cl_id x < tr_next (put_call d t) \<and>
      (cl_id x, cl_init x, cl_target x) \<in> set (tr_issued (put_call d t))"
    using assms by (auto simp: s calls_booked_def call_booked_def)
  show "\<forall>x \<in> set (tr_calls (put_call d t)). x \<noteq> d \<longrightarrow> fetch_count (cl_id x) (put_call d t) = phase_count (cl_phase x)"
    using assms(1) by (auto simp: s calls_booked_def call_booked_def)
qed (use assms(1) in \<open>simp_all add: calls_booked_def\<close>)

lemma booked_send:
  assumes "calls_booked t"
  shows "calls_booked (send caller init t)"
proof -
  define tg where "tg = (case rq_clusterId init of Some c \<Rightarrow> c | None \<Rightarrow> ct_clusterId (tr_target t))"
  let ?join = "\<not> truthy (accessToken t) \<and> refreshPromise t"
  define c where "c = \<lparr>cl_id = tr_next t, cl_caller = caller, cl_init = init, cl_target = tg, cl_joined = None,
    cl_phase = (if ?join then AwaitJoin else FetchFirst)\<rparr>"
  define u where "u = t\<lparr>tr_calls := tr_calls t @ [c], tr_next := tr_next t + 1,
    tr_issued := tr_issued t @ [(tr_next t, init, tg)]\<rparr>"
  have s: "send caller init t = (if ?join then u else log_fetch c u)"
    by (simp add: send_def Let_def u_def c_def tg_def)
  have c: "cl_id c = tr_next t" "cl_init c = init" "cl_target c = tg"
    "cl_phase c = (if ?join then AwaitJoin else FetchFirst)" by (simp_all add: c_def)
  have u: "tr_calls u = tr_calls t @ [c]" "tr_next u = tr_next t + 1" "tr_fetches u = tr_fetches t"
    "tr_issued u = tr_issued t @ [(tr_next t, init, tg)]" by (simp_all add: u_def)
  have cnt: "fetch_count i u = fetch_count i t" for i by (simp add: fetch_count_def u)
  have zero: "fetch_count (tr_next t) t = 0" using fetch_count_fresh [OF assms] by simp
  have ids: "distinct (map cl_id (tr_calls u))" "distinct (map fst (tr_issued u))"
    "\<forall>x \<in> set (tr_issued u). fst x < tr_next u"
    using assms by (force simp: calls_booked_def u c)+
  have calls: "\<forall>d \<in> set (tr_calls u). cl_id d < tr_next u \<and> (cl_id d, cl_init d, cl_target d) \<in> set (tr_issued u)"
    using assms by (auto simp: calls_booked_def call_booked_def u c)
  have counts: "\<forall>d \<in> set (tr_calls u). d \<noteq> c \<longrightarrow> fetch_count (cl_id d) u = phase_count (cl_phase d)"
    using assms by (auto simp: calls_booked_def call_booked_def cnt u)
  have logs: "\<forall>(i, f) \<in> set (tr_fetches u). i < tr_next u \<and>
      (\<exists>init tg tok. (i, init, tg) \<in> set (tr_issued u) \<and> f = doFetch init tg tok)"
    using assms by (fastforce simp: calls_booked_def u)
  have le: "fetch_count i u \<le> 2" for i using assms by (simp add: calls_booked_def cnt)
  show ?thesis
  proof (cases ?join)
    case True
    then have "fetch_count (cl_id c) u = phase_count (cl_phase c)" using zero by (simp add: cnt phase_count_def c)
    then have "\<forall>d \<in> set (tr_calls u). fetch_count (cl_id d) u = phase_count (cl_phase d)" using counts by metis
    then show ?thesis
      unfolding s using True ids calls logs le by (simp add: calls_booked_def call_booked_def)
  next
    case False
    then have "fetch_count (cl_id c) u + 1 = phase_count (cl_phase c)" using zero by (simp add: cnt phase_count_def c)
    moreover have "c \<in> set (tr_calls u)" by (simp add: u)
    ultimately have "calls_booked (log_fetch c u)"
      using ids calls counts logs le by (intro booked_log) auto
    then show ?thesis using False by (auto simp: s)
  qed
qed

lemma booked_fields [simp]:
  "calls_booked (t\<lparr>accessToken := a\<rparr>) = calls_booked t" "calls_booked (t\<lparr>refreshPromise := b\<rparr>) = calls_booked t"
  "calls_booked (t\<lparr>tr_target := ct\<rparr>) = calls_booked t" "calls_booked (t\<lparr>selectedNamespace := n\<rparr>) = calls_booked t"
  "calls_booked (t\<lparr>atLogin := b\<rparr>) = calls_booked t" "calls_booked (t\<lparr>userSignal := j\<rparr>) = calls_booked t"
  "calls_booked (t\<lparr>rbacSignal := j\<rparr>) = calls_booked t" "calls_booked (t\<lparr>loadingSignal := b\<rparr>) = calls_booked t"
  "calls_booked (t\<lparr>loadAttempted := b\<rparr>) = calls_booked t" "calls_booked (t\<lparr>refreshingPermissions := b\<rparr>) = calls_booked t"
  "calls_booked (t\<lparr>captureFallback := fb\<rparr>) = calls_booked t"
  "calls_booked (t\<lparr>tr_session := st\<rparr>) = calls_booked t" "calls_booked (t\<lparr>refresh_posts := k\<rparr>) = calls_booked t"
  "calls_booked (t\<lparr>refresh_answers := k\<rparr>) = calls_booked t"
  by (rule calls_booked_cong; simp)+

lemma booked_refreshSession [simp]: "calls_booked (refreshSession t) = calls_booked t"
  by (simp add: refreshSession_def)

lemma booked_session:
  assumes "calls_booked t"
  shows "calls_booked (refreshPermissions ns t)" "calls_booked (on403Callback t)" "calls_booked (fetchCurrentUser n t)"
    "calls_booked (logged_out t)" "calls_booked (bootSession t)"
  using assms
  by (simp_all add: refreshPermissions_def on403Callback_def fetchCurrentUser_def logged_out_def clearPendingCaptures_def bootSession_def
      booked_send Let_def)

lemma booked_call_ended: "calls_booked t \<Longrightarrow> calls_booked (call_ended caller oc t)"
  by (cases caller) (auto simp: call_ended_def Let_def booked_session split: option.split)

lemma booked_end: "calls_booked t \<Longrightarrow> calls_booked (end_call c oc t)"
  by (simp add: end_call_def booked_call_ended booked_drop)

lemma booked_answered:
  assumes "calls_booked t" "c \<in> set (tr_calls t)"
  shows "calls_booked (fetch_answered c r t)"
proof (cases "cl_phase c = FetchFirst \<and> rs_status r = 401 \<and> cl_joined c \<noteq> Some False")
  case True
  then have "calls_booked (put_call (c\<lparr>cl_phase := AwaitRefresh\<rparr>) (refreshSession t))"
    using assms by (intro booked_put [of _ c]) (simp_all add: phase_count_def refreshSession_def)
  then show ?thesis using True by (simp add: fetch_answered_def)
next
  case False
  then show ?thesis
    using assms by (auto simp: fetch_answered_def expire_def conclude_def booked_end booked_session)
qed

lemma booked_resumed:
  assumes "calls_booked t" "c \<in> set (tr_calls t)"
  shows "calls_booked (resumed c t)"
proof (cases "cl_phase c")
  case (JoinSettled ok)
  then show ?thesis
    using assms by (auto simp: resumed_def Let_def phase_count_def intro!: booked_put_fetch [of t c])
next
  case (RefreshSettled ok)
  then show ?thesis
    using assms
    by (cases ok) (auto simp: resumed_def Let_def phase_count_def expire_def booked_end intro!: booked_put_fetch [of t c])
qed (use assms in \<open>simp_all add: resumed_def\<close>)

lemma phase_count_wake [simp]: "phase_count (wake ok ph) = phase_count ph"
  by (cases ph) (simp_all add: wake_def phase_count_def)

lemma booked_settled: "calls_booked t \<Longrightarrow> calls_booked (refresh_settled tok t)"
  by (simp add: refresh_settled_def Let_def calls_booked_def call_booked_def fetch_count_def comp_def)

lemma find_call_in: "find_call i t = Some c \<Longrightarrow> c \<in> set (tr_calls t) \<and> cl_id c = i"
  by (auto simp: find_call_def find_Some_iff)

lemma on_call_Some:
  "on_call i guard f t = Some t' \<Longrightarrow>
   \<exists>c. c \<in> set (tr_calls t) \<and> cl_id c = i \<and> guard (cl_phase c) \<and> t' = f c t"
  by (auto simp: on_call_def dest: find_call_in split: option.splits if_splits)

lemma api_step_booked: "calls_booked t \<Longrightarrow> api_step e t = Some t' \<Longrightarrow> calls_booked t'"
  by (cases e)
    (auto simp: booked_send booked_session booked_answered booked_end booked_resumed booked_settled
      dest!: on_call_Some split: if_splits)

lemma api_run_booked: "api_run t \<Longrightarrow> calls_booked t"
proof (induction rule: api_run.induct)
  case (start ct st)
  show ?case by (simp add: fresh_transport_def calls_booked_def fetch_count_def)
next
  case (step t e t')
  then show ?case using api_step_booked by blast
qed

section \<open>The refresh and the permission read\<close>

definition perm_count :: "transport \<Rightarrow> nat" where
  "perm_count t = length (filter (\<lambda>c. cl_caller c = PermissionRefresh) (tr_calls t))"

definition session_ok :: "transport \<Rightarrow> bool" where
  "session_ok t \<longleftrightarrow>
    (\<forall>c \<in> set (tr_calls t). cl_phase c \<in> {AwaitJoin, AwaitRefresh} \<longrightarrow> refreshPromise t) \<and>
    refresh_posts t = refresh_answers t + (if refreshPromise t then 1 else 0) \<and>
    perm_count t = (if refreshingPermissions t then 1 else 0) \<and>
    (\<forall>c \<in> set (tr_calls t). cl_caller c = PermissionRefresh \<longrightarrow> startsWith (rq_path (cl_init c)) ''/v1/auth/'')"

lemma session_fields [simp]:
  "session_ok (t\<lparr>accessToken := a\<rparr>) = session_ok t" "session_ok (t\<lparr>tr_target := ct\<rparr>) = session_ok t"
  "session_ok (t\<lparr>selectedNamespace := n\<rparr>) = session_ok t" "session_ok (t\<lparr>atLogin := b\<rparr>) = session_ok t"
  "session_ok (t\<lparr>userSignal := j\<rparr>) = session_ok t" "session_ok (t\<lparr>rbacSignal := j\<rparr>) = session_ok t"
  "session_ok (t\<lparr>loadingSignal := b\<rparr>) = session_ok t" "session_ok (t\<lparr>loadAttempted := b\<rparr>) = session_ok t"
  "session_ok (t\<lparr>captureFallback := fb\<rparr>) = session_ok t"
  "session_ok (t\<lparr>tr_session := st\<rparr>) = session_ok t" "session_ok (t\<lparr>tr_fetches := fs\<rparr>) = session_ok t"
  by (simp_all add: session_ok_def perm_count_def)

lemma session_log [simp]: "session_ok (log_fetch c t) = session_ok t"
  by (simp add: log_fetch_def)

lemma session_refresh: "session_ok t \<Longrightarrow> session_ok (refreshSession t) \<and> refreshPromise (refreshSession t)"
  by (auto simp: session_ok_def refreshSession_def perm_count_def)

lemma session_send: "caller \<noteq> PermissionRefresh \<Longrightarrow> session_ok t \<Longrightarrow> session_ok (send caller init t)"
  by (auto simp: send_def Let_def session_ok_def perm_count_def)

lemma session_permissions: "session_ok t \<Longrightarrow> session_ok (refreshPermissions ns t)"
  by (auto simp: refreshPermissions_def send_def Let_def session_ok_def perm_count_def get_init_def startsWith_iff)

lemma session_layer:
  assumes "session_ok t"
  shows "session_ok (on403Callback t)" "session_ok (fetchCurrentUser n t)" "session_ok (logged_out t)"
    "session_ok (bootSession t)"
  using assms session_refresh [OF assms]
  by (simp_all add: on403Callback_def fetchCurrentUser_def logged_out_def clearPendingCaptures_def bootSession_def session_permissions
      session_send Let_def)

text \<open>A transport whose call \<open>c\<close> has just ended, before its caller has taken note.\<close>

definition session_ended :: "api_call \<Rightarrow> transport \<Rightarrow> bool" where
  "session_ended c t \<longleftrightarrow>
    (if cl_caller c = PermissionRefresh then session_ok (t\<lparr>refreshingPermissions := False\<rparr>) else session_ok t)"

lemma filter_one_out:
  assumes "x \<in> set xs" "distinct (map f xs)" "P x"
  shows "length (filter P (filter (\<lambda>y. f y \<noteq> f x) xs)) + 1 = length (filter P xs)"
  using assms(1,2)
proof (induction xs)
  case (Cons y ys)
  show ?case
  proof (cases "y = x")
    case True
    then have "filter (\<lambda>y. f y \<noteq> f x) ys = ys" using Cons.prems(2) by (auto simp: filter_id_conv image_iff)
    then show ?thesis using True assms(3) by simp
  next
    case False
    then have "x \<in> set ys" "f y \<noteq> f x" using Cons.prems by (auto simp: image_iff)
    then show ?thesis using Cons by simp
  qed
qed simp

lemma filter_other_out:
  assumes "x \<in> set xs" "distinct (map f xs)" "\<not> P x"
  shows "filter P (filter (\<lambda>y. f y \<noteq> f x) xs) = filter P xs"
proof -
  have "f y = f x \<longleftrightarrow> y = x" if "y \<in> set xs" for y using assms(1,2) that by (auto simp: distinct_map inj_on_def)
  then show ?thesis using assms(3) by (auto simp: filter_filter intro: filter_cong)
qed

lemma session_drop:
  assumes "session_ok t" "calls_booked t" "c \<in> set (tr_calls t)"
  shows "session_ended c (drop_call (cl_id c) t)"
proof -
  have ids: "distinct (map cl_id (tr_calls t))" using assms(2) by (simp add: calls_booked_def)
  show ?thesis
  proof (cases "cl_caller c = PermissionRefresh")
    case True
    then have "perm_count (drop_call (cl_id c) t) + 1 = perm_count t"
      using filter_one_out [OF assms(3) ids, of "\<lambda>c. cl_caller c = PermissionRefresh"]
      by (simp add: perm_count_def drop_call_def)
    then show ?thesis
      using assms(1) True by (auto simp: session_ended_def session_ok_def drop_call_def perm_count_def split: if_splits)
  next
    case False
    then have "perm_count (drop_call (cl_id c) t) = perm_count t"
      using filter_other_out [OF assms(3) ids, of "\<lambda>c. cl_caller c = PermissionRefresh"]
      by (simp add: perm_count_def drop_call_def)
    then show ?thesis
      using assms(1) False by (auto simp: session_ended_def session_ok_def drop_call_def perm_count_def)
  qed
qed

lemma session_call_ended: "session_ended c t \<Longrightarrow> session_ok (call_ended (cl_caller c) oc t)"
proof (cases "cl_caller c")
  case PermissionRefresh
  then show "session_ended c t \<Longrightarrow> ?thesis"
    by (simp add: session_ended_def call_ended_def Let_def session_ok_def perm_count_def)
qed (auto simp: session_ended_def call_ended_def Let_def session_layer split: option.split)

lemma session_end:
  "session_ok t \<Longrightarrow> calls_booked t \<Longrightarrow> c \<in> set (tr_calls t) \<Longrightarrow> session_ok (end_call c oc t)"
  unfolding end_call_def by (intro session_call_ended session_drop)

lemma perm_count_callers: "perm_count t = length (filter (\<lambda>x. x = PermissionRefresh) (map cl_caller (tr_calls t)))"
  by (simp add: perm_count_def filter_map comp_def)

lemma session_put:
  assumes "session_ok t" "calls_booked t" "c \<in> set (tr_calls t)"
    and "cl_id d = cl_id c" "cl_caller d = cl_caller c" "cl_init d = cl_init c"
    and "cl_phase d \<in> {AwaitJoin, AwaitRefresh} \<longrightarrow> refreshPromise t"
  shows "session_ok (put_call d t)"
proof -
  have ids: "distinct (map cl_id (tr_calls t))" using assms(2) by (simp add: calls_booked_def)
  have "map cl_caller (tr_calls (put_call d t)) = map cl_caller (tr_calls t)"
    using assms(3-5) ids by (auto simp: put_call_def distinct_map inj_on_def)
  then have "perm_count (put_call d t) = perm_count t" by (simp only: perm_count_callers)
  then show ?thesis
    using assms put_call_set [OF assms(3) ids assms(4)] by (auto simp: session_ok_def)
qed

lemma callback_keeps: "c \<in> set (tr_calls t) \<Longrightarrow> c \<in> set (tr_calls (on403Callback t))"
  by (simp add: on403Callback_def refreshPermissions_def send_def Let_def)

lemma session_conclude:
  assumes "session_ok t" "calls_booked t" "c \<in> set (tr_calls t)"
  shows "session_ok (conclude c r t)"
  using assms session_layer(1) booked_session(2) callback_keeps by (auto simp: conclude_def intro!: session_end)

lemma session_expire: "session_ok t \<Longrightarrow> calls_booked t \<Longrightarrow> c \<in> set (tr_calls t) \<Longrightarrow> session_ok (expire c t)"
  unfolding expire_def by (rule session_end) simp_all

lemma session_answered:
  assumes "session_ok t" "calls_booked t" "c \<in> set (tr_calls t)"
  shows "session_ok (fetch_answered c r t)"
proof (cases "cl_phase c = FetchFirst \<and> rs_status r = 401 \<and> cl_joined c \<noteq> Some False")
  case True
  have "c \<in> set (tr_calls (refreshSession t))" using assms(3) by (simp add: refreshSession_def)
  then have "session_ok (put_call (c\<lparr>cl_phase := AwaitRefresh\<rparr>) (refreshSession t))"
    using assms(2) session_refresh [OF assms(1)] by (intro session_put [of _ c]) simp_all
  then show ?thesis using True by (simp add: fetch_answered_def)
next
  case False
  then show ?thesis using assms session_conclude session_expire by (auto simp: fetch_answered_def)
qed

lemma session_resumed:
  assumes "session_ok t" "calls_booked t" "c \<in> set (tr_calls t)"
  shows "session_ok (resumed c t)"
proof (cases "cl_phase c")
  case (JoinSettled ok)
  then show ?thesis using assms by (auto simp: resumed_def Let_def intro!: session_put [of t c])
next
  case (RefreshSettled ok)
  then show ?thesis
    using assms session_expire by (cases ok) (auto simp: resumed_def Let_def intro!: session_put [of t c])
qed (use assms in \<open>simp_all add: resumed_def\<close>)

lemma wake_not_waiting: "wake ok ph \<notin> {AwaitJoin, AwaitRefresh}"
  by (cases ph) (simp_all add: wake_def)

lemma session_settled:
  assumes "session_ok t" "refreshPromise t"
  shows "session_ok (refresh_settled tok t)"
  using assms wake_not_waiting
  by (simp add: session_ok_def refresh_settled_def Let_def perm_count_def filter_map comp_def)

lemma api_step_session:
  assumes "session_ok t" "calls_booked t" "api_step e t = Some t'"
  shows "session_ok t'"
  using assms
  by (cases e)
    (auto simp: session_send session_layer session_permissions session_answered session_end session_resumed
      session_settled dest!: on_call_Some split: if_splits)

lemma api_run_session: "api_run t \<Longrightarrow> session_ok t"
proof (induction rule: api_run.induct)
  case (start ct st)
  show ?case by (simp add: fresh_transport_def session_ok_def perm_count_def)
next
  case (step t e t')
  then show ?case using api_step_session api_run_booked by blast
qed

end
