(* ===== verification/Api_Properties.thy ===== *)
theory Api_Properties
  imports Api_Transport_Runs
begin

text \<open>
  The properties of the API client: what a retry may change, how many refreshes and permission
  reads there are at once, and that every call ends.
\<close>

section \<open>What was issued stays issued\<close>

fun api_steps :: "api_event list \<Rightarrow> transport \<Rightarrow> transport option" where
  "api_steps [] t = Some t"
| "api_steps (e # es) t = (case api_step e t of None \<Rightarrow> None | Some t' \<Rightarrow> api_steps es t')"

lemma api_steps_run: "api_steps es t = Some t' \<Longrightarrow> api_run t \<Longrightarrow> api_run t'"
  by (induction es arbitrary: t) (auto split: option.splits intro: api_run.step)

definition issued_in :: "transport \<Rightarrow> transport \<Rightarrow> bool" where
  "issued_in t t' \<longleftrightarrow> set (tr_issued t) \<subseteq> set (tr_issued t')"

lemma issued_send: "issued_in t (send caller init t)"
  by (auto simp: issued_in_def send_def Let_def)

lemma issued_layer:
  "issued_in t (refreshSession t)" "issued_in t (refreshPermissions ns t)" "issued_in t (on403Callback t)"
  "issued_in t (fetchCurrentUser n t)" "issued_in t (bootSession t)" "issued_in t (drop_call i t)"
  "issued_in t (put_call c t)" "issued_in t (log_fetch c t)" "issued_in t (refresh_settled tok t)"
  by (auto simp: issued_in_def refreshSession_def refreshPermissions_def on403Callback_def fetchCurrentUser_def
      bootSession_def drop_call_def refresh_settled_def send_def Let_def)

lemma issued_trans: "issued_in t u \<Longrightarrow> issued_in u v \<Longrightarrow> issued_in t v"
  by (auto simp: issued_in_def)

lemma issued_call_ended: "issued_in t (call_ended caller oc t)"
  by (cases caller)
    (auto simp: issued_in_def call_ended_def logged_out_def clearPendingCaptures_def fetchCurrentUser_def send_def Let_def split: option.split)

lemma issued_end: "issued_in t (end_call c oc t)"
  unfolding end_call_def by (rule issued_trans [OF issued_layer(6) issued_call_ended])

lemma issued_conclude: "issued_in t (conclude c r t)"
  using issued_end issued_trans [OF issued_layer(3) issued_end] by (simp add: conclude_def)

lemma issued_expire: "issued_in t (expire c t)"
  using issued_end [of "t\<lparr>accessToken := None, atLogin := True\<rparr>" c session_expired]
  by (simp add: expire_def issued_in_def)

lemma issued_answered: "issued_in t (fetch_answered c r t)"
  using issued_expire issued_conclude issued_trans [OF issued_layer(1) issued_layer(7)]
  by (simp add: fetch_answered_def)

lemma issued_resumed: "issued_in t (resumed c t)"
  using issued_expire issued_trans [OF issued_layer(7) issued_layer(8)]
  by (simp add: resumed_def Let_def issued_in_def split: send_phase.split bool.split)

lemma issued_step: "api_step e t = Some t' \<Longrightarrow> issued_in t t'"
  by (cases e)
    (auto simp: issued_send issued_layer issued_answered issued_end issued_resumed dest!: on_call_Some
      split: if_splits simp: issued_in_def [of t "t\<lparr>selectedNamespace := _\<rparr>"] issued_in_def [of t "t\<lparr>tr_target := _\<rparr>"])

lemma issued_steps: "api_steps es t = Some t' \<Longrightarrow> issued_in t t'"
proof (induction es arbitrary: t)
  case Nil
  then show ?case by (simp add: issued_in_def)
next
  case (Cons e es)
  then obtain u where "api_step e t = Some u" "api_steps es u = Some t'" by (auto split: option.splits)
  then show ?case using issued_trans [OF issued_step Cons.IH] by simp
qed

section \<open>Properties\<close>

definition decided_cluster :: "request_init \<Rightarrow> transport \<Rightarrow> string" where
  "decided_cluster init t = (case rq_clusterId init of Some c \<Rightarrow> c | None \<Rightarrow> ct_clusterId (tr_target t))"

text \<open>
  Claim C9. A call is decided once: whatever happens after it is issued (a cluster switch, a token
  refresh, a login, a logout), each of its attempts goes to the path it named and carries the
  cluster it named, or else the cluster selected when it was issued; there are at most two
  attempts, with the same method and body, and one that is not a GET is always marked against
  cross-site forgery.
\<close>

theorem attempts_keep_their_cluster:
  assumes issue: "t1 = send caller init t" and reach: "api_run t1" and later: "api_steps es t1 = Some t2"
    and fetch: "(tr_next t, f) \<in> set (tr_fetches t2)"
  shows "map_of (ft_headers f) ''x-cluster-id'' = Some (decided_cluster init t) \<and>
    ft_url f = ''/api'' @ rq_path init \<and> ft_method f = rq_method init \<and> ft_body f = rq_body init \<and>
    (truthy (rq_method init) \<and> rq_method init \<noteq> Some ''GET'' \<longrightarrow>
      map_of (ft_headers f) ''x-requested-with'' = Some ''XMLHttpRequest'') \<and>
    fetch_count (tr_next t) t2 \<le> 2"
proof -
  have booked: "calls_booked t2" using api_run_booked [OF api_steps_run [OF later reach]] .
  have "(tr_next t, init, decided_cluster init t) \<in> set (tr_issued t1)"
    unfolding issue by (simp add: send_def Let_def decided_cluster_def)
  then have i: "(tr_next t, init, decided_cluster init t) \<in> set (tr_issued t2)"
    using issued_steps [OF later] by (auto simp: issued_in_def)
  obtain init' tg tok where f: "(tr_next t, init', tg) \<in> set (tr_issued t2)" "f = doFetch init' tg tok"
    using booked fetch by (auto simp: calls_booked_def)
  have "(init', tg) = (init, decided_cluster init t)"
    using booked eq_key_imp_eq_value [OF _ f(1) i] by (simp add: calls_booked_def)
  then show ?thesis
    using f(2) booked by (simp add: doFetch_def Let_def set_when_def map_of_set_key calls_booked_def)
qed

text \<open>
  There is at most one token refresh on the wire, whatever burst of expired answers
  arrives: another one joins it, every call that waits for a refresh waits for one that is under
  way, and once it settles no call is left waiting.
\<close>

theorem one_refresh_at_a_time:
  assumes "api_run t"
  shows "refresh_posts t \<le> refresh_answers t + 1 \<and>
    (\<forall>c \<in> set (tr_calls t). cl_phase c \<in> {AwaitJoin, AwaitRefresh} \<longrightarrow>
      refresh_posts t = refresh_answers t + 1) \<and>
    (\<forall>tok t'. api_step (Settled tok) t = Some t' \<longrightarrow>
      (\<forall>c \<in> set (tr_calls t'). cl_phase c \<notin> {AwaitJoin, AwaitRefresh}))"
  using api_run_session [OF assms] wake_not_waiting by (auto simp: session_ok_def refresh_settled_def Let_def)

text \<open>
  A refused request never feeds on itself: at most one read of the account's permissions
  is open at a time, and no answer to it, a refusal included, issues another call.
\<close>

theorem permission_read_never_feeds_itself:
  assumes run: "api_run t"
  shows "perm_count t \<le> 1 \<and>
    (\<forall>c \<in> set (tr_calls t). cl_caller c = PermissionRefresh \<longrightarrow>
      (\<forall>r. tr_next (fetch_answered c r t) = tr_next t \<and> tr_fetches (fetch_answered c r t) = tr_fetches t))"
proof -
  note ok = api_run_session [OF run]
  have "tr_next (fetch_answered c r t) = tr_next t \<and> tr_fetches (fetch_answered c r t) = tr_fetches t"
    if "c \<in> set (tr_calls t)" "cl_caller c = PermissionRefresh" for c r
  proof -
    have "startsWith (rq_path (cl_init c)) ''/v1/auth/''" using ok that by (simp add: session_ok_def)
    then show ?thesis
      using that(2)
      by (simp add: fetch_answered_def expire_def conclude_def end_call_def call_ended_def Let_def drop_call_def
          refreshSession_def)
  qed
  then show ?thesis using ok by (simp add: session_ok_def)
qed

text \<open>How far a call is from its end.\<close>

definition call_rank :: "send_phase \<Rightarrow> nat" where
  "call_rank ph =
    (case ph of AwaitJoin \<Rightarrow> 6 | JoinSettled _ \<Rightarrow> 5 | FetchFirst \<Rightarrow> 4 | AwaitRefresh \<Rightarrow> 3
     | RefreshSettled _ \<Rightarrow> 2 | FetchAgain \<Rightarrow> 1)"

text \<open>The event a call waits for.\<close>

definition awaits :: "api_call \<Rightarrow> api_event \<Rightarrow> bool" where
  "awaits c e \<longleftrightarrow>
    (case cl_phase c of
       AwaitJoin \<Rightarrow> (\<exists>tok. e = Settled tok)
     | AwaitRefresh \<Rightarrow> (\<exists>tok. e = Settled tok)
     | JoinSettled _ \<Rightarrow> e = Resume (cl_id c)
     | RefreshSettled _ \<Rightarrow> e = Resume (cl_id c)
     | _ \<Rightarrow> e = Threw (cl_id c) \<or> (\<exists>r. e = Answered (cl_id c) r))"

text \<open>Nothing but its own steps touches a call.\<close>

definition keeps_call :: "nat \<Rightarrow> transport \<Rightarrow> transport \<Rightarrow> bool" where
  "keeps_call i t t' \<longleftrightarrow>
    (i < tr_next t \<longrightarrow> i < tr_next t' \<and> (\<forall>c \<in> set (tr_calls t'). cl_id c = i \<longrightarrow> c \<in> set (tr_calls t)))"

lemma keeps_call_trans: "keeps_call i t u \<Longrightarrow> keeps_call i u v \<Longrightarrow> keeps_call i t v"
  by (auto simp: keeps_call_def)

lemma keeps_layer:
  "keeps_call i t (send caller init t)" "keeps_call i t (refreshSession t)" "keeps_call i t (refreshPermissions ns t)"
  "keeps_call i t (on403Callback t)" "keeps_call i t (fetchCurrentUser n t)" "keeps_call i t (bootSession t)"
  "keeps_call i t (drop_call j t)" "keeps_call i t (log_fetch c t)" "i \<noteq> cl_id c \<Longrightarrow> keeps_call i t (put_call c t)"
  by (auto simp: keeps_call_def refreshSession_def refreshPermissions_def on403Callback_def fetchCurrentUser_def
      bootSession_def drop_call_def put_call_def send_def Let_def)

lemma keeps_call_ended: "keeps_call i t (call_ended caller oc t)"
  by (cases caller)
    (auto simp: keeps_call_def call_ended_def logged_out_def clearPendingCaptures_def fetchCurrentUser_def send_def Let_def split: option.split)

lemma keeps_end: "keeps_call i t (end_call c oc t)"
  unfolding end_call_def by (rule keeps_call_trans [OF keeps_layer(7) keeps_call_ended])

lemma end_gone:
  assumes "cl_id c < tr_next t" "d \<in> set (tr_calls (end_call c oc t))"
  shows "cl_id d \<noteq> cl_id c"
proof
  assume e: "cl_id d = cl_id c"
  have k: "keeps_call (cl_id c) (drop_call (cl_id c) t) (end_call c oc t)"
    unfolding end_call_def by (rule keeps_call_ended)
  have "cl_id c < tr_next (drop_call (cl_id c) t)" using assms(1) by (simp add: drop_call_def)
  then have "d \<in> set (tr_calls (drop_call (cl_id c) t))" using k assms(2) e unfolding keeps_call_def by simp
  then show False using e by (simp add: drop_call_def)
qed

lemma keeps_conclude: "keeps_call i t (conclude c r t)"
  using keeps_end keeps_call_trans [OF keeps_layer(4) keeps_end] by (simp add: conclude_def)

lemma conclude_gone:
  assumes "cl_id c < tr_next t" "d \<in> set (tr_calls (conclude c r t))"
  shows "cl_id d \<noteq> cl_id c"
proof -
  have "cl_id c < tr_next (on403Callback t)"
    using assms(1) keeps_layer(4) [of "cl_id c" t] by (simp add: keeps_call_def)
  then show ?thesis using assms end_gone by (auto simp: conclude_def split: if_splits)
qed

lemma keeps_expire: "keeps_call i t (expire c t)"
  using keeps_end [of i "t\<lparr>accessToken := None, atLogin := True\<rparr>" c session_expired]
  by (simp add: expire_def keeps_call_def)

lemma expire_gone: "cl_id c < tr_next t \<Longrightarrow> d \<in> set (tr_calls (expire c t)) \<Longrightarrow> cl_id d \<noteq> cl_id c"
  unfolding expire_def by (rule end_gone) simp_all

lemma answered_moves:
  assumes "cl_id c < tr_next t" "fetching (cl_phase c)" "d \<in> set (tr_calls (fetch_answered c r t))" "cl_id d = cl_id c"
  shows "call_rank (cl_phase d) < call_rank (cl_phase c)"
proof (cases "cl_phase c = FetchFirst \<and> rs_status r = 401 \<and> cl_joined c \<noteq> Some False")
  case True
  then have "d = c\<lparr>cl_phase := AwaitRefresh\<rparr>"
    using assms(3,4) by (auto simp: fetch_answered_def put_call_def split: if_splits)
  then show ?thesis using True by (simp add: call_rank_def)
next
  case False
  then show ?thesis
    using assms conclude_gone expire_gone by (auto simp: fetch_answered_def split: if_splits)
qed

lemma resumed_moves:
  assumes "cl_id c < tr_next t" "settled_phase (cl_phase c)" "d \<in> set (tr_calls (resumed c t))" "cl_id d = cl_id c"
  shows "call_rank (cl_phase d) < call_rank (cl_phase c)"
  using assms expire_gone
  by (auto simp: resumed_def settled_phase_def Let_def put_call_def call_rank_def split: send_phase.splits bool.splits)

lemma keeps_answered: "i \<noteq> cl_id c \<Longrightarrow> keeps_call i t (fetch_answered c r t)"
  using keeps_expire keeps_conclude keeps_call_trans [OF keeps_layer(2) keeps_layer(9)]
  by (simp add: fetch_answered_def)

lemma keeps_call_refl: "keeps_call i t t"
  by (simp add: keeps_call_def)

lemma keeps_refetch: "i \<noteq> cl_id d \<Longrightarrow> keeps_call i t (log_fetch d (put_call d t))"
  by (rule keeps_call_trans [OF keeps_layer(9) keeps_layer(8)])

lemma keeps_resumed:
  assumes "i \<noteq> cl_id c"
  shows "keeps_call i t (resumed c t)"
proof (cases "cl_phase c")
  case (RefreshSettled ok)
  then show ?thesis using assms by (cases ok) (simp_all add: resumed_def Let_def keeps_refetch keeps_expire)
qed (use assms in \<open>simp_all add: resumed_def Let_def keeps_refetch keeps_call_refl\<close>)

lemma wake_rank:
  "call_rank (wake ok ph) \<le> call_rank ph" "ph \<in> {AwaitJoin, AwaitRefresh} \<Longrightarrow> call_rank (wake ok ph) < call_rank ph"
  by (cases ph; simp add: wake_def call_rank_def)+

lemma step_same_call:
  assumes "calls_booked t" "c \<in> set (tr_calls t)" "keeps_call (cl_id c) t t'" "d \<in> set (tr_calls t')" "cl_id d = cl_id c"
  shows "d = c"
proof -
  have "d \<in> set (tr_calls t)" using assms by (auto simp: keeps_call_def calls_booked_def)
  then show ?thesis using assms(1,2,5) by (auto simp: calls_booked_def distinct_map inj_on_def)
qed

lemma settled_moves:
  assumes "calls_booked t" "c \<in> set (tr_calls t)" "d \<in> set (tr_calls (refresh_settled tok t))" "cl_id d = cl_id c"
  shows "d = c\<lparr>cl_phase := wake (truthy tok) (cl_phase c)\<rparr>"
proof -
  obtain x where x: "x \<in> set (tr_calls t)" "d = x\<lparr>cl_phase := wake (truthy tok) (cl_phase x)\<rparr>"
    using assms(3) by (auto simp: refresh_settled_def Let_def)
  then have "x = c" using assms(1,2,4) by (auto simp: calls_booked_def distinct_map inj_on_def)
  then show ?thesis using x(2) by simp
qed

text \<open>Where each event leads a call.\<close>

lemma event_moves:
  assumes booked: "calls_booked t" and c: "c \<in> set (tr_calls t)" and step: "api_step e t = Some t'"
    and d: "d \<in> set (tr_calls t')" "cl_id d = cl_id c"
  shows "call_rank (cl_phase d) \<le> call_rank (cl_phase c)"
    and "awaits c e \<Longrightarrow> call_rank (cl_phase d) < call_rank (cl_phase c)"
proof -
  have n: "cl_id c < tr_next t" using booked c by (simp add: calls_booked_def)
  have inj: "x = c" if "x \<in> set (tr_calls t)" "cl_id x = cl_id c" for x
    using booked c that by (auto simp: calls_booked_def distinct_map inj_on_def)
  have own: "call_rank (cl_phase d) < call_rank (cl_phase c) \<or> keeps_call (cl_id c) t t' \<and> \<not> awaits c e \<or>
      (\<exists>tok. e = Settled tok \<and> t' = refresh_settled tok t)"
  proof (cases e)
    case (Answered i r)
    then obtain x where x: "x \<in> set (tr_calls t)" "cl_id x = i" "fetching (cl_phase x)" "t' = fetch_answered x r t"
      using step by (auto dest!: on_call_Some)
    show ?thesis
    proof (cases "i = cl_id c")
      case True
      then show ?thesis using inj [of x] x answered_moves [OF n] d by auto
    next
      case False
      then show ?thesis
        using x keeps_answered [of "cl_id c" x t r] Answered by (auto simp: awaits_def split: send_phase.splits)
    qed
  next
    case (Threw i)
    then obtain x where x: "x \<in> set (tr_calls t)" "cl_id x = i" "t' = end_call x SendThrew t"
      using step by (auto dest!: on_call_Some)
    show ?thesis
    proof (cases "i = cl_id c")
      case True
      then show ?thesis using inj [of x] x end_gone [OF n] d by auto
    next
      case False
      then show ?thesis using x keeps_end [of "cl_id c" t x] Threw by (auto simp: awaits_def split: send_phase.splits)
    qed
  next
    case (Resume i)
    then obtain x where x: "x \<in> set (tr_calls t)" "cl_id x = i" "settled_phase (cl_phase x)" "t' = resumed x t"
      using step by (auto dest!: on_call_Some)
    show ?thesis
    proof (cases "i = cl_id c")
      case True
      then show ?thesis using inj [of x] x resumed_moves [OF n] d by auto
    next
      case False
      then show ?thesis
        using x keeps_resumed [of "cl_id c" x t] Resume by (auto simp: awaits_def split: send_phase.splits)
    qed
  next
    case (Settled tok)
    then show ?thesis using step by (auto split: if_splits)
  qed (use step keeps_layer(1-6) [of "cl_id c" t] keeps_call_refl in
      \<open>auto simp: awaits_def keeps_call_def split: send_phase.splits\<close>)
  have same: "keeps_call (cl_id c) t t' \<Longrightarrow> d = c" using step_same_call [OF booked c _ d] .
  have woken: "call_rank (cl_phase d) \<le> call_rank (cl_phase c)"
    "awaits c e \<Longrightarrow> call_rank (cl_phase d) < call_rank (cl_phase c)" if "e = Settled tok" "t' = refresh_settled tok t" for tok
  proof -
    have "d = c\<lparr>cl_phase := wake (truthy tok) (cl_phase c)\<rparr>"
      by (rule settled_moves [OF booked c]) (use d that(2) in simp_all)
    then have "cl_phase d = wake (truthy tok) (cl_phase c)" by simp
    then show "call_rank (cl_phase d) \<le> call_rank (cl_phase c)"
      "awaits c e \<Longrightarrow> call_rank (cl_phase d) < call_rank (cl_phase c)"
      using wake_rank that(1) by (auto simp: awaits_def split: send_phase.splits)
  qed
  show "call_rank (cl_phase d) \<le> call_rank (cl_phase c)" using own same woken(1) by fastforce
  show "awaits c e \<Longrightarrow> call_rank (cl_phase d) < call_rank (cl_phase c)" using own woken(2) by blast
qed

lemma awaited_enabled:
  assumes run: "api_run t" and c: "c \<in> set (tr_calls t)" and e: "awaits c e"
  shows "api_step e t \<noteq> None"
proof -
  have ids: "distinct (map cl_id (tr_calls t))" using api_run_booked [OF run] by (simp add: calls_booked_def)
  have found: "find_call (cl_id c) t = Some c"
  proof (cases "find_call (cl_id c) t")
    case None
    then show ?thesis using c by (auto simp: find_call_def find_None_iff)
  next
    case (Some d)
    then show ?thesis using find_call_in [OF Some] c ids by (auto simp: distinct_map inj_on_def)
  qed
  have "cl_phase c \<in> {AwaitJoin, AwaitRefresh} \<longrightarrow> refreshPromise t"
    using api_run_session [OF run] c by (simp add: session_ok_def)
  then show ?thesis
    using e found
    by (auto simp: awaits_def on_call_def fetching_def settled_phase_def split: send_phase.splits)
qed

text \<open>
  Claim C26. Every call ends: at any moment what it waits for can happen (the answer or failure of
  its own fetch, its turn to go on, or the refresh, which is then under way), that event brings it
  strictly closer to its end, and no other event sets it back; six such events end any call.
\<close>

theorem every_call_ends:
  assumes "api_run t" and "c \<in> set (tr_calls t)"
  shows "call_rank (cl_phase c) \<le> 6 \<and> (\<exists>e. awaits c e) \<and> (\<forall>e. awaits c e \<longrightarrow> api_step e t \<noteq> None) \<and>
    (\<forall>e t' d. api_step e t = Some t' \<and> d \<in> set (tr_calls t') \<and> cl_id d = cl_id c \<longrightarrow>
      call_rank (cl_phase d) \<le> call_rank (cl_phase c) \<and>
      (awaits c e \<longrightarrow> 0 < call_rank (cl_phase d) \<and> call_rank (cl_phase d) < call_rank (cl_phase c)))"
proof -
  have rank: "0 < call_rank ph \<and> call_rank ph \<le> 6" for ph by (cases ph) (simp_all add: call_rank_def)
  have some: "\<exists>e. awaits c e" by (cases "cl_phase c") (auto simp: awaits_def)
  have moves: "call_rank (cl_phase d) \<le> call_rank (cl_phase c) \<and>
      (awaits c e \<longrightarrow> 0 < call_rank (cl_phase d) \<and> call_rank (cl_phase d) < call_rank (cl_phase c))"
    if "api_step e t = Some t'" "d \<in> set (tr_calls t')" "cl_id d = cl_id c" for e t' d
    using event_moves [OF api_run_booked [OF assms(1)] assms(2) that] rank [of "cl_phase d"] by simp
  have enabled: "\<forall>e. awaits c e \<longrightarrow> api_step e t \<noteq> None" using awaited_enabled [OF assms] by simp
  have "\<forall>e t' d. api_step e t = Some t' \<and> d \<in> set (tr_calls t') \<and> cl_id d = cl_id c \<longrightarrow>
      call_rank (cl_phase d) \<le> call_rank (cl_phase c) \<and>
      (awaits c e \<longrightarrow> 0 < call_rank (cl_phase d) \<and> call_rank (cl_phase d) < call_rank (cl_phase c))"
    by (intro allI impI, elim conjE) (rule moves)
  then show ?thesis using rank some enabled by simp
qed

section \<open>A call, a switch under it, and a refresh\<close>

definition sample_target :: cluster_target where
  "sample_target = \<lparr>ct_clusterId = ''east'', ct_generation = ''g1'', ct_epoch = 0\<rparr>"

definition expired_answer :: http_response where
  "expired_answer = \<lparr>rs_status = 401, rs_statusText = ''Unauthorized'', rs_json = None\<rparr>"

definition sample_call :: transport where
  "sample_call = send PlainCall (post_init ''/v1/apply'' (Some ''x'')) (fresh_transport sample_target None)"

definition refreshed :: "transport option" where
  "refreshed = api_steps [SwitchCluster ''west'' ''g2'', Answered 0 expired_answer, Settled (Some ''tok''), Resume 0] sample_call"

lemmas api_eval = sample_call_def refreshed_def send_def fresh_transport_def sample_target_def post_init_def
  log_fetch_def put_call_def on_call_def find_call_def fetching_def fetch_answered_def expired_answer_def
  refreshSession_def refresh_settled_def wake_def settled_phase_def resumed_def truthy_def Let_def

lemma sample_call_run: "api_run sample_call"
  unfolding sample_call_def
  by (rule api_run.step [of "fresh_transport sample_target None" "IssueCall (post_init ''/v1/apply'' (Some ''x''))"])
    (simp_all add: api_run.start)

lemma refreshed_calls: "\<exists>t. refreshed = Some t \<and> map cl_phase (tr_calls t) = [FetchAgain] \<and> map fst (tr_fetches t) = [0, 0]"
  by (simp add: api_eval)

theorem attempts_keep_their_cluster_witness:
  "\<exists>t f. refreshed = Some t \<and> length (tr_fetches t) = 2 \<and> (0, f) = tr_fetches t ! 1 \<and>
     map_of (ft_headers f) ''x-cluster-id'' = Some ''east'' \<and>
     map_of (ft_headers f) ''x-requested-with'' = Some ''XMLHttpRequest''"
proof -
  obtain t where t: "refreshed = Some t" "map fst (tr_fetches t) = [0, 0]" using refreshed_calls by auto
  then obtain g f where f: "tr_fetches t = [(0, g), (0, f)]" by (auto simp: map_eq_Cons_conv)
  then have "(tr_next (fresh_transport sample_target None), f) \<in> set (tr_fetches t)"
    by (simp add: fresh_transport_def)
  from attempts_keep_their_cluster [OF sample_call_def sample_call_run t(1) [unfolded refreshed_def] this]
  have "map_of (ft_headers f) ''x-cluster-id'' = Some ''east'' \<and>
      map_of (ft_headers f) ''x-requested-with'' = Some ''XMLHttpRequest''"
    by (simp add: decided_cluster_def post_init_def fresh_transport_def sample_target_def truthy_def)
  then show ?thesis using t f by auto
qed

theorem every_call_ends_witness:
  "\<exists>c \<in> set (tr_calls sample_call). call_rank (cl_phase c) \<le> 6 \<and> (\<exists>e. awaits c e)"
proof -
  have "tr_calls sample_call \<noteq> []" by (simp add: api_eval)
  then have c: "hd (tr_calls sample_call) \<in> set (tr_calls sample_call)" by (rule hd_in_set)
  then show ?thesis using every_call_ends [OF sample_call_run c] by blast
qed

end
