(* ===== verification/Ws_Client.thy ===== *)
theory Ws_Client
  imports Js_Text
begin

text \<open>
  The browser's resource WebSocket (\<open>src/frontend/src/lib/ws.ts\<close>): the module variables are one
  record together with the sockets made so far and what was sent on them. Socket events, timers,
  the tab's visibility, the token and the random source are the environment. A cancellation token
  is its number: \<open>disconnectWS\<close> cancels the current one and makes the next, so a token is cancelled
  when it is no longer current. Callbacks of subscribers are recorded, not run.
\<close>

section \<open>State\<close>

datatype sock_state = CONNECTING | OPEN | CLOSING | CLOSED

datatype ws_status = WsConnecting | WsConnected | WsDisconnected

datatype ws_frame =
    FAuth string
  | FSubscribe string string string
  | FUnsubscribe string

record subscription =
  sub_id :: string
  sub_kind :: string
  sub_namespace :: string

record ws_client =
  ws_current :: "nat option"
  reconnectAttempt :: nat
  reconnectTimer :: "(nat \<times> rat) option"
  subscriptions :: "(string \<times> subscription) list"
  authenticated :: bool
  cancelToken :: nat
  wsStatus :: ws_status
  socks :: "nat \<Rightarrow> sock_state"
  next_sock :: nat
  ws_sent :: "(nat \<times> ws_frame) list"
  visible_waiters :: nat
  tab_hidden :: bool
  ws_refreshes :: "nat list"
  token_waiters :: "nat list"
  ws_called :: "(string \<times> string) list"

definition fresh_client :: ws_client where
  "fresh_client =
    \<lparr>ws_current = None, reconnectAttempt = 0, reconnectTimer = None, subscriptions = [], authenticated = False,
     cancelToken = 0, wsStatus = WsDisconnected, socks = (\<lambda>_. CLOSED), next_sock = 0, ws_sent = [],
     visible_waiters = 0, tab_hidden = False, ws_refreshes = [], token_waiters = [], ws_called = []\<rparr>"

definition BASE_DELAY :: rat where "BASE_DELAY = 1000"

definition MAX_DELAY :: rat where "MAX_DELAY = 30000"

definition JITTER :: rat where "JITTER = 1 / 5"

definition AUTH_FAILURE_CODES :: "int list" where "AUTH_FAILURE_CODES = [4001, 4003]"

definition MAX_RECONNECT_ATTEMPTS :: nat where "MAX_RECONNECT_ATTEMPTS = 15"

text \<open>\<open>random\<close> is what \<open>Math.random()\<close> gives, from 0 up to but not including 1.\<close>

definition reconnectDelay :: "nat \<Rightarrow> rat \<Rightarrow> rat" where
  "reconnectDelay attempt random =
    (let delay = min (BASE_DELAY * 2 ^ attempt) MAX_DELAY; jitter = delay * JITTER * (random * 2 - 1)
     in delay + jitter)"

section \<open>Sending\<close>

text \<open>\<open>send\<close> on a socket that is closing or closed discards the frame.\<close>

definition sock_send :: "nat \<Rightarrow> ws_frame \<Rightarrow> ws_client \<Rightarrow> ws_client" where
  "sock_send s f c = (if socks c s = OPEN then c\<lparr>ws_sent := ws_sent c @ [(s, f)]\<rparr> else c)"

definition sock_close :: "nat \<Rightarrow> ws_client \<Rightarrow> ws_client" where
  "sock_close s c =
    (if socks c s \<in> {CONNECTING, OPEN} then c\<lparr>socks := (socks c)(s := CLOSING)\<rparr> else c)"

definition ready_to_send :: "ws_client \<Rightarrow> nat option" where
  "ready_to_send c =
    (case ws_current c of
       None \<Rightarrow> None
     | Some s \<Rightarrow> if socks c s = OPEN \<and> authenticated c then Some s else None)"

definition send_ready :: "ws_frame \<Rightarrow> ws_client \<Rightarrow> ws_client" where
  "send_ready f c = (case ready_to_send c of None \<Rightarrow> c | Some s \<Rightarrow> sock_send s f c)"

definition sendSubscribe :: "subscription \<Rightarrow> ws_client \<Rightarrow> ws_client" where
  "sendSubscribe sub = send_ready (FSubscribe (sub_id sub) (sub_kind sub) (sub_namespace sub))"

section \<open>Connecting\<close>

definition scheduleReconnect :: "rat \<Rightarrow> ws_client \<Rightarrow> ws_client" where
  "scheduleReconnect random c =
    (if reconnectTimer c \<noteq> None then c
     else if tab_hidden c then c\<lparr>visible_waiters := visible_waiters c + 1\<rparr>
     else c\<lparr>reconnectTimer := Some (cancelToken c, reconnectDelay (reconnectAttempt c) random),
            reconnectAttempt := reconnectAttempt c + 1\<rparr>)"

text \<open>\<open>throws\<close> is whether the constructor of the socket throws.\<close>

definition connectWS :: "bool \<Rightarrow> rat \<Rightarrow> ws_client \<Rightarrow> ws_client" where
  "connectWS throws random c =
    (if (case ws_current c of None \<Rightarrow> False | Some s \<Rightarrow> socks c s = OPEN \<or> socks c s = CONNECTING) then c
     else
       (let c1 = c\<lparr>wsStatus := WsConnecting, authenticated := False\<rparr>
        in if throws then scheduleReconnect random c1
           else c1\<lparr>ws_current := Some (next_sock c1), socks := (socks c1)(next_sock c1 := CONNECTING),
                   next_sock := next_sock c1 + 1\<rparr>))"

definition authenticate :: "nat \<Rightarrow> string option \<Rightarrow> ws_client \<Rightarrow> ws_client" where
  "authenticate sock token c =
    (if ws_current c \<noteq> Some sock then sock_close sock c
     else (case token of
             Some t \<Rightarrow> if t \<noteq> [] then sock_send sock (FAuth t) c else (sock_close sock c)\<lparr>wsStatus := WsDisconnected\<rparr>
           | None \<Rightarrow> (sock_close sock c)\<lparr>wsStatus := WsDisconnected\<rparr>))"

text \<open>The browser opens the socket; \<open>token\<close> is the access token in hand.\<close>

definition onopen :: "nat \<Rightarrow> string option \<Rightarrow> ws_client \<Rightarrow> ws_client" where
  "onopen sock token c =
    (let c1 = c\<lparr>socks := (socks c)(sock := OPEN)\<rparr>
     in if token \<noteq> None \<and> token \<noteq> Some [] then authenticate sock token c1
        else c1\<lparr>token_waiters := token_waiters c1 @ [sock]\<rparr>)"

definition token_ready :: "nat \<Rightarrow> string option \<Rightarrow> ws_client \<Rightarrow> ws_client" where
  "token_ready sock token c = authenticate sock token (c\<lparr>token_waiters := remove1 sock (token_waiters c)\<rparr>)"

section \<open>Messages\<close>

datatype ws_message =
    MAuthOk
  | MEvent "string option" "string option" bool
  | MError "string option" "int option"
  | MSubscribed
  | MResync "string option"
  | MOther

text \<open>An event's last field is whether it carries an object.\<close>

definition notify :: "string option \<Rightarrow> string \<Rightarrow> ws_client \<Rightarrow> ws_client" where
  "notify i ev c =
    (case i of
       None \<Rightarrow> c
     | Some k \<Rightarrow>
         if k \<noteq> [] \<and> map_of (subscriptions c) k \<noteq> None then c\<lparr>ws_called := ws_called c @ [(k, ev)]\<rparr> else c)"

definition resubscribe :: "ws_client \<Rightarrow> ws_client" where
  "resubscribe c = foldl (\<lambda>d sub. sendSubscribe sub d) c (map snd (subscriptions c))"

definition handleMessage :: "ws_message \<Rightarrow> ws_client \<Rightarrow> ws_client" where
  "handleMessage msg c =
    (case msg of
       MAuthOk \<Rightarrow> resubscribe (c\<lparr>authenticated := True, wsStatus := WsConnected, reconnectAttempt := 0\<rparr>)
     | MEvent i ev has_object \<Rightarrow>
         (case ev of None \<Rightarrow> c | Some e \<Rightarrow> if e \<noteq> [] \<and> has_object then notify i e c else c)
     | MError i code \<Rightarrow> if code = Some 403 then notify i ''RBAC_DENIED'' c else c
     | MSubscribed \<Rightarrow> c
     | MResync i \<Rightarrow> notify i ''RESYNC'' c
     | MOther \<Rightarrow> c)"

definition onmessage :: "nat \<Rightarrow> ws_message \<Rightarrow> ws_client \<Rightarrow> ws_client" where
  "onmessage sock msg c = (if ws_current c \<noteq> Some sock then c else handleMessage msg c)"

definition onclose :: "nat \<Rightarrow> int \<Rightarrow> rat \<Rightarrow> ws_client \<Rightarrow> ws_client" where
  "onclose sock code random c =
    (let c0 = c\<lparr>socks := (socks c)(sock := CLOSED)\<rparr>
     in if ws_current c0 \<noteq> Some sock then c0
        else
          (let c1 = c0\<lparr>ws_current := None, authenticated := False, wsStatus := WsDisconnected\<rparr>
           in if code \<in> set AUTH_FAILURE_CODES then c1
              else if reconnectAttempt c1 \<ge> MAX_RECONNECT_ATTEMPTS then c1
              else scheduleReconnect random c1))"

section \<open>Timers and visibility\<close>

definition timer_fires :: "ws_client \<Rightarrow> ws_client" where
  "timer_fires c =
    (case reconnectTimer c of
       None \<Rightarrow> c
     | Some (tok, _) \<Rightarrow>
         (let c1 = c\<lparr>reconnectTimer := None\<rparr>
          in if tok \<noteq> cancelToken c1 then c1 else c1\<lparr>ws_refreshes := ws_refreshes c1 @ [tok]\<rparr>))"

text \<open>The refresh before a reconnect has ended, well or not.\<close>

definition refresh_ended :: "nat \<Rightarrow> bool \<Rightarrow> rat \<Rightarrow> ws_client \<Rightarrow> ws_client" where
  "refresh_ended tok throws random c =
    (let c1 = c\<lparr>ws_refreshes := remove1 tok (ws_refreshes c)\<rparr>
     in if tok \<noteq> cancelToken c1 then c1 else connectWS throws random c1)"

definition tab_shown :: "rat \<Rightarrow> ws_client \<Rightarrow> ws_client" where
  "tab_shown random c =
    (scheduleReconnect random ^^ visible_waiters c) (c\<lparr>tab_hidden := False, visible_waiters := 0\<rparr>)"

section \<open>The client's interface\<close>

definition subscribe :: "string \<Rightarrow> string \<Rightarrow> string \<Rightarrow> bool \<Rightarrow> rat \<Rightarrow> ws_client \<Rightarrow> ws_client" where
  "subscribe i kind namespace throws random c =
    (let sub = \<lparr>sub_id = i, sub_kind = kind, sub_namespace = namespace\<rparr>;
         c1 = c\<lparr>subscriptions := set_key i sub (subscriptions c)\<rparr>
     in sendSubscribe sub (connectWS throws random c1))"

definition unsubscribe :: "string \<Rightarrow> ws_client \<Rightarrow> ws_client" where
  "unsubscribe i c =
    send_ready (FUnsubscribe i) (c\<lparr>subscriptions := filter (\<lambda>p. fst p \<noteq> i) (subscriptions c)\<rparr>)"

definition disconnectWS :: "ws_client \<Rightarrow> ws_client" where
  "disconnectWS c =
    (let c1 = c\<lparr>cancelToken := cancelToken c + 1, reconnectTimer := None, reconnectAttempt := 0, subscriptions := []\<rparr>;
         c2 = (case ws_current c1 of None \<Rightarrow> c1 | Some s \<Rightarrow> (sock_close s c1)\<lparr>ws_current := None\<rparr>)
     in c2\<lparr>wsStatus := WsDisconnected\<rparr>)"

end
