(* ===== verification/Ws_Client_Runs.thy ===== *)
theory Ws_Client_Runs
  imports Ws_Client
begin

text \<open>
  Runs of the WebSocket client: calls of its interface, socket events, tokens, timers, and the tab
  hidden and shown, in any order. The server acknowledges only an authentication it was sent.
\<close>

section \<open>Steps\<close>

datatype ws_event =
    CConnect bool rat
  | CSubscribe string string string bool rat
  | CUnsubscribe string
  | CDisconnect
  | SOpen nat "string option"
  | SToken nat "string option"
  | SMessage nat ws_message
  | SClosing nat
  | SClose nat int rat
  | Timer
  | RefreshEnded nat bool rat
  | TabHidden
  | TabShown rat

definition frames_on :: "nat \<Rightarrow> ws_client \<Rightarrow> ws_frame list" where
  "frames_on s c = map snd (filter (\<lambda>p. fst p = s) (ws_sent c))"

fun is_auth :: "ws_frame \<Rightarrow> bool" where
  "is_auth (FAuth t) = True"
| "is_auth f = False"

lemma list_ex_auth: "list_ex is_auth fs \<longleftrightarrow> (\<exists>t. FAuth t \<in> set fs)"
proof -
  have "is_auth f \<longleftrightarrow> (\<exists>t. f = FAuth t)" for f by (cases f) simp_all
  then show ?thesis by (auto simp: list_ex_iff)
qed

fun ws_step :: "ws_event \<Rightarrow> ws_client \<Rightarrow> ws_client option" where
  "ws_step (CConnect throws random) c = Some (connectWS throws random c)"
| "ws_step (CSubscribe i k n throws random) c = Some (subscribe i k n throws random c)"
| "ws_step (CUnsubscribe i) c = Some (unsubscribe i c)"
| "ws_step CDisconnect c = Some (disconnectWS c)"
| "ws_step (SOpen s tok) c = (if socks c s = CONNECTING then Some (onopen s tok c) else None)"
| "ws_step (SToken s tok) c = (if s \<in> set (token_waiters c) then Some (token_ready s tok c) else None)"
| "ws_step (SMessage s msg) c =
    (if socks c s = OPEN \<and> (msg = MAuthOk \<longrightarrow> list_ex is_auth (frames_on s c)) then Some (onmessage s msg c) else None)"
| "ws_step (SClosing s) c = (if socks c s \<in> {CONNECTING, OPEN} then Some (sock_close s c) else None)"
| "ws_step (SClose s code random) c = (if socks c s \<noteq> CLOSED then Some (onclose s code random c) else None)"
| "ws_step Timer c = (if reconnectTimer c \<noteq> None then Some (timer_fires c) else None)"
| "ws_step (RefreshEnded tok throws random) c =
    (if tok \<in> set (ws_refreshes c) then Some (refresh_ended tok throws random c) else None)"
| "ws_step TabHidden c = (if tab_hidden c then None else Some (c\<lparr>tab_hidden := True\<rparr>))"
| "ws_step (TabShown random) c = (if tab_hidden c then Some (tab_shown random c) else None)"

fun ws_steps :: "ws_event list \<Rightarrow> ws_client \<Rightarrow> ws_client option" where
  "ws_steps [] c = Some c"
| "ws_steps (e # es) c = (case ws_step e c of None \<Rightarrow> None | Some d \<Rightarrow> ws_steps es d)"

section \<open>What the server was told\<close>

fun tell :: "ws_frame \<Rightarrow> (string \<rightharpoonup> string \<times> string) \<Rightarrow> string \<rightharpoonup> string \<times> string" where
  "tell (FAuth t) m = m"
| "tell (FSubscribe i k n) m = m(i \<mapsto> (k, n))"
| "tell (FUnsubscribe i) m = m(i := None)"

definition told :: "nat \<Rightarrow> ws_client \<Rightarrow> string \<rightharpoonup> string \<times> string" where
  "told s c = foldl (\<lambda>m f. tell f m) Map.empty (frames_on s c)"

definition wanted_of :: "(string \<times> subscription) list \<Rightarrow> string \<rightharpoonup> string \<times> string" where
  "wanted_of subs = map_option (\<lambda>sub. (sub_kind sub, sub_namespace sub)) \<circ> map_of subs"

definition auth_first :: "ws_frame list \<Rightarrow> bool" where
  "auth_first fs \<longleftrightarrow> fs = [] \<or> (\<exists>t. hd fs = FAuth t)"

definition current_ok :: "ws_client \<Rightarrow> nat \<Rightarrow> bool" where
  "current_ok c s \<longleftrightarrow>
    s < next_sock c \<and> socks c s \<noteq> CLOSED \<and>
    (socks c s = CONNECTING \<longrightarrow> frames_on s c = [] \<and> \<not> authenticated c) \<and>
    (socks c s = OPEN \<longrightarrow>
      (if authenticated c then told s c = wanted_of (subscriptions c) \<and> frames_on s c \<noteq> []
       else told s c = Map.empty))"

definition client_ok :: "ws_client \<Rightarrow> bool" where
  "client_ok c \<longleftrightarrow>
    (\<forall>s. ws_current c = Some s \<longrightarrow> current_ok c s) \<and>
    distinct (map fst (subscriptions c)) \<and> (\<forall>(i, sub) \<in> set (subscriptions c). sub_id sub = i) \<and>
    (\<forall>s. next_sock c \<le> s \<longrightarrow> frames_on s c = [] \<and> socks c s = CLOSED) \<and>
    (\<forall>s. auth_first (frames_on s c))"

lemma frames_sock_send:
  "frames_on r (sock_send s f c) = (if r = s \<and> socks c s = OPEN then frames_on r c @ [f] else frames_on r c)"
  by (simp add: frames_on_def sock_send_def)

lemma told_sock_send:
  "told r (sock_send s f c) = (if r = s \<and> socks c s = OPEN then tell f (told r c) else told r c)"
  by (simp add: told_def frames_sock_send)

lemma frames_fields [simp]:
  "frames_on s (c\<lparr>ws_current := w\<rparr>) = frames_on s c" "frames_on s (c\<lparr>reconnectAttempt := n\<rparr>) = frames_on s c"
  "frames_on s (c\<lparr>reconnectTimer := rt\<rparr>) = frames_on s c" "frames_on s (c\<lparr>subscriptions := ss\<rparr>) = frames_on s c"
  "frames_on s (c\<lparr>authenticated := b\<rparr>) = frames_on s c" "frames_on s (c\<lparr>cancelToken := n\<rparr>) = frames_on s c"
  "frames_on s (c\<lparr>wsStatus := st\<rparr>) = frames_on s c" "frames_on s (c\<lparr>socks := sk\<rparr>) = frames_on s c"
  "frames_on s (c\<lparr>next_sock := n\<rparr>) = frames_on s c" "frames_on s (c\<lparr>visible_waiters := n\<rparr>) = frames_on s c"
  "frames_on s (c\<lparr>tab_hidden := b\<rparr>) = frames_on s c" "frames_on s (c\<lparr>ws_refreshes := ns\<rparr>) = frames_on s c"
  "frames_on s (c\<lparr>token_waiters := ns\<rparr>) = frames_on s c" "frames_on s (c\<lparr>ws_called := cs\<rparr>) = frames_on s c"
  by (simp_all add: frames_on_def)

text \<open>What the tables say depends on a few fields alone.\<close>

lemma client_ok_cong:
  assumes "ws_current d = ws_current c" "subscriptions d = subscriptions c" "authenticated d = authenticated c"
    "socks d = socks c" "next_sock d = next_sock c" "ws_sent d = ws_sent c"
  shows "client_ok d = client_ok c"
proof -
  have "frames_on s d = frames_on s c" for s using assms(6) by (simp add: frames_on_def)
  moreover have "told s d = told s c" for s using assms(6) by (simp add: told_def frames_on_def)
  ultimately show ?thesis using assms by (simp add: client_ok_def current_ok_def)
qed

lemma client_fields [simp]:
  "client_ok (c\<lparr>reconnectAttempt := n\<rparr>) = client_ok c" "client_ok (c\<lparr>reconnectTimer := rt\<rparr>) = client_ok c"
  "client_ok (c\<lparr>cancelToken := n\<rparr>) = client_ok c" "client_ok (c\<lparr>wsStatus := st\<rparr>) = client_ok c"
  "client_ok (c\<lparr>visible_waiters := n\<rparr>) = client_ok c" "client_ok (c\<lparr>tab_hidden := b\<rparr>) = client_ok c"
  "client_ok (c\<lparr>ws_refreshes := ns\<rparr>) = client_ok c" "client_ok (c\<lparr>token_waiters := ns\<rparr>) = client_ok c"
  "client_ok (c\<lparr>ws_called := cs\<rparr>) = client_ok c"
  by (rule client_ok_cong; simp)+

lemma ok_schedule: "client_ok (scheduleReconnect random c) = client_ok c"
  by (simp add: scheduleReconnect_def)

lemma ok_notify: "client_ok (notify i ev c) = client_ok c"
  by (simp add: notify_def split: option.split)

lemma ok_close:
  assumes "client_ok c" "socks c s \<in> {CONNECTING, OPEN}"
  shows "client_ok (sock_close s c)"
  using assms by (auto simp: client_ok_def current_ok_def sock_close_def told_def)

lemma ok_sock_close: "client_ok c \<Longrightarrow> client_ok (sock_close s c)"
  by (cases "socks c s \<in> {CONNECTING, OPEN}") (use ok_close in \<open>auto simp: sock_close_def\<close>)

section \<open>Every step keeps the tables\<close>

lemma auth_first_snoc: "auth_first fs \<Longrightarrow> fs \<noteq> [] \<or> (\<exists>t. f = FAuth t) \<Longrightarrow> auth_first (fs @ [f])"
  by (cases fs) (auto simp: auth_first_def)

lemma ok_send_auth: "client_ok c \<Longrightarrow> client_ok (sock_send s (FAuth t) c)"
proof (cases "socks c s = OPEN")
  case True
  assume ok: "client_ok c"
  let ?d = "sock_send s (FAuth t) c"
  have d: "ws_current ?d = ws_current c" "subscriptions ?d = subscriptions c" "authenticated ?d = authenticated c"
    "socks ?d = socks c" "next_sock ?d = next_sock c" by (simp_all add: sock_send_def)
  have f: "frames_on r ?d = (if r = s then frames_on r c @ [FAuth t] else frames_on r c)" "told r ?d = told r c" for r
    using True by (simp_all add: frames_sock_send told_sock_send)
  have "auth_first (frames_on r ?d)" for r
    using ok f(1) auth_first_snoc [of "frames_on r c" "FAuth t"] by (auto simp: client_ok_def)
  moreover have "next_sock c \<le> r \<Longrightarrow> r \<noteq> s" for r using ok True by (auto simp: client_ok_def)
  ultimately show ?thesis using ok True by (auto simp: client_ok_def current_ok_def d f)
qed (simp add: sock_send_def)

lemma ok_authenticate: "client_ok c \<Longrightarrow> client_ok (authenticate s tok c)"
  by (auto simp: authenticate_def ok_send_auth ok_sock_close split: option.split)

lemma ok_onopen:
  assumes "client_ok c" "socks c s = CONNECTING"
  shows "client_ok (onopen s tok c)"
proof -
  have "client_ok (c\<lparr>socks := (socks c)(s := OPEN)\<rparr>)"
    using assms by (auto simp: client_ok_def current_ok_def told_def)
  then show ?thesis by (simp add: onopen_def Let_def ok_authenticate)
qed

lemma ok_connect:
  assumes "client_ok c"
  shows "client_ok (connectWS throws random c)"
proof (cases "case ws_current c of None \<Rightarrow> False | Some s \<Rightarrow> socks c s = OPEN \<or> socks c s = CONNECTING")
  case False
  then have "client_ok (c\<lparr>wsStatus := WsConnecting, authenticated := False\<rparr>)"
    using assms by (auto simp: client_ok_def current_ok_def told_def split: option.splits)
  moreover have "client_ok (c\<lparr>wsStatus := WsConnecting, authenticated := False, ws_current := Some (next_sock c),
      socks := (socks c)(next_sock c := CONNECTING), next_sock := next_sock c + 1\<rparr>)"
    using assms by (auto simp: client_ok_def current_ok_def)
  ultimately show ?thesis using False by (auto simp: connectWS_def Let_def ok_schedule)
qed (simp add: connectWS_def assms)

lemma wanted_set:
  "wanted_of (set_key i sub subs) = (wanted_of subs)(i \<mapsto> (sub_kind sub, sub_namespace sub))"
  by (auto simp: wanted_of_def map_of_set_key)

lemma wanted_filter: "wanted_of (filter (\<lambda>p. fst p \<noteq> i) subs) = (wanted_of subs)(i := None)"
proof -
  have "map_of (filter (\<lambda>p. fst p \<noteq> i) subs) j = (if j = i then None else map_of subs j)" for j
    by (induction subs) auto
  then show ?thesis by (auto simp: wanted_of_def)
qed

definition keys_ok :: "(string \<times> subscription) list \<Rightarrow> bool" where
  "keys_ok subs \<longleftrightarrow> distinct (map fst subs) \<and> (\<forall>(i, sub) \<in> set subs. sub_id sub = i)"

lemma keys_set:
  assumes "keys_ok subs"
  shows "keys_ok (set_key (sub_id sub) sub subs)"
proof -
  have "sub_id b = a" if "(a, b) \<in> set (set_key (sub_id sub) sub subs)" for a b
    using subsetD [OF set_key_subset that] assms by (auto simp: keys_ok_def)
  then show ?thesis using assms by (auto simp: keys_ok_def distinct_set_key)
qed

lemma keys_filter: "keys_ok subs \<Longrightarrow> keys_ok (filter P subs)"
  by (auto simp: keys_ok_def distinct_map_filter)

lemma ok_keys: "client_ok c \<Longrightarrow> keys_ok (subscriptions c)"
  by (simp add: client_ok_def keys_ok_def)

text \<open>With nobody to tell, the wanted table may change freely.\<close>

lemma ok_silent:
  "client_ok c \<Longrightarrow> ready_to_send c = None \<Longrightarrow> keys_ok subs \<Longrightarrow> client_ok (c\<lparr>subscriptions := subs\<rparr>)"
  by (auto simp: client_ok_def current_ok_def keys_ok_def ready_to_send_def told_def split: if_splits option.splits)

lemma ok_told:
  assumes ok: "client_ok c" and ready: "ready_to_send c = Some s" and keys: "keys_ok subs"
    and tell: "tell f (wanted_of (subscriptions c)) = wanted_of subs"
  shows "client_ok (sock_send s f (c\<lparr>subscriptions := subs\<rparr>))"
proof -
  let ?d = "sock_send s f (c\<lparr>subscriptions := subs\<rparr>)"
  have s: "ws_current c = Some s" "socks c s = OPEN" "authenticated c"
    using ready by (auto simp: ready_to_send_def split: option.splits if_splits)
  have d: "ws_current ?d = ws_current c" "subscriptions ?d = subs" "authenticated ?d = authenticated c"
    "socks ?d = socks c" "next_sock ?d = next_sock c" by (simp_all add: sock_send_def)
  have f: "frames_on r ?d = (if r = s then frames_on r c @ [f] else frames_on r c)" for r
    using s by (simp add: frames_sock_send)
  have now: "frames_on s c \<noteq> []" "told s c = wanted_of (subscriptions c)" using ok s by (auto simp: client_ok_def current_ok_def)
  have t: "told s ?d = wanted_of subs" using s now(2) tell by (simp add: told_def f)
  have "auth_first (frames_on r ?d)" for r
    using ok now(1) f auth_first_snoc [of "frames_on r c" f] by (auto simp: client_ok_def)
  then show ?thesis
    using ok keys s t f by (auto simp: client_ok_def current_ok_def keys_ok_def d)
qed

lemma ready_same: "ready_to_send (c\<lparr>subscriptions := ss\<rparr>) = ready_to_send c"
  by (simp add: ready_to_send_def split: option.split)

lemma ok_unsubscribe:
  assumes "client_ok c"
  shows "client_ok (unsubscribe i c)"
  using assms ok_silent [OF assms _ keys_filter [OF ok_keys [OF assms]]]
    ok_told [OF assms _ keys_filter [OF ok_keys [OF assms]], of _ "FUnsubscribe i" "\<lambda>p. fst p \<noteq> i"]
  by (auto simp: unsubscribe_def send_ready_def ready_same wanted_filter split: option.split)

lemma connect_ready: "ready_to_send c = Some s \<Longrightarrow> connectWS throws random c = c"
  by (auto simp: ready_to_send_def connectWS_def split: option.splits if_splits)

lemma connect_not_ready:
  assumes "ready_to_send c = None"
  shows "ready_to_send (connectWS throws random c) = None"
  using assms
  by (auto simp: ready_to_send_def connectWS_def scheduleReconnect_def Let_def split: option.splits if_splits)

lemma ok_subscribe:
  assumes "client_ok c"
  shows "client_ok (subscribe i k n throws random c)"
proof -
  let ?sub = "\<lparr>sub_id = i, sub_kind = k, sub_namespace = n\<rparr>"
  let ?subs = "set_key i ?sub (subscriptions c)"
  have keys: "keys_ok ?subs" using keys_set [OF ok_keys [OF assms], of ?sub] by simp
  show ?thesis
  proof (cases "ready_to_send c")
    case None
    then have "client_ok (connectWS throws random (c\<lparr>subscriptions := ?subs\<rparr>))"
      "ready_to_send (connectWS throws random (c\<lparr>subscriptions := ?subs\<rparr>)) = None"
      using ok_connect [OF ok_silent [OF assms None keys]] connect_not_ready by (simp_all add: ready_same)
    then show ?thesis by (simp add: subscribe_def Let_def sendSubscribe_def send_ready_def)
  next
    case (Some s)
    then have "connectWS throws random (c\<lparr>subscriptions := ?subs\<rparr>) = c\<lparr>subscriptions := ?subs\<rparr>"
      using connect_ready by (simp add: ready_same)
    then show ?thesis
      using Some ok_told [OF assms Some keys, of "FSubscribe i k n"]
      by (simp add: subscribe_def Let_def sendSubscribe_def send_ready_def ready_same wanted_set)
  qed
qed

definition sub_frame :: "subscription \<Rightarrow> ws_frame" where
  "sub_frame sub = FSubscribe (sub_id sub) (sub_kind sub) (sub_namespace sub)"

lemma foldl_subscribe:
  assumes "ready_to_send c = Some s"
  shows "foldl (\<lambda>d sub. sendSubscribe sub d) c subs = c\<lparr>ws_sent := ws_sent c @ map (\<lambda>sub. (s, sub_frame sub)) subs\<rparr>"
  using assms
proof (induction subs arbitrary: c)
  case (Cons sub subs)
  let ?d = "c\<lparr>ws_sent := ws_sent c @ [(s, sub_frame sub)]\<rparr>"
  have "sendSubscribe sub c = ?d" "ready_to_send ?d = Some s"
    using Cons.prems
    by (auto simp: sendSubscribe_def send_ready_def sock_send_def sub_frame_def ready_to_send_def
        split: option.splits if_splits)
  then show ?case using Cons.IH [of ?d] by simp
qed simp

lemma tell_all:
  assumes "keys_ok subs"
  shows "foldl (\<lambda>m f. tell f m) m (map sub_frame (map snd subs)) = m ++ wanted_of subs"
  using assms
proof (induction subs arbitrary: m)
  case Nil
  then show ?case by (simp add: wanted_of_def map_add_def)
next
  case (Cons p subs)
  obtain i sub where p: "p = (i, sub)" by (cases p)
  have id: "sub_id sub = i" "keys_ok subs" "map_of subs i = None"
    using Cons.prems p by (auto simp: keys_ok_def map_of_eq_None_iff)
  let ?v = "(sub_kind sub, sub_namespace sub)"
  have w: "wanted_of (p # subs) = (wanted_of subs)(i \<mapsto> ?v)" by (auto simp: wanted_of_def p)
  have t: "tell (sub_frame sub) m = m(i \<mapsto> ?v)" by (simp add: sub_frame_def id(1))
  have "foldl (\<lambda>m f. tell f m) m (map sub_frame (map snd (p # subs))) = tell (sub_frame sub) m ++ wanted_of subs"
    using Cons.IH [OF id(2), of "tell (sub_frame sub) m"] by (simp add: p)
  also have "\<dots> = m ++ wanted_of (p # subs)"
    unfolding t w using id(3) by (auto simp: map_add_def wanted_of_def fun_eq_iff split: option.split)
  finally show ?case .
qed

lemma ok_resubscribe:
  assumes ok: "client_ok c" and cur: "ws_current c = Some s" "socks c s = OPEN" and told: "frames_on s c \<noteq> []"
  shows "client_ok (handleMessage MAuthOk c)"
proof -
  let ?c = "c\<lparr>authenticated := True, wsStatus := WsConnected, reconnectAttempt := 0\<rparr>"
  let ?d = "?c\<lparr>ws_sent := ws_sent c @ map (\<lambda>sub. (s, sub_frame sub)) (map snd (subscriptions c))\<rparr>"
  have "ready_to_send ?c = Some s" using cur by (simp add: ready_to_send_def)
  then have d: "handleMessage MAuthOk c = ?d"
    using foldl_subscribe [of ?c s "map snd (subscriptions c)"] by (simp add: handleMessage_def resubscribe_def)
  have fr: "frames_on r ?d = (if r = s then frames_on r c @ map sub_frame (map snd (subscriptions c)) else frames_on r c)" for r
    by (simp add: frames_on_def filter_map comp_def)
  have m: "told s c = Map.empty \<or> told s c = wanted_of (subscriptions c)"
    using ok cur by (auto simp: client_ok_def current_ok_def split: if_splits)
  have "told s ?d = told s c ++ wanted_of (subscriptions c)"
    using tell_all [OF ok_keys [OF ok]] fr by (simp add: told_def)
  then have t: "told s ?d = wanted_of (subscriptions c)"
    using m by (auto simp: map_add_def fun_eq_iff split: option.split)
  have "auth_first (frames_on r ?d)" for r
    using ok told fr by (auto simp: client_ok_def auth_first_def)
  then show ?thesis
    unfolding d using ok cur told t fr by (auto simp: client_ok_def current_ok_def)
qed

lemma ok_onclose:
  assumes "client_ok c"
  shows "client_ok (onclose s code random c)"
proof (cases "ws_current c = Some s")
  case True
  have "client_ok (c\<lparr>socks := (socks c)(s := CLOSED), ws_current := None, authenticated := False, wsStatus := WsDisconnected\<rparr>)"
    using assms by (auto simp: client_ok_def)
  then show ?thesis using True by (simp add: onclose_def Let_def ok_schedule)
next
  case False
  then have "client_ok (c\<lparr>socks := (socks c)(s := CLOSED)\<rparr>)"
    using assms by (auto simp: client_ok_def current_ok_def told_def)
  then show ?thesis using False by (simp add: onclose_def Let_def)
qed

lemma ok_shown: "client_ok c \<Longrightarrow> client_ok (tab_shown random c)"
proof -
  have "client_ok d \<Longrightarrow> client_ok ((scheduleReconnect random ^^ n) d)" for n d
    by (induction n) (simp_all add: ok_schedule)
  then show "client_ok c \<Longrightarrow> ?thesis" by (simp add: tab_shown_def)
qed

lemma ok_disconnect:
  assumes "client_ok c"
  shows "client_ok (disconnectWS c)"
proof (cases "ws_current c")
  case None
  then show ?thesis using assms by (auto simp: disconnectWS_def Let_def client_ok_def)
next
  case (Some s)
  have "client_ok (c\<lparr>subscriptions := [], ws_current := None\<rparr>)" using assms by (auto simp: client_ok_def)
  then have "client_ok (sock_close s (c\<lparr>subscriptions := [], ws_current := None\<rparr>))" by (rule ok_sock_close)
  moreover have "client_ok (disconnectWS c) = client_ok (sock_close s (c\<lparr>subscriptions := [], ws_current := None\<rparr>))"
    using Some by (intro client_ok_cong) (simp_all add: disconnectWS_def Let_def sock_close_def)
  ultimately show ?thesis by simp
qed

lemma ok_token_ready: "client_ok c \<Longrightarrow> client_ok (token_ready s tok c)"
  by (simp add: token_ready_def ok_authenticate)

lemma ok_message:
  assumes "client_ok c" "socks c s = OPEN" "msg = MAuthOk \<longrightarrow> (\<exists>t. FAuth t \<in> set (frames_on s c))"
  shows "client_ok (onmessage s msg c)"
proof (cases "ws_current c = Some s \<and> msg = MAuthOk")
  case True
  then have "frames_on s c \<noteq> []" using assms(3) by auto
  then show ?thesis using True ok_resubscribe [OF assms(1) _ assms(2)] by (simp add: onmessage_def)
next
  case False
  then show ?thesis
    using assms(1) by (cases msg) (auto simp: onmessage_def handleMessage_def ok_notify split: option.split)
qed

lemma ok_timer: "client_ok c \<Longrightarrow> client_ok (timer_fires c)"
  by (auto simp: timer_fires_def Let_def split: option.split)

lemma ok_refresh_ended: "client_ok c \<Longrightarrow> client_ok (refresh_ended tok throws random c)"
  by (simp add: refresh_ended_def Let_def ok_connect)

lemma ws_step_ok:
  assumes "client_ok c" "ws_step e c = Some d"
  shows "client_ok d"
proof (cases e)
  case (SMessage s msg)
  then have "socks c s = OPEN" "msg = MAuthOk \<longrightarrow> (\<exists>t. FAuth t \<in> set (frames_on s c))" "d = onmessage s msg c"
    using assms(2) by (simp_all add: list_ex_auth split: if_splits)
  then show ?thesis using ok_message [OF assms(1)] by simp
qed (use assms in \<open>auto simp: ok_connect ok_subscribe ok_unsubscribe ok_disconnect ok_onopen ok_token_ready
      ok_sock_close ok_onclose ok_timer ok_refresh_ended ok_shown split: if_splits\<close>)

lemma ws_steps_ok: "client_ok c \<Longrightarrow> ws_steps es c = Some d \<Longrightarrow> client_ok d"
  by (induction es arbitrary: c) (auto split: option.splits dest: ws_step_ok)

lemma fresh_ok: "client_ok fresh_client"
  by (simp add: fresh_client_def client_ok_def frames_on_def auth_first_def)

section \<open>Disconnecting\<close>

text \<open>Every pending reconnect holds a token that exists.\<close>

definition tokens_ok :: "ws_client \<Rightarrow> bool" where
  "tokens_ok c \<longleftrightarrow> (\<forall>t \<in> set (ws_refreshes c). t \<le> cancelToken c)"

definition disconnected :: "ws_client \<Rightarrow> bool" where
  "disconnected c \<longleftrightarrow>
    ws_current c = None \<and> reconnectTimer c = None \<and> visible_waiters c = 0 \<and>
    (\<forall>t \<in> set (ws_refreshes c). t < cancelToken c)"

definition opens_client :: "ws_event \<Rightarrow> bool" where
  "opens_client e = (case e of CConnect _ _ \<Rightarrow> True | CSubscribe _ _ _ _ _ \<Rightarrow> True | _ \<Rightarrow> False)"

lemma schedule_tokens [simp]:
  "ws_refreshes (scheduleReconnect r c) = ws_refreshes c" "cancelToken (scheduleReconnect r c) = cancelToken c"
  by (simp_all add: scheduleReconnect_def)

lemma schedules_tokens [simp]:
  "ws_refreshes ((scheduleReconnect r ^^ n) c) = ws_refreshes c" "cancelToken ((scheduleReconnect r ^^ n) c) = cancelToken c"
  by (induction n) simp_all

lemma connect_tokens [simp]:
  "ws_refreshes (connectWS b r c) = ws_refreshes c" "cancelToken (connectWS b r c) = cancelToken c"
  by (simp_all add: connectWS_def Let_def)

lemma send_tokens [simp]:
  "ws_refreshes (sock_send s f c) = ws_refreshes c" "cancelToken (sock_send s f c) = cancelToken c"
  "ws_refreshes (sock_close s c) = ws_refreshes c" "cancelToken (sock_close s c) = cancelToken c"
  "ws_refreshes (send_ready f c) = ws_refreshes c" "cancelToken (send_ready f c) = cancelToken c"
  "ws_refreshes (notify i ev c) = ws_refreshes c" "cancelToken (notify i ev c) = cancelToken c"
  by (simp_all add: sock_send_def sock_close_def send_ready_def notify_def split: option.split)

lemma resubscribe_tokens [simp]:
  "ws_refreshes (resubscribe c) = ws_refreshes c" "cancelToken (resubscribe c) = cancelToken c"
proof -
  have "ws_refreshes (foldl (\<lambda>d sub. sendSubscribe sub d) c subs) = ws_refreshes c \<and>
      cancelToken (foldl (\<lambda>d sub. sendSubscribe sub d) c subs) = cancelToken c" for subs
    by (induction subs arbitrary: c) (simp_all add: sendSubscribe_def)
  then show "ws_refreshes (resubscribe c) = ws_refreshes c" "cancelToken (resubscribe c) = cancelToken c"
    by (simp_all add: resubscribe_def)
qed

lemma disconnect_tokens [simp]:
  "ws_refreshes (disconnectWS c) = ws_refreshes c" "cancelToken (disconnectWS c) = cancelToken c + 1"
  by (simp_all add: disconnectWS_def Let_def split: option.split)

lemma ws_step_tokens:
  assumes "tokens_ok c" "ws_step e c = Some d"
  shows "tokens_ok d"
proof (cases e)
  case CDisconnect
  then show ?thesis using assms by (force simp: tokens_ok_def)
qed (use assms in \<open>auto simp: tokens_ok_def subscribe_def unsubscribe_def onopen_def token_ready_def authenticate_def
      onmessage_def handleMessage_def onclose_def timer_fires_def refresh_ended_def tab_shown_def sendSubscribe_def Let_def
      split: if_splits option.splits ws_message.splits dest: set_remove1_subset [THEN subsetD]\<close>)

lemma ws_steps_tokens: "tokens_ok c \<Longrightarrow> ws_steps es c = Some d \<Longrightarrow> tokens_ok d"
  by (induction es arbitrary: c) (auto split: option.splits dest: ws_step_tokens)

lemma disconnect_disconnects: "tokens_ok c \<Longrightarrow> visible_waiters c = 0 \<Longrightarrow> disconnected (disconnectWS c)"
  by (auto simp: tokens_ok_def disconnected_def disconnectWS_def Let_def sock_close_def less_Suc_eq_le split: option.split)

lemma sock_close_simps [simp]:
  "ws_current (sock_close s c) = ws_current c" "reconnectTimer (sock_close s c) = reconnectTimer c"
  "visible_waiters (sock_close s c) = visible_waiters c" "next_sock (sock_close s c) = next_sock c"
  "ws_sent (sock_close s c) = ws_sent c" "reconnectAttempt (sock_close s c) = reconnectAttempt c"
  "tab_hidden (sock_close s c) = tab_hidden c"
  by (simp_all add: sock_close_def)

lemma disconnected_step:
  assumes "disconnected c" "\<not> opens_client e" "ws_step e c = Some d"
  shows "disconnected d \<and> next_sock d = next_sock c \<and> ws_sent d = ws_sent c"
proof -
  have n: "ws_current c = None" "reconnectTimer c = None" "visible_waiters c = 0"
    "\<forall>t \<in> set (ws_refreshes c). t < cancelToken c" using assms(1) by (simp_all add: disconnected_def)
  show ?thesis
  proof (cases e)
    case (RefreshEnded tok throws random)
    then have "tok \<in> set (ws_refreshes c)" "d = refresh_ended tok throws random c" using assms(3) by (auto split: if_splits)
    then show ?thesis
      using n by (auto simp: refresh_ended_def Let_def disconnected_def dest: set_remove1_subset [THEN subsetD])
  next
    case CDisconnect
    have "tokens_ok c" using n(4) less_imp_le by (auto simp: tokens_ok_def)
    then have "disconnected (disconnectWS c)" using disconnect_disconnects n(3) by simp
    then show ?thesis using CDisconnect assms(3) n(1) by (auto simp: disconnectWS_def Let_def)
  qed (use assms n in \<open>auto simp: opens_client_def disconnected_def unsubscribe_def send_ready_def ready_to_send_def
      onopen_def token_ready_def authenticate_def onmessage_def onclose_def tab_shown_def Let_def
      split: if_splits option.splits\<close>)
qed

lemma disconnected_steps:
  "disconnected c \<Longrightarrow> \<forall>e \<in> set es. \<not> opens_client e \<Longrightarrow> ws_steps es c = Some d \<Longrightarrow>
   disconnected d \<and> next_sock d = next_sock c \<and> ws_sent d = ws_sent c"
proof (induction es arbitrary: c)
  case (Cons e es)
  then obtain b where b: "ws_step e c = Some b" "ws_steps es b = Some d" by (auto split: option.splits)
  then show ?case using disconnected_step [OF Cons.prems(1) _ b(1)] Cons.IH [of b] Cons.prems(2) by auto
qed simp

section \<open>Reconnecting\<close>

text \<open>An event whose random value is in range and whose socket constructor does not throw.\<close>

definition event_ok :: "ws_event \<Rightarrow> bool" where
  "event_ok e =
    (case e of
       CConnect throws _ \<Rightarrow> \<not> throws
     | CSubscribe _ _ _ throws _ \<Rightarrow> \<not> throws
     | RefreshEnded _ throws _ \<Rightarrow> \<not> throws
     | SClose _ _ random \<Rightarrow> 0 \<le> random \<and> random < 1
     | TabShown random \<Rightarrow> 0 \<le> random \<and> random < 1
     | _ \<Rightarrow> True)"

definition backoff_ok :: "ws_client \<Rightarrow> bool" where
  "backoff_ok c \<longleftrightarrow>
    reconnectAttempt c \<le> MAX_RECONNECT_ATTEMPTS \<and>
    (0 < visible_waiters c \<longrightarrow> tab_hidden c \<and> reconnectTimer c = None \<and> reconnectAttempt c < MAX_RECONNECT_ATTEMPTS) \<and>
    (case reconnectTimer c of None \<Rightarrow> True | Some (_, d) \<Rightarrow> 800 \<le> d \<and> d \<le> 36000)"

lemma delay_bounds:
  assumes "0 \<le> r" "r < 1"
  shows "800 \<le> reconnectDelay n r" "reconnectDelay n r \<le> 36000"
proof -
  define d :: rat where "d = min (1000 * 2 ^ n) 30000"
  have "(1::rat) \<le> 2 ^ n" by simp
  then have d: "1000 \<le> d" "d \<le> 30000" by (simp_all add: d_def)
  define x where "x = 1 + 1 / 5 * (r * 2 - 1)"
  have x: "4 / 5 \<le> x" "x \<le> 6 / 5" using assms by (simp_all add: x_def field_simps)
  have e: "reconnectDelay n r = d * x"
    by (simp add: reconnectDelay_def Let_def d_def x_def BASE_DELAY_def MAX_DELAY_def JITTER_def algebra_simps)
  have "1000 * (4 / 5) \<le> d * x" using d x by (intro mult_mono) simp_all
  then show "800 \<le> reconnectDelay n r" unfolding e by simp
  have "d * x \<le> 30000 * (6 / 5)" using d x by (intro mult_mono) simp_all
  then show "reconnectDelay n r \<le> 36000" unfolding e by simp
qed

lemma backoff_fields [simp]:
  "backoff_ok (c\<lparr>ws_current := w\<rparr>) = backoff_ok c" "backoff_ok (c\<lparr>subscriptions := ss\<rparr>) = backoff_ok c"
  "backoff_ok (c\<lparr>authenticated := b\<rparr>) = backoff_ok c" "backoff_ok (c\<lparr>cancelToken := n\<rparr>) = backoff_ok c"
  "backoff_ok (c\<lparr>wsStatus := st\<rparr>) = backoff_ok c" "backoff_ok (c\<lparr>socks := sk\<rparr>) = backoff_ok c"
  "backoff_ok (c\<lparr>next_sock := n\<rparr>) = backoff_ok c" "backoff_ok (c\<lparr>ws_sent := fs\<rparr>) = backoff_ok c"
  "backoff_ok (c\<lparr>ws_refreshes := ns\<rparr>) = backoff_ok c" "backoff_ok (c\<lparr>token_waiters := ns\<rparr>) = backoff_ok c"
  "backoff_ok (c\<lparr>ws_called := cs\<rparr>) = backoff_ok c"
  by (simp_all add: backoff_ok_def)

lemma backoff_send [simp]:
  "backoff_ok (sock_send s f c) = backoff_ok c" "backoff_ok (sock_close s c) = backoff_ok c"
  "backoff_ok (send_ready f c) = backoff_ok c" "backoff_ok (notify i ev c) = backoff_ok c"
  by (simp_all add: sock_send_def sock_close_def send_ready_def notify_def split: option.split)

lemma backoff_resubscribe [simp]: "backoff_ok (resubscribe c) = backoff_ok c"
proof -
  have "backoff_ok (foldl (\<lambda>d sub. sendSubscribe sub d) c subs) = backoff_ok c" for subs
    by (induction subs arbitrary: c) (simp_all add: sendSubscribe_def)
  then show ?thesis by (simp add: resubscribe_def)
qed

lemma backoff_schedule:
  "backoff_ok c \<Longrightarrow> reconnectAttempt c < MAX_RECONNECT_ATTEMPTS \<Longrightarrow> 0 \<le> r \<Longrightarrow> r < 1 \<Longrightarrow> backoff_ok (scheduleReconnect r c)"
  using delay_bounds [of r] by (auto simp: backoff_ok_def scheduleReconnect_def split: option.splits)

lemma backoff_connect [simp]: "backoff_ok (connectWS False r c) = backoff_ok c"
  by (simp add: connectWS_def Let_def)

lemma backoff_shown:
  assumes "backoff_ok c" "0 \<le> r" "r < 1"
  shows "backoff_ok (tab_shown r c)"
proof (cases "visible_waiters c")
  case 0
  then show ?thesis using assms(1) by (simp add: tab_shown_def backoff_ok_def)
next
  case (Suc n)
  let ?c = "c\<lparr>tab_hidden := False, visible_waiters := 0\<rparr>"
  have "backoff_ok ?c" "reconnectAttempt ?c < MAX_RECONNECT_ATTEMPTS" "reconnectTimer ?c = None"
    using assms(1) Suc by (simp_all add: backoff_ok_def)
  then have one: "backoff_ok (scheduleReconnect r ?c)" "reconnectTimer (scheduleReconnect r ?c) \<noteq> None"
    using backoff_schedule [of ?c r] assms(2,3) by (simp_all add: scheduleReconnect_def)
  have "(scheduleReconnect r ^^ m) d = d" if "reconnectTimer d \<noteq> None" for m d
    using that by (induction m) (simp_all add: scheduleReconnect_def)
  then have "tab_shown r c = scheduleReconnect r ?c"
    using one(2) Suc by (simp add: tab_shown_def funpow_swap1)
  then show ?thesis using one(1) by simp
qed

lemma backoff_reset: "backoff_ok c \<Longrightarrow> backoff_ok (c\<lparr>reconnectAttempt := 0\<rparr>)"
  by (auto simp: backoff_ok_def MAX_RECONNECT_ATTEMPTS_def)

lemma ws_step_backoff:
  assumes "backoff_ok c" "event_ok e" "ws_step e c = Some d"
  shows "backoff_ok d"
proof (cases e)
  case CDisconnect
  then show ?thesis
    using assms(1,3) by (auto simp: disconnectWS_def Let_def backoff_ok_def MAX_RECONNECT_ATTEMPTS_def split: option.splits)
next
  case (SMessage s msg)
  then show ?thesis
    using assms(1,3) backoff_reset
    by (auto simp: onmessage_def handleMessage_def split: if_splits ws_message.splits option.splits)
next
  case (SClose s code r)
  then have d: "d = onclose s code r c" "0 \<le> r" "r < 1" using assms(2,3) by (auto simp: event_ok_def split: if_splits)
  then show ?thesis using assms(1) by (auto simp: onclose_def Let_def not_le intro!: backoff_schedule)
next
  case (TabShown r)
  then show ?thesis using assms backoff_shown by (auto simp: event_ok_def split: if_splits)
next
  case Timer
  then show ?thesis using assms(1,3) by (auto simp: timer_fires_def Let_def backoff_ok_def split: option.splits if_splits)
next
  case TabHidden
  then show ?thesis using assms(1,3) by (auto simp: backoff_ok_def split: if_splits)
qed (use assms in \<open>auto simp: event_ok_def subscribe_def unsubscribe_def onopen_def token_ready_def authenticate_def
      refresh_ended_def sendSubscribe_def Let_def split: if_splits option.splits\<close>)

lemma ws_steps_backoff:
  "backoff_ok c \<Longrightarrow> \<forall>e \<in> set es. event_ok e \<Longrightarrow> ws_steps es c = Some d \<Longrightarrow> backoff_ok d"
  by (induction es arbitrary: c) (auto split: option.splits dest: ws_step_backoff)

section \<open>Properties\<close>

text \<open>
  Claim C8. Under every order of calls, socket events, reconnects and tab changes, the server's
  view is the client's: what was sent on the current socket since it opened, once it is open and
  acknowledged, subscribes exactly the subscriptions the client holds, each with its kind and
  namespace, and on every socket the first thing sent is the authentication.
\<close>

theorem server_view_is_client_table:
  assumes "ws_steps es fresh_client = Some c"
  shows "(\<forall>s. ws_current c = Some s \<and> socks c s = OPEN \<and> authenticated c \<longrightarrow>
      told s c = wanted_of (subscriptions c)) \<and>
    (\<forall>s. frames_on s c \<noteq> [] \<longrightarrow> (\<exists>t. hd (frames_on s c) = FAuth t))"
  using ws_steps_ok [OF fresh_ok assms] by (auto simp: client_ok_def current_ok_def auth_first_def)

definition sample_events :: "ws_event list" where
  "sample_events =
    [CSubscribe ''a'' ''pods'' ''default'' False 0, SOpen 0 (Some ''t''), SMessage 0 MAuthOk,
     CSubscribe ''b'' ''nodes'' ''all'' False 0, CUnsubscribe ''a'']"

lemma sample_client:
  obtains c where "ws_steps sample_events fresh_client = Some c" "ws_current c = Some 0" "socks c 0 = OPEN"
    "authenticated c" "visible_waiters c = 0" "map fst (subscriptions c) = [''b'']" "next_sock c = 1"
proof -
  have "case ws_steps sample_events fresh_client of None \<Rightarrow> False | Some c \<Rightarrow>
      ws_current c = Some 0 \<and> socks c 0 = OPEN \<and> authenticated c \<and> visible_waiters c = 0 \<and>
      map fst (subscriptions c) = [''b''] \<and> next_sock c = 1"
    by code_simp
  then show ?thesis using that by (auto split: option.splits)
qed

theorem server_view_is_client_table_witness:
  "\<exists>c. ws_steps sample_events fresh_client = Some c \<and> map fst (subscriptions c) = [''b''] \<and>
     told 0 c = wanted_of (subscriptions c)"
proof -
  obtain c where "ws_steps sample_events fresh_client = Some c" "ws_current c = Some 0" "socks c 0 = OPEN"
    "authenticated c" "map fst (subscriptions c) = [''b'']" by (rule sample_client)
  then show ?thesis using server_view_is_client_table [of sample_events c] by (intro exI [of _ c]) simp
qed

text \<open>
  Claim C33. Disconnecting is final: when no hidden tab waits to be shown, nothing that was pending
  (a socket about to open, a token on its way, a reconnect in the middle of its refresh) opens a
  socket, sends a frame or arms a timer afterwards, until the page connects or subscribes again.
\<close>

theorem disconnect_is_final:
  assumes "ws_steps es fresh_client = Some c" and "visible_waiters c = 0"
    and "ws_steps es' (disconnectWS c) = Some d" and "\<forall>e \<in> set es'. \<not> opens_client e"
  shows "next_sock d = next_sock c \<and> ws_sent d = ws_sent c \<and> ws_current d = None \<and> reconnectTimer d = None"
proof -
  have "tokens_ok fresh_client" by (simp add: tokens_ok_def fresh_client_def)
  from ws_steps_tokens [OF this assms(1)] have "disconnected (disconnectWS c)"
    using disconnect_disconnects assms(2) by blast
  from disconnected_steps [OF this assms(4,3)] show ?thesis
    by (auto simp: disconnected_def disconnectWS_def Let_def split: option.splits)
qed

theorem disconnect_is_final_witness:
  "\<exists>c d. ws_steps sample_events fresh_client = Some c \<and> ws_steps [SClose 0 1000 0] (disconnectWS c) = Some d \<and>
     next_sock d = 1 \<and> ws_current d = None"
proof -
  obtain c where c: "ws_steps sample_events fresh_client = Some c" "visible_waiters c = 0" "ws_current c = Some 0"
    "socks c 0 = OPEN" "next_sock c = 1"
    by (rule sample_client)
  then obtain d where d: "ws_steps [SClose 0 1000 0] (disconnectWS c) = Some d"
    by (simp add: disconnectWS_def Let_def sock_close_def)
  show ?thesis using disconnect_is_final [OF c(1,2) d] c d by (auto simp: opens_client_def)
qed

text \<open>
  A tab hidden when its socket closed reconnects after a disconnect: the listener that
  waits for the tab to be shown is not removed, so showing the tab schedules a reconnect under the
  new cancellation token and a socket opens although the client was disconnected and nothing
  subscribes.
\<close>

theorem hidden_tab_reconnects_after_disconnect:
  "case ws_steps [CSubscribe ''a'' ''pods'' ''default'' False 0, TabHidden, SClose 0 1006 0, CDisconnect, TabShown 0,
      Timer, RefreshEnded 1 False 0] fresh_client of
     None \<Rightarrow> False
   | Some c \<Rightarrow> ws_current c = Some 1 \<and> socks c 1 = CONNECTING \<and> subscriptions c = []"
  by code_simp

text \<open>
  Reconnecting is bounded: as long as the socket constructor does not throw, at most
  fifteen attempts are counted without an acknowledgement, and every scheduled wait is between 0.8
  and 36 seconds, however long the tab is hidden.
\<close>

theorem reconnects_bounded:
  assumes "ws_steps es fresh_client = Some c" and "\<forall>e \<in> set es. event_ok e"
  shows "reconnectAttempt c \<le> 15 \<and> (\<forall>tok d. reconnectTimer c = Some (tok, d) \<longrightarrow> 800 \<le> d \<and> d \<le> 36000)"
proof -
  have "backoff_ok fresh_client" by (simp add: backoff_ok_def fresh_client_def)
  from ws_steps_backoff [OF this assms(2,1)] show ?thesis by (auto simp: backoff_ok_def MAX_RECONNECT_ATTEMPTS_def)
qed

end
