(* ===== verification/Dashboard_Editor.thy ===== *)
theory Dashboard_Editor
  imports Layout_Store_Runs Placement Widget_State
begin

text \<open>
  The dashboard page (\<open>src/frontend/src/islands/DashboardV2.tsx\<close>) around its grid
  (\<open>src/frontend/components/dashboard/DashboardGrid.tsx\<close>): the handlers that compose the layout
  store, the edit session, the placement and the geometry of the grid. The signals of the page and
  the working copy of the grid are one record. Mounting a grid happens in the render that follows
  \<open>mountGrid\<close>, which is every handler's last statement, so the two are one operation; it unmounts
  the old grid first, which ends a pointer gesture still running. Effects run before the next
  event. Pointer positions arrive as cells (\<open>cellFromPoint\<close>); focus, toasts and announcements are
  left out. The widget registry, the collation and the random source are arguments.
\<close>

section \<open>State\<close>

text \<open>A running gesture: a drag, or a resize with the bounds of the widget.\<close>

record pointer_session =
  pt_id :: string
  pt_resize :: "bounds option"
  pt_start :: cell
  pt_origin :: cell
  pt_last :: cell
  pt_before :: "layout_item list"

record dash_page =
  dp_store :: store
  dp_copies :: copy_store
  dp_session :: "edit_session option"
  dp_saving :: bool
  paletteOpen :: bool
  copyOpen :: bool
  paramTarget :: "(widget_def \<times> layout_item option) option"
  confirmDiscard :: bool
  confirmReset :: bool
  editWarnings :: "string list"
  dp_conflict :: bool
  saveBlocked :: bool
  reloading :: "nat option"
  gridSource :: layout_config
  gridEpoch :: nat
  mountedGeneration :: nat
  grid_items :: "layout_item list"
  grid_session :: "pointer_session option"
  grid_narrow :: bool
  dp_puts :: "(layout_config \<times> int) list"

text \<open>
  \<open>reloading\<close> carries the read the page waits for. \<open>dp_puts\<close> only records what was sent to be
  stored, with the revision each write claimed.
\<close>

section \<open>The grid\<close>

definition rendered_items :: "(string \<Rightarrow> widget_def option) \<Rightarrow> layout_item list \<Rightarrow> layout_item list" where
  "rendered_items getWidget items = map fst (resolveRenderable items getWidget)"

definition asRendered :: "(string \<Rightarrow> widget_def option) \<Rightarrow> layout_config \<Rightarrow> layout_config" where
  "asRendered getWidget config = config\<lparr>config_items := rendered_items getWidget (config_items config)\<rparr>"

definition handleChange :: "layout_item list \<Rightarrow> dash_page \<Rightarrow> dash_page" where
  "handleChange items p =
    (case dp_session p of None \<Rightarrow> p | Some s \<Rightarrow> p\<lparr>dp_session := Some (applyChange s items)\<rparr>)"

definition setItems :: "layout_item list \<Rightarrow> dash_page \<Rightarrow> dash_page" where
  "setItems nxt p = handleChange nxt (p\<lparr>grid_items := nxt\<rparr>)"

text \<open>An exception of the geometry leaves the handler without a change.\<close>

definition set_result :: "grid_error + layout_item list \<Rightarrow> dash_page \<Rightarrow> dash_page" where
  "set_result r p = (case r of Inl e \<Rightarrow> p | Inr nxt \<Rightarrow> setItems nxt p)"

definition grid_editable :: "dash_page \<Rightarrow> bool" where
  "grid_editable p \<longleftrightarrow> dp_session p \<noteq> None \<and> \<not> dp_saving p"

definition end_session :: "bool \<Rightarrow> dash_page \<Rightarrow> dash_page" where
  "end_session restore p =
    (case grid_session p of
       None \<Rightarrow> p
     | Some g \<Rightarrow> (if restore then setItems (pt_before g) p else p)\<lparr>grid_session := None\<rparr>)"

definition start_cell :: "layout_item \<Rightarrow> cell" where
  "start_cell it = \<lparr>cell_x = IntNum (item_x it), cell_y = IntNum (item_y it)\<rparr>"

definition widget_bounds :: "widget_def \<Rightarrow> bounds" where
  "widget_bounds d = \<lparr>bound_minW = minW d, bound_minH = minH d\<rparr>"

definition startSession :: "bool \<Rightarrow> string \<Rightarrow> widget_def \<Rightarrow> cell \<Rightarrow> dash_page \<Rightarrow> dash_page" where
  "startSession resize i d origin p =
    (case find_item (grid_items p) i of
       None \<Rightarrow> p
     | Some it \<Rightarrow>
         if \<not> grid_editable p \<or> grid_narrow p \<or> grid_session p \<noteq> None then p
         else p\<lparr>grid_session := Some
                \<lparr>pt_id = i, pt_resize = (if resize then Some (widget_bounds d) else None),
                 pt_start = start_cell it, pt_origin = origin, pt_last = origin, pt_before = grid_items p\<rparr>\<rparr>)"

text \<open>\<open>===\<close> on both coordinates; a \<open>NaN\<close> equals nothing.\<close>

definition same_cell :: "cell \<Rightarrow> cell \<Rightarrow> bool" where
  "same_cell a b \<longleftrightarrow>
    cell_x a = cell_x b \<and> cell_x a \<noteq> NaN \<and> cell_y a = cell_y b \<and> cell_y a \<noteq> NaN"

definition pointer_moved :: "cell \<Rightarrow> dash_page \<Rightarrow> dash_page" where
  "pointer_moved c p =
    (case grid_session p of
       None \<Rightarrow> p
     | Some g \<Rightarrow>
         if same_cell c (pt_last g) then p
         else
           (let p1 = p\<lparr>grid_session := Some (g\<lparr>pt_last := c\<rparr>)\<rparr>; to = dragTarget (pt_start g) (pt_origin g) c
            in set_result
                 (case pt_resize g of
                    None \<Rightarrow> moveItem (grid_items p) (pt_id g) (cell_x to) (cell_y to)
                  | Some b \<Rightarrow> resizeItemToCell (grid_items p) (pt_id g) c b) p1))"

definition removeItem :: "string \<Rightarrow> dash_page \<Rightarrow> dash_page" where
  "removeItem i p =
    (if grid_session p \<noteq> None \<or> find_item (grid_items p) i = None then p
     else setItems (compact (filter (\<lambda>it. instanceId it \<noteq> i) (grid_items p))) p)"

datatype arrow = ArrowLeft | ArrowRight | ArrowUp | ArrowDown

fun KEY_STEPS :: "arrow \<Rightarrow> jsnum \<times> jsnum" where
  "KEY_STEPS ArrowLeft = (IntNum (- 1), IntNum 0)"
| "KEY_STEPS ArrowRight = (IntNum 1, IntNum 0)"
| "KEY_STEPS ArrowUp = (IntNum 0, IntNum (- 1))"
| "KEY_STEPS ArrowDown = (IntNum 0, IntNum 1)"

definition handleItemKey :: "string \<Rightarrow> widget_def \<Rightarrow> arrow \<Rightarrow> bool \<Rightarrow> dash_page \<Rightarrow> dash_page" where
  "handleItemKey i d key shift p =
    (if grid_session p \<noteq> None then p
     else
       (let (dx, dy) = KEY_STEPS key
        in set_result
             (if shift then resizeItemBy (grid_items p) i dx dy (widget_bounds d)
              else stepItem (grid_items p) i dx dy) p))"

definition mountGrid :: "(string \<Rightarrow> widget_def option) \<Rightarrow> layout_config \<Rightarrow> dash_page \<Rightarrow> dash_page" where
  "mountGrid getWidget config p =
    (end_session True (p\<lparr>gridSource := config, gridEpoch := gridEpoch p + 1\<rparr>))
      \<lparr>grid_items := rendered_items getWidget (config_items config)\<rparr>"

section \<open>Effects\<close>

text \<open>A gesture does not outlive the mode that offered its handle.\<close>

definition mode_effect :: "dash_page \<Rightarrow> dash_page" where
  "mode_effect p = (if \<not> grid_editable p \<or> grid_narrow p then end_session True p else p)"

definition adoptLoadedLayout :: "(string \<Rightarrow> widget_def option) \<Rightarrow> dash_page \<Rightarrow> dash_page" where
  "adoptLoadedLayout getWidget p =
    mountGrid getWidget (layout (dp_store p))
      (p\<lparr>mountedGeneration := layoutGeneration (dp_store p), saveBlocked := False\<rparr>)"

definition generation_effect :: "(string \<Rightarrow> widget_def option) \<Rightarrow> dash_page \<Rightarrow> dash_page" where
  "generation_effect getWidget p =
    (if layoutGeneration (dp_store p) = mountedGeneration p then p else adoptLoadedLayout getWidget p)"

definition copyOptions :: "(string \<Rightarrow> widget_def option) \<Rightarrow> dash_page \<Rightarrow> copyable_layout list" where
  "copyOptions getWidget p =
    (case dp_session p of
       None \<Rightarrow> []
     | Some s \<Rightarrow>
         copyableLayouts getWidget (copyableLayoutRecords (dp_copies p)) (config_scope (working s))
           (selectedCluster (dp_store p)) (config_columns (working s)))"

definition copy_effect :: "(string \<Rightarrow> widget_def option) \<Rightarrow> dash_page \<Rightarrow> dash_page" where
  "copy_effect getWidget p =
    (if \<not> copyOpen p \<or> copyOptions getWidget p \<noteq> [] then p else p\<lparr>copyOpen := False\<rparr>)"

definition rerender :: "(string \<Rightarrow> widget_def option) \<Rightarrow> dash_page \<Rightarrow> dash_page" where
  "rerender getWidget p = copy_effect getWidget (generation_effect getWidget (mode_effect p))"

section \<open>Handlers of the page\<close>

definition editDisabled :: "dash_page \<Rightarrow> bool" where
  "editDisabled p \<longleftrightarrow>
    layoutUnavailable (dp_store p) \<noteq> None \<or> \<not> layoutLoaded (dp_store p) \<or> reloading p \<noteq> None"

definition startEditing :: "(string \<Rightarrow> widget_def option) \<Rightarrow> dash_page \<Rightarrow> dash_page" where
  "startEditing getWidget p =
    p\<lparr>paletteOpen := False, copyOpen := False, paramTarget := None, editWarnings := [],
      dp_session := Some (beginEdit (asRendered getWidget (layout (dp_store p))) (layoutRevision (dp_store p))),
      dp_copies := loadCopyableLayouts False (dp_copies p)\<rparr>"

text \<open>The session takes a new arrangement and the grid is mounted on it.\<close>

definition replace_items ::
  "(string \<Rightarrow> widget_def option) \<Rightarrow> edit_session \<Rightarrow> layout_item list \<Rightarrow> dash_page \<Rightarrow> dash_page" where
  "replace_items getWidget s items p =
    (let nxt = asRendered getWidget ((working s)\<lparr>config_items := items\<rparr>)
     in mountGrid getWidget nxt (p\<lparr>dp_session := Some (applyChange s (config_items nxt))\<rparr>))"

text \<open>The outer \<open>None\<close> is a call that does not return: a random source that yields nothing.\<close>

definition placeWidget ::
  "(string \<Rightarrow> widget_def option) \<Rightarrow> (nat \<Rightarrow> string) \<Rightarrow> widget_def \<Rightarrow> params \<Rightarrow> dash_page \<Rightarrow> dash_page option" where
  "placeWidget getWidget draw d ps p =
    (case dp_session p of
       None \<Rightarrow> Some p
     | Some s \<Rightarrow>
         if dp_saving p then Some p
         else
           (case placeNewWidget draw (config_items (working s)) d (config_columns (working s)) ps of
              None \<Rightarrow> None
            | Some None \<Rightarrow> Some p
            | Some (Some placed) \<Rightarrow>
                Some (replace_items getWidget s (config_items (working s) @ [placed])
                  (p\<lparr>paletteOpen := False, paramTarget := None\<rparr>))))"

definition addWidget ::
  "(string \<Rightarrow> widget_def option) \<Rightarrow> (nat \<Rightarrow> string) \<Rightarrow> widget_def \<Rightarrow> dash_page \<Rightarrow> dash_page option" where
  "addWidget getWidget draw d p =
    (if dp_session p = None \<or> dp_saving p then Some p
     else if def_params d \<noteq> None then Some (p\<lparr>paletteOpen := False, paramTarget := Some (d, None)\<rparr>)
     else placeWidget getWidget draw d [] p)"

definition confirmParams ::
  "(string \<Rightarrow> widget_def option) \<Rightarrow> (nat \<Rightarrow> string) \<Rightarrow> params \<Rightarrow> dash_page \<Rightarrow> dash_page option" where
  "confirmParams getWidget draw values p =
    (case (paramTarget p, dp_session p) of
       (Some (d, target), Some s) \<Rightarrow>
         if dp_saving p then Some p
         else
           (case target of
              None \<Rightarrow> placeWidget getWidget draw d values p
            | Some it \<Rightarrow>
                Some (replace_items getWidget s
                  (map (\<lambda>i. if instanceId i = instanceId it
                             then i\<lparr>item_params := Some (narrowParams d values)\<rparr> else i)
                    (config_items (working s)))
                  (p\<lparr>paramTarget := None\<rparr>)))
     | _ \<Rightarrow> Some p)"

definition reparameterize :: "(string \<Rightarrow> widget_def option) \<Rightarrow> layout_item \<Rightarrow> dash_page \<Rightarrow> dash_page" where
  "reparameterize getWidget it p =
    (if dp_session p = None \<or> dp_saving p then p
     else
       (case getWidget (item_id it) of
          None \<Rightarrow> p
        | Some d \<Rightarrow>
            if def_params d = None then p
            else p\<lparr>paletteOpen := False, copyOpen := False, paramTarget := Some (d, Some it)\<rparr>))"

definition resetLayout :: "(string \<Rightarrow> widget_def option) \<Rightarrow> dash_page \<Rightarrow> dash_page" where
  "resetLayout getWidget p =
    (case dp_session p of
       None \<Rightarrow> p
     | Some s \<Rightarrow>
         if dp_saving p then p
         else replace_items getWidget s (config_items (defaultLayoutFor (config_scope (working s))))
                (p\<lparr>confirmReset := False, editWarnings := []\<rparr>))"

definition copyFrom :: "(string \<Rightarrow> widget_def option) \<Rightarrow> copyable_layout \<Rightarrow> dash_page \<Rightarrow> dash_page" where
  "copyFrom getWidget entry p =
    (case dp_session p of
       None \<Rightarrow> p
     | Some s \<Rightarrow>
         if dp_saving p then p
         else replace_items getWidget s (config_items (cp_config entry))
                (p\<lparr>editWarnings := cp_warnings entry, copyOpen := False\<rparr>))"

definition closeEditing :: "(string \<Rightarrow> widget_def option) \<Rightarrow> dash_page \<Rightarrow> dash_page" where
  "closeEditing getWidget p =
    (case dp_session p of
       None \<Rightarrow> p
     | Some s \<Rightarrow>
         mountGrid getWidget (discard s)
           (p\<lparr>confirmDiscard := False, confirmReset := False, paramTarget := None, editWarnings := [],
              dp_session := None\<rparr>))"

definition requestExit ::
  "(string \<Rightarrow> widget_def option) \<Rightarrow> (string \<Rightarrow> string \<Rightarrow> int) \<Rightarrow> dash_page \<Rightarrow> dash_page" where
  "requestExit getWidget localeCompare p =
    (case dp_session p of
       None \<Rightarrow> p
     | Some s \<Rightarrow>
         if dp_saving p then p
         else if \<not> isDirty localeCompare s then closeEditing getWidget p
         else p\<lparr>confirmDiscard := True\<rparr>)"

section \<open>Saving\<close>

text \<open>
  The write is frozen into the request before the page renders the saving state. A write the store
  refuses without a request fails like any other, with no reason code.
\<close>

definition save_failed :: "request_error \<Rightarrow> dash_page \<Rightarrow> dash_page" where
  "save_failed e p =
    p\<lparr>saveBlocked := True, dp_conflict := (dp_conflict p \<or> preferenceReason e = Some ''revision_conflict''),
      dp_saving := False\<rparr>"

definition save :: "(string \<Rightarrow> string \<Rightarrow> int) \<Rightarrow> dash_page \<Rightarrow> dash_page" where
  "save localeCompare p =
    (case dp_session p of
       None \<Rightarrow> p
     | Some s \<Rightarrow>
         if dp_saving p \<or> \<not> isDirty localeCompare s then p
         else
           (case commit s of
              (config, revision) \<Rightarrow>
                if revision \<noteq> layoutRevision (dp_store p) then p\<lparr>saveBlocked := True, dp_conflict := True\<rparr>
                else
                  (case saveLayout ''overview'' config False (dp_store p) of
                     Inl e \<Rightarrow> save_failed \<lparr>err_abort = False, err_reason = None\<rparr> (mode_effect (p\<lparr>dp_saving := True\<rparr>))
                   | Inr st \<Rightarrow>
                       p\<lparr>dp_saving := True, dp_store := st,
                         dp_puts := dp_puts p @ [(config, layoutRevision (dp_store p))]\<rparr>)))"

definition save_answered :: "pending_save \<Rightarrow> layout_response \<Rightarrow> dash_page \<Rightarrow> dash_page" where
  "save_answered s saved p =
    p\<lparr>dp_store := save_resolved s saved (dp_store p), dp_session := None, paramTarget := None,
      editWarnings := [], dp_saving := False\<rparr>"

definition save_refused :: "pending_save \<Rightarrow> request_error \<Rightarrow> dash_page \<Rightarrow> dash_page" where
  "save_refused s e p = save_failed e (p\<lparr>dp_store := save_rejected s (dp_store p)\<rparr>)"

definition reloadStoredLayout :: "dash_page \<Rightarrow> dash_page" where
  "reloadStoredLayout p =
    p\<lparr>dp_conflict := False, dp_session := None, paramTarget := None, editWarnings := [],
      reloading := Some (next_id (dp_store p)), dp_store := loadLayout ''overview'' False (dp_store p)\<rparr>"

definition reload_ended :: "(string \<Rightarrow> widget_def option) \<Rightarrow> nat \<Rightarrow> dash_page \<Rightarrow> dash_page" where
  "reload_ended getWidget i p =
    (if reloading p = Some i then (adoptLoadedLayout getWidget p)\<lparr>reloading := None\<rparr> else p)"

definition load_answered ::
  "(string \<Rightarrow> widget_def option) \<Rightarrow> pending_load \<Rightarrow> layout_response option \<Rightarrow> dash_page \<Rightarrow> dash_page" where
  "load_answered getWidget l res p =
    reload_ended getWidget (pl_id l) (p\<lparr>dp_store := load_resolved getWidget l res (dp_store p)\<rparr>)"

definition load_failed ::
  "(string \<Rightarrow> widget_def option) \<Rightarrow> pending_load \<Rightarrow> request_error \<Rightarrow> dash_page \<Rightarrow> dash_page" where
  "load_failed getWidget l e p =
    reload_ended getWidget (pl_id l) (p\<lparr>dp_store := load_rejected l e (dp_store p)\<rparr>)"

text \<open>The page as it mounts: the shipped layout on screen, the stored one on its way.\<close>

definition fresh_dashboard :: "(string \<Rightarrow> widget_def option) \<Rightarrow> string \<Rightarrow> dash_page" where
  "fresh_dashboard getWidget cluster =
    \<lparr>dp_store = loadLayout ''overview'' False (initial_store cluster),
     dp_copies = \<lparr>copyableLayoutRecords = [], copyableInFlight = None, copy_reads = [], copy_next = 0\<rparr>,
     dp_session = None, dp_saving = False, paletteOpen = False, copyOpen = False, paramTarget = None,
     confirmDiscard = False, confirmReset = False, editWarnings = [], dp_conflict = False,
     saveBlocked = False, reloading = None, gridSource = DEFAULT_OVERVIEW_LAYOUT, gridEpoch = 0,
     mountedGeneration = 0, grid_items = rendered_items getWidget (config_items DEFAULT_OVERVIEW_LAYOUT),
     grid_session = None, grid_narrow = False, dp_puts = []\<rparr>"

section \<open>What the page fetches\<close>

definition sourcesFor :: "(string \<Rightarrow> widget_def option) \<Rightarrow> layout_config \<Rightarrow> string list" where
  "sourcesFor getWidget config =
    rev (remdups (rev ([''cluster-info'', ''dashboard-summary''] @ FAMILY_STATUS_KEYS @
      concat (map (\<lambda>i. case getWidget (item_id i) of
          None \<Rightarrow> []
        | Some d \<Rightarrow> widgetSourceKeys (sourcesOf d) (case item_params i of None \<Rightarrow> [] | Some ps \<Rightarrow> ps))
        (config_items config)))))"

end
