(* ===== verification/Dashboard_Runs.thy ===== *)
theory Dashboard_Runs
  imports Dashboard_Editor
begin

text \<open>
  Runs of the dashboard page: every control of the page, gesture on the grid and answer of the
  server, in any order. A control acts only when it is rendered and enabled; each event is followed
  by the effects of the render it causes.
\<close>

section \<open>Steps\<close>

datatype dash_event =
    Edit
  | OpenPalette | ClosePalette
  | Add "nat \<Rightarrow> string" widget_def
  | ConfirmParams "nat \<Rightarrow> string" params | CancelParams
  | Reparameterize layout_item
  | AskReset | Reset | KeepLayout
  | OpenCopy | CopyFrom copyable_layout | CloseCopy
  | Cancel | Discard | KeepEditing
  | Save | Saved pending_save layout_response | SaveRefused pending_save request_error
  | Reload | KeepConflict
  | Loaded pending_load "layout_response option" | LoadFailed pending_load request_error
  | CopiesRead "nat \<times> bool" "layout_response list" | CopiesFailed "nat \<times> bool"
  | Press bool string cell | Point cell | Release | Interrupt
  | Remove string | Arrow string arrow bool
  | Resized bool

text \<open>The widget a control on a placed item belongs to: only resolved items are rendered.\<close>

definition widget_at :: "(string \<Rightarrow> widget_def option) \<Rightarrow> dash_page \<Rightarrow> string \<Rightarrow> widget_def option" where
  "widget_at gw p i = (case find_item (grid_items p) i of None \<Rightarrow> None | Some it \<Rightarrow> gw (item_id it))"

definition editing :: "dash_page \<Rightarrow> bool" where
  "editing p \<longleftrightarrow> dp_session p \<noteq> None"

definition save_enabled :: "(string \<Rightarrow> string \<Rightarrow> int) \<Rightarrow> dash_page \<Rightarrow> bool" where
  "save_enabled lc p =
    (case dp_session p of None \<Rightarrow> False | Some s \<Rightarrow> isDirty lc s \<and> \<not> dp_saving p \<and> \<not> saveBlocked p)"

text \<open>
  The palette, the copy list and the parameter dialog cover the page and hold the keyboard; the
  confirmations cover it only for the pointer, and Tab still reaches what is behind them.
\<close>

definition trapped :: "(string \<Rightarrow> widget_def option) \<Rightarrow> dash_page \<Rightarrow> bool" where
  "trapped gw p \<longleftrightarrow>
    grid_editable p \<and> (paletteOpen p \<or> copyOpen p \<and> copyOptions gw p \<noteq> [] \<or> paramTarget p \<noteq> None)"

definition reachable :: "(string \<Rightarrow> widget_def option) \<Rightarrow> dash_page \<Rightarrow> bool" where
  "reachable gw p \<longleftrightarrow> grid_editable p \<and> \<not> trapped gw p"

definition enabled :: "bool \<Rightarrow> 'a \<Rightarrow> 'a option" where
  "enabled b x = (if b then Some x else None)"

fun dash_act ::
  "(string \<Rightarrow> widget_def option) \<Rightarrow> (string \<Rightarrow> string \<Rightarrow> int) \<Rightarrow> dash_event \<Rightarrow> dash_page \<Rightarrow> dash_page option" where
  "dash_act gw lc Edit p = enabled (\<not> editing p \<and> \<not> editDisabled p) (startEditing gw p)"
| "dash_act gw lc OpenPalette p = enabled (reachable gw p) (p\<lparr>paletteOpen := True\<rparr>)"
| "dash_act gw lc ClosePalette p = enabled (paletteOpen p \<and> grid_editable p) (p\<lparr>paletteOpen := False\<rparr>)"
| "dash_act gw lc (Add draw d) p =
    (if paletteOpen p \<and> grid_editable p \<and> gw (def_id d) = Some d then addWidget gw draw d p else None)"
| "dash_act gw lc (ConfirmParams draw values) p =
    (if paramTarget p \<noteq> None \<and> grid_editable p then confirmParams gw draw values p else None)"
| "dash_act gw lc CancelParams p = enabled (paramTarget p \<noteq> None \<and> grid_editable p) (p\<lparr>paramTarget := None\<rparr>)"
| "dash_act gw lc (Reparameterize it) p =
    enabled (reachable gw p \<and> it \<in> set (grid_items p)) (reparameterize gw it p)"
| "dash_act gw lc AskReset p = enabled (reachable gw p) (p\<lparr>confirmReset := True\<rparr>)"
| "dash_act gw lc Reset p = enabled (confirmReset p) (resetLayout gw p)"
| "dash_act gw lc KeepLayout p = enabled (confirmReset p) (p\<lparr>confirmReset := False\<rparr>)"
| "dash_act gw lc OpenCopy p = enabled (reachable gw p \<and> copyOptions gw p \<noteq> []) (p\<lparr>copyOpen := True\<rparr>)"
| "dash_act gw lc (CopyFrom entry) p =
    enabled (copyOpen p \<and> grid_editable p \<and> entry \<in> set (copyOptions gw p)) (copyFrom gw entry p)"
| "dash_act gw lc CloseCopy p = enabled (copyOpen p \<and> grid_editable p) (p\<lparr>copyOpen := False\<rparr>)"
| "dash_act gw lc Cancel p = enabled (reachable gw p) (requestExit gw lc p)"
| "dash_act gw lc Discard p = enabled (confirmDiscard p) (closeEditing gw p)"
| "dash_act gw lc KeepEditing p = enabled (confirmDiscard p) (p\<lparr>confirmDiscard := False\<rparr>)"
| "dash_act gw lc Save p = enabled (reachable gw p \<and> save_enabled lc p) (save lc p)"
| "dash_act gw lc (Saved s r) p = enabled (s \<in> set (saves (dp_store p))) (save_answered s r p)"
| "dash_act gw lc (SaveRefused s e) p = enabled (s \<in> set (saves (dp_store p))) (save_refused s e p)"
| "dash_act gw lc Reload p = enabled (dp_conflict p) (reloadStoredLayout p)"
| "dash_act gw lc KeepConflict p = enabled (dp_conflict p) (p\<lparr>dp_conflict := False\<rparr>)"
| "dash_act gw lc (Loaded l res) p = enabled (l \<in> set (loads (dp_store p))) (load_answered gw l res p)"
| "dash_act gw lc (LoadFailed l e) p = enabled (l \<in> set (loads (dp_store p))) (load_failed gw l e p)"
| "dash_act gw lc (CopiesRead r rs) p =
    enabled (r \<in> set (copy_reads (dp_copies p))) (p\<lparr>dp_copies := copy_resolved r rs (dp_copies p)\<rparr>)"
| "dash_act gw lc (CopiesFailed r) p =
    enabled (r \<in> set (copy_reads (dp_copies p))) (p\<lparr>dp_copies := copy_rejected r (dp_copies p)\<rparr>)"
| "dash_act gw lc (Press resize i c) p =
    (case widget_at gw p i of
       None \<Rightarrow> None
     | Some d \<Rightarrow> enabled (reachable gw p \<and> \<not> grid_narrow p) (startSession resize i d c p))"
| "dash_act gw lc (Point c) p = enabled (grid_session p \<noteq> None) (pointer_moved c p)"
| "dash_act gw lc Release p = enabled (grid_session p \<noteq> None) (end_session False p)"
| "dash_act gw lc Interrupt p = enabled (grid_session p \<noteq> None) (end_session True p)"
| "dash_act gw lc (Remove i) p = enabled (reachable gw p) (removeItem i p)"
| "dash_act gw lc (Arrow i key shift) p =
    (case widget_at gw p i of
       None \<Rightarrow> None
     | Some d \<Rightarrow> enabled (reachable gw p) (handleItemKey i d key shift p))"
| "dash_act gw lc (Resized nw) p = Some (p\<lparr>grid_narrow := nw\<rparr>)"

definition dash_step ::
  "(string \<Rightarrow> widget_def option) \<Rightarrow> (string \<Rightarrow> string \<Rightarrow> int) \<Rightarrow> dash_event \<Rightarrow> dash_page \<Rightarrow> dash_page option" where
  "dash_step gw lc e p = map_option (rerender gw) (dash_act gw lc e p)"

text \<open>
  What the page may rely on from outside: a layout the server hands out passed the server's own
  validation, and a random suffix does not repeat the id of a placed widget.
\<close>

definition sound_config :: "layout_config \<Rightarrow> bool" where
  "sound_config c \<longleftrightarrow> editable (config_items c) \<and> config_columns c = DASHBOARD_COLUMNS"

definition sound_response :: "layout_response \<Rightarrow> bool" where
  "sound_response r \<longleftrightarrow> (\<forall>c. lr_config r = Some c \<longrightarrow> sound_config c)"

definition fresh_draw :: "(nat \<Rightarrow> string) \<Rightarrow> widget_def \<Rightarrow> dash_page \<Rightarrow> bool" where
  "fresh_draw draw d p \<longleftrightarrow>
    (\<forall>s i. dp_session p = Some s \<and> newInstanceId draw (def_id d) = Some i \<longrightarrow>
      i \<notin> instanceId ` set (config_items (working s)))"

fun sound_event :: "dash_event \<Rightarrow> dash_page \<Rightarrow> bool" where
  "sound_event (Loaded l res) p = (\<forall>r. res = Some r \<longrightarrow> sound_response r)"
| "sound_event (CopiesRead i rs) p = (\<forall>r \<in> set rs. sound_response r)"
| "sound_event (Add draw d) p = fresh_draw draw d p"
| "sound_event (ConfirmParams draw values) p = (\<forall>d it. paramTarget p = Some (d, it) \<longrightarrow> fresh_draw draw d p)"
| "sound_event e p = True"

text \<open>
  One thing at a time: nothing mounts a grid or starts a save while a gesture runs, and the
  discard dialog is not answered while a save is in flight.
\<close>

fun mounts_or_saves :: "dash_event \<Rightarrow> bool" where
  "mounts_or_saves (Add draw d) = True"
| "mounts_or_saves (ConfirmParams draw values) = True"
| "mounts_or_saves Reset = True"
| "mounts_or_saves (CopyFrom c) = True"
| "mounts_or_saves Save = True"
| "mounts_or_saves e = False"

definition calm_event :: "dash_event \<Rightarrow> dash_page \<Rightarrow> bool" where
  "calm_event e p \<longleftrightarrow>
    (grid_session p = None \<or> \<not> mounts_or_saves e) \<and> (e = Discard \<longrightarrow> \<not> dp_saving p)"

inductive dash_run ::
  "(string \<Rightarrow> widget_def option) \<Rightarrow> (string \<Rightarrow> string \<Rightarrow> int) \<Rightarrow> bool \<Rightarrow> dash_page \<Rightarrow> bool" for gw lc calm where
  mounted: "dash_run gw lc calm (fresh_dashboard gw cluster)"
| stepped: "dash_run gw lc calm p \<Longrightarrow> sound_event e p \<Longrightarrow> (calm \<longrightarrow> calm_event e p) \<Longrightarrow>
    dash_step gw lc e p = Some q \<Longrightarrow> dash_run gw lc calm q"

end
