(* ===== verification/Dashboard_Sound.thy ===== *)
theory Dashboard_Sound
  imports Dashboard_Runs
begin

text \<open>
  What every run of the dashboard page keeps: each arrangement the page holds, on the grid, in the
  session, in a gesture or in a request, is one the grid can render as it stands.
\<close>

section \<open>Arrangements the grid renders as they stand\<close>

definition sound_items :: "(string \<Rightarrow> widget_def option) \<Rightarrow> layout_item list \<Rightarrow> bool" where
  "sound_items gw xs \<longleftrightarrow> editable xs \<and> canonical xs \<and> (\<forall>it \<in> set xs. gw (item_id it) \<noteq> None)"

lemma editable_compact:
  assumes "editable xs"
  shows "editable (compact xs)"
proof -
  have "distinct (map instanceId (compact xs)) = distinct (map instanceId xs)"
    using gr.fall_ids [of xs] by (metis mset_eq_imp_distinct_iff mset_map)
  moreover have "on_grid (compact xs)"
    using assms by (fastforce simp: editable_def on_grid_def frame_of_def elim: gr.fall_from)
  ultimately show ?thesis
    using assms by (auto simp: editable_def workable_def intro: gr.fall_sizes gr.fall_rows)
qed

lemma editable_filter: "editable xs \<Longrightarrow> editable (filter P xs)"
  by (auto simp: editable_def workable_def on_grid_def legal_rows_def positive_sizes_def distinct_map_filter)

lemma sound_compact:
  assumes "editable xs" and "\<forall>it \<in> set xs. gw (item_id it) \<noteq> None"
  shows "sound_items gw (compact xs)"
proof -
  have "\<forall>it \<in> set (compact xs). gw (item_id it) \<noteq> None"
    using assms(2) by (metis (no_types, lifting) gr.fall_from frame_of_def prod.inject)
  then show ?thesis
    using assms(1) by (simp add: sound_items_def editable_compact gr.fall_canonical)
qed

lemma rendered_compact:
  assumes "editable xs"
  shows "rendered_items gw xs = compact (filter (\<lambda>it. gw (item_id it) \<noteq> None) xs)"
  using resolveRenderable_spec [of xs gw] assms
  by (simp add: rendered_items_def editable_def workable_def comp_def)

lemma rendered_sound:
  assumes "editable xs"
  shows "sound_items gw (rendered_items gw xs)"
  unfolding rendered_compact [OF assms]
  by (rule sound_compact [OF editable_filter [OF assms]]) simp

lemma rendered_fixed:
  assumes "sound_items gw xs"
  shows "rendered_items gw xs = xs"
proof -
  have "filter (\<lambda>it. gw (item_id it) \<noteq> None) xs = xs" using assms by (simp add: sound_items_def)
  moreover have "compact xs = xs"
    using assms by (intro gr.fall_fixed) (simp_all add: sound_items_def editable_def workable_def)
  ultimately show ?thesis using assms by (simp add: rendered_compact sound_items_def)
qed

lemma sound_editable: "sound_items gw xs \<Longrightarrow> editable xs"
  by (simp add: sound_items_def)

lemma sound_keeps:
  assumes "sound_items gw xs" and "keeps xs r"
  shows "sound_items gw r"
proof -
  have "\<forall>it \<in> set r. gw (item_id it) \<noteq> None"
  proof
    fix it assume "it \<in> set r"
    then have "placement_of it \<in># placements r" by simp
    then have "placement_of it \<in># placements xs" using assms(2) by (simp only: keeps_def)
    with assms(1) show "gw (item_id it) \<noteq> None" by (auto simp: sound_items_def placement_of_def)
  qed
  with assms show ?thesis by (simp add: sound_items_def keeps_def)
qed

lemma sound_results:
  assumes "sound_items gw xs"
  shows "moveItem xs i x y = Inr r \<Longrightarrow> sound_items gw r"
    "resizeItemToCell xs i c b = Inr r \<Longrightarrow> sound_items gw r"
    "resizeItemBy xs i x y b = Inr r \<Longrightarrow> sound_items gw r"
    "stepItem xs i x y = Inr r \<Longrightarrow> sound_items gw r"
  using moveItem_keeps [OF sound_editable [OF assms], of i x y]
    resizeItemToCell_keeps [OF sound_editable [OF assms], of i c b]
    resizeItemBy_keeps [OF sound_editable [OF assms], of i x y b]
    stepItem_keeps [OF sound_editable [OF assms], of i x y] sound_keeps [OF assms]
  by auto

text \<open>A widget placed from the palette joins the arrangement.\<close>

lemma editable_placed:
  assumes "editable xs" and "placeNewWidget draw xs d DASHBOARD_COLUMNS ps = Some (Some it)"
    and "\<forall>i. newInstanceId draw (def_id d) = Some i \<longrightarrow> i \<notin> instanceId ` set xs"
  shows "editable (xs @ [it])"
proof -
  obtain x y where fit: "firstFit xs (widget_w d DASHBOARD_COLUMNS) (widget_h d) DASHBOARD_COLUMNS = Some (x, y)"
    and cell: "at_cell it x y (widget_w d DASHBOARD_COLUMNS) (widget_h d)"
    and new: "newInstanceId draw (def_id d) = Some (instanceId it)"
    by (rule placeNewWidget_cell [OF assms(2)])
  note F = fit_rows_Some [OF fit [unfolded firstFit_def]]
  show ?thesis
    using F cell new assms(1,3) widget_size_bounds(1) [of d DASHBOARD_COLUMNS] widget_size_bounds(2) [of d]
    by (auto simp: editable_def workable_def on_grid_def legal_rows_def positive_sizes_def at_cell_def)
qed

lemma editable_params:
  assumes "editable xs"
  shows "editable (map (\<lambda>i. if P i then i\<lparr>item_params := v\<rparr> else i) xs)"
proof -
  have "map instanceId (map (\<lambda>i. if P i then i\<lparr>item_params := v\<rparr> else i) xs) = map instanceId xs" by simp
  moreover have "positive_sizes (map (\<lambda>i. if P i then i\<lparr>item_params := v\<rparr> else i) xs)"
    "legal_rows (map (\<lambda>i. if P i then i\<lparr>item_params := v\<rparr> else i) xs)"
    "on_grid (map (\<lambda>i. if P i then i\<lparr>item_params := v\<rparr> else i) xs)"
    using assms by (auto simp: editable_def workable_def positive_sizes_def legal_rows_def on_grid_def)
  ultimately show ?thesis using assms unfolding editable_def workable_def by metis
qed

lemma editable_default: "editable (config_items (defaultLayoutFor scope))"
  by (simp add: defaultLayoutFor_def DEFAULT_OVERVIEW_LAYOUT_def shipped_item_def editable_def workable_def
      on_grid_def legal_rows_def positive_sizes_def DASHBOARD_COLUMNS_def)

section \<open>The grid\<close>

definition sound_put :: "(string \<Rightarrow> widget_def option) \<Rightarrow> layout_config \<Rightarrow> bool" where
  "sound_put gw c \<longleftrightarrow> sound_items gw (config_items c) \<and> config_columns c = DASHBOARD_COLUMNS"

definition sound_session :: "(string \<Rightarrow> widget_def option) \<Rightarrow> edit_session \<Rightarrow> bool" where
  "sound_session gw s \<longleftrightarrow> sound_put gw (working s) \<and> sound_put gw (baseline s)"

definition grid_ok :: "(string \<Rightarrow> widget_def option) \<Rightarrow> dash_page \<Rightarrow> bool" where
  "grid_ok gw p \<longleftrightarrow>
    sound_items gw (grid_items p) \<and> (\<forall>s. dp_session p = Some s \<longrightarrow> sound_session gw s) \<and>
    (\<forall>g. grid_session p = Some g \<longrightarrow> sound_items gw (pt_before g))"

lemma grid_ok_cong:
  "grid_items q = grid_items p \<Longrightarrow> dp_session q = dp_session p \<Longrightarrow> grid_session q = grid_session p \<Longrightarrow>
   grid_ok gw q = grid_ok gw p"
  by (simp add: grid_ok_def)

lemma sound_change: "sound_session gw s \<Longrightarrow> sound_items gw xs \<Longrightarrow> sound_session gw (applyChange s xs)"
  by (simp add: sound_session_def sound_put_def applyChange_def map_idI)

lemma ok_setItems: "grid_ok gw p \<Longrightarrow> sound_items gw xs \<Longrightarrow> grid_ok gw (setItems xs p)"
  by (auto simp: grid_ok_def setItems_def handleChange_def sound_change split: option.split)

lemma ok_result: "grid_ok gw p \<Longrightarrow> (\<And>xs. r = Inr xs \<Longrightarrow> sound_items gw xs) \<Longrightarrow> grid_ok gw (set_result r p)"
  by (simp add: set_result_def ok_setItems split: sum.split)

lemma ok_end: "grid_ok gw p \<Longrightarrow> grid_ok gw (end_session restore p)"
proof (cases "grid_session p")
  case (Some g)
  assume ok: "grid_ok gw p"
  then have "grid_ok gw (setItems (pt_before g) p)" using Some by (intro ok_setItems) (simp_all add: grid_ok_def)
  then have "grid_ok gw ((setItems (pt_before g) p)\<lparr>grid_session := None\<rparr>)" by (simp add: grid_ok_def)
  moreover have "grid_ok gw (p\<lparr>grid_session := None\<rparr>)" using ok by (simp add: grid_ok_def)
  ultimately show ?thesis using Some by (simp add: end_session_def)
qed (simp add: end_session_def)

lemma ok_start: "grid_ok gw p \<Longrightarrow> grid_ok gw (startSession resize i d c p)"
  by (auto simp: startSession_def grid_ok_def split: option.split)

lemma ok_moved:
  assumes "grid_ok gw p"
  shows "grid_ok gw (pointer_moved c p)"
proof (cases "grid_session p")
  case (Some g)
  have s: "sound_items gw (grid_items p)" using assms by (simp add: grid_ok_def)
  have "grid_ok gw (p\<lparr>grid_session := Some (g\<lparr>pt_last := c\<rparr>)\<rparr>)" using assms Some by (simp add: grid_ok_def)
  then show ?thesis
    using Some assms sound_results(1,2) [OF s]
    by (auto simp: pointer_moved_def Let_def intro!: ok_result split: option.split)
qed (simp add: pointer_moved_def assms)

lemma ok_remove:
  assumes "grid_ok gw p"
  shows "grid_ok gw (removeItem i p)"
proof -
  have "sound_items gw (grid_items p)" using assms by (simp add: grid_ok_def)
  then have "sound_items gw (compact (filter (\<lambda>it. instanceId it \<noteq> i) (grid_items p)))"
    by (intro sound_compact editable_filter) (auto simp: sound_items_def)
  then show ?thesis using assms by (simp add: removeItem_def ok_setItems)
qed

lemma ok_key:
  assumes "grid_ok gw p"
  shows "grid_ok gw (handleItemKey i d key shift p)"
proof -
  have s: "sound_items gw (grid_items p)" using assms by (simp add: grid_ok_def)
  show ?thesis
    using assms sound_results(3,4) [OF s]
    by (auto simp: handleItemKey_def case_prod_beta intro!: ok_result)
qed

lemma ok_mount:
  assumes "grid_ok gw p" and "editable (config_items c)"
  shows "grid_ok gw (mountGrid gw c p)"
proof -
  let ?q = "end_session True (p\<lparr>gridSource := c, gridEpoch := gridEpoch p + 1\<rparr>)"
  have "grid_ok gw ?q" using assms(1) by (intro ok_end) (simp add: grid_ok_def)
  then show ?thesis using rendered_sound [OF assms(2)] by (simp add: mountGrid_def grid_ok_def)
qed

text \<open>The grid does not touch the rest of the page.\<close>

definition outer ::
  "dash_page \<Rightarrow> store \<times> copy_store \<times> bool \<times> (layout_config \<times> int) list \<times> nat option \<times> bool \<times> bool \<times> nat" where
  "outer p = (dp_store p, dp_copies p, dp_saving p, dp_puts p, reloading p, saveBlocked p, dp_conflict p,
    mountedGeneration p)"

lemma outer_grid [simp]:
  "outer (handleChange xs p) = outer p" "outer (setItems xs p) = outer p" "outer (set_result r p) = outer p"
  "outer (end_session b p) = outer p" "outer (startSession b i d c p) = outer p"
  "outer (pointer_moved c p) = outer p" "outer (removeItem i p) = outer p"
  "outer (handleItemKey i d key b p) = outer p" "outer (mountGrid gw cf p) = outer p"
  "outer (mode_effect p) = outer p" "outer (copy_effect gw p) = outer p"
proof -
  show h [simp]: "outer (handleChange xs p) = outer p" for xs p
    by (simp add: handleChange_def outer_def split: option.split)
  show s [simp]: "outer (setItems xs p) = outer p" for xs p
    unfolding setItems_def h by (simp add: outer_def)
  show r [simp]: "outer (set_result r p) = outer p" for r p by (simp add: set_result_def split: sum.split)
  have g: "outer (p\<lparr>grid_session := g\<rparr>) = outer p" for g p by (simp add: outer_def)
  show e [simp]: "outer (end_session b p) = outer p" for b p by (simp add: end_session_def g split: option.split)
  show "outer (startSession b i d c p) = outer p" by (simp add: startSession_def g split: option.split)
  show "outer (pointer_moved c p) = outer p" by (simp add: pointer_moved_def Let_def g split: option.split)
  show "outer (removeItem i p) = outer p" by (simp add: removeItem_def)
  show "outer (handleItemKey i d key b p) = outer p" by (simp add: handleItemKey_def case_prod_beta)
  have "outer (p\<lparr>grid_items := xs\<rparr>) = outer p" "outer (p\<lparr>gridSource := c, gridEpoch := n\<rparr>) = outer p" for xs c n p
    by (simp_all add: outer_def)
  then show "outer (mountGrid gw cf p) = outer p" by (simp add: mountGrid_def)
  show "outer (mode_effect p) = outer p" by (simp add: mode_effect_def)
  show "outer (copy_effect gw p) = outer p" by (simp add: copy_effect_def outer_def)
qed

lemma outer_eq:
  assumes "outer q = outer p"
  shows "dp_store q = dp_store p" "dp_copies q = dp_copies p" "dp_saving q = dp_saving p" "dp_puts q = dp_puts p"
    "reloading q = reloading p" "saveBlocked q = saveBlocked p" "dp_conflict q = dp_conflict p"
    "mountedGeneration q = mountedGeneration p"
  using assms by (simp_all add: outer_def)

section \<open>The page\<close>

definition store_ok :: "(string \<Rightarrow> widget_def option) \<Rightarrow> store \<Rightarrow> bool" where
  "store_ok gw st \<longleftrightarrow> sound_config (layout st) \<and> (\<forall>s \<in> set (saves st). sound_put gw (ps_config s))"

definition outer_ok :: "(string \<Rightarrow> widget_def option) \<Rightarrow> dash_page \<Rightarrow> bool" where
  "outer_ok gw p \<longleftrightarrow>
    store_ok gw (dp_store p) \<and> (\<forall>r \<in> set (copyableLayoutRecords (dp_copies p)). sound_response r) \<and>
    (\<forall>c \<in> fst ` set (dp_puts p). sound_put gw c)"

definition dash_ok :: "(string \<Rightarrow> widget_def option) \<Rightarrow> dash_page \<Rightarrow> bool" where
  "dash_ok gw p \<longleftrightarrow> grid_ok gw p \<and> outer_ok gw p"

lemma outer_ok_cong: "outer q = outer p \<Longrightarrow> outer_ok gw q = outer_ok gw p"
  by (simp add: outer_def outer_ok_def)

lemma dash_grid:
  assumes "dash_ok gw p" and "grid_ok gw p \<Longrightarrow> grid_ok gw q" and "outer q = outer p"
  shows "dash_ok gw q"
  using assms outer_ok_cong [OF assms(3)] by (simp add: dash_ok_def)

lemma dash_session: "dash_ok gw p \<Longrightarrow> dp_session p = Some s \<Longrightarrow> sound_session gw s"
  by (simp add: dash_ok_def grid_ok_def)

lemma dash_layout: "dash_ok gw p \<Longrightarrow> editable (config_items (layout (dp_store p)))"
  by (simp add: dash_ok_def outer_ok_def store_ok_def sound_config_def)

lemma dash_mount: "dash_ok gw p \<Longrightarrow> editable (config_items c) \<Longrightarrow> dash_ok gw (mountGrid gw c p)"
  by (erule dash_grid) (simp_all add: ok_mount)

lemma session_parts:
  assumes "sound_session gw s"
  shows "sound_items gw (config_items (working s))" "config_columns (working s) = DASHBOARD_COLUMNS"
    "editable (config_items (working s))" "editable (config_items (baseline s))"
  using assms by (simp_all add: sound_session_def sound_put_def sound_items_def)

lemma ok_replace:
  assumes "dash_ok gw p" and "sound_session gw s" and "editable items"
  shows "dash_ok gw (replace_items gw s items p)"
proof -
  let ?nxt = "asRendered gw ((working s)\<lparr>config_items := items\<rparr>)"
  have nxt: "sound_items gw (config_items ?nxt)" using rendered_sound [OF assms(3)] by (simp add: asRendered_def)
  then have "sound_session gw (applyChange s (config_items ?nxt))" using assms(2) by (rule sound_change [rotated])
  then have "dash_ok gw (p\<lparr>dp_session := Some (applyChange s (config_items ?nxt))\<rparr>)"
    using assms(1) by (simp add: dash_ok_def grid_ok_def outer_ok_def)
  then show ?thesis using nxt by (simp add: replace_items_def Let_def dash_mount sound_items_def)
qed

lemma dash_flags:
  assumes "dash_ok gw p"
  shows "dash_ok gw (p\<lparr>paletteOpen := a, paramTarget := t\<rparr>)" "dash_ok gw (p\<lparr>paramTarget := t\<rparr>)"
    "dash_ok gw (p\<lparr>paletteOpen := a, copyOpen := b, paramTarget := t\<rparr>)" "dash_ok gw (p\<lparr>paletteOpen := a\<rparr>)"
    "dash_ok gw (p\<lparr>confirmReset := a, editWarnings := w\<rparr>)" "dash_ok gw (p\<lparr>editWarnings := w, copyOpen := a\<rparr>)"
    "dash_ok gw (p\<lparr>confirmReset := a\<rparr>)" "dash_ok gw (p\<lparr>confirmDiscard := a\<rparr>)" "dash_ok gw (p\<lparr>copyOpen := a\<rparr>)"
    "dash_ok gw (p\<lparr>dp_conflict := a\<rparr>)" "dash_ok gw (p\<lparr>grid_narrow := a\<rparr>)" "dash_ok gw (p\<lparr>dp_saving := a\<rparr>)"
    "dash_ok gw (p\<lparr>saveBlocked := a, dp_conflict := b\<rparr>)" "dash_ok gw (p\<lparr>mountedGeneration := n, saveBlocked := a\<rparr>)"
    "dash_ok gw (p\<lparr>reloading := r\<rparr>)" "dash_ok gw (p\<lparr>saveBlocked := a, dp_conflict := b, dp_saving := c\<rparr>)"
  using assms by (simp_all add: dash_ok_def grid_ok_def outer_ok_def)

lemma ok_place:
  assumes "dash_ok gw p" and "fresh_draw draw d p" and "placeWidget gw draw d ps p = Some q"
  shows "dash_ok gw q"
proof (cases "dp_session p")
  case (Some s)
  note s = session_parts [OF dash_session [OF assms(1) Some]]
  have "editable (config_items (working s) @ [it])"
    if "placeNewWidget draw (config_items (working s)) d (config_columns (working s)) ps = Some (Some it)" for it
    using editable_placed [OF s(3)] that assms(2) Some s(2) by (auto simp: fresh_draw_def)
  then show ?thesis
    using assms(1,3) Some ok_replace [OF dash_flags(1) [OF assms(1)] dash_session [OF assms(1) Some]]
    by (auto simp: placeWidget_def split: if_splits option.splits)
qed (use assms in \<open>simp add: placeWidget_def\<close>)

lemma ok_add:
  assumes "dash_ok gw p" and "fresh_draw draw d p" and "addWidget gw draw d p = Some q"
  shows "dash_ok gw q"
  using assms ok_place [OF assms(1,2)] dash_flags(1) [OF assms(1)] by (auto simp: addWidget_def split: if_splits)

lemma ok_params:
  assumes "dash_ok gw p" and "\<forall>d it. paramTarget p = Some (d, it) \<longrightarrow> fresh_draw draw d p"
    and "confirmParams gw draw values p = Some q"
  shows "dash_ok gw q"
proof (cases "paramTarget p = None \<or> dp_session p = None \<or> dp_saving p")
  case False
  then obtain d t s where ts: "paramTarget p = Some (d, t)" "dp_session p = Some s" by auto
  show ?thesis
  proof (cases t)
    case None
    then show ?thesis
      using False ts assms ok_place [OF assms(1)] by (auto simp: confirmParams_def)
  next
    case (Some it)
    note s = dash_session [OF assms(1) ts(2)]
    show ?thesis
      using False ts Some assms(3)
        ok_replace [OF dash_flags(2) [OF assms(1)] s editable_params [OF session_parts(3) [OF s]]]
      by (auto simp: confirmParams_def)
  qed
qed (use assms in \<open>auto simp: confirmParams_def split: option.splits\<close>)

lemma ok_close_edit:
  assumes "dash_ok gw p"
  shows "dash_ok gw (closeEditing gw p)"
proof (cases "dp_session p")
  case (Some s)
  have "dash_ok gw (p\<lparr>confirmDiscard := False, confirmReset := False, paramTarget := None, editWarnings := [],
      dp_session := None\<rparr>)"
    using assms by (simp add: dash_ok_def grid_ok_def outer_ok_def)
  then show ?thesis
    using Some session_parts(4) [OF dash_session [OF assms Some]]
    by (simp add: closeEditing_def discard_def dash_mount)
qed (simp add: closeEditing_def assms)

lemma ok_copy:
  assumes "dash_ok gw p" and "entry \<in> set (copyOptions gw p)"
  shows "dash_ok gw (copyFrom gw entry p)"
proof (cases "dp_session p")
  case (Some s)
  obtain r where r: "r \<in> set (copyableLayoutRecords (dp_copies p))"
    "copyable_row gw (config_scope (working s)) (selectedCluster (dp_store p)) (config_columns (working s)) r = Some entry"
    using assms(2) Some by (auto simp: copyOptions_def copyableLayouts_def List.map_filter_def split: if_splits)
  obtain c where c: "lr_config r = Some c"
    "cp_config entry = c\<lparr>config_items := filter (renderable gw) (config_items c)\<rparr>"
    using copyable_row_Some(2) [OF r(2)] by blast
  have "sound_response r" using assms(1) r(1) by (simp add: dash_ok_def outer_ok_def)
  then have "editable (config_items (cp_config entry))"
    using c by (simp add: sound_response_def sound_config_def editable_filter)
  then show ?thesis
    using Some assms(1) ok_replace [OF dash_flags(6) [OF assms(1)] dash_session [OF assms(1) Some]]
    by (simp add: copyFrom_def)
qed (simp add: copyFrom_def assms)

section \<open>Reads and writes\<close>

lemma dropped_config: "fst (dropUnknownWidgets gw c) = c\<lparr>config_items := filter (renderable gw) (config_items c)\<rparr>"
  using dropUnknownWidgets_items [of gw c]
  by (auto simp: dropUnknownWidgets_def split: prod.splits)

lemma sound_default: "sound_config (defaultLayoutFor scope)"
  using editable_default [of scope] by (simp add: sound_config_def defaultLayoutFor_def DEFAULT_OVERVIEW_LAYOUT_def)

lemma sound_loaded:
  assumes "layoutFromResponse gw res scope = Some loaded" and "\<forall>r. res = Some r \<longrightarrow> sound_response r"
  shows "sound_config (ll_config loaded)"
proof (cases res)
  case None
  then show ?thesis using assms(1) sound_default by (auto simp: layoutFromResponse_def)
next
  case (Some r)
  then obtain c where c: "lr_config r = Some c" "ll_config loaded = fst (dropUnknownWidgets gw c)"
    using assms(1) by (auto simp: layoutFromResponse_def split: option.splits prod.splits)
  have "sound_config c" using assms(2) Some c(1) by (simp add: sound_response_def)
  then show ?thesis by (simp add: c(2) dropped_config sound_config_def editable_filter)
qed

lemma store_ok_cong: "layout b = layout a \<Longrightarrow> set (saves b) \<subseteq> set (saves a) \<Longrightarrow> store_ok gw a \<Longrightarrow> store_ok gw b"
  by (auto simp: store_ok_def)

lemma put_sound: "sound_put gw c \<Longrightarrow> sound_config c"
  by (simp add: sound_put_def sound_config_def sound_items_def)

lemma store_ok_reads:
  assumes "store_ok gw st"
  shows "store_ok gw (loadLayout scope aborted st)" "store_ok gw (load_rejected l e st)"
  by (rule store_ok_cong [OF _ _ assms]; simp add: load_defs split: option.split)+

lemma store_ok_loaded:
  assumes "store_ok gw st" and "\<forall>r. res = Some r \<longrightarrow> sound_response r"
  shows "store_ok gw (load_resolved gw l res st)"
proof -
  have "sound_config (layout (load_resolved gw l res st))"
    using assms sound_loaded [OF _ assms(2)] by (auto simp: load_defs store_ok_def split: option.split)
  moreover have "saves (load_resolved gw l res st) = saves st"
    by (simp add: load_defs split: option.split)
  ultimately show ?thesis using assms(1) by (simp add: store_ok_def)
qed

lemma store_ok_writes:
  assumes "store_ok gw st" and "s \<in> set (saves st)"
  shows "store_ok gw (save_resolved s r st)" "store_ok gw (save_rejected s st)"
  using assms by (auto simp: save_defs store_ok_def put_sound)

lemma dash_store:
  assumes "dash_ok gw p" and "store_ok gw (dp_store p) \<Longrightarrow> store_ok gw st"
  shows "dash_ok gw (p\<lparr>dp_store := st\<rparr>)"
  using assms by (simp add: dash_ok_def grid_ok_def outer_ok_def)

lemma ok_adopt: "dash_ok gw p \<Longrightarrow> dash_ok gw (adoptLoadedLayout gw p)"
  unfolding adoptLoadedLayout_def
  by (rule dash_mount [OF dash_flags(14)]) (simp_all add: dash_layout)

lemma ok_reload: "dash_ok gw p \<Longrightarrow> dash_ok gw (reload_ended gw i p)"
  using dash_flags(15) [OF ok_adopt] by (simp add: reload_ended_def)

lemma ok_mode: "dash_ok gw p \<Longrightarrow> dash_ok gw (mode_effect p)"
  by (erule dash_grid) (simp_all add: mode_effect_def ok_end)

lemma ok_save:
  assumes "dash_ok gw p"
  shows "dash_ok gw (save lc p)"
proof (cases "dp_session p")
  case (Some s)
  have put: "sound_put gw (working s)" using dash_session [OF assms Some] by (simp add: sound_session_def)
  have sent: "dash_ok gw (p\<lparr>dp_saving := True, dp_store := st, dp_puts := dp_puts p @ [(working s, n)]\<rparr>)"
    if "saveLayout sc (working s) False (dp_store p) = Inr st" for sc st n
    using that assms put by (auto simp: saveLayout_Inr dash_ok_def grid_ok_def outer_ok_def store_ok_def)
  have failed: "dash_ok gw (save_failed e (mode_effect (p\<lparr>dp_saving := True\<rparr>)))" for e
    unfolding save_failed_def by (intro dash_flags(16) ok_mode dash_flags(12) assms)
  show ?thesis
    using Some assms dash_flags(13) [OF assms] sent failed
    by (simp add: save_def commit_def split: sum.split)
qed (simp add: save_def assms)

lemma ok_answers:
  assumes "dash_ok gw p" and "s \<in> set (saves (dp_store p))"
  shows "dash_ok gw (save_answered s r p)" "dash_ok gw (save_refused s e p)"
proof -
  have "dash_ok gw (p\<lparr>dp_store := save_resolved s r (dp_store p)\<rparr>)"
    using assms by (intro dash_store) (simp_all add: store_ok_writes)
  then show "dash_ok gw (save_answered s r p)"
    by (simp add: save_answered_def dash_ok_def grid_ok_def outer_ok_def)
  show "dash_ok gw (save_refused s e p)"
    unfolding save_refused_def save_failed_def
    by (rule dash_flags(16), rule dash_store) (use assms in \<open>simp_all add: store_ok_writes\<close>)
qed

lemma ok_edit:
  assumes "dash_ok gw p"
  shows "dash_ok gw (startEditing gw p)"
proof -
  have "sound_config (layout (dp_store p))" using assms by (simp add: dash_ok_def outer_ok_def store_ok_def)
  then have "sound_session gw (beginEdit (asRendered gw (layout (dp_store p))) n)" for n
    by (simp add: sound_session_def sound_put_def sound_config_def beginEdit_def asRendered_def rendered_sound)
  moreover have "copyableLayoutRecords (loadCopyableLayouts b cs) = copyableLayoutRecords cs" for b cs
    by (simp add: loadCopyableLayouts_def Let_def abort_copy_read_def split: option.split)
  ultimately show ?thesis using assms by (simp add: startEditing_def dash_ok_def grid_ok_def outer_ok_def)
qed

section \<open>Every step\<close>

lemma enabled_Some [simp]: "enabled b x = Some y \<longleftrightarrow> b \<and> y = x"
  by (auto simp: enabled_def)

lemma ok_rerender:
  assumes "dash_ok gw p"
  shows "dash_ok gw (rerender gw p)"
proof -
  have "dash_ok gw (generation_effect gw (mode_effect p))"
    using ok_mode [OF assms] ok_adopt by (simp add: generation_effect_def)
  then show ?thesis by (simp add: rerender_def copy_effect_def dash_flags)
qed

lemma ok_copies:
  assumes "dash_ok gw p"
  shows "(\<forall>r \<in> set rs. sound_response r) \<Longrightarrow> dash_ok gw (p\<lparr>dp_copies := copy_resolved i rs (dp_copies p)\<rparr>)"
    "dash_ok gw (p\<lparr>dp_copies := copy_rejected i (dp_copies p)\<rparr>)"
  using assms
  by (simp_all add: dash_ok_def grid_ok_def outer_ok_def copy_resolved_def copy_rejected_def finish_copy_read_def)

lemma ok_loads:
  assumes "dash_ok gw p"
  shows "(\<forall>r. res = Some r \<longrightarrow> sound_response r) \<Longrightarrow> dash_ok gw (load_answered gw l res p)"
    "dash_ok gw (load_failed gw l e p)"
  unfolding load_answered_def load_failed_def
  by (intro ok_reload dash_store [OF assms] store_ok_loaded store_ok_reads; assumption)+

lemma ok_controls:
  assumes "dash_ok gw p"
  shows "dash_ok gw (reparameterize gw it p)" "dash_ok gw (resetLayout gw p)" "dash_ok gw (requestExit gw lc p)"
    "dash_ok gw (reloadStoredLayout p)"
proof -
  show "dash_ok gw (reparameterize gw it p)"
    using assms dash_flags(3) [OF assms] by (simp add: reparameterize_def split: option.split)
  show "dash_ok gw (resetLayout gw p)"
    using assms ok_replace [OF dash_flags(5) [OF assms] dash_session [OF assms] editable_default]
    by (simp add: resetLayout_def split: option.split)
  show "dash_ok gw (requestExit gw lc p)"
    using assms ok_close_edit [OF assms] dash_flags(8) [OF assms] by (simp add: requestExit_def split: option.split)
  have "dash_ok gw (p\<lparr>dp_store := loadLayout ''overview'' False (dp_store p)\<rparr>)"
    by (rule dash_store [OF assms]) (rule store_ok_reads)
  then show "dash_ok gw (reloadStoredLayout p)"
    by (simp add: reloadStoredLayout_def dash_ok_def grid_ok_def outer_ok_def)
qed

lemma ok_gestures:
  assumes "dash_ok gw p"
  shows "dash_ok gw (startSession b i d c p)" "dash_ok gw (pointer_moved c p)" "dash_ok gw (end_session b p)"
    "dash_ok gw (removeItem i p)" "dash_ok gw (handleItemKey i d key b p)"
  by (rule dash_grid [OF assms]; simp add: ok_start ok_moved ok_end ok_remove ok_key)+

lemma ok_act:
  assumes "dash_ok gw p" and "sound_event e p" and "dash_act gw lc e p = Some q"
  shows "dash_ok gw q"
proof (cases e)
  case (Add draw d)
  then show ?thesis using assms ok_add [OF assms(1)] by (simp split: if_splits)
next
  case (ConfirmParams draw vs)
  then show ?thesis using assms ok_params [OF assms(1)] by (simp split: if_splits)
next
  case (Loaded l res)
  then show ?thesis using assms(2,3) ok_loads(1) [OF assms(1)] by simp
next
  case (CopiesRead i rs)
  then show ?thesis using assms(2,3) ok_copies(1) [OF assms(1)] by simp
next
  case (Press b i c)
  then show ?thesis using assms(3) ok_gestures(1) [OF assms(1)] by (auto split: option.splits)
next
  case (Arrow i key b)
  then show ?thesis using assms(3) ok_gestures(5) [OF assms(1)] by (auto split: option.splits)
qed (use assms ok_edit [OF assms(1)] dash_flags [OF assms(1)] ok_controls [OF assms(1)] ok_copy [OF assms(1)]
      ok_close_edit [OF assms(1)] ok_save [OF assms(1)] ok_answers [OF assms(1)] ok_loads(2) [OF assms(1)]
      ok_copies(2) [OF assms(1)] ok_gestures [OF assms(1)] in \<open>auto\<close>)

lemma ok_step:
  assumes "dash_ok gw p" and "sound_event e p" and "dash_step gw lc e p = Some q"
  shows "dash_ok gw q"
  using ok_act [OF assms(1,2)] ok_rerender assms(3) by (auto simp: dash_step_def)

lemma ok_fresh: "dash_ok gw (fresh_dashboard gw cluster)"
proof -
  have e: "editable (config_items DEFAULT_OVERVIEW_LAYOUT)"
    using editable_default by (simp add: defaultLayoutFor_def)
  have "store_ok gw (initial_store cluster)"
    using sound_default by (simp add: store_ok_def initial_store_def defaultLayoutFor_def)
  then show ?thesis
    using rendered_sound [OF e] store_ok_reads(1)
    by (simp add: fresh_dashboard_def dash_ok_def grid_ok_def outer_ok_def)
qed

lemma dash_run_ok: "dash_run gw lc calm p \<Longrightarrow> dash_ok gw p"
  by (induction rule: dash_run.induct) (simp_all add: ok_fresh ok_step)

end
