(* ===== verification/Dashboard_Flow.thy ===== *)
theory Dashboard_Flow
  imports Dashboard_Sound
begin

text \<open>
  The order of reads, sessions and writes on the dashboard page: no read is under way while a
  session is open, so the revision a session pinned is the store's; and, when one thing happens at
  a time, the grid shows the session's arrangement, or the store's when there is none.
\<close>

section \<open>Reads, sessions and writes\<close>

definition pin :: "dash_page \<Rightarrow> int option" where
  "pin p = map_option session_revision (dp_session p)"

text \<open>The one read that may be under way: the page's first, or the one it reloads with.\<close>

definition read_ok :: "dash_page \<Rightarrow> bool" where
  "read_ok p \<longleftrightarrow>
    (case loads (dp_store p) of
       [] \<Rightarrow> inFlight (dp_store p) = None \<and> reloading p = None
     | [l] \<Rightarrow> inFlight (dp_store p) = Some (pl_id l) \<and> pin p = None \<and> \<not> dp_saving p \<and> \<not> dp_conflict p \<and>
         (reloading p = Some (pl_id l) \<or> reloading p = None \<and> \<not> layoutLoaded (dp_store p))
     | _ \<Rightarrow> False)"

definition flow_pre :: "dash_page \<Rightarrow> bool" where
  "flow_pre p \<longleftrightarrow>
    read_ok p \<and> (\<forall>r. pin p = Some r \<longrightarrow> r = layoutRevision (dp_store p)) \<and>
    (dp_saving p \<longleftrightarrow> saves (dp_store p) \<noteq> []) \<and> length (saves (dp_store p)) \<le> 1 \<and> (dp_saving p \<longrightarrow> \<not> saveBlocked p) \<and>
    (dp_conflict p \<longrightarrow> saveBlocked p) \<and>
    (mountedGeneration p \<noteq> layoutGeneration (dp_store p) \<longrightarrow> \<not> dp_conflict p \<and> pin p = None)"

definition flow_ok :: "dash_page \<Rightarrow> bool" where
  "flow_ok p \<longleftrightarrow> flow_pre p \<and> mountedGeneration p = layoutGeneration (dp_store p)"

lemma pin_change: "session_revision (applyChange s xs) = session_revision s"
  by (simp add: applyChange_def)

lemma pin_grid [simp]:
  "pin (setItems xs p) = pin p" "pin (set_result r p) = pin p" "pin (end_session b p) = pin p"
  "pin (startSession b i d c p) = pin p" "pin (pointer_moved c p) = pin p" "pin (removeItem i p) = pin p"
  "pin (handleItemKey i d key b p) = pin p" "pin (mountGrid gw cf p) = pin p" "pin (mode_effect p) = pin p"
  "pin (copy_effect gw p) = pin p"
proof -
  show s [simp]: "pin (setItems xs p) = pin p" for xs p
    by (simp add: pin_def setItems_def handleChange_def pin_change split: option.split)
  show r [simp]: "pin (set_result r p) = pin p" for r p by (simp add: set_result_def split: sum.split)
  have g: "pin (p\<lparr>grid_session := g\<rparr>) = pin p" for g p by (simp add: pin_def)
  show e [simp]: "pin (end_session b p) = pin p" for b p by (simp add: end_session_def g split: option.split)
  show "pin (startSession b i d c p) = pin p" by (simp add: startSession_def g split: option.split)
  show "pin (pointer_moved c p) = pin p" by (simp add: pointer_moved_def Let_def g split: option.split)
  show "pin (removeItem i p) = pin p" by (simp add: removeItem_def)
  show "pin (handleItemKey i d key b p) = pin p" by (simp add: handleItemKey_def case_prod_beta)
  have "pin (p\<lparr>grid_items := xs\<rparr>) = pin p" "pin (p\<lparr>gridSource := c, gridEpoch := n\<rparr>) = pin p" for xs c n p
    by (simp_all add: pin_def)
  then show "pin (mountGrid gw cf p) = pin p" by (simp add: mountGrid_def)
  show "pin (mode_effect p) = pin p" by (simp add: mode_effect_def)
  show "pin (copy_effect gw p) = pin p" by (simp add: copy_effect_def pin_def)
qed

text \<open>Operations that leave the reads, the writes and the pinned revision alone.\<close>

definition quiet :: "dash_page \<Rightarrow> dash_page \<Rightarrow> bool" where
  "quiet p q \<longleftrightarrow>
    dp_store q = dp_store p \<and> dp_saving q = dp_saving p \<and> reloading q = reloading p \<and>
    saveBlocked q = saveBlocked p \<and> dp_conflict q = dp_conflict p \<and>
    mountedGeneration q = mountedGeneration p \<and> pin q = pin p"

lemma flow_quiet:
  assumes "quiet p q"
  shows "flow_pre q = flow_pre p" "flow_ok q = flow_ok p"
proof -
  have "dp_store q = dp_store p" "dp_saving q = dp_saving p" "reloading q = reloading p"
    "saveBlocked q = saveBlocked p" "dp_conflict q = dp_conflict p"
    "mountedGeneration q = mountedGeneration p" "pin q = pin p"
    using assms by (simp_all add: quiet_def)
  note eqs = this
  show "flow_pre q = flow_pre p" "flow_ok q = flow_ok p"
    unfolding flow_ok_def flow_pre_def read_ok_def eqs by (rule refl)+
qed

lemma quiet_grid: "outer q = outer p \<Longrightarrow> pin q = pin p \<Longrightarrow> quiet p q"
  by (simp add: outer_def quiet_def)

lemma quiet_mount: "quiet p q \<Longrightarrow> quiet p (mountGrid gw c q)"
  using quiet_grid [of "mountGrid gw c q" q] by (simp add: quiet_def)

lemma quiet_replace: "dp_session p = Some s \<Longrightarrow> quiet q p \<Longrightarrow> quiet q (replace_items gw s xs p)"
  unfolding replace_items_def Let_def
  by (rule quiet_mount) (simp add: quiet_def pin_def pin_change)

lemma quiet_place:
  assumes "placeWidget gw draw d ps p = Some q"
  shows "quiet p q"
  using assms
  by (auto simp: placeWidget_def intro!: quiet_replace split: option.splits if_splits)
    (simp_all add: quiet_def pin_def)

lemma quiet_controls:
  shows "addWidget gw draw d p = Some q \<Longrightarrow> quiet p q" "confirmParams gw draw vs p = Some q \<Longrightarrow> quiet p q"
    "quiet p (reparameterize gw it p)" "quiet p (resetLayout gw p)" "quiet p (copyFrom gw entry p)"
proof -
  show "addWidget gw draw d p = Some q \<Longrightarrow> quiet p q"
    by (auto simp: addWidget_def dest: quiet_place split: if_splits) (simp_all add: quiet_def pin_def)
  have "quiet p p" by (simp add: quiet_def)
  moreover have "quiet p (replace_items gw s xs (p\<lparr>paramTarget := None\<rparr>))" if "dp_session p = Some s" for s xs
    by (rule quiet_replace) (simp_all add: that quiet_def pin_def)
  ultimately show "confirmParams gw draw vs p = Some q \<Longrightarrow> quiet p q"
    using quiet_place by (auto simp: confirmParams_def split: option.splits if_splits)
  show "quiet p (reparameterize gw it p)"
    by (simp add: reparameterize_def quiet_def pin_def split: option.split)
  show "quiet p (resetLayout gw p)"
    by (auto simp: resetLayout_def intro!: quiet_replace split: option.split) (simp_all add: quiet_def pin_def)
  show "quiet p (copyFrom gw entry p)"
    by (auto simp: copyFrom_def intro!: quiet_replace split: option.split) (simp_all add: quiet_def pin_def)
qed

lemma flow_adopt:
  assumes "flow_pre p" and "\<not> dp_conflict p"
  shows "flow_ok (adoptLoadedLayout gw p)"
proof -
  let ?p = "p\<lparr>mountedGeneration := layoutGeneration (dp_store p), saveBlocked := False\<rparr>"
  have "pin ?p = pin p" by (simp add: pin_def)
  moreover from this have "read_ok ?p = read_ok p" by (simp add: read_ok_def cong: list.case_cong)
  ultimately have "flow_ok ?p" using assms by (simp add: flow_ok_def flow_pre_def)
  moreover have "quiet ?p (adoptLoadedLayout gw p)"
    unfolding adoptLoadedLayout_def by (rule quiet_mount) (simp add: quiet_def)
  ultimately show ?thesis using flow_quiet(2) by blast
qed

lemma flow_rerender:
  assumes "flow_pre p"
  shows "flow_ok (rerender gw p)"
proof -
  have m: "flow_pre (mode_effect p)" using assms flow_quiet(1) [OF quiet_grid, of "mode_effect p" p] by simp
  have "flow_ok (generation_effect gw (mode_effect p))"
  proof (cases "layoutGeneration (dp_store (mode_effect p)) = mountedGeneration (mode_effect p)")
    case True
    then show ?thesis using m by (simp add: generation_effect_def flow_ok_def)
  next
    case False
    then have "\<not> dp_conflict (mode_effect p)" using m by (auto simp: flow_pre_def)
    then show ?thesis using False flow_adopt [OF m] by (simp add: generation_effect_def)
  qed
  moreover have "quiet q (copy_effect gw q)" for q by (rule quiet_grid) simp_all
  ultimately show ?thesis unfolding rerender_def using flow_quiet(2) by blast
qed

section \<open>The steps that read and write\<close>

text \<open>With a session open or a write under way there is no read.\<close>

lemma no_reads:
  assumes "flow_pre p" and "dp_session p \<noteq> None \<or> dp_saving p \<or> dp_conflict p"
  shows "loads (dp_store p) = []" "inFlight (dp_store p) = None" "reloading p = None"
  using assms by (auto simp: flow_pre_def read_ok_def pin_def split: list.splits)

lemma flow_edit:
  assumes "flow_ok p" and "\<not> editDisabled p"
  shows "flow_ok (startEditing gw p)"
proof -
  have "loads (dp_store p) = []"
    using assms by (auto simp: flow_ok_def flow_pre_def read_ok_def editDisabled_def split: list.splits)
  then show ?thesis
    using assms(1) by (simp add: flow_ok_def flow_pre_def read_ok_def startEditing_def pin_def beginEdit_def)
qed

lemma flow_close:
  assumes "flow_ok p"
  shows "flow_ok (closeEditing gw p)"
proof (cases "dp_session p")
  case (Some s)
  let ?p = "p\<lparr>confirmDiscard := False, confirmReset := False, paramTarget := None, editWarnings := [],
      dp_session := None\<rparr>"
  have "loads (dp_store p) = []" using no_reads(1) assms Some by (simp add: flow_ok_def)
  then have "flow_ok ?p" using assms by (simp add: flow_ok_def flow_pre_def read_ok_def pin_def)
  moreover have "quiet ?p (closeEditing gw p)"
    using Some quiet_mount [of ?p ?p] by (simp add: closeEditing_def quiet_def)
  ultimately show ?thesis using flow_quiet(2) by blast
qed (simp add: closeEditing_def assms)

lemma flow_save:
  assumes "flow_ok p" and "save_enabled lc p"
  shows "flow_pre (save lc p)"
proof -
  obtain s where s: "dp_session p = Some s" "isDirty lc s" "\<not> dp_saving p" "\<not> saveBlocked p"
    using assms(2) by (auto simp: save_enabled_def split: option.splits)
  have pre: "flow_pre p" using assms(1) by (simp add: flow_ok_def)
  note none = no_reads [OF pre, unfolded s(1)]
  have rev: "session_revision s = layoutRevision (dp_store p)" "saves (dp_store p) = []" "\<not> dp_conflict p"
    using pre s by (auto simp: flow_pre_def pin_def)
  let ?q = "mode_effect (p\<lparr>dp_saving := True\<rparr>)"
  have "outer ?q = outer (p\<lparr>dp_saving := True\<rparr>)" "pin ?q = pin (p\<lparr>dp_saving := True\<rparr>)"
    by (rule outer_grid pin_grid)+
  then have "dp_store ?q = dp_store p" "reloading ?q = reloading p" "mountedGeneration ?q = mountedGeneration p"
    "pin ?q = pin p" by (simp_all add: outer_def pin_def)
  then have "flow_pre (save_failed e ?q)" for e
    using pre none rev(2) s by (auto simp: flow_pre_def read_ok_def save_failed_def pin_def)
  moreover have "flow_pre (p\<lparr>dp_saving := True, dp_store := st, dp_puts := ps\<rparr>)"
    if "saveLayout sc c b (dp_store p) = Inr st" for sc c b st ps
    using that pre none rev s by (auto simp: saveLayout_Inr flow_pre_def read_ok_def pin_def)
  ultimately show ?thesis
    using s rev(1) by (simp add: save_def commit_def split: sum.split)
qed

lemma flow_answers:
  assumes "flow_ok p" and "s \<in> set (saves (dp_store p))"
  shows "flow_pre (save_answered s r p)" "flow_pre (save_refused s e p)"
proof -
  have pre: "flow_pre p" using assms(1) by (simp add: flow_ok_def)
  then have one: "dp_saving p" "saves (dp_store p) = [s]" "\<not> dp_conflict p"
    using assms(2) by (cases "saves (dp_store p)"; auto simp: flow_pre_def)+
  note none = no_reads [OF pre]
  show "flow_pre (save_answered s r p)"
    using assms(1) none one by (simp add: flow_ok_def flow_pre_def read_ok_def save_answered_def save_defs pin_def)
  show "flow_pre (save_refused s e p)"
    using assms(1) none one
    by (simp add: flow_ok_def flow_pre_def read_ok_def save_refused_def save_failed_def save_defs pin_def)
qed

lemma read_shape:
  assumes "flow_ok p" and "l \<in> set (loads (dp_store p))"
  shows "loads (dp_store p) = [l]" "dp_session p = None" "\<not> dp_saving p" "\<not> dp_conflict p"
    "saves (dp_store p) = []" "reloading p = Some (pl_id l) \<or> reloading p = None"
    "inFlight (dp_store p) = Some (pl_id l)"
  using assms by (auto simp: flow_ok_def flow_pre_def read_ok_def pin_def split: list.splits)

text \<open>A read ends; what it leaves in the store is whatever its answer makes of it.\<close>

lemma flow_read_ended:
  assumes "flow_ok p" and "l \<in> set (loads (dp_store p))"
    and st: "loads st = []" "inFlight st = None" "saves st = []"
  shows "flow_pre (reload_ended gw (pl_id l) (p\<lparr>dp_store := st\<rparr>))"
proof -
  note l = read_shape [OF assms(1,2)]
  let ?p = "p\<lparr>dp_store := st, reloading := None\<rparr>"
  have pre: "flow_pre ?p" using l st by (simp add: flow_pre_def read_ok_def pin_def)
  show ?thesis
  proof (cases "reloading p")
    case None
    then have "quiet ?p (p\<lparr>dp_store := st\<rparr>)" by (simp add: quiet_def pin_def)
    from flow_quiet(1) [OF this] show ?thesis using pre None by (simp add: reload_ended_def)
  next
    case (Some i)
    then have i: "reloading p = Some (pl_id l)" using l(6) by simp
    have "(adoptLoadedLayout gw (p\<lparr>dp_store := st\<rparr>))\<lparr>reloading := None\<rparr> = adoptLoadedLayout gw ?p"
      by (simp add: adoptLoadedLayout_def mountGrid_def end_session_def setItems_def handleChange_def l(2)
          split: option.split)
    moreover have "flow_ok (adoptLoadedLayout gw ?p)" by (rule flow_adopt [OF pre]) (simp add: l(4))
    ultimately show ?thesis using i by (simp add: reload_ended_def flow_ok_def)
  qed
qed

lemma load_ends:
  assumes "loads st = [l]" and "inFlight st = Some (pl_id l)" and "saves st = []"
  shows "loads (load_resolved gw l res st) = []" "inFlight (load_resolved gw l res st) = None"
    "saves (load_resolved gw l res st) = []" "loads (load_rejected l e st) = []"
    "inFlight (load_rejected l e st) = None" "saves (load_rejected l e st) = []"
  using assms by (auto simp: load_defs split: option.split)

lemma flow_reload:
  assumes "flow_ok p" and "dp_conflict p"
  shows "flow_ok (reloadStoredLayout p)"
proof -
  have pre: "flow_pre p" and gen: "mountedGeneration p = layoutGeneration (dp_store p)"
    using assms(1) by (simp_all add: flow_ok_def)
  note none = no_reads [OF pre]
  have "\<not> dp_saving p" "saves (dp_store p) = []" using pre assms(2) by (auto simp: flow_pre_def)
  then show ?thesis
    using none assms(2) gen
    by (simp add: flow_ok_def flow_pre_def read_ok_def reloadStoredLayout_def loadLayout_def Let_def pin_def)
qed

lemma flow_loads:
  assumes "flow_ok p" and "l \<in> set (loads (dp_store p))"
  shows "flow_pre (load_answered gw l res p)" "flow_pre (load_failed gw l e p)"
proof -
  note l = read_shape [OF assms]
  note ends = load_ends [OF l(1,7,5)]
  show "flow_pre (load_answered gw l res p)" "flow_pre (load_failed gw l e p)"
    unfolding load_answered_def load_failed_def using ends by (intro flow_read_ended [OF assms]; simp)+
qed

lemma flow_fresh: "flow_ok (fresh_dashboard gw cluster)"
  by (simp add: flow_ok_def flow_pre_def read_ok_def fresh_dashboard_def loadLayout_def initial_store_def Let_def pin_def)

lemma flow_pre_ok: "flow_ok p \<Longrightarrow> flow_pre p"
  by (simp add: flow_ok_def)

lemma flow_flags:
  assumes "flow_ok p"
  shows "flow_pre (p\<lparr>paletteOpen := a\<rparr>)" "flow_pre (p\<lparr>paramTarget := t\<rparr>)" "flow_pre (p\<lparr>confirmReset := a\<rparr>)"
    "flow_pre (p\<lparr>copyOpen := a\<rparr>)" "flow_pre (p\<lparr>confirmDiscard := a\<rparr>)" "flow_pre (p\<lparr>grid_narrow := a\<rparr>)"
    "flow_pre (p\<lparr>dp_copies := cs\<rparr>)" "flow_pre p"
proof -
  have "quiet p (p\<lparr>paletteOpen := a\<rparr>)" "quiet p (p\<lparr>paramTarget := t\<rparr>)" "quiet p (p\<lparr>confirmReset := a\<rparr>)"
    "quiet p (p\<lparr>copyOpen := a\<rparr>)" "quiet p (p\<lparr>confirmDiscard := a\<rparr>)" "quiet p (p\<lparr>grid_narrow := a\<rparr>)"
    "quiet p (p\<lparr>dp_copies := cs\<rparr>)"
    by (simp_all add: quiet_def pin_def)
  then show "flow_pre (p\<lparr>paletteOpen := a\<rparr>)" "flow_pre (p\<lparr>paramTarget := t\<rparr>)" "flow_pre (p\<lparr>confirmReset := a\<rparr>)"
    "flow_pre (p\<lparr>copyOpen := a\<rparr>)" "flow_pre (p\<lparr>confirmDiscard := a\<rparr>)" "flow_pre (p\<lparr>grid_narrow := a\<rparr>)"
    "flow_pre (p\<lparr>dp_copies := cs\<rparr>)" "flow_pre p"
    using flow_pre_ok [OF assms] flow_quiet(1) by blast+
qed

lemma flow_keep_conflict: "flow_ok p \<Longrightarrow> flow_pre (p\<lparr>dp_conflict := False\<rparr>)"
  by (auto simp: flow_ok_def flow_pre_def read_ok_def pin_def split: list.splits)

lemma flow_gestures:
  assumes "flow_ok p"
  shows "flow_pre (startSession b i d c p)" "flow_pre (pointer_moved c p)" "flow_pre (end_session b p)"
    "flow_pre (removeItem i p)" "flow_pre (handleItemKey i d key b p)" "flow_pre (reparameterize gw it p)"
    "flow_pre (resetLayout gw p)" "flow_pre (copyFrom gw entry p)"
proof -
  have "quiet p (startSession b i d c p)" "quiet p (pointer_moved c p)" "quiet p (end_session b p)"
    "quiet p (removeItem i p)" "quiet p (handleItemKey i d key b p)"
    by (rule quiet_grid; simp)+
  then show "flow_pre (startSession b i d c p)" "flow_pre (pointer_moved c p)" "flow_pre (end_session b p)"
    "flow_pre (removeItem i p)" "flow_pre (handleItemKey i d key b p)" "flow_pre (reparameterize gw it p)"
    "flow_pre (resetLayout gw p)" "flow_pre (copyFrom gw entry p)"
    using flow_pre_ok [OF assms] flow_quiet(1) quiet_controls(3-5) by blast+
qed

lemma flow_exit: "flow_ok p \<Longrightarrow> flow_pre (requestExit gw lc p)"
  using flow_pre_ok [OF flow_close, of p gw] flow_flags(5,8) [of p]
  by (simp add: requestExit_def split: option.split)

lemma flow_act:
  assumes "flow_ok p" and "dash_act gw lc e p = Some q"
  shows "flow_pre q"
proof (cases e)
  case (Add draw d)
  then have "quiet p q" using assms(2) quiet_controls(1) by (auto split: if_splits)
  then show ?thesis using flow_quiet(1) flow_pre_ok [OF assms(1)] by blast
next
  case (ConfirmParams draw vs)
  then have "quiet p q" using assms(2) quiet_controls(2) by (auto split: if_splits)
  then show ?thesis using flow_quiet(1) flow_pre_ok [OF assms(1)] by blast
next
  case (Press b i c)
  then show ?thesis using assms(2) flow_gestures(1) [OF assms(1)] by (auto split: option.splits)
next
  case (Arrow i key b)
  then show ?thesis using assms(2) flow_gestures(5) [OF assms(1)] by (auto split: option.splits)
qed (use assms(2) flow_pre_ok [OF flow_edit [OF assms(1)]] flow_flags [OF assms(1)] flow_gestures [OF assms(1)]
      flow_exit [OF assms(1)] flow_pre_ok [OF flow_close [OF assms(1)]] flow_save [OF assms(1)]
      flow_answers [OF assms(1)] flow_pre_ok [OF flow_reload [OF assms(1)]] flow_keep_conflict [OF assms(1)]
      flow_loads [OF assms(1)] in \<open>auto\<close>)

lemma flow_step: "flow_ok p \<Longrightarrow> dash_step gw lc e p = Some q \<Longrightarrow> flow_ok q"
  using flow_rerender [OF flow_act] by (auto simp: dash_step_def)

lemma dash_run_flow: "dash_run gw lc calm p \<Longrightarrow> flow_ok p"
  by (induction rule: dash_run.induct) (auto simp: flow_fresh dest: flow_step)

end
