(* ===== verification/Dashboard_Sync.thy ===== *)
theory Dashboard_Sync
  imports Dashboard_Flow
begin

text \<open>
  What the grid of the dashboard page shows: the arrangement of the open session, or the layout of
  the store when there is none, as long as one thing happens at a time.
\<close>

definition shows_session :: "(string \<Rightarrow> widget_def option) \<Rightarrow> dash_page \<Rightarrow> bool" where
  "shows_session gw p \<longleftrightarrow>
    (\<forall>s. dp_session p = Some s \<longrightarrow>
      working s = (baseline s)\<lparr>config_items := grid_items p\<rparr> \<and> baseline s = asRendered gw (layout (dp_store p)))"

definition shows_store :: "(string \<Rightarrow> widget_def option) \<Rightarrow> dash_page \<Rightarrow> bool" where
  "shows_store gw p \<longleftrightarrow>
    (dp_session p = None \<and> reloading p = None \<and> mountedGeneration p = layoutGeneration (dp_store p) \<longrightarrow>
      grid_items p = rendered_items gw (config_items (layout (dp_store p))))"

definition writes_shown :: "dash_page \<Rightarrow> bool" where
  "writes_shown p \<longleftrightarrow>
    (dp_saving p \<longrightarrow> grid_session p = None \<and> (\<exists>e. dp_session p = Some e \<and>
      (\<forall>s \<in> set (saves (dp_store p)). ps_config s = working e \<and> \<not> ps_shipped s)))"

definition sync_ok :: "(string \<Rightarrow> widget_def option) \<Rightarrow> dash_page \<Rightarrow> bool" where
  "sync_ok gw p \<longleftrightarrow>
    shows_session gw p \<and> shows_store gw p \<and> writes_shown p \<and>
    (grid_session p \<noteq> None \<longrightarrow> dp_session p \<noteq> None \<or> reloading p \<noteq> None) \<and>
    (layout_shipped (dp_store p) \<longrightarrow> layout (dp_store p) = DEFAULT_OVERVIEW_LAYOUT)"

lemmas sync_defs = sync_ok_def shows_session_def shows_store_def writes_shown_def

section \<open>The grid\<close>

lemma sync_cong:
  assumes "sync_ok gw p" and "dp_session q = dp_session p" "grid_items q = grid_items p" "dp_store q = dp_store p"
    "reloading q = reloading p" "mountedGeneration q = mountedGeneration p" "dp_saving q = dp_saving p"
    and "grid_session q \<noteq> None \<Longrightarrow> \<not> dp_saving p \<and> (dp_session p \<noteq> None \<or> reloading p \<noteq> None)"
  shows "sync_ok gw q"
  using assms(1,8) unfolding sync_ok_def shows_session_def shows_store_def writes_shown_def assms(2-7) by blast

lemma gesture_free:
  "sync_ok gw p \<Longrightarrow> grid_session p \<noteq> None \<Longrightarrow> \<not> dp_saving p \<and> (dp_session p \<noteq> None \<or> reloading p \<noteq> None)"
  unfolding sync_ok_def writes_shown_def by blast

lemma sync_setItems:
  assumes "sync_ok gw p" and "\<not> dp_saving p" and "dp_session p \<noteq> None \<or> reloading p \<noteq> None"
  shows "sync_ok gw (setItems xs p)"
proof (cases "dp_session p")
  case None
  then show ?thesis using assms by (auto simp: sync_defs setItems_def handleChange_def)
next
  case (Some s)
  have "baseline s = asRendered gw (layout (dp_store p))"
    "layout_shipped (dp_store p) \<longrightarrow> layout (dp_store p) = DEFAULT_OVERVIEW_LAYOUT"
    using assms(1) Some by (simp_all add: sync_ok_def shows_session_def)
  then show ?thesis
    using assms(2) Some by (simp add: sync_defs setItems_def handleChange_def applyChange_def map_idI)
qed

lemma sync_result:
  "sync_ok gw p \<Longrightarrow> \<not> dp_saving p \<Longrightarrow> dp_session p \<noteq> None \<or> reloading p \<noteq> None \<Longrightarrow> sync_ok gw (set_result r p)"
  by (simp add: set_result_def sync_setItems split: sum.split)

lemma sync_drop: "sync_ok gw p \<Longrightarrow> sync_ok gw (p\<lparr>grid_session := None\<rparr>)"
  by (erule sync_cong) simp_all

lemma sync_end:
  assumes "sync_ok gw p"
  shows "sync_ok gw (end_session restore p)"
proof (cases "grid_session p")
  case (Some g)
  then have "\<not> dp_saving p" "dp_session p \<noteq> None \<or> reloading p \<noteq> None"
    using gesture_free [OF assms] by simp_all
  then have "sync_ok gw ((setItems (pt_before g) p)\<lparr>grid_session := None\<rparr>)"
    using sync_drop sync_setItems [OF assms] by blast
  then show ?thesis using Some sync_drop [OF assms] by (simp add: end_session_def)
qed (simp add: end_session_def assms)

lemma sync_start:
  assumes "sync_ok gw p" and "grid_editable p"
  shows "sync_ok gw (startSession b i d c p)"
  using assms(2) by (intro sync_cong [OF assms(1)]) (simp_all add: startSession_def grid_editable_def split: option.split)

lemma sync_moved:
  assumes "sync_ok gw p"
  shows "sync_ok gw (pointer_moved c p)"
proof (cases "grid_session p")
  case (Some g)
  then have free: "\<not> dp_saving p" "dp_session p \<noteq> None \<or> reloading p \<noteq> None"
    using gesture_free [OF assms] by simp_all
  then have "sync_ok gw (p\<lparr>grid_session := Some (g\<lparr>pt_last := c\<rparr>)\<rparr>)"
    by (intro sync_cong [OF assms]) simp_all
  then show ?thesis using Some assms free by (simp add: pointer_moved_def Let_def sync_result)
qed (simp add: pointer_moved_def assms)

lemma sync_edits:
  assumes "sync_ok gw p" and "grid_editable p"
  shows "sync_ok gw (removeItem i p)" "sync_ok gw (handleItemKey i d key b p)"
  using assms
  by (simp_all add: removeItem_def handleItemKey_def case_prod_beta grid_editable_def sync_setItems sync_result)

section \<open>Mounting\<close>

lemma end_quiet: "grid_session p = None \<Longrightarrow> end_session b p = p"
  by (simp add: end_session_def)

lemma sync_replace:
  assumes sync: "sync_ok gw p" and s: "dp_session p = Some s" and free: "\<not> dp_saving p" "grid_session p = None"
    and ok: "dash_ok gw (replace_items gw s xs p)"
  shows "sync_ok gw (replace_items gw s xs p)"
proof -
  let ?ys = "rendered_items gw xs" and ?q = "replace_items gw s xs p"
  let ?p = "p\<lparr>dp_session := Some (applyChange s ?ys), gridSource := (working s)\<lparr>config_items := ?ys\<rparr>,
    gridEpoch := gridEpoch p + 1, grid_items := rendered_items gw ?ys\<rparr>"
  have q: "?q = ?p" by (simp add: replace_items_def Let_def asRendered_def mountGrid_def end_quiet free(2))
  have "sound_items gw ?ys"
    using ok by (simp add: q dash_ok_def grid_ok_def sound_session_def sound_put_def applyChange_def map_idI)
  then have "rendered_items gw ?ys = ?ys" by (rule rendered_fixed)
  then show ?thesis using sync s free unfolding q by (auto simp: sync_defs applyChange_def map_idI)
qed

lemma sync_flags:
  assumes "sync_ok gw p"
  shows "sync_ok gw (p\<lparr>paletteOpen := a, paramTarget := t\<rparr>)" "sync_ok gw (p\<lparr>paramTarget := t\<rparr>)"
    "sync_ok gw (p\<lparr>paletteOpen := a, copyOpen := b, paramTarget := t\<rparr>)" "sync_ok gw (p\<lparr>paletteOpen := a\<rparr>)"
    "sync_ok gw (p\<lparr>confirmReset := a, editWarnings := w\<rparr>)" "sync_ok gw (p\<lparr>editWarnings := w, copyOpen := a\<rparr>)"
    "sync_ok gw (p\<lparr>confirmReset := a\<rparr>)" "sync_ok gw (p\<lparr>confirmDiscard := a\<rparr>)" "sync_ok gw (p\<lparr>copyOpen := a\<rparr>)"
    "sync_ok gw (p\<lparr>dp_conflict := a\<rparr>)" "sync_ok gw (p\<lparr>grid_narrow := a\<rparr>)" "sync_ok gw (p\<lparr>dp_copies := cs\<rparr>)"
    "sync_ok gw (p\<lparr>saveBlocked := a, dp_conflict := b\<rparr>)"
  using gesture_free [OF assms] by (intro sync_cong [OF assms]; simp)+

lemma sync_adopt:
  assumes "sync_ok gw p" and "dp_session p = None" and "\<not> dp_saving p"
  shows "sync_ok gw (adoptLoadedLayout gw p)" "sync_ok gw ((adoptLoadedLayout gw p)\<lparr>reloading := None\<rparr>)"
  using assms
  by (auto simp: adoptLoadedLayout_def mountGrid_def end_session_def setItems_def handleChange_def sync_defs
      split: option.split)

lemma sync_close:
  assumes "sync_ok gw p" and "dash_ok gw p" and "\<not> dp_saving p"
  shows "sync_ok gw (closeEditing gw p)"
proof (cases "dp_session p")
  case (Some s)
  have base: "baseline s = asRendered gw (layout (dp_store p))" using assms(1) Some by (simp add: sync_defs)
  have "sound_items gw (config_items (baseline s))"
    using dash_session [OF assms(2) Some] by (simp add: sound_session_def sound_put_def)
  then have "rendered_items gw (config_items (baseline s)) = rendered_items gw (config_items (layout (dp_store p)))"
    using rendered_fixed base by (simp add: asRendered_def)
  then show ?thesis
    using assms Some
    by (auto simp: closeEditing_def discard_def mountGrid_def end_session_def setItems_def handleChange_def sync_defs
        split: option.split)
qed (simp add: closeEditing_def assms)

lemma sync_rerender:
  assumes "sync_ok gw p" and "flow_pre p"
  shows "sync_ok gw (rerender gw p)"
proof -
  have m: "sync_ok gw (mode_effect p)" using assms(1) by (simp add: mode_effect_def sync_end)
  have f: "flow_pre (mode_effect p)" using assms(2) flow_quiet(1) [OF quiet_grid, of "mode_effect p" p] by simp
  have "sync_ok gw (generation_effect gw (mode_effect p))"
  proof (cases "layoutGeneration (dp_store (mode_effect p)) = mountedGeneration (mode_effect p)")
    case False
    then have "dp_session (mode_effect p) = None" using f by (auto simp: flow_pre_def pin_def)
    moreover from this have "\<not> dp_saving (mode_effect p)" using m by (auto simp: sync_defs)
    ultimately show ?thesis using False sync_adopt(1) [OF m] by (simp add: generation_effect_def)
  qed (simp add: generation_effect_def m)
  then show ?thesis by (simp add: rerender_def copy_effect_def sync_flags)
qed

section \<open>The steps\<close>

lemma sync_edit:
  assumes "sync_ok gw p" and "flow_ok p" and "dp_session p = None" and "\<not> editDisabled p"
  shows "sync_ok gw (startEditing gw p)"
proof -
  have shown: "grid_items p = rendered_items gw (config_items (layout (dp_store p)))"
    using assms by (simp add: sync_ok_def shows_store_def flow_ok_def editDisabled_def)
  have "\<not> dp_saving p" using assms(1,3) by (auto simp: sync_ok_def writes_shown_def)
  with shown assms show ?thesis
    by (auto simp: sync_ok_def shows_session_def shows_store_def writes_shown_def startEditing_def beginEdit_def asRendered_def)
qed

lemma sync_place:
  assumes "sync_ok gw p" and "grid_session p = None" and "placeWidget gw draw d ps p = Some q" and "dash_ok gw q"
  shows "sync_ok gw q"
proof (cases "q = p")
  case False
  then obtain s it where s: "dp_session p = Some s" "\<not> dp_saving p"
    "q = replace_items gw s (config_items (working s) @ [it]) (p\<lparr>paletteOpen := False, paramTarget := None\<rparr>)"
    using assms(3) by (auto simp: placeWidget_def split: option.splits if_splits)
  show ?thesis
    using assms s sync_replace [OF sync_flags(1) [OF assms(1)]] by simp
qed (simp add: assms)

lemma sync_add:
  assumes "sync_ok gw p" and "grid_session p = None" and "addWidget gw draw d p = Some q" and "dash_ok gw q"
  shows "sync_ok gw q"
  using assms(3,4) sync_place [OF assms(1,2)] sync_flags(1) [OF assms(1)] assms(1)
  by (auto simp: addWidget_def split: if_splits)

lemma sync_params:
  assumes "sync_ok gw p" and "grid_session p = None" and "confirmParams gw draw vs p = Some q" and "dash_ok gw q"
  shows "sync_ok gw q"
proof (cases "q = p")
  case False
  then obtain d t s where ts: "paramTarget p = Some (d, t)" "dp_session p = Some s" "\<not> dp_saving p"
    using assms(3) by (auto simp: confirmParams_def split: option.splits if_splits)
  show ?thesis
  proof (cases t)
    case None
    then show ?thesis using assms ts sync_place [OF assms(1,2)] by (simp add: confirmParams_def)
  next
    case (Some it)
    then show ?thesis
      using assms ts sync_replace [OF sync_flags(2) [OF assms(1)]] by (auto simp: confirmParams_def)
  qed
qed (simp add: assms)

lemma sync_whole:
  assumes "sync_ok gw p" and "grid_session p = None"
  shows "dash_ok gw (resetLayout gw p) \<Longrightarrow> sync_ok gw (resetLayout gw p)"
    "dash_ok gw (copyFrom gw entry p) \<Longrightarrow> sync_ok gw (copyFrom gw entry p)"
  using assms sync_replace [OF sync_flags(5) [OF assms(1)]] sync_replace [OF sync_flags(6) [OF assms(1)]]
  by (auto simp: resetLayout_def copyFrom_def split: option.splits)

lemma sync_save:
  assumes "sync_ok gw p" and "flow_ok p" and "grid_session p = None" and "save_enabled lc p"
  shows "sync_ok gw (save lc p)"
proof -
  obtain s where s: "dp_session p = Some s" "isDirty lc s" "\<not> dp_saving p"
    using assms(4) by (auto simp: save_enabled_def split: option.splits)
  have none: "saves (dp_store p) = []" using assms(2) s(3) by (simp add: flow_ok_def flow_pre_def)
  have "mode_effect (p\<lparr>dp_saving := True\<rparr>) = p\<lparr>dp_saving := True\<rparr>"
    using assms(3) by (simp add: mode_effect_def end_quiet)
  moreover have "sync_ok gw (p\<lparr>saveBlocked := a, dp_conflict := b, dp_saving := False\<rparr>)" for a b
    using assms(3) s(3) by (intro sync_cong [OF assms(1)]) simp_all
  ultimately have "sync_ok gw (save_failed e (mode_effect (p\<lparr>dp_saving := True\<rparr>)))" for e
    by (simp add: save_failed_def)
  moreover have "sync_ok gw (p\<lparr>dp_saving := True, dp_store := st, dp_puts := ps\<rparr>)"
    if "saveLayout sc (working s) False (dp_store p) = Inr st" for sc st ps
    using that assms(1,3) s none
    unfolding saveLayout_Inr sync_ok_def shows_session_def shows_store_def writes_shown_def by simp
  ultimately show ?thesis
    using s assms(1) sync_flags(13) [OF assms(1)] by (simp add: save_def commit_def split: sum.split)
qed

lemma sync_answers:
  assumes "sync_ok gw p" and "flow_ok p" and "dash_ok gw p" and "s \<in> set (saves (dp_store p))"
  shows "sync_ok gw (save_answered s r p)" "sync_ok gw (save_refused s e p)"
proof -
  have "dp_saving p" using assms(2,4) by (auto simp: flow_ok_def flow_pre_def)
  then obtain w where w: "dp_session p = Some w" "ps_config s = working w" "grid_session p = None" "\<not> ps_shipped s"
    using assms(1,4) by (auto simp: sync_ok_def writes_shown_def)
  have "config_items (working w) = grid_items p" using assms(1) w(1) by (auto simp: sync_ok_def shows_session_def)
  moreover have "rendered_items gw (grid_items p) = grid_items p"
    using rendered_fixed assms(3) by (simp add: dash_ok_def grid_ok_def)
  ultimately show "sync_ok gw (save_answered s r p)"
    using w by (simp add: save_answered_def save_defs sync_ok_def shows_session_def shows_store_def writes_shown_def)
  show "sync_ok gw (save_refused s e p)"
    using assms(1) w(1,3)
    unfolding sync_ok_def shows_session_def shows_store_def writes_shown_def save_refused_def save_failed_def save_defs
    by simp
qed

text \<open>A read leaves the layout, or replaces it and says so, or answers the shipped one again.\<close>

definition read_effect :: "store \<Rightarrow> store \<Rightarrow> bool" where
  "read_effect st st' \<longleftrightarrow>
    saves st' = saves st \<and> (layout_shipped st' \<longrightarrow> layout_shipped st \<and> layout st' = layout st \<or>
      layout st' = DEFAULT_OVERVIEW_LAYOUT) \<and>
    (layout st' = layout st \<and> layoutGeneration st' = layoutGeneration st \<or>
     layoutGeneration st' = Suc (layoutGeneration st) \<or>
     layoutGeneration st' = layoutGeneration st \<and> layout_shipped st \<and> layout st' = DEFAULT_OVERVIEW_LAYOUT)"

lemma shipped_answer:
  "layoutFromResponse gw None scope = Some loaded \<Longrightarrow> ll_config loaded = DEFAULT_OVERVIEW_LAYOUT"
  by (auto simp: layoutFromResponse_def defaultLayoutFor_def)

lemma read_effects: "read_effect st (load_resolved gw l res st)" "read_effect st (load_rejected l e st)"
proof -
  have c: "read_effect st (finish_load i (load_caught l e st))" for i e
    by (simp add: read_effect_def finish_load_def load_caught_def)
  have "read_effect st (finish_load i (load_commit l (res = None) loaded st))"
    if "layoutFromResponse gw res (pl_scope l) = Some loaded" for i loaded
    using that shipped_answer by (auto simp: read_effect_def finish_load_def load_commit_def Let_def)
  moreover have "read_effect st (finish_load i st)" for i by (simp add: read_effect_def finish_load_def)
  ultimately show "read_effect st (load_resolved gw l res st)"
    using c by (simp add: load_resolved_def split: option.split)
  show "read_effect st (load_rejected l e st)" using c by (simp add: load_rejected_def)
qed

lemma sync_read:
  assumes "sync_ok gw p" and "flow_ok p" and "l \<in> set (loads (dp_store p))" and "read_effect (dp_store p) st"
  shows "sync_ok gw (reload_ended gw (pl_id l) (p\<lparr>dp_store := st\<rparr>))"
proof -
  note l = read_shape [OF assms(2,3)]
  have gen: "mountedGeneration p = layoutGeneration (dp_store p)" using assms(2) by (simp add: flow_ok_def)
  have shipped: "layout_shipped (dp_store p) \<longrightarrow> layout (dp_store p) = DEFAULT_OVERVIEW_LAYOUT"
    using assms(1) by (simp add: sync_ok_def)
  have shown: "reloading p = None \<longrightarrow> grid_items p = rendered_items gw (config_items (layout (dp_store p)))"
    using assms(1) l(2) gen by (simp add: sync_ok_def shows_store_def)
  have same: "layout st = layout (dp_store p)" if "mountedGeneration p = layoutGeneration st"
    using that assms(4) gen shipped by (simp add: read_effect_def) metis
  have "layout_shipped st \<longrightarrow> layout st = DEFAULT_OVERVIEW_LAYOUT"
    using assms(4) shipped by (simp add: read_effect_def) metis
  then have "sync_ok gw (p\<lparr>dp_store := st\<rparr>)"
    unfolding sync_ok_def shows_session_def shows_store_def writes_shown_def
    using l(2,3) same shown gesture_free [OF assms(1)] by simp
  then show ?thesis using l(2,3) sync_adopt(2) by (simp add: reload_ended_def)
qed

lemma sync_loads:
  assumes "sync_ok gw p" and "flow_ok p" and "l \<in> set (loads (dp_store p))"
  shows "sync_ok gw (load_answered gw l res p)" "sync_ok gw (load_failed gw l e p)"
  unfolding load_answered_def load_failed_def by (intro sync_read [OF assms] read_effects)+

lemma sync_reload:
  assumes "sync_ok gw p" and "flow_ok p" and "dp_conflict p"
  shows "sync_ok gw (reloadStoredLayout p)"
proof -
  have "\<not> dp_saving p" using assms(2,3) by (auto simp: flow_ok_def flow_pre_def)
  moreover have "layout (loadLayout sc b st) = layout st" "layout_shipped (loadLayout sc b st) = layout_shipped st" for sc b st
    by (simp_all add: load_defs split: option.split)
  ultimately show ?thesis
    using assms(1) by (simp add: sync_ok_def shows_session_def shows_store_def writes_shown_def reloadStoredLayout_def)
qed

lemma sync_exit:
  "sync_ok gw p \<Longrightarrow> dash_ok gw p \<Longrightarrow> grid_editable p \<Longrightarrow> sync_ok gw (requestExit gw lc p)"
  using sync_close [of gw p] sync_flags(8) [of gw p True]
  by (simp add: requestExit_def grid_editable_def split: option.split)

lemma reachable_editable [simp]: "reachable gw p \<Longrightarrow> grid_editable p"
  by (simp add: reachable_def)

lemma sync_act:
  assumes "sync_ok gw p" and "flow_ok p" and "dash_ok gw p" and "calm_event e p"
    and "dash_act gw lc e p = Some q" and "dash_ok gw q"
  shows "sync_ok gw q"
proof (cases e)
  case (Add draw d)
  then show ?thesis using assms sync_add [OF assms(1)] by (auto simp: calm_event_def split: if_splits)
next
  case (ConfirmParams draw vs)
  then show ?thesis using assms sync_params [OF assms(1)] by (auto simp: calm_event_def split: if_splits)
next
  case (Press b i c)
  then show ?thesis using assms(5) sync_start [OF assms(1)] by (auto split: option.splits)
next
  case (Arrow i key b)
  then show ?thesis using assms(5) sync_edits(2) [OF assms(1)] by (auto split: option.splits)
next
  case Reset
  then show ?thesis using assms sync_whole(1) [OF assms(1)] by (auto simp: calm_event_def)
next
  case (CopyFrom entry)
  then show ?thesis using assms sync_whole(2) [OF assms(1)] by (auto simp: calm_event_def)
next
  case Save
  then show ?thesis using assms(4,5) sync_save [OF assms(1,2)] by (auto simp: calm_event_def)
next
  case Discard
  then show ?thesis using assms(4,5) sync_close [OF assms(1,3)] by (auto simp: calm_event_def)
next
  case (Reparameterize it)
  then show ?thesis
    using assms(5) assms(1) sync_flags(3) [OF assms(1)] by (auto simp: reparameterize_def split: option.splits)
qed (use assms(5) sync_edit [OF assms(1,2)] sync_flags [OF assms(1)] sync_exit [OF assms(1,3)]
      sync_answers [OF assms(1,2,3)] sync_reload [OF assms(1,2)] sync_loads [OF assms(1,2)]
      sync_moved [OF assms(1)] sync_end [OF assms(1)] sync_edits [OF assms(1)] in \<open>auto simp: editing_def\<close>)

lemma sync_fresh: "sync_ok gw (fresh_dashboard gw cluster)"
  by (simp add: sync_ok_def shows_session_def shows_store_def writes_shown_def fresh_dashboard_def load_defs initial_store_def)

lemma dash_run_sync: "dash_run gw lc True p \<Longrightarrow> sync_ok gw p"
proof (induction rule: dash_run.induct)
  case (stepped p e q)
  obtain r where r: "dash_act gw lc e p = Some r" "q = rerender gw r"
    using stepped.hyps(4) by (auto simp: dash_step_def)
  note ok = dash_run_ok [OF stepped.hyps(1)] and flow = dash_run_flow [OF stepped.hyps(1)]
  have "sync_ok gw r"
    by (rule sync_act [OF stepped.IH flow ok _ r(1) ok_act [OF ok stepped.hyps(2) r(1)]])
      (use stepped.hyps(3) in simp)
  then show ?case using sync_rerender flow_act [OF flow r(1)] r(2) by simp
qed (rule sync_fresh)

section \<open>Scripts\<close>

text \<open>A script chooses each event from the page it finds, so that answers can name their requests.\<close>

fun dash_script ::
  "(string \<Rightarrow> widget_def option) \<Rightarrow> (string \<Rightarrow> string \<Rightarrow> int) \<Rightarrow> (dash_page \<Rightarrow> dash_event) list \<Rightarrow>
   dash_page \<Rightarrow> dash_page option" where
  "dash_script gw lc [] p = Some p"
| "dash_script gw lc (f # fs) p =
    (case dash_step gw lc (f p) p of None \<Rightarrow> None | Some q \<Rightarrow> dash_script gw lc fs q)"

lemma script_run:
  assumes "dash_run gw lc calm p" and "\<And>f p. f \<in> set fs \<Longrightarrow> sound_event (f p) p \<and> (calm \<longrightarrow> calm_event (f p) p)"
    and "dash_script gw lc fs p = Some q"
  shows "dash_run gw lc calm q"
  using assms
proof (induction fs arbitrary: p)
  case (Cons f fs)
  then obtain r where r: "dash_step gw lc (f p) p = Some r" "dash_script gw lc fs r = Some q"
    by (auto split: option.splits)
  have "dash_run gw lc calm r"
    by (rule dash_run.stepped [OF Cons.prems(1) _ _ r(1)]) (use Cons.prems(2) in auto)
  then show ?case using Cons.IH [OF _ _ r(2)] Cons.prems(2) by simp
qed simp

definition two_widgets :: "string \<Rightarrow> widget_def option" where
  "two_widgets n =
    (if n = ''nodes'' \<or> n = ''pod-status'' then Some (pods_widget\<lparr>def_id := n\<rparr>) else None)"

definition stored_answer :: "dash_page \<Rightarrow> dash_event" where
  "stored_answer p = Loaded (hd (loads (dp_store p))) None"

definition write_answer :: "dash_page \<Rightarrow> dash_event" where
  "write_answer p = Saved (hd (saves (dp_store p)))
    \<lparr>lr_id = ''l'', lr_clusterId = ''local'', lr_clusterLabel = None, lr_updatedAt = [], lr_revision = 1,
     lr_config = None, lr_withheld = None\<rparr>"

definition opened :: "(dash_page \<Rightarrow> dash_event) list" where
  "opened = [stored_answer, \<lambda>_. Edit, \<lambda>_. Arrow ''d-nodes'' ArrowRight False]"

definition dragging :: "(dash_page \<Rightarrow> dash_event) list" where
  "dragging =
    [\<lambda>_. Press False ''d-nodes'' \<lparr>cell_x = Num 0, cell_y = Num 0\<rparr>, \<lambda>_. Point \<lparr>cell_x = Num 3, cell_y = Num 0\<rparr>]"

definition page_after :: "(dash_page \<Rightarrow> dash_event) list \<Rightarrow> dash_page option" where
  "page_after fs = dash_script two_widgets code_unit_order fs (fresh_dashboard two_widgets ''local'')"

lemma opened_page:
  obtains p s where "page_after opened = Some p" "dp_session p = Some s" "isDirty code_unit_order s"
    "length (grid_items p) = 2"
proof -
  have "case page_after opened of None \<Rightarrow> False | Some p \<Rightarrow>
      (case dp_session p of None \<Rightarrow> False | Some s \<Rightarrow> isDirty code_unit_order s \<and> length (grid_items p) = 2)"
    by code_simp
  then show ?thesis using that by (auto split: option.splits)
qed

lemma opened_run:
  assumes "page_after opened = Some p"
  shows "dash_run two_widgets code_unit_order calm p"
  by (rule script_run [OF dash_run.mounted _ assms [unfolded page_after_def]])
    (auto simp: opened_def stored_answer_def calm_event_def)

lemma saving_page:
  obtains p c n where "page_after (opened @ [\<lambda>_. Save]) = Some p" "(c, n) \<in> set (dp_puts p)" "dp_saving p"
proof -
  have "case page_after (opened @ [\<lambda>_. Save]) of None \<Rightarrow> False | Some p \<Rightarrow> dp_puts p \<noteq> [] \<and> dp_saving p"
    by code_simp
  then obtain p where p: "page_after (opened @ [\<lambda>_. Save]) = Some p" "dp_puts p \<noteq> []" "dp_saving p"
    by (auto split: option.splits)
  obtain c n where "hd (dp_puts p) = (c, n)" by (cases "hd (dp_puts p)")
  then show ?thesis using that [OF p(1) _ p(3)] hd_in_set [OF p(2)] by simp
qed

lemma saving_run:
  assumes "page_after (opened @ [\<lambda>_. Save]) = Some p"
  shows "dash_run two_widgets code_unit_order False p"
  by (rule script_run [OF dash_run.mounted _ assms [unfolded page_after_def]])
    (auto simp: opened_def stored_answer_def)

lemma pin_flags [simp]:
  "pin (p\<lparr>paletteOpen := a\<rparr>) = pin p" "pin (p\<lparr>paramTarget := t\<rparr>) = pin p" "pin (p\<lparr>confirmReset := a\<rparr>) = pin p"
  "pin (p\<lparr>copyOpen := a\<rparr>) = pin p" "pin (p\<lparr>confirmDiscard := a\<rparr>) = pin p" "pin (p\<lparr>grid_narrow := a\<rparr>) = pin p"
  "pin (p\<lparr>dp_copies := cs\<rparr>) = pin p" "pin (p\<lparr>dp_conflict := a\<rparr>) = pin p"
  by (simp_all add: pin_def)

lemma pin_save: "pin (save lc p) = pin p"
proof -
  have "pin (save_failed e q) = pin q" for e q by (simp add: save_failed_def pin_def)
  moreover have "pin (p\<lparr>dp_saving := b\<rparr>) = pin p" "pin (p\<lparr>saveBlocked := b, dp_conflict := c\<rparr>) = pin p"
    "pin (p\<lparr>dp_saving := b, dp_store := st, dp_puts := ps\<rparr>) = pin p" for b c st ps
    by (simp_all add: pin_def)
  ultimately show ?thesis by (simp add: save_def commit_def split: option.split sum.split)
qed

lemma pin_answers:
  "pin (save_refused s e p) = pin p" "pin (load_answered gw l res p) = pin p" "pin (load_failed gw l e p) = pin p"
proof -
  show "pin (save_refused s e p) = pin p" by (simp add: save_refused_def save_failed_def pin_def)
  have "pin (adoptLoadedLayout gw p) = pin p" for p
    using pin_grid(8) [of gw _ "p\<lparr>mountedGeneration := layoutGeneration (dp_store p), saveBlocked := False\<rparr>"]
    by (simp add: adoptLoadedLayout_def pin_def)
  then have "pin (reload_ended gw i p) = pin p" for i p by (simp add: reload_ended_def pin_def)
  then show "pin (load_answered gw l res p) = pin p" "pin (load_failed gw l e p) = pin p"
    by (simp_all add: load_answered_def load_failed_def) (simp_all add: pin_def)
qed

lemma pin_rerender [simp]: "pin (rerender gw p) = pin p"
proof -
  have "pin (p\<lparr>mountedGeneration := n, saveBlocked := b\<rparr>) = pin p" for n b p by (simp add: pin_def)
  then show ?thesis by (simp add: rerender_def generation_effect_def adoptLoadedLayout_def)
qed

end
