(* ===== verification/Js_Units.thy ===== *)
theory Js_Units
  imports Path_Safety Js_Text
begin

text \<open>
  White space, trimming and comparison of strings that may hold any UTF-16 code unit.
\<close>

text \<open>The characters \<open>\s\<close> matches, which are those \<open>trim\<close> removes.\<close>

definition js_space :: "nat \<Rightarrow> bool" where
  "js_space c \<longleftrightarrow>
    c \<in> {9, 10, 11, 12, 13, 32, 160, 0x1680, 0x2028, 0x2029, 0x202F, 0x205F, 0x3000, 0xFEFF} \<or>
    0x2000 \<le> c \<and> c \<le> 0x200A"

definition trimStart :: "ustr \<Rightarrow> ustr" where
  "trimStart s = dropWhile js_space s"

definition trimEnd :: "ustr \<Rightarrow> ustr" where
  "trimEnd s = rev (dropWhile js_space (rev s))"

definition utrim :: "ustr \<Rightarrow> ustr" where
  "utrim s = trimEnd (trimStart s)"

lemma js_space_colon [simp]: "\<not> js_space 58"
  by (simp add: js_space_def)

lemma trimEnd_solid: "\<not> js_space c \<Longrightarrow> trimEnd (s @ c # r) = s @ c # trimEnd r"
  by (cases "list_all js_space r") (auto simp: trimEnd_def list_all_iff dropWhile_append)

lemma startsWith_trimEnd: "startsWith (trimEnd s) p \<Longrightarrow> startsWith s p"
  unfolding startsWith_iff trimEnd_def by (metis append.assoc rev_append rev_rev_ident takeWhile_dropWhile_id)

text \<open>The comparison operators order strings by their code units.\<close>

fun ustr_less :: "ustr \<Rightarrow> ustr \<Rightarrow> bool" where
  "ustr_less _ [] = False"
| "ustr_less [] (b # t) = True"
| "ustr_less (a # s) (b # t) = (a < b \<or> a = b \<and> ustr_less s t)"

lemma ustr_less_lexord: "ustr_less s t \<longleftrightarrow> (s, t) \<in> lexord {(a, b). a < b}"
  by (induction s t rule: ustr_less.induct) auto

lemma ustr_less_irrefl [simp]: "\<not> ustr_less s s"
  by (induction s) auto

lemma ustr_less_trans: "ustr_less s t \<Longrightarrow> ustr_less t u \<Longrightarrow> ustr_less s u"
  unfolding ustr_less_lexord by (rule lexord_trans) (auto simp: trans_def)

lemma ustr_less_total: "s = t \<or> ustr_less s t \<or> ustr_less t s"
  by (induction s t rule: ustr_less.induct) (auto simp: neq_Nil_conv elim: ustr_less.elims)

lemma ustr_less_append:
  "length s = length t \<Longrightarrow> ustr_less (s @ u) (t @ v) \<longleftrightarrow> ustr_less s t \<or> s = t \<and> ustr_less u v"
  by (induction s t rule: list_induct2) auto

end
