(* ===== verification/Secret_Mask.thy ===== *)
theory Secret_Mask
  imports Js_Units
begin

text \<open>
  The masked manifest the Secret wizard shows (\<open>src/frontend/lib/secret-yaml-mask.ts\<close>). Values may
  hold any character, so strings are lists of UTF-16 code units. The two regular expressions are
  written as the scanners they are: each has at most one way to match a line.
\<close>

section \<open>Lines\<close>

definition line_indent :: "ustr \<Rightarrow> nat" where
  "line_indent line = length line - length (trimStart line)"

definition SECRET_VALUE_MASK :: ustr where
  "SECRET_VALUE_MASK = replicate 8 0x2022"

definition VALUE_MAP :: "ustr \<Rightarrow> bool" where
  "VALUE_MAP line \<longleftrightarrow>
    (\<exists>h \<in> set [units ''stringData:'', units ''data:'']. startsWith line h \<and> list_all js_space (drop (length h) line))"

text \<open>The body of a quoted key up to its closing quote, and what follows it.\<close>

fun double_quoted :: "ustr \<Rightarrow> (ustr \<times> ustr) option" where
  "double_quoted [] = None"
| "double_quoted (c # s) =
    (if c = 34 then Some ([c], s)
     else if c = 92 then
       (case s of
          [] \<Rightarrow> None
        | d # t \<Rightarrow>
            if d \<in> {10, 13, 0x2028, 0x2029} then None
            else map_option (\<lambda>(k, r). (c # d # k, r)) (double_quoted t))
     else map_option (\<lambda>(k, r). (c # k, r)) (double_quoted s))"

fun single_quoted :: "ustr \<Rightarrow> (ustr \<times> ustr) option" where
  "single_quoted [] = None"
| "single_quoted (c # s) =
    (if c = 39 then
       (case s of
          d # t \<Rightarrow> if d = 39 then map_option (\<lambda>(k, r). (c # d # k, r)) (single_quoted t) else Some ([c], s)
        | [] \<Rightarrow> Some ([c], []))
     else map_option (\<lambda>(k, r). (c # k, r)) (single_quoted s))"

definition key_end :: "ustr \<Rightarrow> bool" where
  "key_end rest = (case rest of [] \<Rightarrow> False | c # r \<Rightarrow> c = 58 \<and> (case r of [] \<Rightarrow> True | d # _ \<Rightarrow> js_space d))"

definition plain_key :: "ustr \<Rightarrow> ustr option" where
  "plain_key body =
    (if body = [] \<or> hd body = 58 then None
     else if key_end (dropWhile (\<lambda>c. c \<noteq> 58) body) then Some (takeWhile (\<lambda>c. c \<noteq> 58) body) else None)"

definition quoted_key :: "ustr \<Rightarrow> ustr option" where
  "quoted_key body =
    (case body of
       [] \<Rightarrow> None
     | c # s \<Rightarrow>
         (case (if c = 34 then double_quoted s else if c = 39 then single_quoted s else None) of
            None \<Rightarrow> None
          | Some (k, rest) \<Rightarrow> if key_end rest then Some (c # k) else None))"

text \<open>The two groups of the key pattern: the indentation and the key.\<close>

definition KEY_LINE :: "ustr \<Rightarrow> (ustr \<times> ustr) option" where
  "KEY_LINE line =
    (let pad = takeWhile js_space line; body = dropWhile js_space line
     in if pad = [] then None
        else (case quoted_key body of
                Some k \<Rightarrow> Some (pad, k)
              | None \<Rightarrow> map_option (Pair pad) (plain_key body)))"

section \<open>Masking\<close>

record mask_state =
  mk_out :: "ustr list"
  inMap :: bool
  keyIndent :: "nat option"

definition masked_key :: "ustr \<Rightarrow> ustr \<Rightarrow> ustr" where
  "masked_key pad key = pad @ key @ units '': '' @ SECRET_VALUE_MASK"

text \<open>What is shown of a line of the map that stands at the map's indent.\<close>

definition map_line :: "ustr \<Rightarrow> ustr list" where
  "map_line line =
    (let text = utrim line
     in if startsWith text (units ''? '') then [line]
        else if startsWith text (units '':'') then [masked_key (take (line_indent line) line) []]
        else (case KEY_LINE line of None \<Rightarrow> [] | Some (pad, key) \<Rightarrow> [masked_key pad key]))"

definition mask_line :: "mask_state \<Rightarrow> ustr \<Rightarrow> mask_state" where
  "mask_line st line =
    (let n = line_indent line; text = utrim line; skip = (text = [] \<or> startsWith text (units ''#''))
     in if inMap st \<and> (n > 0 \<or> skip) then
          (if skip then st
           else
             (let ki = (case keyIndent st of None \<Rightarrow> n | Some k \<Rightarrow> k); st1 = st\<lparr>keyIndent := Some ki\<rparr>
              in if n \<noteq> ki then st1 else st1\<lparr>mk_out := mk_out st1 @ map_line line\<rparr>))
        else
          st\<lparr>inMap := VALUE_MAP line, keyIndent := (if VALUE_MAP line then None else keyIndent st),
             mk_out := mk_out st @ [line]\<rparr>)"

definition mask_lines :: "ustr list \<Rightarrow> ustr list" where
  "mask_lines ls = mk_out (foldl mask_line \<lparr>mk_out = [], inMap = False, keyIndent = None\<rparr> ls)"

definition maskSecretYaml :: "ustr \<Rightarrow> ustr" where
  "maskSecretYaml yaml = join_with 10 (mask_lines (split_on 10 yaml))"

section \<open>One line\<close>

lemma skip_pad:
  assumes "list_all js_space pad" "body \<noteq> []" "\<not> js_space (hd body)"
  shows "takeWhile js_space (pad @ body) = pad" "trimStart (pad @ body) = body"
    "line_indent (pad @ body) = length pad" "utrim (pad @ body) = trimEnd body"
  using assms by (cases body; auto simp: trimStart_def line_indent_def utrim_def list_all_iff takeWhile_append dropWhile_append)+

lemma double_quoted_app: "double_quoted s = Some (k, r) \<Longrightarrow> double_quoted (s @ t) = Some (k, r @ t)"
  by (induction s arbitrary: k r rule: double_quoted.induct) (auto split: if_splits list.splits)

lemma single_quoted_app:
  "single_quoted s = Some (k, []) \<Longrightarrow> c \<noteq> 39 \<Longrightarrow> single_quoted (s @ c # t) = Some (k, c # t)"
  by (induction s arbitrary: k rule: single_quoted.induct) (auto split: if_splits list.splits)

text \<open>The keys a manifest may spell: quoted, or plain.\<close>

definition valid_key :: "ustr \<Rightarrow> bool" where
  "valid_key key =
    (case key of
       [] \<Rightarrow> False
     | c # b \<Rightarrow>
         if c = 34 then double_quoted b = Some (b, [])
         else if c = 39 then single_quoted b = Some (b, [])
         else \<not> js_space c \<and> c \<noteq> 35 \<and> 58 \<notin> set key \<and> \<not> startsWith key (units ''? ''))"

lemma valid_key_hd:
  assumes "valid_key key"
  shows "key \<noteq> []" "\<not> js_space (hd key)" "hd key \<noteq> 35" "hd key \<noteq> 58"
  using assms by (auto simp: valid_key_def js_space_def split: list.splits if_splits)

definition entry_end :: "ustr \<Rightarrow> bool" where
  "entry_end v \<longleftrightarrow> v = [] \<or> js_space (hd v)"

lemma KEY_LINE_entry:
  assumes "list_all js_space pad" "pad \<noteq> []" "valid_key key" "entry_end v"
  shows "KEY_LINE (pad @ key @ 58 # v) = Some (pad, key)"
proof -
  have e: "key_end (58 # v)" using assms(4) by (auto simp: key_end_def entry_end_def split: list.split)
  have b: "key @ 58 # v \<noteq> []" "\<not> js_space (hd (key @ 58 # v))" using valid_key_hd [OF assms(3)] by simp_all
  have k: "quoted_key (key @ 58 # v) = Some key \<or>
    quoted_key (key @ 58 # v) = None \<and> plain_key (key @ 58 # v) = Some key"
    using assms(3) e
    by (auto simp: valid_key_def quoted_key_def plain_key_def double_quoted_app single_quoted_app
        takeWhile_append dropWhile_append split: list.splits if_splits)
  show ?thesis
    using assms(2) k skip_pad(1,2) [OF assms(1) b] by (auto simp: KEY_LINE_def trimStart_def)
qed

section \<open>A map of values\<close>

definition skipped :: "ustr \<Rightarrow> bool" where
  "skipped line \<longleftrightarrow> utrim line = [] \<or> startsWith (utrim line) (units ''#'')"

text \<open>A line that cannot stand inside the map, and one that is a value's continuation there.\<close>

definition top_line :: "ustr \<Rightarrow> bool" where
  "top_line line \<longleftrightarrow> line_indent line = 0 \<and> \<not> skipped line"

definition continuation_line :: "nat \<Rightarrow> ustr \<Rightarrow> bool" where
  "continuation_line n line \<longleftrightarrow> skipped line \<or> line_indent line > 0 \<and> line_indent line \<noteq> n"

record secret_entry =
  en_pad :: ustr
  en_key :: ustr
  en_value :: ustr
  en_more :: "ustr list"

definition entry_ok :: "nat \<Rightarrow> secret_entry \<Rightarrow> bool" where
  "entry_ok n e \<longleftrightarrow>
    list_all js_space (en_pad e) \<and> length (en_pad e) = n \<and> valid_key (en_key e) \<and>
    entry_end (en_value e) \<and> list_all (continuation_line n) (en_more e)"

definition entry_lines :: "secret_entry \<Rightarrow> ustr list" where
  "entry_lines e = (en_pad e @ en_key e @ 58 # en_value e) # en_more e"

definition entry_shown :: "secret_entry \<Rightarrow> ustr" where
  "entry_shown e = masked_key (en_pad e) (en_key e)"

lemma entry_line:
  assumes "entry_ok n e" "0 < n"
  defines "line \<equiv> en_pad e @ en_key e @ 58 # en_value e"
  shows "line_indent line = n" "\<not> skipped line" "map_line line = [entry_shown e]"
proof -
  let ?body = "en_key e @ 58 # en_value e"
  have o: "list_all js_space (en_pad e)" "length (en_pad e) = n" "valid_key (en_key e)" "entry_end (en_value e)"
    using assms(1) by (simp_all add: entry_ok_def)
  note h = valid_key_hd [OF o(3)]
  have b: "?body \<noteq> []" "\<not> js_space (hd ?body)" using h by simp_all
  note p = skip_pad [OF o(1) b]
  show i: "line_indent line = n" using p(3) o(2) by (simp add: line_def)
  have t: "utrim line = en_key e @ 58 # trimEnd (en_value e)"
    using p(4) by (simp add: line_def trimEnd_solid)
  have q: "\<not> startsWith (utrim line) (units ''? '')" "\<not> startsWith (utrim line) (units '':'')"
    "\<not> startsWith (utrim line) (units ''#'')"
    using h o(3) unfolding t
    by (cases "en_key e"; cases "tl (en_key e)";
        auto simp: startsWith_def units_def valid_key_def split: if_splits)+
  show "\<not> skipped line" using q t by (simp add: skipped_def)
  have "KEY_LINE line = Some (en_pad e, en_key e)"
    using KEY_LINE_entry [OF o(1) _ o(3,4)] o(2) assms(2) by (auto simp: line_def)
  then show "map_line line = [entry_shown e]"
    using q by (simp add: map_line_def entry_shown_def)
qed

lemma mask_continuation:
  "continuation_line n line \<Longrightarrow> inMap st \<Longrightarrow> keyIndent st = Some n \<Longrightarrow> mask_line st line = st"
  by (cases st) (auto simp: mask_line_def continuation_line_def skipped_def Let_def)

lemma mask_entry:
  assumes "entry_ok n e" "0 < n" "inMap st" "keyIndent st \<in> {None, Some n}"
  shows "foldl mask_line st (entry_lines e) = st\<lparr>keyIndent := Some n, mk_out := mk_out st @ [entry_shown e]\<rparr>"
proof -
  note l = entry_line [OF assms(1,2)]
  let ?s = "st\<lparr>keyIndent := Some n, mk_out := mk_out st @ [entry_shown e]\<rparr>"
  have 1: "mask_line st (en_pad e @ en_key e @ 58 # en_value e) = ?s"
    using l assms(2-4) by (auto simp: mask_line_def skipped_def Let_def)
  have "foldl mask_line ?s ls = ?s" if "list_all (continuation_line n) ls" for ls
    using that assms(3) by (induction ls) (simp_all add: mask_continuation [of n])
  with 1 assms(1) show ?thesis by (simp add: entry_lines_def entry_ok_def)
qed

lemma mask_entries:
  assumes "list_all (entry_ok n) es" "0 < n" "inMap st" "keyIndent st \<in> {None, Some n}"
  shows "foldl mask_line st (concat (map entry_lines es)) =
    (if es = [] then st else st\<lparr>keyIndent := Some n, mk_out := mk_out st @ map entry_shown es\<rparr>)"
  using assms by (induction es arbitrary: st) (auto simp: mask_entry)

subsection \<open>Documents\<close>

text \<open>Output is only appended, and the indent recorded outside a map is never read.\<close>

definition shift_out :: "ustr list \<Rightarrow> mask_state \<Rightarrow> mask_state" where
  "shift_out w st = st\<lparr>mk_out := w @ mk_out st, keyIndent := (if inMap st then keyIndent st else None)\<rparr>"

lemma mask_line_shift: "shift_out w (mask_line (shift_out p st) l) = shift_out (w @ p) (mask_line st l)"
  by (cases st) (auto simp: shift_out_def mask_line_def Let_def)

lemma fold_shift: "shift_out w (foldl mask_line (shift_out p st) ls) = shift_out (w @ p) (foldl mask_line st ls)"
proof (induction ls arbitrary: w p st)
  case Nil
  then show ?case by (simp add: shift_out_def)
next
  case (Cons l ls)
  have "shift_out w (foldl mask_line (mask_line (shift_out p st) l) ls) =
    shift_out w (foldl mask_line (shift_out [] (mask_line (shift_out p st) l)) ls)"
    using Cons.IH [of w "[]"] by simp
  also have "\<dots> = shift_out w (foldl mask_line (shift_out p (mask_line st l)) ls)"
    by (simp add: mask_line_shift)
  also have "\<dots> = shift_out (w @ p) (foldl mask_line (mask_line st l) ls)" by (rule Cons.IH)
  finally show ?case by simp
qed

lemma mask_top:
  "top_line l \<Longrightarrow> mask_line st l = st\<lparr>inMap := VALUE_MAP l, keyIndent := (if VALUE_MAP l then None else keyIndent st),
    mk_out := mk_out st @ [l]\<rparr>"
  by (simp add: mask_line_def top_line_def skipped_def Let_def)

text \<open>A top-level line starts afresh.\<close>

lemma mask_lines_top:
  assumes "top_line l"
  shows "mask_lines (pre @ l # rest) = mask_lines pre @ mask_lines (l # rest)"
proof -
  let ?i = "\<lparr>mk_out = [], inMap = False, keyIndent = None\<rparr>"
  define st where "st = foldl mask_line ?i pre"
  have "shift_out [] (mask_line st l) = shift_out (mk_out st) (mask_line ?i l)"
    by (cases st) (simp add: mask_top [OF assms] shift_out_def)
  then have "shift_out [] (foldl mask_line (mask_line st l) rest) =
    shift_out (mk_out st) (foldl mask_line (mask_line ?i l) rest)"
    using fold_shift [of "[]" "[]" "mask_line st l" rest]
      fold_shift [of "[]" "mk_out st" "mask_line ?i l" rest] by simp
  from arg_cong [where f = mk_out, OF this] show ?thesis
    by (simp add: shift_out_def mask_lines_def st_def)
qed

lemma VALUE_MAP_top:
  assumes "VALUE_MAP h"
  shows "top_line h"
proof -
  obtain k r where k: "h = k @ 58 # r" "k \<in> {units ''stringData'', units ''data''}"
  proof -
    have "units ''stringData:'' = units ''stringData'' @ [58]" "units ''data:'' = units ''data'' @ [58]"
      by (simp_all add: units_def)
    then show thesis using assms that unfolding VALUE_MAP_def startsWith_iff by fastforce
  qed
  have "trimStart h = h" using k by (auto simp: trimStart_def units_def js_space_def)
  moreover from this have "utrim h = k @ 58 # trimEnd r" by (simp add: utrim_def k(1) trimEnd_solid)
  ultimately show ?thesis
    using k(2) by (auto simp: top_line_def line_indent_def skipped_def startsWith_def units_def)
qed

lemma mask_lines_map:
  assumes "VALUE_MAP h" "list_all (entry_ok n) es" "0 < n" "case rest of [] \<Rightarrow> True | l # _ \<Rightarrow> top_line l"
  shows "mask_lines (pre @ h # concat (map entry_lines es) @ rest) =
    mask_lines pre @ h # map entry_shown es @ mask_lines rest"
proof -
  note t = VALUE_MAP_top [OF assms(1)]
  have b: "mask_lines (h # concat (map entry_lines es)) = h # map entry_shown es"
    using mask_entries [OF assms(2,3)] by (simp add: mask_lines_def mask_top [OF t] assms(1))
  have "mask_lines (h # concat (map entry_lines es) @ rest) =
    mask_lines (h # concat (map entry_lines es)) @ mask_lines rest"
    using assms(4) mask_lines_top [of _ "h # concat (map entry_lines es)"]
    by (cases rest) (simp_all add: mask_lines_def)
  then show ?thesis by (simp add: mask_lines_top [OF t] b)
qed

section \<open>Whatever stands in the map\<close>

lemma double_quoted_parts: "double_quoted s = Some (k, r) \<Longrightarrow> s = k @ r"
  by (induction s arbitrary: k r rule: double_quoted.induct) (auto split: if_splits list.splits)

lemma single_quoted_parts: "single_quoted s = Some (k, r) \<Longrightarrow> s = k @ r"
  by (induction s arbitrary: k r rule: single_quoted.induct) (auto split: if_splits list.splits)

lemma key_end_colon: "key_end r \<Longrightarrow> \<exists>v. r = 58 # v"
  by (auto simp: key_end_def split: list.splits)

lemma quoted_key_prefix: "quoted_key b = Some k \<Longrightarrow> startsWith b (k @ [58])"
  by (auto simp: quoted_key_def startsWith_iff dest!: key_end_colon double_quoted_parts single_quoted_parts
      split: list.splits option.splits if_splits)

lemma plain_key_prefix:
  assumes "plain_key b = Some k"
  shows "startsWith b (k @ [58])"
proof -
  have k: "k = takeWhile (\<lambda>c. c \<noteq> 58) b" "key_end (dropWhile (\<lambda>c. c \<noteq> 58) b)"
    using assms by (auto simp: plain_key_def split: if_splits)
  then obtain r where "dropWhile (\<lambda>c. c \<noteq> 58) b = 58 # r" by (auto dest: key_end_colon)
  then have "b = k @ 58 # r" using k(1) by (metis takeWhile_dropWhile_id)
  then show ?thesis by (auto simp: startsWith_iff)
qed

lemma KEY_LINE_prefix:
  assumes "KEY_LINE line = Some (p, k)"
  shows "startsWith line (p @ k @ [58])"
proof -
  have "p = takeWhile js_space line" "startsWith (dropWhile js_space line) (k @ [58])"
    using assms by (auto simp: KEY_LINE_def Let_def quoted_key_prefix plain_key_prefix split: if_splits option.splits)
  then show ?thesis by (metis append.assoc startsWith_iff takeWhile_dropWhile_id)
qed

definition shown_from :: "ustr \<Rightarrow> ustr \<Rightarrow> bool" where
  "shown_from line l \<longleftrightarrow>
    startsWith (utrim line) (units ''? '') \<and> l = line \<or>
    (\<exists>p k. l = masked_key p k \<and> startsWith line (p @ k @ [58]))"

lemma map_line_shown:
  assumes "l \<in> set (map_line line)"
  shows "shown_from line l"
proof -
  have "startsWith line (take (line_indent line) line @ [58])" if "startsWith (utrim line) (units '':'')"
  proof -
    have "line = take (line_indent line) line @ trimStart line"
      by (simp add: line_indent_def trimStart_def dropWhile_eq_drop) (metis append_take_drop_id length_takeWhile_le add_diff_cancel_right' diff_diff_cancel)
    moreover have "startsWith (trimStart line) [58]"
      using that startsWith_trimEnd by (simp add: utrim_def units_def)
    ultimately show ?thesis by (metis append.assoc startsWith_iff)
  qed
  then have "shown_from line (masked_key (take (line_indent line) line) [])" if "startsWith (utrim line) (units '':'')"
    unfolding shown_from_def using that by (metis append_Nil)
  moreover have "shown_from line (masked_key p k)" if "KEY_LINE line = Some (p, k)" for p k
    unfolding shown_from_def using that KEY_LINE_prefix by blast
  ultimately show ?thesis
    using assms unfolding map_line_def Let_def
    by (auto simp: shown_from_def [of line line] split: if_splits option.splits)
qed

lemma mask_block:
  assumes "\<forall>l \<in> set block. 0 < line_indent l \<or> skipped l" "inMap st"
  shows "\<exists>out. mk_out (foldl mask_line st block) = mk_out st @ out \<and> length out \<le> length block \<and>
    (\<forall>l \<in> set out. \<exists>line \<in> set block. shown_from line l)"
  using assms
proof (induction block arbitrary: st)
  case (Cons b bs)
  have "\<exists>o1. mk_out (mask_line st b) = mk_out st @ o1 \<and> length o1 \<le> 1 \<and> set o1 \<subseteq> set (map_line b) \<and> inMap (mask_line st b)"
    using Cons.prems
    by (auto simp: mask_line_def skipped_def Let_def map_line_def split: option.splits)
  then obtain o1 where 1: "mk_out (mask_line st b) = mk_out st @ o1" "length o1 \<le> 1" "\<forall>l \<in> set o1. shown_from b l"
    "inMap (mask_line st b)" using map_line_shown by blast
  obtain o2 where 2: "mk_out (foldl mask_line (mask_line st b) bs) = mk_out (mask_line st b) @ o2"
    "length o2 \<le> length bs" "\<forall>l \<in> set o2. \<exists>line \<in> set bs. shown_from line l"
    using Cons.IH [OF _ 1(4)] Cons.prems(1) by auto
  show ?case using 1 2 by (intro exI [of _ "o1 @ o2"]) auto
qed simp

lemmas mask_eval =
  units_def js_space_def VALUE_MAP_def startsWith_def continuation_line_def skipped_def top_line_def
  line_indent_def utrim_def trimStart_def trimEnd_def mask_lines_def mask_line_def

section \<open>Properties\<close>

text \<open>
  Claim C15. A Secret's values never reach the masked manifest. Where a top-level \<open>data:\<close> or
  \<open>stringData:\<close> line is followed by any number of entries (a plain or quoted key at the map's
  indent, any value on its line, any lines indented differently, blank or comments after it), the
  masked text has the header, one \<open>key: mask\<close> line per entry and nothing else in their place: it
  does not depend on the values or on how many lines they take. What stands before and after is
  masked on its own.
\<close>

theorem secret_values_masked:
  assumes "VALUE_MAP h" "list_all (entry_ok n) es" "0 < n" "case rest of [] \<Rightarrow> True | l # _ \<Rightarrow> top_line l"
    "\<forall>l \<in> set (pre @ h # concat (map entry_lines es) @ rest). 10 \<notin> set l"
  shows "maskSecretYaml (join_with 10 (pre @ h # concat (map entry_lines es) @ rest)) =
    join_with 10 (mask_lines pre @ h # map entry_shown es @ mask_lines rest)"
  using assms(5) mask_lines_map [OF assms(1-4)] by (simp add: maskSecretYaml_def split_on_join)

theorem secret_values_masked_witness:
  "let es = [\<lparr>en_pad = units ''  '', en_key = units ''user'', en_value = units '' admin'', en_more = []\<rparr>,
             \<lparr>en_pad = units ''  '', en_key = units (CHR 0x22 # ''a:b'' @ [CHR 0x22]), en_value = units '' |'',
              en_more = [units ''    hunter2'', [], units ''    : x'']\<rparr>]
   in maskSecretYaml (join_with 10 ([units ''kind: Secret''] @ units ''data:'' # concat (map entry_lines es) @ [units ''type: Opaque''])) =
      join_with 10 ([units ''kind: Secret'', units ''data:'', units ''  user: '' @ SECRET_VALUE_MASK,
        units (''  '' @ CHR 0x22 # ''a:b'' @ [CHR 0x22] @ '': '') @ SECRET_VALUE_MASK, units ''type: Opaque''])"
proof -
  define es where "es =
    [\<lparr>en_pad = units ''  '', en_key = units ''user'', en_value = units '' admin'', en_more = []\<rparr>,
     \<lparr>en_pad = units ''  '', en_key = units (CHR 0x22 # ''a:b'' @ [CHR 0x22]), en_value = units '' |'',
      en_more = [units ''    hunter2'', [], units ''    : x'']\<rparr>]"
  have e: "list_all (entry_ok 2) es"
    by (simp add: es_def entry_ok_def valid_key_def entry_end_def mask_eval)
  have t: "VALUE_MAP (units ''data:'')" "case [units ''type: Opaque''] of [] \<Rightarrow> True | l # _ \<Rightarrow> top_line l"
    "mask_lines [units ''kind: Secret''] = [units ''kind: Secret'']"
    "mask_lines [units ''type: Opaque''] = [units ''type: Opaque'']"
    by (simp_all add: mask_eval)
  have n: "\<forall>l \<in> set ([units ''kind: Secret''] @ units ''data:'' # concat (map entry_lines es) @ [units ''type: Opaque'']). 10 \<notin> set l"
    by (simp add: es_def entry_lines_def units_def)
  show ?thesis
    using secret_values_masked [OF t(1) e _ t(2) n] t(3,4)
    by (simp add: es_def entry_shown_def masked_key_def units_def)
qed

text \<open>
  Masking fails closed. Whatever lines stand under a \<open>data:\<close> or \<open>stringData:\<close> line, as
  long as each is indented, blank or a comment, a line shown in their place is either an explicit
  key line (\<open>? key\<close>) or the mask after what one of them has up to a colon; lines are only dropped.
\<close>

theorem masking_fails_closed:
  assumes "VALUE_MAP h" "\<forall>l \<in> set block. 0 < line_indent l \<or> skipped l"
  shows "\<exists>out. mask_lines (h # block) = h # out \<and> length out \<le> length block \<and>
    (\<forall>l \<in> set out. \<exists>line \<in> set block.
      startsWith (utrim line) (units ''? '') \<and> l = line \<or>
      (\<exists>p k. l = p @ k @ units '': '' @ SECRET_VALUE_MASK \<and> startsWith line (p @ k @ [58])))"
  using mask_block [OF assms(2), of "mask_line \<lparr>mk_out = [], inMap = False, keyIndent = None\<rparr> h"] assms(1)
  by (simp add: mask_lines_def mask_top [OF VALUE_MAP_top [OF assms(1)]] shown_from_def masked_key_def)

text \<open>A map written in flow style is not such a line, and its values stay in the text.\<close>

lemma flow_map_shown: "maskSecretYaml (units ''data: {p: s3cret}'') = units ''data: {p: s3cret}''"
  by (simp add: maskSecretYaml_def units_def mask_eval)

end
