(* ===== verification/Secret_Reveal.thy ===== *)
theory Secret_Reveal
  imports Sha256_Refines
begin

text \<open>
  Turning a revealed Secret value into something safe to show
  (\<open>src/frontend/lib/secret-reveal.ts\<close>). The reveal endpoint sends the bytes in base64; strings are
  lists of UTF-16 code units. \<open>atob\<close> and \<open>TextDecoder\<close> are the platform's, written as their
  standards define them.
\<close>

section \<open>The code\<close>

text \<open>The string iterator: a surrogate pair is one character.\<close>

fun chars_of :: "ustr \<Rightarrow> ustr list" where
  "chars_of [] = []"
| "chars_of [a] = [[a]]"
| "chars_of (a # b # s) =
    (if lead_surrogate a \<and> trail_surrogate b then [a, b] # chars_of s else [a] # chars_of (b # s))"

fun codePointAt0 :: "ustr \<Rightarrow> nat" where
  "codePointAt0 [a, b] = 0x10000 + (a - 0xD800) * 0x400 + (b - 0xDC00)"
| "codePointAt0 ch = hd ch"

definition BIDI :: "nat list" where
  "BIDI = [0x202a, 0x202b, 0x202c, 0x202d, 0x202e, 0x2066, 0x2067, 0x2068, 0x2069]"

definition ZERO_WIDTH :: "nat list" where
  "ZERO_WIDTH = [0x200b, 0x200c, 0x200d, 0xfeff]"

definition isUnsafe :: "nat \<Rightarrow> bool" where
  "isUnsafe code =
    (if code < 0x20 \<and> code \<noteq> 0x09 \<and> code \<noteq> 0x0a \<and> code \<noteq> 0x0d then True
     else if code = 0x7f \<or> 0x80 \<le> code \<and> code \<le> 0x9f then True
     else code \<in> set BIDI \<or> code \<in> set ZERO_WIDTH)"

definition unicode_escape :: "nat \<Rightarrow> ustr" where
  "unicode_escape code = 92 # 117 # units (padStart 4 (show_hex code))"

definition sanitizeSecretValue :: "ustr \<Rightarrow> ustr" where
  "sanitizeSecretValue input =
    concat (map (\<lambda>ch. let code = codePointAt0 ch in if isUnsafe code then unicode_escape code else ch) (chars_of input))"

text \<open>\<open>atob\<close>: the forgiving base64 decoder. \<open>None\<close> is its exception.\<close>

definition b64_digit :: "nat \<Rightarrow> nat option" where
  "b64_digit c =
    (if 65 \<le> c \<and> c \<le> 90 then Some (c - 65)
     else if 97 \<le> c \<and> c \<le> 122 then Some (c - 71)
     else if 48 \<le> c \<and> c \<le> 57 then Some (c + 4)
     else if c = 43 then Some 62
     else if c = 47 then Some 63
     else None)"

fun b64_digits :: "ustr \<Rightarrow> nat list option" where
  "b64_digits [] = Some []"
| "b64_digits (c # s) =
    (case b64_digit c of
       None \<Rightarrow> None
     | Some d \<Rightarrow> (case b64_digits s of None \<Rightarrow> None | Some ds \<Rightarrow> Some (d # ds)))"

fun b64_bytes :: "nat list \<Rightarrow> nat list" where
  "b64_bytes (p # q # r # t # ds) =
    [p * 4 + q div 16, q mod 16 * 16 + r div 4, r mod 4 * 64 + t] @ b64_bytes ds"
| "b64_bytes [p, q, r] = [p * 4 + q div 16, q mod 16 * 16 + r div 4]"
| "b64_bytes [p, q] = [p * 4 + q div 16]"
| "b64_bytes _ = []"

definition drop_last_eq :: "ustr \<Rightarrow> ustr" where
  "drop_last_eq s = (if s \<noteq> [] \<and> last s = 61 then butlast s else s)"

definition strip_padding :: "ustr \<Rightarrow> ustr" where
  "strip_padding s = (if length s mod 4 = 0 then drop_last_eq (drop_last_eq s) else s)"

definition atob :: "ustr \<Rightarrow> nat list option" where
  "atob data =
    (let s = strip_padding (List.filter (\<lambda>c. c \<notin> set [9, 10, 12, 13, 32]) data)
     in if length s mod 4 = 1 then None else map_option b64_bytes (b64_digits s))"

text \<open>\<open>TextDecoder("utf-8", {fatal: true})\<close>: a leading byte order mark is consumed.\<close>

fun utf8_decode :: "nat list \<Rightarrow> ustr option" where
  "utf8_decode [] = Some []"
| "utf8_decode (b # bs) =
    (case continuations b of
       None \<Rightarrow> None
     | Some n \<Rightarrow>
         if length bs < n then None
         else (case utf8_point (b # take n bs) of
                 None \<Rightarrow> None
               | Some v \<Rightarrow> (case utf8_decode (drop n bs) of None \<Rightarrow> None | Some s \<Rightarrow> Some (utf16 v @ s))))"

definition text_decode :: "nat list \<Rightarrow> ustr option" where
  "text_decode bs = utf8_decode (if startsWith bs [0xEF, 0xBB, 0xBF] then drop 3 bs else bs)"

record RevealedValue =
  rv_text :: ustr
  rv_binary :: bool

definition decodeSecretValue :: "ustr \<Rightarrow> RevealedValue" where
  "decodeSecretValue base64 =
    (case atob base64 of
       None \<Rightarrow> \<lparr>rv_text = sanitizeSecretValue base64, rv_binary = True\<rparr>
     | Some bytes \<Rightarrow>
         (case text_decode bytes of
            Some text \<Rightarrow> \<lparr>rv_text = sanitizeSecretValue text, rv_binary = False\<rparr>
          | None \<Rightarrow> \<lparr>rv_text = sanitizeSecretValue base64, rv_binary = True\<rparr>))"

section \<open>Nothing unsafe is shown\<close>

lemma hex_units: "c \<in> set (units (padStart 4 (show_hex n))) \<Longrightarrow> 48 \<le> c \<and> c \<le> 102"
proof -
  have "48 \<le> (of_char x :: nat) \<and> of_char x \<le> (102 :: nat)" if "is_hex x" for x
    using that by (auto simp: is_hex_def)
  moreover have "is_hex CHR ''0''" by (simp add: is_hex_def)
  moreover have "list_all is_hex (show_hex n)" by (rule hex_ok)
  ultimately show "c \<in> set (units (padStart 4 (show_hex n))) \<Longrightarrow> 48 \<le> c \<and> c \<le> 102"
    unfolding units_def padStart_def list_all_iff by (auto split: if_splits)
qed

lemma ascii_safe: "48 \<le> c \<Longrightarrow> c \<le> 117 \<Longrightarrow> \<not> isUnsafe c"
  by (simp add: isUnsafe_def BIDI_def ZERO_WIDTH_def)

lemma escape_units: "list_all (\<lambda>c. \<not> isUnsafe c) (unicode_escape code)"
  using hex_units ascii_safe unfolding unicode_escape_def list_all_iff by fastforce

lemma chars_concat [simp]: "concat (chars_of s) = s"
  by (induction s rule: chars_of.induct) simp_all

lemma astral_safe:
  "lead_surrogate a \<Longrightarrow> \<not> isUnsafe a" "trail_surrogate b \<Longrightarrow> \<not> isUnsafe b" "\<not> isUnsafe (0x10000 + n + m)"
  by (auto simp: isUnsafe_def BIDI_def ZERO_WIDTH_def lead_surrogate_def trail_surrogate_def)

lemma sanitize_units: "list_all (\<lambda>c. \<not> isUnsafe c) (sanitizeSecretValue s)"
  by (induction s rule: chars_of.induct) (simp_all add: sanitizeSecretValue_def escape_units astral_safe Let_def)

lemma sanitize_safe: "list_all (\<lambda>c. \<not> isUnsafe c) s \<Longrightarrow> sanitizeSecretValue s = s"
  by (induction s rule: chars_of.induct) (simp_all add: sanitizeSecretValue_def astral_safe Let_def)

section \<open>Decoding inverts encoding\<close>

text \<open>Standard base64 with padding, as the endpoint writes it.\<close>

definition b64_char :: "nat \<Rightarrow> nat" where
  "b64_char d =
    (if d < 26 then d + 65 else if d < 52 then d + 71 else if d < 62 then d - 4 else if d = 62 then 43 else 47)"

fun b64_sextets :: "nat list \<Rightarrow> nat list" where
  "b64_sextets (a # b # c # bs) =
    [a div 4, a mod 4 * 16 + b div 16, b mod 16 * 4 + c div 64, c mod 64] @ b64_sextets bs"
| "b64_sextets [a, b] = [a div 4, a mod 4 * 16 + b div 16, b mod 16 * 4]"
| "b64_sextets [a] = [a div 4, a mod 4 * 16]"
| "b64_sextets [] = []"

definition base64_of :: "nat list \<Rightarrow> ustr" where
  "base64_of bs = map b64_char (b64_sextets bs) @ replicate ((3 - length bs mod 3) mod 3) 61"

lemma b64_char_ok:
  assumes "d < 64"
  shows "b64_digit (b64_char d) = Some d" "b64_char d \<notin> {9, 10, 12, 13, 32, 61}"
  using assms by (auto simp: b64_digit_def b64_char_def)

lemma b64_digits_ok: "list_all (\<lambda>d. d < 64) ds \<Longrightarrow> b64_digits (map b64_char ds) = Some ds"
  by (induction ds) (simp_all add: b64_char_ok)

lemma sextets_small: "list_all (\<lambda>b. b < 256) bs \<Longrightarrow> list_all (\<lambda>d. d < 64) (b64_sextets bs)"
  by (induction bs rule: b64_sextets.induct) (auto simp: less_mult_imp_div_less)

lemma sextets_bytes: "list_all (\<lambda>b. b < 256) bs \<Longrightarrow> b64_bytes (b64_sextets bs) = bs"
  by (induction bs rule: b64_sextets.induct) (auto simp: less_mult_imp_div_less)

lemma sextets_length: "(length (b64_sextets bs) + (3 - length bs mod 3) mod 3) mod 4 = 0"
  by (induction bs rule: b64_sextets.induct) (auto simp: mod_simps)

lemma drop_last_eq_simps:
  "drop_last_eq (s @ [61]) = s" "61 \<notin> set s \<Longrightarrow> drop_last_eq s = s"
  by (auto simp: drop_last_eq_def dest: last_in_set)

lemma unpadded_length: "(m + k) mod 4 = 0 \<Longrightarrow> k \<le> 2 \<Longrightarrow> m mod 4 \<noteq> (1 :: nat)"
  by presburger

lemma strip_base64:
  assumes "61 \<notin> set s" "k \<le> 2" "(length s + k) mod 4 = 0"
  shows "strip_padding (s @ replicate k 61) = s"
proof -
  consider "k = 0" | "k = 1" | "k = 2" using assms(2) by linarith
  then show ?thesis
  proof cases
    case 3
    have "drop_last_eq (s @ [61, 61]) = s @ [61]" using drop_last_eq_simps(1) [of "s @ [61]"] by simp
    with 3 assms show ?thesis by (simp add: strip_padding_def drop_last_eq_simps numeral_2_eq_2)
  qed (use assms in \<open>simp_all add: strip_padding_def drop_last_eq_simps\<close>)
qed

lemma atob_base64:
  assumes "list_all (\<lambda>b. b < 256) bs"
  shows "atob (base64_of bs) = Some bs"
proof -
  let ?c = "map b64_char (b64_sextets bs)"
  let ?k = "(3 - length bs mod 3) mod 3"
  have c: "c \<notin> {9, 10, 12, 13, 32, 61}" if "c \<in> set ?c" for c
    using that sextets_small [OF assms] b64_char_ok(2) by (fastforce simp: list_all_iff)
  have k: "?k \<le> 2" by (metis less_Suc_eq_le mod_less_divisor numeral_2_eq_2 numeral_3_eq_3 zero_less_Suc)
  have "List.filter (\<lambda>c. c \<notin> set [9, 10, 12, 13, 32]) (base64_of bs) = base64_of bs"
    using c by (fastforce simp: base64_of_def filter_id_conv)
  moreover have "strip_padding (base64_of bs) = ?c"
    unfolding base64_of_def using c k sextets_length [of bs] by (intro strip_base64) auto
  moreover have "length ?c mod 4 \<noteq> 1" using unpadded_length [OF sextets_length k] by simp
  moreover have "map_option b64_bytes (b64_digits ?c) = Some bs"
    by (simp add: b64_digits_ok [OF sextets_small [OF assms]] sextets_bytes [OF assms])
  ultimately show ?thesis by (simp add: atob_def del: set_simps)
qed

subsection \<open>UTF-8\<close>

definition scalar :: "nat \<Rightarrow> bool" where
  "scalar v \<longleftrightarrow> v < 0x110000 \<and> \<not> lead_surrogate v \<and> \<not> trail_surrogate v"

text \<open>Text without lone surrogates.\<close>

definition well_formed :: "ustr \<Rightarrow> bool" where
  "well_formed s \<longleftrightarrow> list_all (\<lambda>ch. scalar (codePointAt0 ch) \<and> (length ch = 1 \<longrightarrow> hd ch < 0x10000)) (chars_of s)"

lemma utf8_bytes_small: "v < 0x110000 \<Longrightarrow> list_all (\<lambda>b. b < 256) (utf8_bytes v)"
  by (auto simp: utf8_bytes_def less_mult_imp_div_less)

lemma regroup: "(v :: nat) div (m * 0x40) * (m * 0x40) + v div m mod 0x40 * m = v div m * m"
proof -
  have "v div m div 0x40 * 0x40 + v div m mod 0x40 = v div m" by (rule div_mult_mod_eq)
  then have "(v div m div 0x40 * 0x40 + v div m mod 0x40) * m = v div m * m" by (simp only:)
  then show ?thesis unfolding div_mult2_eq by (simp only: add_mult_distrib mult.assoc mult.commute [of m "0x40"])
qed

lemma utf8_point_bytes:
  assumes "scalar v"
  shows "utf8_point (utf8_bytes v) = Some v"
proof -
  have "v div 0x40 * 0x40 + v mod 0x40 = v" by simp
  then have 3: "v div 0x1000 * 0x1000 + v div 0x40 mod 0x40 * 0x40 + v mod 0x40 = v"
    using regroup [of v "0x40"] by simp
  then have 4: "v div 0x40000 * 0x40000 + v div 0x1000 mod 0x40 * 0x1000 + v div 0x40 mod 0x40 * 0x40 + v mod 0x40 = v"
    using regroup [of v "0x1000"] by simp
  from assms show ?thesis
    by (simp add: utf8_bytes_def scalar_def lead_surrogate_def trail_surrogate_def is_continuation_def Let_def 3 4)
      linarith
qed

lemma utf8_decode_bytes:
  assumes "scalar v"
  shows "utf8_decode (utf8_bytes v @ bs) = map_option ((@) (utf16 v)) (utf8_decode bs)"
proof -
  obtain b r where u: "utf8_bytes v = b # r" "continuations b = Some (length r)"
  proof -
    have "case utf8_bytes v of b # r \<Rightarrow> continuations b = Some (length r)"
      using assms by (auto simp: utf8_bytes_def continuations_def scalar_def less_mult_imp_div_less)
    then show thesis using that by (cases "utf8_bytes v") (auto simp: utf8_bytes_def split: if_splits)
  qed
  with utf8_point_bytes [OF assms] show ?thesis by (simp split: option.split)
qed

lemma utf16_pair:
  assumes "lead_surrogate a" "trail_surrogate b"
  shows "utf16 (0x10000 + (a - 0xD800) * 0x400 + (b - 0xDC00)) = [a, b]"
proof -
  obtain i j where "a = 0xD800 + i" "b = 0xDC00 + j" "j < 0x400"
    using assms by (auto simp: lead_surrogate_def trail_surrogate_def nat_le_iff_add)
  then show ?thesis by (simp add: utf16_def)
qed

lemma decode_text: "well_formed s \<Longrightarrow> utf8_decode (text_encode s) = Some s"
proof (induction s rule: text_encode.induct)
  case (2 a)
  then show ?case using utf8_decode_bytes [of a "[]"] by (auto simp: well_formed_def scalar_def utf16_def)
next
  case (3 a b s)
  show ?case
  proof (cases "lead_surrogate a \<and> trail_surrogate b")
    case True
    with 3 show ?thesis by (simp add: well_formed_def utf8_decode_bytes utf16_pair)
  next
    case False
    with 3 show ?thesis by (auto simp: well_formed_def scalar_def utf8_decode_bytes utf16_def)
  qed
qed simp

lemma text_small: "list_all (\<lambda>a. a < 0x10000) s \<Longrightarrow> list_all (\<lambda>b. b < 256) (text_encode s)"
  by (induction s rule: text_encode.induct)
    (auto intro!: utf8_bytes_small simp: lead_surrogate_def trail_surrogate_def)

lemma well_formed_units: "well_formed s \<Longrightarrow> list_all (\<lambda>a. a < 0x10000) s"
  by (induction s rule: chars_of.induct)
    (auto simp: well_formed_def lead_surrogate_def trail_surrogate_def split: if_splits)

text \<open>Only the mark itself encodes to the three octets of a byte order mark.\<close>

lemma bom_encoded: "startsWith (text_encode s) [0xEF, 0xBB, 0xBF] \<Longrightarrow> well_formed s \<Longrightarrow> startsWith s [0xFEFF]"
proof -
  assume b: "startsWith (text_encode s) [0xEF, 0xBB, 0xBF]" and w: "well_formed s"
  obtain r where r: "text_encode s = [0xEF, 0xBB, 0xBF] @ r" using b by (auto simp: startsWith_iff)
  have "utf8_decode ([0xEF, 0xBB, 0xBF] @ r) = map_option ((@) [0xFEFF]) (utf8_decode r)"
    using utf8_decode_bytes [of "0xFEFF" r]
    by (simp add: scalar_def lead_surrogate_def trail_surrogate_def utf8_bytes_def utf16_def)
  then have "Some s = map_option ((@) [0xFEFF]) (utf8_decode r)" using decode_text [OF w] by (simp only: r)
  then show "startsWith s [0xFEFF]" by (cases "utf8_decode r") (auto simp: startsWith_iff)
qed

lemmas reveal_eval =
  units_def well_formed_def scalar_def lead_surrogate_def trail_surrogate_def startsWith_def
  isUnsafe_def BIDI_def ZERO_WIDTH_def sanitizeSecretValue_def unicode_escape_def padStart_def
  show_hex.simps hex_char_def utf8_bytes_def base64_of_def b64_char_def

lemmas reveal_decode_eval =
  decodeSecretValue_def atob_def strip_padding_def drop_last_eq_def b64_digit_def text_decode_def
  continuations_def is_continuation_def utf16_def

section \<open>Properties\<close>

text \<open>
  Claim C30. A value is revealed as it is stored. For text without lone surrogates that does not
  start with a byte order mark, decoding the base64 of its UTF-8 octets gives back that text with
  its control, BiDi and zero-width characters escaped (so the text itself when it has none), and
  it is not called binary.
\<close>

theorem revealed_text_roundtrip:
  assumes "well_formed s" "\<not> startsWith s [0xFEFF]"
  shows "decodeSecretValue (base64_of (text_encode s)) = \<lparr>rv_text = sanitizeSecretValue s, rv_binary = False\<rparr> \<and>
    (list_all (\<lambda>c. \<not> isUnsafe c) s \<longrightarrow> sanitizeSecretValue s = s)"
proof -
  have "text_decode (text_encode s) = Some s"
    using assms bom_encoded decode_text by (auto simp: text_decode_def)
  then show ?thesis
    using atob_base64 text_small well_formed_units sanitize_safe assms(1) by (simp add: decodeSecretValue_def)
qed

theorem revealed_text_roundtrip_witness:
  "decodeSecretValue (units ''cMOkc3M='') = \<lparr>rv_text = [112, 0xE4, 115, 115], rv_binary = False\<rparr> \<and>
   decodeSecretValue (base64_of (text_encode [112, 0x202E, 0xD83D, 0xDE00])) =
     \<lparr>rv_text = 112 # units (CHR 0x5C # ''u202e'') @ [0xD83D, 0xDE00], rv_binary = False\<rparr>"
proof -
  have w: "well_formed [112, 0x202E, 0xD83D, 0xDE00]" "\<not> startsWith [112, 0x202E, 0xD83D, 0xDE00] [0xFEFF :: nat]"
    "well_formed [112, 0xE4, 115, 115]" "\<not> startsWith [112, 0xE4, 115, 115] [0xFEFF :: nat]"
    "list_all (\<lambda>c. \<not> isUnsafe c) [112, 0xE4, 115, 115]"
    "base64_of (text_encode [112, 0xE4, 115, 115]) = units ''cMOkc3M=''"
    "sanitizeSecretValue [112, 0x202E, 0xD83D, 0xDE00] = 112 # units (CHR 0x5C # ''u202e'') @ [0xD83D, 0xDE00]"
    by (simp_all add: reveal_eval)
  show ?thesis
    using revealed_text_roundtrip [OF w(1,2)] revealed_text_roundtrip [OF w(3,4)] w(5-) by simp
qed

text \<open>
  Nothing shown of a secret can change how the text around it reads. Whatever the server
  sends, be it text, binary data or not base64 at all, no character of the displayed value is a
  control character other than tab, newline and carriage return, a BiDi formatting character or a
  zero-width character.
\<close>

theorem revealed_value_safe: "list_all (\<lambda>c. \<not> isUnsafe c) (rv_text (decodeSecretValue base64))"
  by (simp add: decodeSecretValue_def sanitize_units split: option.split)

text \<open>
  A byte order mark at the front is one of the characters to be escaped, but the decoder removes
  it before the escaping sees it.
\<close>

lemma leading_mark_vanishes:
  "decodeSecretValue (base64_of (text_encode (0xFEFF # units ''pw''))) = \<lparr>rv_text = units ''pw'', rv_binary = False\<rparr>"
  "sanitizeSecretValue (0xFEFF # units ''pw'') = units (CHR 0x5C # ''ufeffpw'')"
  by (simp_all add: reveal_eval reveal_decode_eval)

end
