(* ===== verification/Capabilities.thy ===== *)
theory Capabilities
  imports Pending_Apply
begin

text \<open>
  What the operator can do against a cluster (\<open>src/frontend/lib/capabilities.ts\<close> with the types of
  \<open>src/frontend/lib/capability-types.ts\<close>): the client of the capabilities endpoint with its cache, and the
  reading of a row. The module variables are one record; a read is cut at its request. The epoch of
  the cluster selection and the clock are arguments.
\<close>

section \<open>Rows\<close>

datatype reason_code =
    Ok | UnsupportedPlatform | DiscoveryMissing | DiscoveryUnavailable | Unreachable | StaleObservation
  | Forbidden | AuthzUnknown | AuthzNamespaceScoped | ClusterUnknown | CredentialsInvalid | DbUnavailable
  | UnseenCode string

record capability =
  cp_operation :: string
  cp_label :: string
  cp_platformSupported :: bool
  cp_discoveryPresent :: "bool option"
  cp_reachable :: "bool option"
  cp_authorized :: "bool option"
  cp_observedAt :: string
  cp_reasonCode :: reason_code

text \<open>A body that names no cluster has \<open>None\<close> there.\<close>

record capabilities_response =
  cr_clusterId :: "string option"
  cr_capabilities :: "capability list"

definition capabilityFor :: "capabilities_response \<Rightarrow> string \<Rightarrow> capability option" where
  "capabilityFor caps operation = find (\<lambda>c. cp_operation c = operation) (cr_capabilities caps)"

datatype capability_tone = ToneOk | ToneBlocked | ToneUnsupported | ToneUnknown

definition explain :: "capability \<Rightarrow> capability_tone \<times> string" where
  "explain cap =
    (let what = (if cp_label cap \<noteq> [] then cp_label cap else cp_operation cap)
     in case cp_reasonCode cap of
          Ok \<Rightarrow> (ToneOk, what @ '' is available on this cluster.'')
        | UnsupportedPlatform \<Rightarrow>
            (ToneUnsupported, ''k8sCenter does not support '' @ what @ '' on this kind of cluster.'')
        | DiscoveryMissing \<Rightarrow>
            (ToneBlocked, ''This cluster does not serve the API that '' @ what @ '' needs.'')
        | DiscoveryUnavailable \<Rightarrow>
            (ToneUnknown, ''Could not read this cluster'' @ [CHR 0x27] @ ''s API list, so it is not known whether '' @ what @ '' will work.'')
        | Unreachable \<Rightarrow>
            (ToneBlocked, ''This cluster is not responding. '' @ what @ '' will fail until it is reachable again.'')
        | StaleObservation \<Rightarrow>
            (ToneUnknown, ''This cluster has not been checked recently, so it is not known whether it is reachable.'')
        | Forbidden \<Rightarrow>
            (ToneBlocked, ''Your account does not have permission for '' @ what @ '' on this cluster.'')
        | AuthzUnknown \<Rightarrow>
            (ToneUnknown, ''Could not check whether your account has permission for '' @ what @ ''.'')
        | AuthzNamespaceScoped \<Rightarrow>
            (ToneUnknown, ''Your account does not have '' @ what @ '' permission across the whole cluster. It may still work in namespaces where you have access.'')
        | ClusterUnknown \<Rightarrow>
            (ToneBlocked, ''This cluster is no longer registered with k8sCenter.'')
        | CredentialsInvalid \<Rightarrow>
            (ToneBlocked, ''k8sCenter'' @ [CHR 0x27] @ ''s stored credentials for this cluster are not working. An admin needs to update them.'')
        | DbUnavailable \<Rightarrow>
            (ToneUnknown, ''Could not read the cluster registry, so this cluster'' @ [CHR 0x27] @ ''s status is not known.'')
        | UnseenCode code \<Rightarrow>
            (ToneUnknown, ''Could not determine whether '' @ what @ '' is available ('' @ code @ '').''))"

section \<open>The cache\<close>

definition CAPABILITY_TTL_MS :: nat where
  "CAPABILITY_TTL_MS = 30000"

record cache_entry =
  ce_expiresAt :: nat
  ce_value :: capabilities_response

text \<open>
  The module variables, with the reads that wait for their answer: the number a read was given,
  its target and the epoch it was issued under.
\<close>

record cap_client =
  cap_cache :: "(string \<times> cache_entry) list"
  cacheEpoch :: nat
  cap_reads :: "(nat \<times> cluster_target \<times> nat) list"
  cap_next :: nat

definition cacheKey :: "cluster_target \<Rightarrow> string" where
  "cacheKey target = ct_clusterId target @ [CHR 0x00] @ ct_generation target"

definition syncCacheEpoch :: "nat \<Rightarrow> cap_client \<Rightarrow> cap_client" where
  "syncCacheEpoch epoch c = (if epoch \<noteq> cacheEpoch c then c\<lparr>cap_cache := [], cacheEpoch := epoch\<rparr> else c)"

text \<open>A call of \<open>fetchCapabilities\<close> up to its request: the cached answer, or a read that waits.\<close>

definition fetchCapabilities ::
  "nat \<Rightarrow> nat \<Rightarrow> cluster_target \<Rightarrow> cap_client \<Rightarrow> capabilities_response option \<times> cap_client" where
  "fetchCapabilities epoch now target c0 =
    (let c = syncCacheEpoch epoch c0; key = cacheKey target;
         miss = (None, c\<lparr>cap_cache := filter (\<lambda>p. fst p \<noteq> key) (cap_cache c),
                        cap_reads := cap_reads c @ [(cap_next c, target, epoch)], cap_next := cap_next c + 1\<rparr>)
     in case map_of (cap_cache c) key of
          Some hit \<Rightarrow> if ce_expiresAt hit > now then (Some (ce_value hit), c) else miss
        | None \<Rightarrow> miss)"

definition mismatch_message :: "string option \<Rightarrow> string \<Rightarrow> string" where
  "mismatch_message got asked =
    ''capabilities response describes cluster '' @ [CHR 0x22] @ (case got of None \<Rightarrow> ''undefined'' | Some g \<Rightarrow> g) @
    [CHR 0x22] @ '', not '' @ [CHR 0x22] @ asked @ [CHR 0x22]"

text \<open>The rest of a call once its request has been answered: the error thrown, or the value.\<close>

definition capabilities_answered ::
  "nat \<Rightarrow> nat \<Rightarrow> cluster_target \<Rightarrow> nat \<Rightarrow> capabilities_response option \<Rightarrow> cap_client \<Rightarrow>
   (string + capabilities_response) \<times> cap_client" where
  "capabilities_answered epoch now target issuedEpoch data c =
    (case data of
       Some value \<Rightarrow>
         if cr_clusterId value \<noteq> Some (ct_clusterId target) then (Inl (mismatch_message (cr_clusterId value) (ct_clusterId target)), c)
         else
           (let c1 = syncCacheEpoch epoch c
            in (Inr value,
                if epoch = issuedEpoch
                then c1\<lparr>cap_cache := set_key (cacheKey target) \<lparr>ce_expiresAt = now + CAPABILITY_TTL_MS, ce_value = value\<rparr> (cap_cache c1)\<rparr>
                else c1))
     | None \<Rightarrow> (Inl (mismatch_message None (ct_clusterId target)), c))"

definition fresh_cap_client :: "nat \<Rightarrow> cap_client" where
  "fresh_cap_client epoch = \<lparr>cap_cache = [], cacheEpoch = epoch, cap_reads = [], cap_next = 0\<rparr>"

section \<open>Runs\<close>

text \<open>
  The client beside the cluster selection and a clock. \<open>cw_log\<close> records each value a read
  returned: its target, the epoch it was issued under and the time of the answer.
\<close>

record cap_world =
  cw_client :: cap_client
  cw_selected :: cluster_target
  cw_now :: nat
  cw_log :: "(cluster_target \<times> nat \<times> nat \<times> capabilities_response) list"

datatype cap_event =
    CapSwitch string string
  | CapTick nat
  | CapFetch cluster_target
  | CapAnswer nat "capabilities_response option"
  | CapFail nat

definition drop_read :: "nat \<Rightarrow> cap_client \<Rightarrow> cap_client" where
  "drop_read n c = c\<lparr>cap_reads := filter (\<lambda>r. fst r \<noteq> n) (cap_reads c)\<rparr>"

definition cap_step :: "cap_event \<Rightarrow> cap_world \<Rightarrow> cap_world option" where
  "cap_step ev w =
    (let c = cw_client w; epoch = ct_epoch (cw_selected w); now = cw_now w
     in case ev of
          CapSwitch i g \<Rightarrow> Some (w\<lparr>cw_selected := switchCluster i g (cw_selected w)\<rparr>)
        | CapTick d \<Rightarrow> Some (w\<lparr>cw_now := now + d\<rparr>)
        | CapFetch target \<Rightarrow> Some (w\<lparr>cw_client := snd (fetchCapabilities epoch now target c)\<rparr>)
        | CapAnswer n data \<Rightarrow>
            (case map_of (cap_reads c) n of
               None \<Rightarrow> None
             | Some (target, issued) \<Rightarrow>
                 (case capabilities_answered epoch now target issued data (drop_read n c) of
                    (Inl _, c1) \<Rightarrow> Some (w\<lparr>cw_client := c1\<rparr>)
                  | (Inr v, c1) \<Rightarrow> Some (w\<lparr>cw_client := c1, cw_log := cw_log w @ [(target, issued, now, v)]\<rparr>)))
        | CapFail n \<Rightarrow>
            (case map_of (cap_reads c) n of None \<Rightarrow> None | Some _ \<Rightarrow> Some (w\<lparr>cw_client := drop_read n c\<rparr>)))"

fun cap_run :: "cap_event list \<Rightarrow> cap_world \<Rightarrow> cap_world option" where
  "cap_run [] w = Some w"
| "cap_run (ev # evs) w = (case cap_step ev w of None \<Rightarrow> None | Some w1 \<Rightarrow> cap_run evs w1)"

definition fresh_world :: "cluster_target \<Rightarrow> nat \<Rightarrow> cap_world" where
  "fresh_world t now = \<lparr>cw_client = fresh_cap_client (ct_epoch t), cw_selected = t, cw_now = now, cw_log = []\<rparr>"

text \<open>Cluster ids hold no NUL, so the two halves of a key can be told apart.\<close>

definition plain_target :: "cluster_target \<Rightarrow> bool" where
  "plain_target t \<longleftrightarrow> CHR 0x00 \<notin> set (ct_clusterId t)"

definition plain_event :: "cap_event \<Rightarrow> bool" where
  "plain_event ev = (case ev of CapFetch t \<Rightarrow> plain_target t | _ \<Rightarrow> True)"

lemma cacheKey_inj:
  assumes "plain_target s" "plain_target t" "cacheKey s = cacheKey t"
  shows "ct_clusterId s = ct_clusterId t \<and> ct_generation s = ct_generation t"
proof -
  have "takeWhile (\<lambda>c. c \<noteq> CHR 0x00) (cacheKey u) = ct_clusterId u" if "plain_target u" for u
    using that by (simp add: cacheKey_def plain_target_def takeWhile_append)
  then have "ct_clusterId s = ct_clusterId t" using assms by metis
  with assms(3) show ?thesis by (simp add: cacheKey_def)
qed

definition entry_logged ::
  "(cluster_target \<times> nat \<times> nat \<times> capabilities_response) list \<Rightarrow> nat \<Rightarrow> string \<times> cache_entry \<Rightarrow> bool" where
  "entry_logged book epoch p \<longleftrightarrow>
    (\<exists>(t, e, got, v) \<in> set book.
      fst p = cacheKey t \<and> e = epoch \<and> plain_target t \<and> cr_clusterId v = Some (ct_clusterId t) \<and>
      snd p = \<lparr>ce_expiresAt = got + CAPABILITY_TTL_MS, ce_value = v\<rparr>)"

definition cap_ok :: "cap_world \<Rightarrow> bool" where
  "cap_ok w \<longleftrightarrow>
    (\<forall>p \<in> set (cap_cache (cw_client w)). entry_logged (cw_log w) (cacheEpoch (cw_client w)) p) \<and>
    (\<forall>(n, t, e) \<in> set (cap_reads (cw_client w)). plain_target t)"

lemma entry_logged_mono: "entry_logged book e p \<Longrightarrow> entry_logged (book @ later) e p"
  unfolding entry_logged_def by auto

lemma sync_keeps:
  assumes "\<forall>p \<in> set (cap_cache c). entry_logged book (cacheEpoch c) p"
  shows "\<forall>p \<in> set (cap_cache (syncCacheEpoch e c)). entry_logged book e p"
    "cacheEpoch (syncCacheEpoch e c) = e" "cap_reads (syncCacheEpoch e c) = cap_reads c"
  using assms by (auto simp: syncCacheEpoch_def)

lemma fetch_ok:
  assumes "cap_ok w" "plain_target t"
  shows "cap_ok (w\<lparr>cw_client := snd (fetchCapabilities epoch now t (cw_client w))\<rparr>)"
  using assms sync_keeps [of "cw_client w" "cw_log w" epoch]
  by (auto simp: cap_ok_def fetchCapabilities_def Let_def split: option.split)

lemma answer_ok:
  assumes "cap_ok w" "plain_target t"
    "capabilities_answered epoch now t issued data (drop_read n (cw_client w)) = (r, c)"
  shows "cap_ok (w\<lparr>cw_client := c, cw_log := cw_log w @ (case r of Inl _ \<Rightarrow> [] | Inr v \<Rightarrow> [(t, issued, now, v)])\<rparr>)"
proof -
  let ?d = "drop_read n (cw_client w)"
  have d: "\<forall>p \<in> set (cap_cache ?d). entry_logged (cw_log w) (cacheEpoch ?d) p" "\<forall>(m, u, e) \<in> set (cap_reads ?d). plain_target u"
    using assms(1) by (auto simp: cap_ok_def drop_read_def)
  note s = sync_keeps [OF d(1), of epoch]
  have "entry_logged (cw_log w @ [(t, issued, now, v)]) epoch p"
    if "cr_clusterId v = Some (ct_clusterId t)" "issued = epoch"
      "p \<in> set (set_key (cacheKey t) \<lparr>ce_expiresAt = now + CAPABILITY_TTL_MS, ce_value = v\<rparr> (cap_cache (syncCacheEpoch epoch ?d)))"
    for p v
    using subsetD [OF set_key_subset that(3)] that(1,2) s(1) assms(2) entry_logged_mono
    by (fastforce simp: entry_logged_def)
  with assms(3) d s show ?thesis
    by (auto simp: cap_ok_def capabilities_answered_def Let_def intro: entry_logged_mono split: option.splits if_splits)
qed

lemma cap_step_ok:
  assumes "cap_step ev w = Some w'" "cap_ok w" "plain_event ev"
  shows "cap_ok w'"
proof (cases ev)
  case (CapAnswer n data)
  then obtain t e where m: "map_of (cap_reads (cw_client w)) n = Some (t, e)"
    using assms(1) by (auto simp: cap_step_def Let_def split: option.splits)
  then have p: "plain_target t" using assms(2) by (auto simp: cap_ok_def dest!: map_of_SomeD)
  obtain r c where r: "capabilities_answered (ct_epoch (cw_selected w)) (cw_now w) t e data (drop_read n (cw_client w)) = (r, c)"
    by fastforce
  from answer_ok [OF assms(2) p r] assms(1) m r CapAnswer show ?thesis
    by (cases r) (simp_all add: cap_step_def Let_def)
next
  case (CapFetch t)
  with assms fetch_ok [of w t] show ?thesis by (auto simp: cap_step_def plain_event_def Let_def)
qed (use assms in \<open>auto simp: cap_step_def Let_def cap_ok_def drop_read_def split: option.splits\<close>)

lemma cap_run_ok: "cap_run evs w = Some w' \<Longrightarrow> cap_ok w \<Longrightarrow> list_all plain_event evs \<Longrightarrow> cap_ok w'"
  by (induction evs arbitrary: w) (auto intro: cap_step_ok split: option.splits)

section \<open>Properties\<close>

text \<open>
  Claim C31. A cached answer describes the cluster as it was asked about, now. Whatever reads,
  answers, failures and cluster switches came before, an answer given without a request was
  returned less than thirty seconds ago by a read of the same cluster under the same registration,
  issued since the last switch, and it names that cluster.
\<close>

theorem cached_answer_current:
  assumes "cap_run evs (fresh_world s start) = Some w" "list_all plain_event evs" "plain_target t"
    "fetchCapabilities (ct_epoch (cw_selected w)) (cw_now w) t (cw_client w) = (Some v, c)"
  shows "cr_clusterId v = Some (ct_clusterId t) \<and>
    (\<exists>(u, e, got, v') \<in> set (cw_log w).
      ct_clusterId u = ct_clusterId t \<and> ct_generation u = ct_generation t \<and>
      e = ct_epoch (cw_selected w) \<and> v' = v \<and> cw_now w < got + CAPABILITY_TTL_MS)"
proof -
  have "cap_ok (fresh_world s start)" by (simp add: cap_ok_def fresh_world_def fresh_cap_client_def)
  then have ok: "cap_ok w" by (rule cap_run_ok [OF assms(1) _ assms(2)])
  let ?e = "ct_epoch (cw_selected w)"
  note k = sync_keeps [of "cw_client w" "cw_log w" ?e]
  obtain hit where h: "map_of (cap_cache (syncCacheEpoch ?e (cw_client w))) (cacheKey t) = Some hit"
    "ce_value hit = v" "cw_now w < ce_expiresAt hit"
    using assms(4) by (auto simp: fetchCapabilities_def Let_def split: option.splits if_splits)
  have "entry_logged (cw_log w) ?e (cacheKey t, hit)"
    using k(1) ok map_of_SomeD [OF h(1)] by (auto simp: cap_ok_def)
  then obtain u got where u: "(u, ?e, got, v) \<in> set (cw_log w)" "cacheKey u = cacheKey t" "plain_target u"
    "cr_clusterId v = Some (ct_clusterId u)" "cw_now w < got + CAPABILITY_TTL_MS"
    using h(2,3) by (auto simp: entry_logged_def)
  with cacheKey_inj [OF u(3) assms(3) u(2)] show ?thesis by fastforce
qed

theorem cached_answer_current_witness:
  "let s = \<lparr>ct_clusterId = ''prod'', ct_generation = ''g1'', ct_epoch = 3\<rparr>;
       r = \<lparr>cr_clusterId = Some ''prod'', cr_capabilities = []\<rparr>
   in case cap_run [CapFetch s, CapTick 40, CapAnswer 0 (Some r), CapTick 29999] (fresh_world s 1000) of
        None \<Rightarrow> False
      | Some w \<Rightarrow>
          fst (fetchCapabilities 3 (cw_now w) s (cw_client w)) = Some r \<and>
          (\<exists>(u, e, got, v) \<in> set (cw_log w). ct_clusterId u = ''prod'' \<and> e = 3 \<and> v = r \<and> cw_now w < got + CAPABILITY_TTL_MS)"
proof -
  define s where "s = \<lparr>ct_clusterId = ''prod'', ct_generation = ''g1'', ct_epoch = 3\<rparr>"
  define r where "r = \<lparr>cr_clusterId = Some ''prod'', cr_capabilities = []\<rparr>"
  define evs where "evs = [CapFetch s, CapTick 40, CapAnswer 0 (Some r), CapTick 29999]"
  note eval = s_def r_def evs_def cap_step_def fetchCapabilities_def capabilities_answered_def drop_read_def
    syncCacheEpoch_def fresh_world_def fresh_cap_client_def cacheKey_def CAPABILITY_TTL_MS_def Let_def
  obtain w where w: "cap_run evs (fresh_world s 1000) = Some w" "ct_epoch (cw_selected w) = 3"
    "fst (fetchCapabilities 3 (cw_now w) s (cw_client w)) = Some r"
    by (simp add: eval)
  then obtain c where c: "fetchCapabilities (ct_epoch (cw_selected w)) (cw_now w) s (cw_client w) = (Some r, c)"
    by (cases "fetchCapabilities 3 (cw_now w) s (cw_client w)") simp
  have p: "list_all plain_event evs" "plain_target s" by (simp_all add: evs_def s_def plain_event_def plain_target_def)
  from cached_answer_current [OF w(1) p c] w show ?thesis
    unfolding s_def r_def evs_def Let_def by auto
qed

text \<open>
  How a row reads: only a row without a reason is called available, and only an operation the
  product lacks for this kind of cluster is called unsupported.
\<close>

lemma explain_tone:
  "fst (explain cap) = ToneOk \<longleftrightarrow> cp_reasonCode cap = Ok"
  "fst (explain cap) = ToneUnsupported \<longleftrightarrow> cp_reasonCode cap = UnsupportedPlatform"
  by (simp_all add: explain_def Let_def split: reason_code.split)

end
