(* ===== verification/Stream_State.thy ===== *)
theory Stream_State
  imports Js_Units Pending_Apply
begin

text \<open>
  What live streams share (\<open>src/frontend/lib/stream-state.ts\<close>): the first frame, the copy for an
  end, and the timestamps that tell a resumed tail what is already shown. A timestamp text is a
  list of UTF-16 code units, as log lines are.
\<close>

section \<open>Frames\<close>

record auth_frame =
  af_token :: string
  af_clusterId :: string
  af_generation :: "string option"

definition streamAuthFrame :: "string \<Rightarrow> cluster_target \<Rightarrow> auth_frame" where
  "streamAuthFrame token target =
    \<lparr>af_token = token, af_clusterId = ct_clusterId target,
     af_generation = (if ct_generation target = UNKNOWN_GENERATION then None else Some (ct_generation target))\<rparr>"

text \<open>An absent reason and an empty one are alike to the code, so \<open>[]\<close> stands for both.\<close>

record StreamErrorFrame =
  fr_reason :: string
  fr_message :: "string option"
  fr_retryable :: bool

definition RECONNECT_DELAYS_MS :: "nat list" where
  "RECONNECT_DELAYS_MS = [2000, 5000, 10000]"

definition RELOAD_REASONS :: "string list" where
  "RELOAD_REASONS =
    [''cluster_required'', ''cluster_invalid'', ''cluster_pin_mismatch'', ''cluster_generation_mismatch'']"

text \<open>The copy of each reason, from the subject as given and in lower case.\<close>

definition reason_copy :: "string \<Rightarrow> string \<Rightarrow> (string \<times> string) list" where
  "reason_copy what subject =
    [(''unsupported_platform'', what @ '' is not available for this cluster yet.''),
     (''forbidden'', ''You do not have permission for '' @ subject @ '' on this cluster.''),
     (''token_expired'', what @ '' stopped when your session expired and could not reconnect.''),
     (''server_restarting'', what @ '' stopped while k8sCenter restarted and could not reconnect.''),
     (''cluster_removed'', ''The cluster was removed from k8sCenter, so '' @ subject @ '' ended.''),
     (''access_revoked'', ''Your access was revoked, so '' @ subject @ '' ended.''),
     (''signed_out'', ''You signed out, so '' @ subject @ '' ended.''),
     (''idle_timeout'', what @ '' was idle too long and ended.''),
     (''connect_failed'', what @ '' could not reconnect.''),
     (''unreachable'', ''The selected cluster could not be reached.''),
     (''cluster_unknown'', ''The selected cluster is no longer registered.''),
     (''credentials_invalid'',
      ''k8sCenter could not connect to the selected cluster with its stored credentials.''),
     (''db_unavailable'', ''The cluster registry is unavailable. Try again shortly.''),
     (''loki_not_found'', ''No Loki was found on the selected cluster, so '' @ subject @ '' is unavailable.''),
     (''loki_unreachable'', ''Loki on the selected cluster could not be reached.'')]"

definition streamErrorMessage :: "StreamErrorFrame \<Rightarrow> string \<Rightarrow> string" where
  "streamErrorMessage frame what =
    (if fr_reason frame = [] then (case fr_message frame of Some m \<Rightarrow> m | None \<Rightarrow> what @ '' stopped.'')
     else if fr_reason frame \<in> set RELOAD_REASONS
     then ''The selected cluster changed or could not be confirmed. Reload the page to continue.''
     else (case map_of (reason_copy what (toLowerCase what)) (fr_reason frame) of
             Some m \<Rightarrow> m
           | None \<Rightarrow> what @ '' stopped unexpectedly.''))"

section \<open>Timestamps\<close>

definition lokiLaterThan :: "ustr \<Rightarrow> ustr \<Rightarrow> bool" where
  "lokiLaterThan a b = (if length a = length b then ustr_less b a else length a > length b)"

type_synonym stamp = "ustr \<times> nat"

definition is_digit_unit :: "nat \<Rightarrow> bool" where
  "is_digit_unit c \<longleftrightarrow> 48 \<le> c \<and> c \<le> 57"

text \<open>The pattern for the date and time: \<open>0\<close> stands for a digit.\<close>

fun matches_shape :: "ustr \<Rightarrow> ustr \<Rightarrow> bool" where
  "matches_shape [] _ = True"
| "matches_shape (p # ps) [] = False"
| "matches_shape (p # ps) (c # s) = ((if p = 48 then is_digit_unit c else c = p) \<and> matches_shape ps s)"

definition STAMP_SHAPE :: ustr where
  "STAMP_SHAPE = units ''0000-00-00T00:00:00''"

definition number_of_digits :: "ustr \<Rightarrow> nat" where
  "number_of_digits ds = foldl (\<lambda>n d. n * 10 + (d - 48)) 0 ds"

definition padEnd :: "nat \<Rightarrow> nat \<Rightarrow> ustr \<Rightarrow> ustr" where
  "padEnd n c s = s @ replicate (n - length s) c"

text \<open>
  \<open>logLineTimestamp\<close>: after the date and time, an optional dot with one to nine digits, then
  \<open>Z\<close> and a white-space character. A longer run of digits fits neither way.
\<close>

definition logLineTimestamp :: "ustr \<Rightarrow> stamp option" where
  "logLineTimestamp line =
    (let n = length STAMP_SHAPE; rest = drop n line;
         fraction = (case rest of c # r \<Rightarrow> if c = 46 then takeWhile is_digit_unit r else [] | [] \<Rightarrow> []);
         tail = (if fraction = [] then rest else drop (length fraction + 1) rest)
     in if \<not> matches_shape STAMP_SHAPE line \<or> length fraction > 9 then None
        else (case tail of
                z # w # _ \<Rightarrow>
                  if z = 90 \<and> js_space w then Some (take n line, number_of_digits (padEnd 9 48 fraction)) else None
              | _ \<Rightarrow> None))"

definition laterThan :: "stamp \<Rightarrow> stamp \<Rightarrow> bool" where
  "laterThan a b = (if fst a = fst b then snd a > snd b else ustr_less (fst b) (fst a))"

definition isReplayedLine :: "ustr \<Rightarrow> stamp option \<Rightarrow> bool" where
  "isReplayedLine line after =
    (case after of
       None \<Rightarrow> False
     | Some a \<Rightarrow> (case logLineTimestamp line of None \<Rightarrow> False | Some ts \<Rightarrow> \<not> laterThan ts a))"

section \<open>The order of timestamps\<close>

lemma laterThan_irrefl [simp]: "\<not> laterThan a a"
  by (simp add: laterThan_def)

lemma laterThan_trans: "laterThan a b \<Longrightarrow> laterThan b c \<Longrightarrow> laterThan a c"
  by (auto simp: laterThan_def split: if_splits dest: ustr_less_trans [of "fst c" "fst b" "fst a"])

lemma laterThan_total: "a = b \<or> laterThan a b \<or> laterThan b a"
  using ustr_less_total [of "fst a" "fst b"] by (cases a; cases b) (auto simp: laterThan_def)

lemma laterThan_asym: "laterThan a b \<Longrightarrow> \<not> laterThan b a"
  using laterThan_trans [of a b a] by auto

lemma not_later_trans: "\<not> laterThan a b \<Longrightarrow> laterThan c b \<Longrightarrow> laterThan c a"
  using laterThan_total [of a b] laterThan_trans [of c b a] by auto

lemma later_not_trans: "laterThan b a \<Longrightarrow> \<not> laterThan b c \<Longrightarrow> laterThan c a"
  using laterThan_total [of b c] laterThan_trans [of c b a] by auto

text \<open>Decimal texts of numbers are ordered as the numbers are.\<close>

definition decimal :: "nat \<Rightarrow> ustr" where
  "decimal n = units (show_nat n)"

lemma decimal_simps: "decimal n = (if n < 10 then [48 + n] else decimal (n div 10) @ [48 + n mod 10])"
proof -
  have "(of_char (char_of (48 + d) :: char) :: nat) = 48 + d" if "d < 10" for d :: nat using that by simp
  then show ?thesis by (simp add: decimal_def units_def show_nat.simps [of n])
qed

lemma decimal_length_mono: "m \<le> n \<Longrightarrow> length (decimal m) \<le> length (decimal n)"
proof (induction n arbitrary: m rule: less_induct)
  case (less n)
  show ?case
  proof (cases "m < 10")
    case False
    then have "m div 10 \<le> n div 10" "n div 10 < n" using less.prems by (simp_all add: div_le_mono)
    from less.IH [OF this(2,1)] False less.prems show ?thesis by (simp add: decimal_simps [of m] decimal_simps [of n])
  qed (simp add: decimal_simps [of m] decimal_simps [of n])
qed

lemma split_less:
  fixes m n :: nat
  shows "(m < n \<longleftrightarrow> m div 10 < n div 10 \<or> m div 10 = n div 10 \<and> m mod 10 < n mod 10) \<and>
    (m = n \<longleftrightarrow> m div 10 = n div 10 \<and> m mod 10 = n mod 10)"
proof -
  have "m = 10 * (m div 10) + m mod 10" "n = 10 * (n div 10) + n mod 10" "m mod 10 < 10" "n mod 10 < 10" by simp_all
  moreover have "(m < n \<longleftrightarrow> a < c \<or> a = c \<and> b < d) \<and> (m = n \<longleftrightarrow> a = c \<and> b = d)"
    if "m = 10 * a + b" "n = 10 * c + d" "b < 10" "d < 10" for a b c d
    using that by (cases a c rule: linorder_cases) linarith+
  ultimately show ?thesis by blast
qed

lemma decimal_less:
  "length (decimal m) = length (decimal n) \<Longrightarrow>
   (ustr_less (decimal m) (decimal n) \<longleftrightarrow> m < n) \<and> (decimal m = decimal n \<longleftrightarrow> m = n)"
proof (induction n arbitrary: m rule: less_induct)
  case (less n)
  have ne: "length (decimal k) \<noteq> 0" for k by (simp add: decimal_simps [of k])
  consider "m < 10" "n < 10" | "\<not> m < 10" "\<not> n < 10"
    using less.prems ne [of "m div 10"] ne [of "n div 10"] decimal_simps [of m] decimal_simps [of n] by fastforce
  then show ?case
  proof cases
    case 2
    let ?l = "length (decimal (m div 10)) = length (decimal (n div 10))"
    have l: ?l using 2 less.prems by (simp add: decimal_simps [of m] decimal_simps [of n])
    have "n div 10 < n" using 2 by simp
    note ih = less.IH [OF this l]
    with 2 ih l split_less [of m n] show ?thesis
      by (simp add: decimal_simps [of m] decimal_simps [of n] ustr_less_append)
  qed (simp add: decimal_simps [of m] decimal_simps [of n])
qed

subsection \<open>Timestamps as they are written\<close>

text \<open>
  An instant by its fields, and its RFC 3339 text in UTC as the log endpoint writes it, the
  fraction without its trailing zeros.
\<close>

record instant =
  it_year :: nat
  it_month :: nat
  it_day :: nat
  it_hour :: nat
  it_minute :: nat
  it_second :: nat
  it_nanos :: nat

fun digits :: "nat \<Rightarrow> nat \<Rightarrow> ustr" where
  "digits 0 n = []"
| "digits (Suc k) n = digits k (n div 10) @ [48 + n mod 10]"

definition date_text :: "instant \<Rightarrow> ustr" where
  "date_text i =
    digits 4 (it_year i) @ 45 # digits 2 (it_month i) @ 45 # digits 2 (it_day i) @ 84 #
    digits 2 (it_hour i) @ 58 # digits 2 (it_minute i) @ 58 # digits 2 (it_second i)"

definition trim_zeros :: "ustr \<Rightarrow> ustr" where
  "trim_zeros ds = rev (dropWhile (\<lambda>d. d = 48) (rev ds))"

definition rfc3339 :: "instant \<Rightarrow> ustr" where
  "rfc3339 i =
    (let f = trim_zeros (digits 9 (it_nanos i)) in date_text i @ (if f = [] then [] else 46 # f) @ [90])"

definition instant_fields :: "instant \<Rightarrow> nat list" where
  "instant_fields i = [it_year i, it_month i, it_day i, it_hour i, it_minute i, it_second i, it_nanos i]"

definition instant_ok :: "instant \<Rightarrow> bool" where
  "instant_ok i \<longleftrightarrow>
    it_year i < 10 ^ 4 \<and> it_month i < 10 ^ 2 \<and> it_day i < 10 ^ 2 \<and> it_hour i < 10 ^ 2 \<and>
    it_minute i < 10 ^ 2 \<and> it_second i < 10 ^ 2 \<and> it_nanos i < 10 ^ 9"

lemma digits_length [simp]: "length (digits k n) = k"
  by (induction k arbitrary: n) auto

lemma digits_are_digits: "list_all is_digit_unit (digits k n)"
  by (induction k arbitrary: n) (auto simp: is_digit_unit_def less_Suc_eq_le [symmetric])

lemma digits_number: "n < 10 ^ k \<Longrightarrow> number_of_digits (digits k n) = n"
  by (induction k arbitrary: n) (auto simp: number_of_digits_def less_mult_imp_div_less mult.commute)

lemma digits_order:
  "m < 10 ^ k \<Longrightarrow> n < 10 ^ k \<Longrightarrow>
   (ustr_less (digits k m) (digits k n) \<longleftrightarrow> m < n) \<and> (digits k m = digits k n \<longleftrightarrow> m = n)"
proof (induction k arbitrary: m n)
  case (Suc k)
  have "m div 10 < 10 ^ k" "n div 10 < 10 ^ k"
    using Suc.prems by (simp_all add: less_mult_imp_div_less mult.commute)
  from Suc.IH [OF this] split_less [of m n] show ?case by (simp add: ustr_less_append)
qed simp

lemmas digits_less = digits_order [THEN conjunct1] and digits_eq = digits_order [THEN conjunct2]

lemma date_order:
  assumes "instant_ok a" "instant_ok b"
  shows "ustr_less (date_text a) (date_text b) \<longleftrightarrow> ustr_less (butlast (instant_fields a)) (butlast (instant_fields b))"
    "date_text a = date_text b \<longleftrightarrow> butlast (instant_fields a) = butlast (instant_fields b)"
  using assms
  by (simp_all add: instant_ok_def date_text_def instant_fields_def ustr_less_append digits_less digits_eq)

lemma trim_zeros_pad: "padEnd (length ds) 48 (trim_zeros ds) = ds"
proof -
  let ?z = "takeWhile (\<lambda>d. d = 48) (rev ds)"
  have "rev ds = ?z @ dropWhile (\<lambda>d. d = 48) (rev ds)" by simp
  then have e: "ds = trim_zeros ds @ rev ?z" unfolding trim_zeros_def by (metis rev_append rev_rev_ident)
  have "rev ?z = replicate (length ?z) 48"
    by (rule replicate_eqI) (auto dest: set_takeWhileD)
  moreover have "length ?z = length ds - length (trim_zeros ds)"
    using arg_cong [OF e, of length] by simp
  ultimately have "rev ?z = replicate (length ds - length (trim_zeros ds)) 48" by simp
  with e show ?thesis unfolding padEnd_def by simp
qed

lemma trim_zeros_digits: "list_all is_digit_unit ds \<Longrightarrow> list_all is_digit_unit (trim_zeros ds)"
  unfolding trim_zeros_def list_all_iff by (auto dest: set_dropWhileD)

lemma shape_app: "matches_shape (p @ q) (s @ t) \<longleftrightarrow> matches_shape p s \<and> matches_shape q t" if "length p = length s"
  using that by (induction p s rule: list_induct2) auto

lemma shape_digits: "list_all is_digit_unit ds \<Longrightarrow> matches_shape (replicate (length ds) 48) ds"
  by (induction ds) auto

lemma date_shape: "matches_shape STAMP_SHAPE (date_text i @ r)" "length (date_text i) = length STAMP_SHAPE"
proof -
  have d: "matches_shape (replicate k 48) (digits k n)" for k n
    using shape_digits [OF digits_are_digits [of k n]] by simp
  have s: "STAMP_SHAPE = replicate 4 48 @ [45] @ replicate 2 48 @ [45] @ replicate 2 48 @ [84] @
    replicate 2 48 @ [58] @ replicate 2 48 @ [58] @ replicate 2 48 @ []"
    by (simp add: STAMP_SHAPE_def units_def numeral_eq_Suc)
  show "matches_shape STAMP_SHAPE (date_text i @ r)"
    unfolding s date_text_def using d by (simp add: shape_app del: append_Nil2)
  show "length (date_text i) = length STAMP_SHAPE"
    by (simp add: date_text_def STAMP_SHAPE_def units_def)
qed

lemma timestamp_of_line:
  assumes "instant_ok i" "js_space w"
  shows "logLineTimestamp (rfc3339 i @ w # rest) = Some (date_text i, it_nanos i)"
proof -
  define f where "f = trim_zeros (digits 9 (it_nanos i))"
  have p: "padEnd 9 48 f = digits 9 (it_nanos i)"
    using trim_zeros_pad [of "digits 9 (it_nanos i)"] by (simp add: f_def)
  have l: "length f \<le> 9" using arg_cong [OF p, of length] by (simp add: padEnd_def del: replicate.simps)
  have d: "list_all is_digit_unit f" unfolding f_def by (rule trim_zeros_digits [OF digits_are_digits])
  have t: "takeWhile is_digit_unit (f @ 90 # w # rest) = f"
    using d by (simp add: takeWhile_append list_all_iff is_digit_unit_def)
  have "number_of_digits (padEnd 9 48 f) = it_nanos i"
    using digits_number [of "it_nanos i" 9] assms(1) by (simp add: p instant_ok_def)
  with l t assms(2) date_shape [of i] show ?thesis
    by (cases "f = []") (simp_all add: logLineTimestamp_def rfc3339_def Let_def f_def [symmetric])
qed

lemma stamp_order:
  assumes "instant_ok a" "instant_ok b"
  shows "laterThan (date_text a, it_nanos a) (date_text b, it_nanos b) \<longleftrightarrow>
    ustr_less (instant_fields b) (instant_fields a)"
proof -
  have f: "instant_fields i = butlast (instant_fields i) @ [it_nanos i]" "length (instant_fields i) = 7" for i
    by (simp_all add: instant_fields_def)
  have c: "ustr_less (instant_fields b) (instant_fields a) \<longleftrightarrow>
    ustr_less (butlast (instant_fields b)) (butlast (instant_fields a)) \<or>
    butlast (instant_fields b) = butlast (instant_fields a) \<and> it_nanos b < it_nanos a"
    using ustr_less_append [of "butlast (instant_fields b)" "butlast (instant_fields a)" "[it_nanos b]" "[it_nanos a]"]
    by (simp add: f(2) f(1) [symmetric])
  show ?thesis
    unfolding laterThan_def fst_conv snd_conv c date_order(1) [OF assms(2,1)] date_order(2) [OF assms]
    by (cases "butlast (instant_fields a) = butlast (instant_fields b)") simp_all
qed

section \<open>Properties\<close>

text \<open>
  A resumed tail skips exactly the lines at or before the last one shown. For a line
  with the timestamp the log endpoint writes, whatever follows it, the line counts as a replay after
  instant \<open>b\<close> just when its own instant is not later, field by field, although one text may carry a
  fraction and the other none.
\<close>

theorem replay_is_chronological:
  assumes "instant_ok a" "instant_ok b"
  shows "isReplayedLine (rfc3339 a @ 32 # rest) (logLineTimestamp (rfc3339 b @ 32 # shown)) \<longleftrightarrow>
    \<not> ustr_less (instant_fields b) (instant_fields a)"
proof -
  have "js_space 32" by (simp add: js_space_def)
  with assms show ?thesis by (simp add: isReplayedLine_def timestamp_of_line stamp_order)
qed

text \<open>
  Nanosecond counts exceed the exact integers of the language; compared as texts they are
  ordered as the numbers are.
\<close>

theorem loki_order: "lokiLaterThan (decimal m) (decimal n) \<longleftrightarrow> n < m"
proof (cases "n < m")
  case True
  then show ?thesis using decimal_less [of n m] decimal_length_mono [of n m] by (auto simp: lokiLaterThan_def)
next
  case False
  then show ?thesis using decimal_less [of n m] decimal_length_mono [of m n] by (auto simp: lokiLaterThan_def)
qed

lemma digits_numeral: "digits (numeral k) n = digits (pred_numeral k) (n div 10) @ [48 + n mod 10]"
  unfolding numeral_eq_Suc [of k] by simp

end
