(* ===== verification/Log_Viewer.thy ===== *)
theory Log_Viewer
  imports Stream_State
begin

text \<open>
  The pod log viewer (\<open>src/frontend/src/islands/LogViewer.tsx\<close>): its signals and refs are one
  record, a \<open>Map\<close> ref is a map from tab to value. A socket is a number; its closure's variables are
  a record. The steps are what runs without interruption: a socket's handlers, the timer of a
  backoff, the rest of a resume after a session refresh, the flush of a frame, the controls, and
  the effect of a render. Scrolling, colours, search highlighting and the download are left out.
\<close>

section \<open>State\<close>

datatype log_entry = LogText ustr | ReconnectedMarker

text \<open>A field that was never set is \<open>undefined\<close>: \<open>None\<close>, or the falsy value where only that is read.\<close>

record tab_state =
  ts_lines :: "log_entry list option"
  ts_droppedCount :: "nat option"
  ts_connected :: bool
  ts_reconnecting :: bool
  ts_error :: string

definition EMPTY_TAB :: tab_state where
  "EMPTY_TAB = \<lparr>ts_lines = Some [], ts_droppedCount = Some 0, ts_connected = False, ts_reconnecting = False, ts_error = []\<rparr>"

definition no_fields :: tab_state where
  "no_fields = \<lparr>ts_lines = None, ts_droppedCount = None, ts_connected = False, ts_reconnecting = False, ts_error = []\<rparr>"

datatype log_mode = FollowMode | SnapshotMode

record log_socket =
  so_tab :: nat
  so_resume :: bool
  so_subscribed :: bool
  so_ended :: bool
  so_open :: bool

record retry_timer =
  rt_epoch :: "nat option"
  rt_reason :: string

record tail_request =
  tq_container :: string
  tq_tailLines :: nat
  tq_previous :: bool

text \<open>
  The array of tab states: \<open>tabLength\<close> is its length. A missing entry below \<open>tabFilled\<close> is an explicit
  \<open>undefined\<close>, one from there on a hole: writing past the end leaves holes, and copying the array by
  spread, as every update does first, turns them into \<open>undefined\<close>.
\<close>

record log_viewer =
  lv_containers :: nat
  allContainers :: "string list"
  activeTab :: nat
  lv_mode :: log_mode
  lv_previous :: bool
  splitView :: bool
  splitTab :: nat
  tabStates :: "nat \<rightharpoonup> tab_state"
  tabFilled :: nat
  tabLength :: nat
  lv_loading :: bool
  wsRefs :: "nat \<rightharpoonup> nat"
  pinRef :: cluster_target
  triesRef :: "nat \<rightharpoonup> nat"
  retryTimers :: "nat \<rightharpoonup> retry_timer"
  resumeEpoch :: "nat \<rightharpoonup> nat"
  lastTimestamp :: "nat \<rightharpoonup> stamp"
  resumeAfter :: "nat \<rightharpoonup> stamp option"
  pendingLines :: "nat \<rightharpoonup> log_entry list"
  pendingDrops :: "nat \<rightharpoonup> nat"
  flushRafId :: bool
  snapshotGen :: nat
  lv_sockets :: "nat \<rightharpoonup> log_socket"
  lv_next :: nat
  lv_awaiting :: "nat list"
  lv_resuming :: "(nat \<times> nat option) list"
  lv_snapshots :: "(nat \<times> nat) list"
  lv_sent :: "(nat \<times> auth_frame \<times> tail_request) list"
  lv_deps :: "(nat \<times> log_mode \<times> bool) option"
  lv_mounted :: bool

definition MAX_LINES :: nat where
  "MAX_LINES = 10000"

definition get_or :: "'a \<Rightarrow> 'a option \<Rightarrow> 'a" where
  "get_or d x = (case x of None \<Rightarrow> d | Some v \<Rightarrow> v)"

definition getTabState :: "nat \<Rightarrow> log_viewer \<Rightarrow> tab_state" where
  "getTabState idx v = get_or EMPTY_TAB (tabStates v idx)"

definition updateTabState :: "nat \<Rightarrow> (tab_state \<Rightarrow> tab_state) \<Rightarrow> log_viewer \<Rightarrow> log_viewer" where
  "updateTabState idx upd v =
    v\<lparr>tabStates := (tabStates v)(idx \<mapsto> upd (get_or no_fields (tabStates v idx))),
      tabFilled := tabLength v, tabLength := max (tabLength v) (idx + 1)\<rparr>"

section \<open>Lines\<close>

definition keep_last :: "nat \<Rightarrow> 'a list \<Rightarrow> 'a list" where
  "keep_last n xs = drop (length xs - n) xs"

definition flush_lines :: "log_entry list option \<Rightarrow> tab_state option \<Rightarrow> tab_state option" where
  "flush_lines rawLines st =
    (case rawLines of
       None \<Rightarrow> st
     | Some ls \<Rightarrow>
         if ls = [] then st
         else (let s = get_or no_fields st
               in Some (s\<lparr>ts_lines := Some (keep_last MAX_LINES (get_or [] (ts_lines s) @ ls))\<rparr>)))"

definition flush_drops :: "nat option \<Rightarrow> tab_state option \<Rightarrow> tab_state option" where
  "flush_drops cnt st =
    (case cnt of
       None \<Rightarrow> st
     | Some n \<Rightarrow>
         if n > 0 then (let s = get_or no_fields st in Some (s\<lparr>ts_droppedCount := Some (get_or 0 (ts_droppedCount s) + n)\<rparr>))
         else st)"

definition flushed_tabs :: "log_viewer \<Rightarrow> nat list" where
  "flushed_tabs v =
    filter (\<lambda>i. get_or [] (pendingLines v i) \<noteq> [] \<or> get_or 0 (pendingDrops v i) > 0) [0..<length (allContainers v)]"

definition flushPendingLines :: "log_viewer \<Rightarrow> log_viewer" where
  "flushPendingLines v =
    v\<lparr>flushRafId := False,
      tabStates := (\<lambda>i. flush_drops (pendingDrops v i) (flush_lines (pendingLines v i) (tabStates v i))),
      tabFilled := (if flushed_tabs v = [] then tabFilled v else tabLength v),
      tabLength := foldl max (tabLength v) (map Suc (flushed_tabs v)),
      pendingLines := Map.empty, pendingDrops := Map.empty\<rparr>"

definition queueLine :: "nat \<Rightarrow> log_entry \<Rightarrow> log_viewer \<Rightarrow> log_viewer" where
  "queueLine tabIdx line v =
    v\<lparr>pendingLines := (pendingLines v)(tabIdx \<mapsto> get_or [] (pendingLines v tabIdx) @ [line]), flushRafId := True\<rparr>"

section \<open>Connections\<close>

definition cancelResume :: "nat \<Rightarrow> log_viewer \<Rightarrow> log_viewer" where
  "cancelResume tabIdx v =
    v\<lparr>resumeEpoch := (resumeEpoch v)(tabIdx \<mapsto> get_or 0 (resumeEpoch v tabIdx) + 1),
      retryTimers := (retryTimers v)(tabIdx := None)\<rparr>"

definition close_socket :: "nat \<Rightarrow> log_viewer \<Rightarrow> log_viewer" where
  "close_socket k v = v\<lparr>lv_sockets := (lv_sockets v)(k := map_option (\<lambda>s. s\<lparr>so_open := False\<rparr>) (lv_sockets v k))\<rparr>"

definition drop_ref :: "nat \<Rightarrow> log_viewer \<Rightarrow> log_viewer" where
  "drop_ref tabIdx v =
    (case wsRefs v tabIdx of
       None \<Rightarrow> v
     | Some k \<Rightarrow> (let v1 = close_socket k v in v1\<lparr>wsRefs := (wsRefs v1)(tabIdx := None)\<rparr>))"

definition closeTabWS :: "nat \<Rightarrow> log_viewer \<Rightarrow> log_viewer" where
  "closeTabWS tabIdx v = drop_ref tabIdx (cancelResume tabIdx v)"

definition endTab :: "nat \<Rightarrow> StreamErrorFrame \<Rightarrow> log_viewer \<Rightarrow> log_viewer" where
  "endTab tabIdx frame v =
    (let v1 = closeTabWS tabIdx v; tries = get_or 0 (triesRef v1 tabIdx)
     in if fr_retryable frame \<and> tries < length RECONNECT_DELAYS_MS
        then (let v2 = updateTabState tabIdx (\<lambda>s. s\<lparr>ts_connected := False, ts_reconnecting := True\<rparr>)
                         (v1\<lparr>triesRef := (triesRef v1)(tabIdx \<mapsto> tries + 1)\<rparr>)
              in v2\<lparr>retryTimers := (retryTimers v2)(tabIdx \<mapsto>
                   \<lparr>rt_epoch = resumeEpoch v2 tabIdx, rt_reason = fr_reason frame\<rparr>)\<rparr>)
        else updateTabState tabIdx
               (\<lambda>s. s\<lparr>ts_connected := False, ts_reconnecting := False,
                      ts_error := streamErrorMessage frame ''Live log streaming''\<rparr>) v1)"

definition connectWS :: "nat \<Rightarrow> bool \<Rightarrow> log_viewer \<Rightarrow> log_viewer" where
  "connectWS tabIdx resume v =
    (if tabIdx \<ge> length (allContainers v) then v
     else
       (let v1 = closeTabWS tabIdx v;
            v2 = (if resume then v1\<lparr>resumeAfter := (resumeAfter v1)(tabIdx \<mapsto> lastTimestamp v1 tabIdx)\<rparr>
                  else v1\<lparr>triesRef := (triesRef v1)(tabIdx \<mapsto> 0), resumeAfter := (resumeAfter v1)(tabIdx := None)\<rparr>);
            k = lv_next v2;
            v3 = v2\<lparr>lv_next := k + 1,
                    lv_sockets := (lv_sockets v2)(k \<mapsto> \<lparr>so_tab = tabIdx, so_resume = resume, so_subscribed = False, so_ended = False, so_open = True\<rparr>),
                    wsRefs := (wsRefs v2)(tabIdx \<mapsto> k)\<rparr>
        in updateTabState tabIdx
             (\<lambda>s. s\<lparr>ts_error := [], ts_connected := False, ts_reconnecting := resume \<and> ts_reconnecting s\<rparr>) v3))"

definition reconnectTab :: "nat \<Rightarrow> log_viewer \<Rightarrow> log_viewer" where
  "reconnectTab tabIdx v = connectWS tabIdx True (v\<lparr>triesRef := (triesRef v)(tabIdx \<mapsto> 0)\<rparr>)"

text \<open>The end of a resume, after the backoff and, for an expired token, the session refresh.\<close>

definition resume_now :: "nat \<Rightarrow> nat option \<Rightarrow> log_viewer \<Rightarrow> log_viewer" where
  "resume_now tabIdx epoch v =
    (if resumeEpoch v tabIdx \<noteq> epoch then v
     else if lv_mode v = FollowMode then connectWS tabIdx True v else v)"

definition timer_fired :: "nat \<Rightarrow> log_viewer \<Rightarrow> log_viewer option" where
  "timer_fired tabIdx v =
    (case retryTimers v tabIdx of
       None \<Rightarrow> None
     | Some t \<Rightarrow>
         (let v1 = v\<lparr>retryTimers := (retryTimers v)(tabIdx := None)\<rparr>
          in Some (if rt_reason t = ''token_expired'' then v1\<lparr>lv_resuming := lv_resuming v1 @ [(tabIdx, rt_epoch t)]\<rparr>
                   else resume_now tabIdx (rt_epoch t) v1)))"

section \<open>Handlers of a socket\<close>

definition authenticate :: "nat \<Rightarrow> nat \<Rightarrow> string option \<Rightarrow> log_viewer \<Rightarrow> log_viewer" where
  "authenticate k tabIdx token v =
    (case token of
       None \<Rightarrow>
         (let v1 = close_socket k v
          in updateTabState tabIdx (\<lambda>s. s\<lparr>ts_error := ''Not authenticated'', ts_reconnecting := False\<rparr>)
               (v1\<lparr>wsRefs := (wsRefs v1)(tabIdx := None)\<rparr>))
     | Some t \<Rightarrow>
         v\<lparr>lv_sent := lv_sent v @ [(k, streamAuthFrame t (pinRef v),
            \<lparr>tq_container = allContainers v ! tabIdx, tq_tailLines = 500, tq_previous = lv_previous v\<rparr>)]\<rparr>)"

text \<open>\<open>onopen\<close>: \<open>token\<close> is the access token in hand; without one the page's startup refresh is awaited.\<close>

definition socket_opened :: "nat \<Rightarrow> string option \<Rightarrow> log_viewer \<Rightarrow> log_viewer option" where
  "socket_opened k token v =
    (case lv_sockets v k of
       None \<Rightarrow> None
     | Some s \<Rightarrow>
         if \<not> so_open s then None
         else Some (case token of
                      Some _ \<Rightarrow> authenticate k (so_tab s) token v
                    | None \<Rightarrow> v\<lparr>lv_awaiting := lv_awaiting v @ [k]\<rparr>))"

definition token_ready :: "nat \<Rightarrow> string option \<Rightarrow> log_viewer \<Rightarrow> log_viewer option" where
  "token_ready k token v =
    (case lv_sockets v k of
       None \<Rightarrow> None
     | Some s \<Rightarrow>
         if k \<notin> set (lv_awaiting v) then None
         else (let v1 = v\<lparr>lv_awaiting := removeAll k (lv_awaiting v)\<rparr>
               in Some (if wsRefs v1 (so_tab s) = Some k then authenticate k (so_tab s) token v1 else v1)))"

datatype log_message =
    Subscribed
  | LogData ustr
  | Dropped nat
  | ErrorFrame StreamErrorFrame
  | EndFrame
  | OtherMessage

definition set_socket :: "nat \<Rightarrow> (log_socket \<Rightarrow> log_socket) \<Rightarrow> log_viewer \<Rightarrow> log_viewer" where
  "set_socket k f v = v\<lparr>lv_sockets := (lv_sockets v)(k := map_option f (lv_sockets v k))\<rparr>"

definition show_line :: "nat \<Rightarrow> ustr \<Rightarrow> log_viewer \<Rightarrow> log_viewer" where
  "show_line tabIdx line v =
    queueLine tabIdx (LogText line)
      (case logLineTimestamp line of
         None \<Rightarrow> v
       | Some ts \<Rightarrow> v\<lparr>lastTimestamp := (lastTimestamp v)(tabIdx \<mapsto> ts)\<rparr>)"

definition handle_message :: "nat \<Rightarrow> nat \<Rightarrow> bool \<Rightarrow> log_message \<Rightarrow> log_viewer \<Rightarrow> log_viewer" where
  "handle_message k tabIdx resume msg v =
    (case msg of
       Subscribed \<Rightarrow>
         (let v1 = set_socket k (\<lambda>s. s\<lparr>so_subscribed := True\<rparr>) v;
              v2 = updateTabState tabIdx (\<lambda>s. s\<lparr>ts_connected := True, ts_reconnecting := False, ts_error := []\<rparr>)
                     (v1\<lparr>triesRef := (triesRef v1)(tabIdx \<mapsto> 0)\<rparr>);
              v3 = v2\<lparr>lv_loading := False\<rparr>
          in if resume then queueLine tabIdx ReconnectedMarker v3 else v3)
     | LogData line \<Rightarrow>
         (case resumeAfter v tabIdx of
            Some after \<Rightarrow>
              if isReplayedLine line after then v
              else show_line tabIdx line (v\<lparr>resumeAfter := (resumeAfter v)(tabIdx := None)\<rparr>)
          | None \<Rightarrow> show_line tabIdx line v)
     | Dropped n \<Rightarrow>
         v\<lparr>pendingDrops := (pendingDrops v)(tabIdx \<mapsto> get_or 0 (pendingDrops v tabIdx) + n), flushRafId := True\<rparr>
     | ErrorFrame frame \<Rightarrow>
         if fr_reason frame \<noteq> [] then endTab tabIdx frame v
         else updateTabState tabIdx
                (\<lambda>s. s\<lparr>ts_error := streamErrorMessage frame ''Live log streaming'', ts_reconnecting := False\<rparr>)
                (set_socket k (\<lambda>s. s\<lparr>so_ended := True\<rparr>) v)
     | EndFrame \<Rightarrow> updateTabState tabIdx (\<lambda>s. s\<lparr>ts_connected := False\<rparr>) v
     | OtherMessage \<Rightarrow> v)"

definition socket_message :: "nat \<Rightarrow> log_message \<Rightarrow> log_viewer \<Rightarrow> log_viewer option" where
  "socket_message k msg v =
    (case lv_sockets v k of
       None \<Rightarrow> None
     | Some s \<Rightarrow>
         Some (if lv_mode v \<noteq> FollowMode \<or> wsRefs v (so_tab s) \<noteq> Some k then v
               else handle_message k (so_tab s) (so_resume s) msg v))"

definition resume_failed :: "log_socket \<Rightarrow> bool" where
  "resume_failed s \<longleftrightarrow> so_resume s \<and> \<not> so_subscribed s \<and> \<not> so_ended s"

definition socket_closed :: "nat \<Rightarrow> log_viewer \<Rightarrow> log_viewer option" where
  "socket_closed k v =
    (case lv_sockets v k of
       None \<Rightarrow> None
     | Some s \<Rightarrow>
         (let v0 = close_socket k v
          in Some (if wsRefs v0 (so_tab s) \<noteq> Some k then v0
                   else
                     (let v1 = v0\<lparr>wsRefs := (wsRefs v0)(so_tab s := None)\<rparr>
                      in if resume_failed s
                         then endTab (so_tab s) \<lparr>fr_reason = ''connect_failed'', fr_message = None, fr_retryable = True\<rparr> v1
                         else updateTabState (so_tab s) (\<lambda>t. t\<lparr>ts_connected := False\<rparr>) v1))))"

definition socket_errored :: "nat \<Rightarrow> log_viewer \<Rightarrow> log_viewer option" where
  "socket_errored k v =
    (case lv_sockets v k of
       None \<Rightarrow> None
     | Some s \<Rightarrow>
         Some (if wsRefs v (so_tab s) \<noteq> Some k \<or> resume_failed s then v
               else updateTabState (so_tab s) (\<lambda>t. t\<lparr>ts_error := ''WebSocket connection failed''\<rparr>) v))"

section \<open>Snapshots, controls and effects\<close>

definition fetchSnapshot :: "nat \<Rightarrow> log_viewer \<Rightarrow> log_viewer" where
  "fetchSnapshot tabIdx v =
    (if tabIdx \<ge> length (allContainers v) then v
     else
       (let gen = snapshotGen v + 1
        in updateTabState tabIdx (\<lambda>s. s\<lparr>ts_error := []\<rparr>)
             (v\<lparr>snapshotGen := gen, lv_loading := True, lv_snapshots := lv_snapshots v @ [(tabIdx, gen)]\<rparr>)))"

text \<open>The answer: the lines, or the message of the failure.\<close>

definition snapshot_answered :: "nat \<times> nat \<Rightarrow> string + ustr list \<Rightarrow> log_viewer \<Rightarrow> log_viewer option" where
  "snapshot_answered p answer v =
    (if p \<notin> set (lv_snapshots v) then None
     else
       (let v1 = v\<lparr>lv_snapshots := removeAll p (lv_snapshots v)\<rparr>
        in Some (if snd p \<noteq> snapshotGen v1 then v1
                 else
                   (updateTabState (fst p)
                      (case answer of
                         Inr ls \<Rightarrow> (\<lambda>s. s\<lparr>ts_lines := Some (map LogText ls)\<rparr>)
                       | Inl message \<Rightarrow> (\<lambda>s. s\<lparr>ts_lines := Some [], ts_error := message\<rparr>)) v1)
                   \<lparr>lv_loading := False\<rparr>)))"

definition log_cleanup :: "log_viewer \<Rightarrow> log_viewer" where
  "log_cleanup v =
    (foldl (\<lambda>u i. cancelResume i (drop_ref i u)) v [0..<length (allContainers v)])
      \<lparr>flushRafId := False, pendingLines := Map.empty, pendingDrops := Map.empty\<rparr>"

definition close_live :: "log_viewer \<Rightarrow> nat \<Rightarrow> log_viewer" where
  "close_live v i =
    (if wsRefs v i = None \<and> retryTimers v i = None then v
     else updateTabState i (\<lambda>s. s\<lparr>ts_connected := False, ts_reconnecting := False\<rparr>) (closeTabWS i v))"

definition log_effect :: "log_viewer \<Rightarrow> log_viewer" where
  "log_effect v =
    (let idx = activeTab v
     in case lv_mode v of
          FollowMode \<Rightarrow>
            (let v1 = connectWS idx False v
             in if splitView v \<and> splitTab v \<noteq> idx then connectWS (splitTab v) False v1 else v1)
        | SnapshotMode \<Rightarrow> fetchSnapshot idx (foldl close_live v [0..<length (allContainers v)]))"

definition deps_of :: "log_viewer \<Rightarrow> nat \<times> log_mode \<times> bool" where
  "deps_of v = (activeTab v, lv_mode v, lv_previous v)"

definition run_effects :: "log_viewer \<Rightarrow> log_viewer option" where
  "run_effects v =
    (if \<not> lv_mounted v \<or> lv_deps v = Some (deps_of v) then None
     else Some (log_effect ((if lv_deps v = None then v else log_cleanup v)\<lparr>lv_deps := Some (deps_of v)\<rparr>)))"

text \<open>\<open>map\<close> gives an \<open>undefined\<close> entry the three fields too, and skips holes.\<close>

definition cleared :: "tab_state \<Rightarrow> tab_state" where
  "cleared s = s\<lparr>ts_lines := Some [], ts_droppedCount := Some 0, ts_error := []\<rparr>"

definition toggle_previous :: "bool \<Rightarrow> log_viewer \<Rightarrow> log_viewer" where
  "toggle_previous checked v =
    (let v1 = foldl (\<lambda>u i. if wsRefs u i = None then u else closeTabWS i u) v [0..<length (allContainers v)]
     in v1\<lparr>pendingLines := Map.empty, pendingDrops := Map.empty, flushRafId := False,
           snapshotGen := snapshotGen v1 + 1, lastTimestamp := Map.empty, resumeAfter := Map.empty,
           tabStates := (\<lambda>i. case tabStates v1 i of
             Some s \<Rightarrow> Some (cleared s)
           | None \<Rightarrow> if i < tabFilled v1 then Some (cleared no_fields) else None),
           lv_previous := checked\<rparr>)"

definition toggle_split :: "bool \<Rightarrow> log_viewer \<Rightarrow> log_viewer" where
  "toggle_split checked v =
    (let v1 = (if checked
               then (let other = (if activeTab v = 0 then 1 else 0); u = v\<lparr>splitTab := other\<rparr>
                     in if lv_mode v = FollowMode then connectWS other False u else fetchSnapshot other u)
               else updateTabState (splitTab v) (\<lambda>s. s\<lparr>ts_connected := False\<rparr>) (closeTabWS (splitTab v) v))
     in v1\<lparr>splitView := checked\<rparr>)"

definition reconnect_offered :: "log_viewer \<Rightarrow> bool" where
  "reconnect_offered v \<longleftrightarrow>
    (let s = getTabState (activeTab v) v
     in lv_mode v = FollowMode \<and> ts_error s \<noteq> [] \<and> \<not> ts_connected s \<and> \<not> ts_reconnecting s)"

text \<open>Rendering reads the line count of the shown tabs; on \<open>undefined\<close> it throws.\<close>

definition renders :: "log_viewer \<Rightarrow> bool" where
  "renders v \<longleftrightarrow>
    ts_lines (getTabState (activeTab v) v) \<noteq> None \<and>
    (splitView v \<longrightarrow> ts_lines (getTabState (splitTab v) v) \<noteq> None)"

definition open_viewer :: "nat \<Rightarrow> string list \<Rightarrow> cluster_target \<Rightarrow> log_viewer" where
  "open_viewer n names target =
    \<lparr>lv_containers = n, allContainers = names, activeTab = 0, lv_mode = FollowMode, lv_previous = False,
     splitView = False, splitTab = 1, tabStates = (\<lambda>i. if i < n then Some EMPTY_TAB else None), tabFilled = n,
     tabLength = n, lv_loading = True,
     wsRefs = Map.empty, pinRef = target, triesRef = Map.empty, retryTimers = Map.empty, resumeEpoch = Map.empty,
     lastTimestamp = Map.empty, resumeAfter = Map.empty, pendingLines = Map.empty, pendingDrops = Map.empty,
     flushRafId = False, snapshotGen = 0, lv_sockets = Map.empty, lv_next = 0, lv_awaiting = [], lv_resuming = [],
     lv_snapshots = [], lv_sent = [], lv_deps = None, lv_mounted = True\<rparr>"

end
