(* ===== verification/Log_Viewer_Runs.thy ===== *)
theory Log_Viewer_Runs
  imports Log_Viewer
begin

text \<open>
  Runs of the log viewer: socket events, timers, session refreshes, frames, snapshots, controls,
  effects and leaving the page, in any order; and what they keep.
\<close>

datatype log_event =
    LogOpened nat "string option"
  | LogTokenReady nat "string option"
  | LogMessage nat log_message
  | LogClosed nat
  | LogErrored nat
  | LogTimer nat
  | LogRefreshed "nat \<times> nat option"
  | LogFrame
  | LogSnapshot "nat \<times> nat" "string + ustr list"
  | LogEffects
  | LogSelectTab nat
  | LogSetMode log_mode
  | LogPrevious bool
  | LogSplit bool
  | LogReconnect
  | LogRefresh
  | LogUnmount

definition log_control :: "bool \<Rightarrow> log_viewer \<Rightarrow> log_viewer \<Rightarrow> log_viewer option" where
  "log_control offered v v' = (if lv_mounted v \<and> offered then Some v' else None)"

definition log_step :: "log_event \<Rightarrow> log_viewer \<Rightarrow> log_viewer option" where
  "log_step ev v =
    (case ev of
       LogOpened k token \<Rightarrow> socket_opened k token v
     | LogTokenReady k token \<Rightarrow> token_ready k token v
     | LogMessage k msg \<Rightarrow> socket_message k msg v
     | LogClosed k \<Rightarrow> socket_closed k v
     | LogErrored k \<Rightarrow> socket_errored k v
     | LogTimer i \<Rightarrow> timer_fired i v
     | LogRefreshed p \<Rightarrow>
         if p \<in> set (lv_resuming v)
         then Some (resume_now (fst p) (snd p) (v\<lparr>lv_resuming := remove1 p (lv_resuming v)\<rparr>)) else None
     | LogFrame \<Rightarrow> if flushRafId v then Some (flushPendingLines v) else None
     | LogSnapshot p answer \<Rightarrow> snapshot_answered p answer v
     | LogEffects \<Rightarrow> run_effects v
     | LogSelectTab i \<Rightarrow> log_control (i < length (allContainers v)) v (v\<lparr>activeTab := i\<rparr>)
     | LogSetMode m \<Rightarrow> log_control True v (v\<lparr>lv_mode := m\<rparr>)
     | LogPrevious b \<Rightarrow> log_control True v (toggle_previous b v)
     | LogSplit b \<Rightarrow> log_control (length (allContainers v) \<ge> 2) v (toggle_split b v)
     | LogReconnect \<Rightarrow> log_control (reconnect_offered v) v (reconnectTab (activeTab v) v)
     | LogRefresh \<Rightarrow> log_control (lv_mode v = SnapshotMode) v (fetchSnapshot (activeTab v) v)
     | LogUnmount \<Rightarrow> log_control (lv_deps v \<noteq> None) v ((log_cleanup v)\<lparr>lv_mounted := False\<rparr>))"

fun log_run :: "log_event list \<Rightarrow> log_viewer \<Rightarrow> log_viewer option" where
  "log_run [] v = Some v"
| "log_run (ev # evs) v = (case log_step ev v of None \<Rightarrow> None | Some v1 \<Rightarrow> log_run evs v1)"

lemma log_run_append: "log_run (es @ fs) v = (case log_run es v of None \<Rightarrow> None | Some v1 \<Rightarrow> log_run fs v1)"
  by (induction es arbitrary: v) (auto split: option.split)

section \<open>What every run keeps\<close>

text \<open>
  A tab's current socket is its own and the only open one; a pending backoff carries the tab's
  current epoch, and a resume waiting for the session one that is not newer.
\<close>

definition refs_ok :: "log_viewer \<Rightarrow> bool" where
  "refs_ok v \<longleftrightarrow>
    (\<forall>i k. wsRefs v i = Some k \<longrightarrow> i < length (allContainers v) \<and> (\<exists>s. lv_sockets v k = Some s \<and> so_tab s = i)) \<and>
    (\<forall>k s. lv_sockets v k = Some s \<longrightarrow>
      k < lv_next v \<and> so_tab s < length (allContainers v) \<and> (so_open s \<longrightarrow> wsRefs v (so_tab s) = Some k))"

definition epochs_ok :: "log_viewer \<Rightarrow> bool" where
  "epochs_ok v \<longleftrightarrow>
    (\<forall>i t. retryTimers v i = Some t \<longrightarrow> i < length (allContainers v) \<and> rt_epoch t = resumeEpoch v i \<and> resumeEpoch v i \<noteq> None) \<and>
    (\<forall>(i, e) \<in> set (lv_resuming v). i < length (allContainers v) \<and>
      (\<exists>m m'. e = Some m \<and> resumeEpoch v i = Some m' \<and> m \<le> m'))"

definition sent_ok :: "log_viewer \<Rightarrow> bool" where
  "sent_ok v \<longleftrightarrow>
    (\<forall>(k, f, q) \<in> set (lv_sent v). af_clusterId f = ct_clusterId (pinRef v) \<and> tq_container q \<in> set (allContainers v)) \<and>
    (\<forall>i m. triesRef v i = Some m \<longrightarrow> m \<le> length RECONNECT_DELAYS_MS)"

definition viewer_ok :: "log_viewer \<Rightarrow> bool" where
  "viewer_ok v \<longleftrightarrow> refs_ok v \<and> epochs_ok v \<and> sent_ok v"

lemma viewer_frame [simp]:
  "viewer_ok (v\<lparr>tabStates := a\<rparr>) = viewer_ok v"
  "viewer_ok (v\<lparr>tabFilled := n\<rparr>) = viewer_ok v" "viewer_ok (v\<lparr>tabLength := n\<rparr>) = viewer_ok v"
  "viewer_ok (v\<lparr>lv_loading := b\<rparr>) = viewer_ok v"
  "viewer_ok (v\<lparr>flushRafId := b\<rparr>) = viewer_ok v"
  "viewer_ok (v\<lparr>pendingLines := c\<rparr>) = viewer_ok v"
  "viewer_ok (v\<lparr>pendingDrops := d\<rparr>) = viewer_ok v"
  "viewer_ok (v\<lparr>lastTimestamp := e\<rparr>) = viewer_ok v"
  "viewer_ok (v\<lparr>resumeAfter := f\<rparr>) = viewer_ok v"
  "viewer_ok (v\<lparr>snapshotGen := g\<rparr>) = viewer_ok v"
  "viewer_ok (v\<lparr>lv_snapshots := h\<rparr>) = viewer_ok v"
  "viewer_ok (v\<lparr>lv_awaiting := w\<rparr>) = viewer_ok v"
  "viewer_ok (v\<lparr>lv_deps := j\<rparr>) = viewer_ok v"
  "viewer_ok (v\<lparr>lv_mounted := b\<rparr>) = viewer_ok v"
  "viewer_ok (v\<lparr>activeTab := n\<rparr>) = viewer_ok v"
  "viewer_ok (v\<lparr>lv_mode := m\<rparr>) = viewer_ok v"
  "viewer_ok (v\<lparr>lv_previous := b\<rparr>) = viewer_ok v"
  "viewer_ok (v\<lparr>splitView := b\<rparr>) = viewer_ok v"
  "viewer_ok (v\<lparr>splitTab := n\<rparr>) = viewer_ok v"
  by (simp_all add: viewer_ok_def refs_ok_def epochs_ok_def sent_ok_def)

lemma viewer_updates [simp]:
  "viewer_ok (updateTabState i u v) = viewer_ok v"
  "viewer_ok (queueLine i l v) = viewer_ok v"
  "viewer_ok (flushPendingLines v) = viewer_ok v"
  "viewer_ok (fetchSnapshot i v) = viewer_ok v"
  by (simp_all add: updateTabState_def queueLine_def flushPendingLines_def fetchSnapshot_def Let_def)

lemma viewer_cancel: "viewer_ok v \<Longrightarrow> viewer_ok (cancelResume i v)"
  by (force simp: viewer_ok_def refs_ok_def epochs_ok_def sent_ok_def cancelResume_def get_or_def split: option.split)

lemma viewer_set_socket:
  assumes "viewer_ok v" "\<And>s. so_tab (f s) = so_tab s" "\<And>s. so_open (f s) \<Longrightarrow> so_open s"
  shows "viewer_ok (set_socket k f v)"
proof -
  have "refs_ok (set_socket k f v)"
    using assms(1) unfolding viewer_ok_def refs_ok_def set_socket_def
    by (fastforce simp: assms(2) dest: assms(3) split: if_splits)
  then show ?thesis using assms(1) by (simp add: viewer_ok_def epochs_ok_def sent_ok_def set_socket_def)
qed

lemma close_is_set: "close_socket k v = set_socket k (\<lambda>s. s\<lparr>so_open := False\<rparr>) v"
  by (simp add: close_socket_def set_socket_def)

lemma viewer_close: "viewer_ok v \<Longrightarrow> viewer_ok (close_socket k v)"
  unfolding close_is_set by (rule viewer_set_socket) simp_all

lemma viewer_unref:
  assumes "viewer_ok v" "\<And>k s. wsRefs v i = Some k \<Longrightarrow> lv_sockets v k = Some s \<Longrightarrow> \<not> so_open s"
  shows "viewer_ok (v\<lparr>wsRefs := (wsRefs v)(i := None)\<rparr>)"
proof -
  have "refs_ok (v\<lparr>wsRefs := (wsRefs v)(i := None)\<rparr>)"
    using assms unfolding viewer_ok_def refs_ok_def by (fastforce split: if_splits)
  then show ?thesis using assms(1) by (simp add: viewer_ok_def epochs_ok_def sent_ok_def)
qed

lemma viewer_drop:
  assumes "viewer_ok v"
  shows "viewer_ok (drop_ref i v)"
proof (cases "wsRefs v i")
  case (Some k)
  have "viewer_ok ((close_socket k v)\<lparr>wsRefs := (wsRefs (close_socket k v))(i := None)\<rparr>)"
    by (rule viewer_unref [OF viewer_close [OF assms]]) (use Some in \<open>auto simp: close_socket_def\<close>)
  with Some show ?thesis by (simp add: drop_ref_def Let_def)
qed (use assms in \<open>simp add: drop_ref_def\<close>)

lemma viewer_closeTab: "viewer_ok v \<Longrightarrow> viewer_ok (closeTabWS i v)"
  by (simp add: closeTabWS_def viewer_drop viewer_cancel)

lemma closed_tab [simp]:
  "wsRefs (closeTabWS i v) i = None" "allContainers (closeTabWS i v) = allContainers v"
  "pinRef (closeTabWS i v) = pinRef v" "triesRef (closeTabWS i v) = triesRef v"
  "lv_next (closeTabWS i v) = lv_next v" "lv_sent (closeTabWS i v) = lv_sent v"
  "resumeEpoch (closeTabWS i v) i = Some (get_or 0 (resumeEpoch v i) + 1)" "retryTimers (closeTabWS i v) i = None"
  by (simp_all add: closeTabWS_def drop_ref_def cancelResume_def close_socket_def Let_def split: option.split)

lemma viewer_tries: "viewer_ok v \<Longrightarrow> m \<le> length RECONNECT_DELAYS_MS \<Longrightarrow> viewer_ok (v\<lparr>triesRef := (triesRef v)(i \<mapsto> m)\<rparr>)"
  by (auto simp: viewer_ok_def refs_ok_def epochs_ok_def sent_ok_def)

lemma viewer_timer:
  "viewer_ok v \<Longrightarrow> i < length (allContainers v) \<Longrightarrow> resumeEpoch v i \<noteq> None \<Longrightarrow> rt_epoch t = resumeEpoch v i \<Longrightarrow>
   viewer_ok (v\<lparr>retryTimers := (retryTimers v)(i \<mapsto> t)\<rparr>)"
  by (auto simp: viewer_ok_def refs_ok_def epochs_ok_def sent_ok_def)

lemma viewer_endTab:
  assumes "viewer_ok v" "i < length (allContainers v)"
  shows "viewer_ok (endTab i frame v)"
proof -
  define v1 where "v1 = closeTabWS i v"
  define v2 where "v2 = updateTabState i (\<lambda>s. s\<lparr>ts_connected := False, ts_reconnecting := True\<rparr>)
    (v1\<lparr>triesRef := (triesRef v1)(i \<mapsto> get_or 0 (triesRef v1 i) + 1)\<rparr>)"
  have c: "viewer_ok v1" using viewer_closeTab [OF assms(1)] by (simp add: v1_def)
  have t: "viewer_ok (v2\<lparr>retryTimers := (retryTimers v2)(i \<mapsto> \<lparr>rt_epoch = resumeEpoch v2 i, rt_reason = fr_reason frame\<rparr>)\<rparr>)"
    if "get_or 0 (triesRef v1 i) < length RECONNECT_DELAYS_MS"
  proof (rule viewer_timer)
    show "viewer_ok v2" using viewer_tries [OF c] that by (simp add: v2_def)
    show "i < length (allContainers v2)" "resumeEpoch v2 i \<noteq> None"
      using assms(2) by (simp_all add: v2_def v1_def updateTabState_def)
  qed simp
  show ?thesis
    using t c unfolding endTab_def Let_def v1_def [symmetric] v2_def [symmetric] by simp
qed

lemma viewer_new:
  assumes "viewer_ok u" "wsRefs u i = None" "so_tab s = i" "i < length (allContainers u)"
  shows "viewer_ok (u\<lparr>lv_next := lv_next u + 1, lv_sockets := (lv_sockets u)(lv_next u \<mapsto> s), wsRefs := (wsRefs u)(i \<mapsto> lv_next u)\<rparr>)"
    (is "viewer_ok ?w")
proof -
  have "refs_ok ?w" using assms unfolding viewer_ok_def refs_ok_def by (fastforce split: if_splits)
  then show ?thesis using assms(1) by (simp add: viewer_ok_def epochs_ok_def sent_ok_def)
qed

lemma viewer_connect:
  assumes "viewer_ok v"
  shows "viewer_ok (connectWS i resume v)"
proof -
  define v1 where "v1 = closeTabWS i v"
  have c: "viewer_ok v1" using viewer_closeTab [OF assms] by (simp add: v1_def)
  have w: "wsRefs v1 i = None" "allContainers v1 = allContainers v" by (simp_all add: v1_def)
  define v2 where "v2 = (if resume then v1\<lparr>resumeAfter := (resumeAfter v1)(i \<mapsto> lastTimestamp v1 i)\<rparr>
    else v1\<lparr>triesRef := (triesRef v1)(i \<mapsto> 0), resumeAfter := (resumeAfter v1)(i := None)\<rparr>)"
  have d: "viewer_ok v2" "wsRefs v2 i = None" "allContainers v2 = allContainers v"
    using c w viewer_tries [OF c, of 0 i] by (simp_all add: v2_def)
  show ?thesis
    unfolding connectWS_def Let_def v1_def [symmetric] v2_def [symmetric]
    using assms viewer_new [OF d(1,2)] d(3) by simp
qed

text \<open>The pod and the pinned cluster never change.\<close>

definition opened_on :: "log_viewer \<Rightarrow> string list \<times> cluster_target" where
  "opened_on v = (allContainers v, pinRef v)"

lemma on_basic [simp]:
  "opened_on (updateTabState i u v) = opened_on v" "opened_on (queueLine i l v) = opened_on v"
  "opened_on (flushPendingLines v) = opened_on v" "opened_on (fetchSnapshot i v) = opened_on v"
  "opened_on (cancelResume i v) = opened_on v" "opened_on (set_socket k f v) = opened_on v"
  "opened_on (close_socket k v) = opened_on v" "opened_on (drop_ref i v) = opened_on v"
  "opened_on (closeTabWS i v) = opened_on v"
  by (simp_all add: opened_on_def updateTabState_def queueLine_def flushPendingLines_def fetchSnapshot_def
      cancelResume_def set_socket_def close_socket_def drop_ref_def closeTabWS_def Let_def split: option.split)

lemma on_containers: "opened_on v = opened_on w \<Longrightarrow> allContainers v = allContainers w"
  by (simp add: opened_on_def)

lemma on_frame [simp]:
  "opened_on (v\<lparr>tabStates := a\<rparr>) = opened_on v" "opened_on (v\<lparr>lv_loading := b\<rparr>) = opened_on v"
  "opened_on (v\<lparr>tabFilled := n\<rparr>) = opened_on v" "opened_on (v\<lparr>tabLength := n\<rparr>) = opened_on v"
  "opened_on (v\<lparr>triesRef := c\<rparr>) = opened_on v" "opened_on (v\<lparr>retryTimers := d\<rparr>) = opened_on v"
  "opened_on (v\<lparr>resumeAfter := e\<rparr>) = opened_on v" "opened_on (v\<lparr>lastTimestamp := f\<rparr>) = opened_on v"
  "opened_on (v\<lparr>wsRefs := g\<rparr>) = opened_on v" "opened_on (v\<lparr>lv_sockets := h\<rparr>) = opened_on v"
  "opened_on (v\<lparr>lv_next := n\<rparr>) = opened_on v" "opened_on (v\<lparr>lv_awaiting := j\<rparr>) = opened_on v"
  "opened_on (v\<lparr>lv_resuming := k\<rparr>) = opened_on v" "opened_on (v\<lparr>lv_sent := l\<rparr>) = opened_on v"
  "opened_on (v\<lparr>pendingDrops := m\<rparr>) = opened_on v" "opened_on (v\<lparr>pendingLines := q\<rparr>) = opened_on v"
  "opened_on (v\<lparr>flushRafId := b\<rparr>) = opened_on v" "opened_on (v\<lparr>snapshotGen := n\<rparr>) = opened_on v"
  "opened_on (v\<lparr>lv_snapshots := r\<rparr>) = opened_on v" "opened_on (v\<lparr>lv_deps := s\<rparr>) = opened_on v"
  "opened_on (v\<lparr>lv_mounted := b\<rparr>) = opened_on v" "opened_on (v\<lparr>activeTab := n\<rparr>) = opened_on v"
  "opened_on (v\<lparr>lv_mode := t\<rparr>) = opened_on v" "opened_on (v\<lparr>lv_previous := b\<rparr>) = opened_on v"
  "opened_on (v\<lparr>splitView := b\<rparr>) = opened_on v" "opened_on (v\<lparr>splitTab := n\<rparr>) = opened_on v"
  by (simp_all add: opened_on_def)

lemma on_connect [simp]:
  "opened_on (endTab i frame v) = opened_on v" "opened_on (connectWS i resume v) = opened_on v"
  "opened_on (reconnectTab i v) = opened_on v" "opened_on (resume_now i e v) = opened_on v"
  "opened_on (authenticate k i token v) = opened_on v" "opened_on (show_line i l v) = opened_on v"
  by (simp_all add: endTab_def connectWS_def reconnectTab_def resume_now_def authenticate_def show_line_def Let_def
      split: option.split)

lemma on_message [simp]: "opened_on (handle_message k i resume msg v) = opened_on v"
  by (simp add: handle_message_def Let_def split: log_message.split option.split)

lemma on_folds [simp]:
  "opened_on (foldl (\<lambda>u i. cancelResume i (drop_ref i u)) v is) = opened_on v"
  "opened_on (foldl close_live v is) = opened_on v"
  "opened_on (foldl (\<lambda>u i. if wsRefs u i = None then u else closeTabWS i u) v is) = opened_on v"
  by (induction "is" arbitrary: v) (simp_all add: close_live_def)

lemma on_step: "log_step ev v = Some v' \<Longrightarrow> opened_on v' = opened_on v"
  by (cases ev)
    (auto simp: log_step_def log_control_def socket_opened_def token_ready_def socket_message_def socket_closed_def
      socket_errored_def timer_fired_def snapshot_answered_def run_effects_def log_effect_def log_cleanup_def
      toggle_previous_def toggle_split_def Let_def split: option.splits if_splits log_mode.splits)

lemma viewer_resume: "viewer_ok v \<Longrightarrow> viewer_ok (resume_now i e v)"
  by (simp add: resume_now_def viewer_connect)

lemma viewer_notimer: "viewer_ok v \<Longrightarrow> viewer_ok (v\<lparr>retryTimers := (retryTimers v)(i := None)\<rparr>)"
  by (auto simp: viewer_ok_def refs_ok_def epochs_ok_def sent_ok_def)

lemma viewer_resuming:
  "viewer_ok v \<Longrightarrow> i < length (allContainers v) \<Longrightarrow> resumeEpoch v i \<noteq> None \<Longrightarrow>
   viewer_ok (v\<lparr>lv_resuming := lv_resuming v @ [(i, resumeEpoch v i)]\<rparr>)"
  by (auto simp: viewer_ok_def refs_ok_def epochs_ok_def sent_ok_def)

lemma viewer_fired:
  assumes "viewer_ok v" "timer_fired i v = Some v'"
  shows "viewer_ok v'"
proof -
  obtain t where t: "retryTimers v i = Some t" using assms(2) by (auto simp: timer_fired_def split: option.splits)
  then have e: "i < length (allContainers v)" "rt_epoch t = resumeEpoch v i" "resumeEpoch v i \<noteq> None"
    using assms(1) by (auto simp: viewer_ok_def epochs_ok_def)
  note n = viewer_notimer [OF assms(1), of i]
  from viewer_resuming [OF n, of i] viewer_resume [OF n, of i "rt_epoch t"] e t assms(2) show ?thesis
    by (auto simp: timer_fired_def Let_def split: if_splits)
qed

lemma viewer_sent:
  "viewer_ok v \<Longrightarrow> i < length (allContainers v) \<Longrightarrow> viewer_ok (authenticate k i (Some t) v)"
  by (auto simp: viewer_ok_def refs_ok_def epochs_ok_def sent_ok_def authenticate_def streamAuthFrame_def)

lemma viewer_unauthenticated:
  assumes "viewer_ok v" "wsRefs v i = Some k"
  shows "viewer_ok (authenticate k i None v)"
proof -
  have "viewer_ok ((close_socket k v)\<lparr>wsRefs := (wsRefs (close_socket k v))(i := None)\<rparr>)"
    by (rule viewer_unref [OF viewer_close [OF assms(1)]]) (use assms(2) in \<open>auto simp: close_socket_def\<close>)
  then show ?thesis by (simp add: authenticate_def Let_def)
qed

lemma viewer_socket_tab: "viewer_ok v \<Longrightarrow> lv_sockets v k = Some s \<Longrightarrow> so_tab s < length (allContainers v)"
  by (auto simp: viewer_ok_def refs_ok_def)

lemma viewer_message:
  assumes "viewer_ok v" "i < length (allContainers v)"
  shows "viewer_ok (handle_message k i resume msg v)"
proof (cases msg)
  case Subscribed
  have "viewer_ok (set_socket k (\<lambda>s. s\<lparr>so_subscribed := True\<rparr>) v)" by (rule viewer_set_socket [OF assms(1)]) simp_all
  from viewer_tries [OF this, of 0 i] show ?thesis using Subscribed by (simp add: handle_message_def Let_def)
next
  case (ErrorFrame frame)
  have "viewer_ok (set_socket k (\<lambda>s. s\<lparr>so_ended := True\<rparr>) v)" by (rule viewer_set_socket [OF assms(1)]) simp_all
  with viewer_endTab [OF assms] ErrorFrame show ?thesis by (simp add: handle_message_def)
qed (use assms in \<open>simp_all add: handle_message_def show_line_def split: option.split\<close>)

lemma viewer_folds:
  assumes "viewer_ok v"
  shows "viewer_ok (foldl (\<lambda>u i. cancelResume i (drop_ref i u)) v is)" "viewer_ok (foldl close_live v is)"
    "viewer_ok (foldl (\<lambda>u i. if wsRefs u i = None then u else closeTabWS i u) v is)"
  using assms
  by (induction "is" arbitrary: v) (simp_all add: close_live_def viewer_cancel viewer_drop viewer_closeTab)

lemma viewer_cleanup: "viewer_ok v \<Longrightarrow> viewer_ok (log_cleanup v)"
  by (simp add: log_cleanup_def viewer_folds)

lemma viewer_effect: "viewer_ok v \<Longrightarrow> viewer_ok (log_effect v)"
  by (simp add: log_effect_def Let_def viewer_connect viewer_folds split: log_mode.split)

lemma viewer_closed:
  assumes "viewer_ok v" "socket_closed k v = Some v'"
  shows "viewer_ok v'"
proof -
  obtain s where s: "lv_sockets v k = Some s" using assms(2) by (auto simp: socket_closed_def split: option.splits)
  let ?c = "close_socket k v"
  have u: "viewer_ok (?c\<lparr>wsRefs := (wsRefs ?c)(so_tab s := None)\<rparr>)" if "wsRefs v (so_tab s) = Some k"
    by (rule viewer_unref [OF viewer_close [OF assms(1)]]) (use that in \<open>auto simp: close_socket_def\<close>)
  have "so_tab s < length (allContainers (?c\<lparr>wsRefs := (wsRefs ?c)(so_tab s := None)\<rparr>))"
    using viewer_socket_tab [OF assms(1) s] by (simp add: close_socket_def)
  from viewer_endTab [OF _ this] u viewer_close [OF assms(1), of k] assms(2) s show ?thesis
    by (auto simp: socket_closed_def Let_def close_socket_def split: if_splits)
qed

lemma viewer_refreshing: "viewer_ok v \<Longrightarrow> viewer_ok (v\<lparr>lv_resuming := remove1 p (lv_resuming v)\<rparr>)"
  by (auto simp: viewer_ok_def refs_ok_def epochs_ok_def sent_ok_def dest: notin_set_remove1 set_mp [OF set_remove1_subset])

lemma viewer_step:
  assumes "log_step ev v = Some v'" "viewer_ok v"
  shows "viewer_ok v'"
proof (cases ev)
  case (LogRefreshed p)
  with assms viewer_refreshing [OF assms(2), of p] show ?thesis by (auto simp: log_step_def viewer_resume split: if_splits)
next
  case (LogOpened k token)
  with assms viewer_socket_tab [OF assms(2)] show ?thesis
    by (auto simp: log_step_def socket_opened_def viewer_sent split: option.splits if_splits)
next
  case (LogTokenReady k token)
  with assms viewer_socket_tab [OF assms(2)] show ?thesis
    by (cases token) (auto simp: log_step_def token_ready_def viewer_sent viewer_unauthenticated Let_def split: option.splits if_splits)
next
  case (LogMessage k msg)
  with assms viewer_message [OF assms(2) viewer_socket_tab [OF assms(2)]] show ?thesis
    by (auto simp: log_step_def socket_message_def split: option.splits if_splits)
next
  case LogReconnect
  with assms show ?thesis by (auto simp: log_step_def log_control_def reconnectTab_def viewer_connect viewer_tries split: if_splits)
next
  case (LogClosed k)
  with assms show ?thesis using viewer_closed by (simp add: log_step_def)
next
  case (LogTimer i)
  with assms show ?thesis using viewer_fired by (simp add: log_step_def)
next
  case LogEffects
  with assms show ?thesis
    by (auto simp: log_step_def run_effects_def viewer_effect viewer_cleanup split: if_splits)
next
  case (LogPrevious b)
  with assms show ?thesis
    by (auto simp: log_step_def log_control_def toggle_previous_def Let_def viewer_folds split: if_splits)
next
  case (LogSplit b)
  with assms show ?thesis
    by (auto simp: log_step_def log_control_def toggle_split_def Let_def viewer_connect viewer_closeTab split: if_splits)
qed (use assms in \<open>auto simp: log_step_def log_control_def socket_errored_def snapshot_answered_def Let_def viewer_cleanup
    split: option.splits if_splits\<close>)

lemma viewer_run: "log_run evs v = Some v' \<Longrightarrow> viewer_ok v \<Longrightarrow> viewer_ok v' \<and> opened_on v' = opened_on v"
  by (induction evs arbitrary: v) (force dest: viewer_step on_step split: option.splits)+

lemma viewer_start: "viewer_ok (open_viewer n names t)" "opened_on (open_viewer n names t) = (names, t)"
  by (simp_all add: viewer_ok_def refs_ok_def epochs_ok_def sent_ok_def open_viewer_def opened_on_def)

section \<open>A closed viewer\<close>

lemma cleanup_fold:
  fixes v :: log_viewer
  defines "run \<equiv> foldl (\<lambda>u i. cancelResume i (drop_ref i u)) v"
  shows "wsRefs (run is) i = (if i \<in> set is then None else wsRefs v i)"
    "retryTimers (run is) i = (if i \<in> set is then None else retryTimers v i)"
    "lv_resuming (run is) = lv_resuming v"
    "resumeEpoch v i = Some m \<Longrightarrow> \<exists>m' \<ge> (if i \<in> set is then m + 1 else m). resumeEpoch (run is) i = Some m'"
  unfolding run_def
  by (induction "is" rule: rev_induct)
    (auto simp: cancelResume_def drop_ref_def close_socket_def Let_def get_or_def split: option.split)

definition left_page :: "log_viewer \<Rightarrow> bool" where
  "left_page v \<longleftrightarrow>
    \<not> lv_mounted v \<and> wsRefs v = Map.empty \<and> retryTimers v = Map.empty \<and>
    (\<forall>(i, e) \<in> set (lv_resuming v). resumeEpoch v i \<noteq> e) \<and>
    (\<forall>k s. lv_sockets v k = Some s \<longrightarrow> \<not> so_open s)"

lemma unmount_leaves:
  assumes "viewer_ok v"
  shows "left_page ((log_cleanup v)\<lparr>lv_mounted := False\<rparr>)"
proof -
  define u where "u = foldl (\<lambda>u i. cancelResume i (drop_ref i u)) v [0..<length (allContainers v)]"
  have o: "viewer_ok u" unfolding u_def by (rule viewer_folds(1) [OF assms])
  have r: "wsRefs u = Map.empty" "retryTimers u = Map.empty"
    using assms by (auto simp: u_def cleanup_fold viewer_ok_def refs_ok_def epochs_ok_def fun_eq_iff)
      (metis option.exhaust)+
  have "resumeEpoch u i \<noteq> e" if q: "(i, e) \<in> set (lv_resuming v)" for i e
  proof -
    obtain m m' where "e = Some m" "resumeEpoch v i = Some m'" "m \<le> m'" "i < length (allContainers v)"
      using assms q by (auto simp: viewer_ok_def epochs_ok_def)
    then show ?thesis using cleanup_fold(4) [of v i m' "[0..<length (allContainers v)]"] by (auto simp: u_def)
  qed
  moreover have "\<not> so_open s" if "lv_sockets u k = Some s" for k s
    using o r(1) that by (auto simp: viewer_ok_def refs_ok_def)
  ultimately show ?thesis
    using r by (auto simp: left_page_def log_cleanup_def u_def [symmetric]) (auto simp: u_def cleanup_fold)
qed

lemma left_step:
  assumes "left_page v" "log_step ev v = Some v'"
  shows "left_page v' \<and> lv_next v' = lv_next v \<and> lv_sent v' = lv_sent v"
  using assms unfolding left_page_def log_step_def log_control_def
  by (auto simp: socket_opened_def token_ready_def socket_message_def socket_closed_def socket_errored_def timer_fired_def
      resume_now_def flushPendingLines_def snapshot_answered_def run_effects_def updateTabState_def close_socket_def Let_def
      dest!: set_mp [OF set_remove1_subset] split: log_event.splits option.splits if_splits)

lemma left_run: "log_run evs v = Some v' \<Longrightarrow> left_page v \<Longrightarrow> lv_next v' = lv_next v \<and> lv_sent v' = lv_sent v"
  by (induction evs arbitrary: v) (force dest: left_step split: option.splits)+

end
