(* ===== verification/Log_Viewer_Tail.thy ===== *)
theory Log_Viewer_Tail
  imports Log_Viewer_Runs
begin

text \<open>
  What a followed log shows across interruptions: within one opening of a tab its lines stay in the
  order of their timestamps, and past a join only later lines appear. The server sends the lines of
  one connection in order, each with a timestamp, after it has acknowledged the connection once.
\<close>

section \<open>Lines in order\<close>

text \<open>\<open>joined\<close>: a marker stands between the two lines.\<close>

definition comes_after :: "bool \<Rightarrow> ustr \<Rightarrow> ustr \<Rightarrow> bool" where
  "comes_after joined l l' =
    (case (logLineTimestamp l, logLineTimestamp l') of
       (Some s, Some s') \<Rightarrow> if joined then laterThan s' s else \<not> laterThan s s'
     | _ \<Rightarrow> False)"

fun followed :: "ustr \<Rightarrow> bool \<Rightarrow> log_entry list \<Rightarrow> bool" where
  "followed l joined [] = True"
| "followed l joined (ReconnectedMarker # es) = followed l True es"
| "followed l joined (LogText l' # es) = (comes_after joined l l' \<and> followed l joined es)"

fun in_order :: "log_entry list \<Rightarrow> bool" where
  "in_order [] = True"
| "in_order (ReconnectedMarker # es) = in_order es"
| "in_order (LogText l # es) = (followed l False es \<and> in_order es)"

text \<open>No line is later than \<open>p\<close>; each line before a marker is earlier.\<close>

definition up_to :: "stamp option \<Rightarrow> ustr \<Rightarrow> bool" where
  "up_to p l = (case (logLineTimestamp l, p) of (Some s, Some q) \<Rightarrow> \<not> laterThan s q | _ \<Rightarrow> False)"

definition before :: "stamp option \<Rightarrow> ustr \<Rightarrow> bool" where
  "before p l = (case (logLineTimestamp l, p) of (Some s, Some q) \<Rightarrow> laterThan q s | _ \<Rightarrow> False)"

fun bounded :: "stamp option \<Rightarrow> log_entry list \<Rightarrow> bool" where
  "bounded p [] = True"
| "bounded p (ReconnectedMarker # es) = bounded p es"
| "bounded p (LogText l # es) = (up_to p l \<and> bounded p es)"

fun joins_before :: "stamp option \<Rightarrow> log_entry list \<Rightarrow> bool" where
  "joins_before p [] = True"
| "joins_before p (ReconnectedMarker # es) = joins_before p es"
| "joins_before p (LogText l # es) = ((ReconnectedMarker \<in> set es \<longrightarrow> before p l) \<and> joins_before p es)"

lemma followed_snoc:
  "followed l j (es @ [ReconnectedMarker]) = followed l j es"
  "followed l j (es @ [LogText l']) \<longleftrightarrow> followed l j es \<and> comes_after (j \<or> ReconnectedMarker \<in> set es) l l'"
  by (induction l j es rule: followed.induct) auto

lemma order_marker: "in_order es \<Longrightarrow> in_order (es @ [ReconnectedMarker])"
  by (induction es rule: in_order.induct) (simp_all add: followed_snoc)

lemma bounded_marker: "bounded p (es @ [ReconnectedMarker]) = bounded p es"
  by (induction es rule: in_order.induct) simp_all

text \<open>A line of the same connection, and the first line past a join.\<close>

lemma order_line:
  assumes "in_order es" "bounded (Some p) es" "joins_before (Some p) es" "logLineTimestamp l = Some s" "\<not> laterThan p s"
  shows "in_order (es @ [LogText l]) \<and> bounded (Some s) (es @ [LogText l]) \<and> joins_before (Some s) (es @ [LogText l])"
  using assms
proof (induction es rule: in_order.induct)
  case (3 l0 es)
  then obtain s0 where s0: "logLineTimestamp l0 = Some s0" "\<not> laterThan s0 p"
    by (auto simp: up_to_def split: option.splits)
  then have "\<not> laterThan s0 s" using 3(6) laterThan_trans not_later_trans by blast
  moreover have "laterThan s s0" if "laterThan p s0" using later_not_trans [OF that 3(6)] .
  ultimately show ?case
    using 3 s0 by (auto simp: followed_snoc comes_after_def up_to_def before_def)
qed (simp_all add: up_to_def)

lemma order_later:
  assumes "in_order es" "bounded (Some p) es" "logLineTimestamp l = Some s" "laterThan s p"
  shows "in_order (es @ [LogText l]) \<and> bounded (Some s) (es @ [LogText l]) \<and> joins_before (Some s) (es @ [LogText l])"
  using assms
proof (induction es rule: in_order.induct)
  case (3 l0 es)
  then obtain s0 where s0: "logLineTimestamp l0 = Some s0" "\<not> laterThan s0 p"
    by (auto simp: up_to_def split: option.splits)
  then have "laterThan s s0" using 3(5) not_later_trans by blast
  then show ?case
    using 3 s0 laterThan_asym by (auto simp: followed_snoc comes_after_def up_to_def before_def)
qed (simp_all add: up_to_def)

lemma no_lines: "bounded None es \<Longrightarrow> in_order (es @ ys) = in_order ys \<and> bounded p (es @ ys) = bounded p ys \<and> joins_before p (es @ ys) = joins_before p ys"
  by (induction es rule: in_order.induct) (auto simp: up_to_def split: option.splits)

section \<open>What is seen of a tab\<close>

definition shown :: "log_viewer \<Rightarrow> nat \<Rightarrow> log_entry list" where
  "shown v i = get_or [] (ts_lines (get_or no_fields (tabStates v i))) @ get_or [] (pendingLines v i)"

lemma shown_cong: "tabStates w = tabStates v \<Longrightarrow> pendingLines w = pendingLines v \<Longrightarrow> shown w = shown v"
  by (simp add: shown_def fun_eq_iff)

lemma shown_update [simp]:
  "(\<And>s. ts_lines (u s) = ts_lines s) \<Longrightarrow> shown (updateTabState i u v) = shown v"
  by (rule ext) (simp add: shown_def updateTabState_def get_or_def split: option.split)

lemma shown_basic [simp]:
  "shown (closeTabWS i v) = shown v" "shown (close_socket k v) = shown v" "shown (set_socket k f v) = shown v"
  "shown (cancelResume i v) = shown v" "shown (drop_ref i v) = shown v" "shown (fetchSnapshot i v) = shown v"
  by (simp_all add: closeTabWS_def drop_ref_def cancelResume_def close_socket_def set_socket_def fetchSnapshot_def
      updateTabState_def shown_def get_or_def Let_def fun_eq_iff split: option.split)

lemma shown_frame [simp]:
  "shown (v\<lparr>triesRef := a\<rparr>) = shown v" "shown (v\<lparr>retryTimers := b\<rparr>) = shown v" "shown (v\<lparr>wsRefs := c\<rparr>) = shown v"
  "shown (v\<lparr>lv_resuming := d\<rparr>) = shown v" "shown (v\<lparr>lv_awaiting := e\<rparr>) = shown v" "shown (v\<lparr>lv_sent := f\<rparr>) = shown v"
  "shown (v\<lparr>lv_loading := g\<rparr>) = shown v" "shown (v\<lparr>resumeAfter := h\<rparr>) = shown v"
  "shown (v\<lparr>lastTimestamp := j\<rparr>) = shown v" "shown (v\<lparr>lv_next := n\<rparr>) = shown v"
  "shown (v\<lparr>lv_sockets := so\<rparr>) = shown v" "shown (v\<lparr>splitView := g\<rparr>) = shown v" "shown (v\<lparr>splitTab := n\<rparr>) = shown v"
  "shown (v\<lparr>activeTab := n\<rparr>) = shown v" "shown (v\<lparr>lv_mode := m\<rparr>) = shown v" "shown (v\<lparr>pendingDrops := pd\<rparr>) = shown v"
  "shown (v\<lparr>flushRafId := g\<rparr>) = shown v" "shown (v\<lparr>lv_snapshots := sn\<rparr>) = shown v"
  "shown (v\<lparr>snapshotGen := n\<rparr>) = shown v"
  by (rule shown_cong; simp)+

lemma shown_connect [simp]:
  "shown (endTab i frame v) = shown v" "shown (connectWS i resume v) = shown v" "shown (reconnectTab i v) = shown v"
  "shown (resume_now i e v) = shown v" "shown (authenticate k i token v) = shown v" "shown (toggle_split b v) = shown v"
  by (simp_all add: endTab_def connectWS_def reconnectTab_def resume_now_def authenticate_def toggle_split_def Let_def
      split: option.split)

lemma shown_queue [simp]: "shown (queueLine i e v) j = shown v j @ (if j = i then [e] else [])"
  by (auto simp: queueLine_def shown_def get_or_def split: option.split)

lemma shown_line [simp]: "shown (show_line i l v) j = shown v j @ (if j = i then [LogText l] else [])"
  by (simp add: show_line_def split: option.split)

text \<open>What a message adds.\<close>

definition adds :: "nat \<Rightarrow> bool \<Rightarrow> log_message \<Rightarrow> log_viewer \<Rightarrow> log_entry list" where
  "adds i resume msg v =
    (case msg of
       Subscribed \<Rightarrow> if resume then [ReconnectedMarker] else []
     | LogData line \<Rightarrow>
         (case resumeAfter v i of
            Some after \<Rightarrow> if isReplayedLine line after then [] else [LogText line]
          | None \<Rightarrow> [LogText line])
     | _ \<Rightarrow> [])"

lemma shown_message: "shown (handle_message k i resume msg v) j = shown v j @ (if j = i then adds i resume msg v else [])"
  by (simp add: handle_message_def adds_def Let_def split: log_message.split option.split)

lemma shown_flush: "\<exists>xs. shown v i = xs @ shown (flushPendingLines v) i"
proof -
  have "shown (flushPendingLines v) i = shown v i \<or> shown (flushPendingLines v) i = keep_last MAX_LINES (shown v i)"
    by (auto simp: shown_def flushPendingLines_def flush_lines_def flush_drops_def get_or_def Let_def split: option.split)
  then show ?thesis unfolding keep_last_def by (metis append_Nil append_take_drop_id)
qed

section \<open>One opening of a tab\<close>

text \<open>
  A tab starts over when the effect runs (a tab was selected, the mode or the instance changed), when
  the tab becomes the second one of a split view, and when a snapshot replaces its lines. \<open>recent\<close>
  holds what a tab was given since.
\<close>

definition starts_over :: "log_event \<Rightarrow> log_viewer \<Rightarrow> nat \<Rightarrow> bool" where
  "starts_over ev v i =
    (case ev of
       LogEffects \<Rightarrow> True
     | LogPrevious b \<Rightarrow> True
     | LogUnmount \<Rightarrow> True
     | LogSnapshot p answer \<Rightarrow> i = fst p \<and> snd p = snapshotGen v
     | LogSplit b \<Rightarrow> b \<and> i = (if activeTab v = 0 then 1 else 0)
     | _ \<Rightarrow> False)"

definition since_start ::
  "log_event \<Rightarrow> log_viewer \<Rightarrow> log_viewer \<Rightarrow> (nat \<Rightarrow> log_entry list) \<Rightarrow> nat \<Rightarrow> log_entry list" where
  "since_start ev v v' recent i =
    (if starts_over ev v i then [] else recent i @ drop (length (shown v i)) (shown v' i))"

text \<open>
  What the server promises: it acknowledges a connection once, before its lines; each line has a
  timestamp, none earlier than the line before. \<open>s k\<close> is what it has sent on socket \<open>k\<close>: nothing yet, the
  acknowledgement, or a line with that timestamp.
\<close>

definition server_sends :: "(nat \<rightharpoonup> stamp option) \<Rightarrow> nat \<Rightarrow> log_message \<Rightarrow> (nat \<rightharpoonup> stamp option) option" where
  "server_sends s k msg =
    (case msg of
       Subscribed \<Rightarrow> if s k = None then Some (s(k \<mapsto> None)) else None
     | LogData line \<Rightarrow>
         (case (s k, logLineTimestamp line) of
            (Some q, Some ts) \<Rightarrow>
              if (case q of None \<Rightarrow> True | Some r \<Rightarrow> \<not> laterThan r ts) then Some (s(k \<mapsto> Some ts)) else None
          | _ \<Rightarrow> None)
     | _ \<Rightarrow> Some s)"

definition server_step :: "(nat \<rightharpoonup> stamp option) \<Rightarrow> log_event \<Rightarrow> (nat \<rightharpoonup> stamp option) option" where
  "server_step s ev = (case ev of LogMessage k msg \<Rightarrow> server_sends s k msg | _ \<Rightarrow> Some s)"

fun tail_run ::
  "log_event list \<Rightarrow> (nat \<rightharpoonup> stamp option) \<Rightarrow> (nat \<Rightarrow> log_entry list) \<Rightarrow> log_viewer \<Rightarrow>
   ((nat \<Rightarrow> log_entry list) \<times> log_viewer) option" where
  "tail_run [] s recent v = Some (recent, v)"
| "tail_run (ev # evs) s recent v =
    (case (server_step s ev, log_step ev v) of
       (Some s', Some v') \<Rightarrow> tail_run evs s' (since_start ev v v' recent) v'
     | _ \<Rightarrow> None)"

subsection \<open>What is recent is at the end of what is shown\<close>

definition same_end :: "'a list \<Rightarrow> 'a list \<Rightarrow> bool" where
  "same_end xs ys \<longleftrightarrow> (\<exists>old. xs = old @ ys \<or> ys = old @ xs)"

lemma same_end_Nil [simp]: "same_end xs []"
  by (auto simp: same_end_def)

lemma same_end_append: "same_end xs ys \<Longrightarrow> same_end (xs @ zs) (ys @ zs)"
  by (auto simp: same_end_def)

lemma same_end_suffix: "same_end (old @ xs) ys \<Longrightarrow> same_end xs ys"
  unfolding same_end_def by (metis append_assoc append_eq_append_conv2)

text \<open>Only a message adds lines; the flush of a frame can drop the oldest.\<close>

lemma shown_step:
  assumes "log_step ev v = Some v'" "\<not> starts_over ev v i"
  shows "(\<exists>xs. shown v i = xs @ shown v' i) \<or> (\<exists>k msg new. ev = LogMessage k msg \<and> shown v' i = shown v i @ new)"
proof (cases ev)
  case (LogMessage k msg)
  then show ?thesis
    using assms(1) by (auto simp: log_step_def socket_message_def shown_message split: option.splits if_splits)
next
  case LogFrame
  then show ?thesis using assms(1) shown_flush by (auto simp: log_step_def split: if_splits)
next
  case (LogSnapshot p answer)
  have "shown (updateTabState j u w) i = shown w i" if "i \<noteq> j" for j u w
    using that by (simp add: shown_def updateTabState_def)
  then show ?thesis
    using assms LogSnapshot by (auto simp: log_step_def starts_over_def snapshot_answered_def Let_def split: if_splits)
qed (use assms in \<open>auto simp: log_step_def log_control_def starts_over_def socket_opened_def token_ready_def socket_closed_def
    socket_errored_def timer_fired_def Let_def split: option.splits if_splits\<close>)

lemma recent_step:
  assumes "log_step ev v = Some v'" "same_end (shown v i) (recent i)"
  shows "same_end (shown v' i) (since_start ev v v' recent i)"
proof (cases "starts_over ev v i")
  case True
  then show ?thesis by (simp add: since_start_def)
next
  case False
  from shown_step [OF assms(1) False] show ?thesis
  proof (elim disjE exE conjE)
    fix xs assume "shown v i = xs @ shown v' i"
    then show ?thesis using assms(2) False same_end_suffix [of xs] by (simp add: since_start_def)
  next
    fix new assume "shown v' i = shown v i @ new"
    then show ?thesis using assms(2) False same_end_append by (simp add: since_start_def)
  qed
qed

lemma recent_quiet:
  assumes "log_step ev v = Some v'" "\<And>k msg. ev \<noteq> LogMessage k msg"
  shows "since_start ev v v' recent i = recent i \<or> since_start ev v v' recent i = []"
  using shown_step [OF assms(1), of i] assms(2) by (auto simp: since_start_def)

section \<open>The lines of one opening\<close>

text \<open>A connection: its socket, and whether it is a resume.\<close>

definition connection :: "log_viewer \<Rightarrow> nat \<Rightarrow> (nat \<times> bool) option" where
  "connection v i =
    (case wsRefs v i of
       None \<Rightarrow> None
     | Some k \<Rightarrow> Some (k, case lv_sockets v k of None \<Rightarrow> False | Some s \<Rightarrow> so_resume s))"

text \<open>The last line shown is not later than the last one sent.\<close>

definition sent_up_to :: "stamp option \<Rightarrow> stamp option option \<Rightarrow> bool" where
  "sent_up_to p x = (case (p, x) of (Some r, Some (Some q)) \<Rightarrow> \<not> laterThan r q | _ \<Rightarrow> False)"

definition tab_ok ::
  "(nat \<rightharpoonup> stamp option) \<Rightarrow> log_entry list \<Rightarrow> stamp option \<Rightarrow> stamp option option \<Rightarrow> (nat \<times> bool) option \<Rightarrow> bool" where
  "tab_ok s es p after conn \<longleftrightarrow>
    in_order es \<and> bounded p es \<and>
    (case after of
       Some a \<Rightarrow> a = p
     | None \<Rightarrow> joins_before p es \<and>
         (case conn of
            None \<Rightarrow> True
          | Some (k, resume) \<Rightarrow> (resume \<longrightarrow> s k \<noteq> None) \<and> (bounded None es \<or> sent_up_to p (s k))))"

definition tail_ok :: "(nat \<rightharpoonup> stamp option) \<Rightarrow> (nat \<Rightarrow> log_entry list) \<Rightarrow> log_viewer \<Rightarrow> bool" where
  "tail_ok s recent v \<longleftrightarrow> (\<forall>i. tab_ok s (recent i) (lastTimestamp v i) (resumeAfter v i) (connection v i))"

lemma tailD: "tail_ok s recent v \<Longrightarrow> tab_ok s (recent i) (lastTimestamp v i) (resumeAfter v i) (connection v i)"
  by (simp add: tail_ok_def)

lemma tab_ok_closed: "tab_ok s es p after conn \<Longrightarrow> tab_ok s es p after None"
  by (cases after) (simp_all add: tab_ok_def)

lemma tab_ok_restart: "tab_ok s es p after conn \<Longrightarrow> tab_ok s [] p after conn"
  by (cases after) (auto simp: tab_ok_def split: option.splits)

lemma tab_ok_fresh: "tab_ok s [] p None (Some (k, False))"
  by (simp add: tab_ok_def)

lemma tab_ok_replay: "tab_ok s es p after conn \<Longrightarrow> tab_ok s es p (Some p) conn'"
  by (simp add: tab_ok_def)

lemma tail_cong:
  assumes "tail_ok s recent v" "lastTimestamp w = lastTimestamp v" "resumeAfter w = resumeAfter v"
    "\<And>i. connection w i = connection v i \<or> connection w i = None" "\<And>i. recent' i = recent i \<or> recent' i = []"
  shows "tail_ok s recent' w"
  unfolding tail_ok_def
proof
  fix i
  have "tab_ok s (recent' i) (lastTimestamp v i) (resumeAfter v i) (connection v i)"
    using tailD [OF assms(1), of i] tab_ok_restart assms(5) [of i] by auto
  then show "tab_ok s (recent' i) (lastTimestamp w i) (resumeAfter w i) (connection w i)"
    using assms(4) [of i] tab_ok_closed unfolding assms(2,3) by metis
qed

lemma tail_restart: "tail_ok s recent v \<Longrightarrow> (\<And>i. recent' i = recent i \<or> recent' i = []) \<Longrightarrow> tail_ok s recent' v"
  by (erule tail_cong) simp_all

text \<open>A step of one tab.\<close>

lemma tail_at:
  assumes "tail_ok s recent v" "tab_ok s' (recent' i) (lastTimestamp w i) (resumeAfter w i) (connection w i)"
    "\<And>j. j \<noteq> i \<Longrightarrow> recent' j = recent j \<and> lastTimestamp w j = lastTimestamp v j \<and>
      resumeAfter w j = resumeAfter v j \<and> connection w j = connection v j"
    "\<And>j k f. j \<noteq> i \<Longrightarrow> connection v j = Some (k, f) \<Longrightarrow> s' k = s k"
  shows "tail_ok s' recent' w"
  unfolding tail_ok_def
proof
  fix j
  show "tab_ok s' (recent' j) (lastTimestamp w j) (resumeAfter w j) (connection w j)"
  proof (cases "j = i")
    case False
    have "tab_ok s' (recent j) (lastTimestamp v j) (resumeAfter v j) (connection v j)"
      using tailD [OF assms(1), of j] assms(4) [OF False]
      by (cases "connection v j"; cases "resumeAfter v j") (auto simp: tab_ok_def)
    with assms(3) [OF False] show ?thesis by simp
  qed (use assms(2) in simp)
qed

subsection \<open>Steps without a message\<close>

lemma same_update [simp]:
  "lastTimestamp (updateTabState i u v) = lastTimestamp v" "resumeAfter (updateTabState i u v) = resumeAfter v"
  "connection (updateTabState i u v) = connection v"
  "lastTimestamp (queueLine i e v) = lastTimestamp v" "resumeAfter (queueLine i e v) = resumeAfter v"
  "connection (queueLine i e v) = connection v"
  by (simp_all add: updateTabState_def queueLine_def connection_def fun_eq_iff cong: option.case_cong)

lemma tail_frame [simp]:
  "tail_ok s r (v\<lparr>triesRef := a\<rparr>) = tail_ok s r v" "tail_ok s r (v\<lparr>retryTimers := b\<rparr>) = tail_ok s r v"
  "tail_ok s r (v\<lparr>lv_resuming := c\<rparr>) = tail_ok s r v" "tail_ok s r (v\<lparr>lv_awaiting := d\<rparr>) = tail_ok s r v"
  "tail_ok s r (v\<lparr>lv_sent := e\<rparr>) = tail_ok s r v" "tail_ok s r (v\<lparr>lv_loading := f\<rparr>) = tail_ok s r v"
  "tail_ok s r (v\<lparr>flushRafId := f\<rparr>) = tail_ok s r v" "tail_ok s r (v\<lparr>pendingDrops := g\<rparr>) = tail_ok s r v"
  "tail_ok s r (v\<lparr>pendingLines := h\<rparr>) = tail_ok s r v" "tail_ok s r (v\<lparr>snapshotGen := n\<rparr>) = tail_ok s r v"
  "tail_ok s r (v\<lparr>lv_snapshots := j\<rparr>) = tail_ok s r v" "tail_ok s r (v\<lparr>lv_deps := k\<rparr>) = tail_ok s r v"
  "tail_ok s r (v\<lparr>lv_mounted := f\<rparr>) = tail_ok s r v" "tail_ok s r (v\<lparr>activeTab := n\<rparr>) = tail_ok s r v"
  "tail_ok s r (v\<lparr>lv_mode := m\<rparr>) = tail_ok s r v" "tail_ok s r (v\<lparr>splitView := f\<rparr>) = tail_ok s r v"
  "tail_ok s r (v\<lparr>splitTab := n\<rparr>) = tail_ok s r v" "tail_ok s r (updateTabState i u v) = tail_ok s r v"
  "tail_ok s r (queueLine i l v) = tail_ok s r v"
  by (simp_all add: tail_ok_def connection_def cong: option.case_cong)

lemma tail_flush [simp]: "tail_ok s r (flushPendingLines v) = tail_ok s r v"
  by (simp add: tail_ok_def flushPendingLines_def connection_def cong: option.case_cong)

lemma tail_snapshot [simp]: "tail_ok s r (fetchSnapshot i v) = tail_ok s r v"
  by (simp add: fetchSnapshot_def Let_def)

lemma tail_sockets:
  assumes "tail_ok s r v"
  shows "tail_ok s r (cancelResume i v)" "tail_ok s r (drop_ref i v)" "tail_ok s r (close_socket k v)"
    "tail_ok s r ((close_socket k v)\<lparr>wsRefs := (wsRefs (close_socket k v))(i := None)\<rparr>)"
    "tail_ok s r (set_socket k (\<lambda>s. s\<lparr>so_ended := True\<rparr>) v)" "tail_ok s r (set_socket k (\<lambda>s. s\<lparr>so_subscribed := True\<rparr>) v)"
  by (rule tail_cong [OF assms];
      auto simp: cancelResume_def drop_ref_def close_socket_def set_socket_def connection_def Let_def split: option.splits)+

lemma tail_close: "tail_ok s r v \<Longrightarrow> tail_ok s r (closeTabWS i v)"
  by (simp add: closeTabWS_def tail_sockets)

lemma tail_endTab: "tail_ok s r v \<Longrightarrow> tail_ok s r (endTab i frame v)"
  by (simp add: endTab_def Let_def tail_close)

lemma tail_authenticate: "tail_ok s r v \<Longrightarrow> tail_ok s r (authenticate k i token v)"
  by (simp add: authenticate_def Let_def tail_sockets split: option.split)

lemma same_connect:
  assumes "viewer_ok v" "i < length (allContainers v)"
  shows "lastTimestamp (connectWS i resume v) = lastTimestamp v"
    "resumeAfter (connectWS i resume v) = (resumeAfter v)(i := if resume then Some (lastTimestamp v i) else None)"
    "connection (connectWS i resume v) j = (if j = i then Some (lv_next v, resume) else connection v j)"
proof -
  have k: "wsRefs v j = Some m \<Longrightarrow> m \<noteq> lv_next v" for m
    using assms(1) by (auto simp: viewer_ok_def refs_ok_def)
  show "lastTimestamp (connectWS i resume v) = lastTimestamp v"
    "resumeAfter (connectWS i resume v) = (resumeAfter v)(i := if resume then Some (lastTimestamp v i) else None)"
    using assms(2) by (auto simp: connectWS_def Let_def closeTabWS_def drop_ref_def cancelResume_def close_socket_def
        split: option.split)
  show "connection (connectWS i resume v) j = (if j = i then Some (lv_next v, resume) else connection v j)"
    using assms(2) k by (auto simp: connectWS_def Let_def connection_def closeTabWS_def drop_ref_def cancelResume_def
        close_socket_def split: option.splits)
qed

lemma tail_connect:
  assumes "tail_ok s r v" "viewer_ok v" "resume \<or> r i = []"
  shows "tail_ok s r (connectWS i resume v)"
proof (cases "i < length (allContainers v)")
  case True
  have "tab_ok s (r i) (lastTimestamp v i) (if resume then Some (lastTimestamp v i) else None) (Some (lv_next v, resume))"
    using tab_ok_replay [OF tailD [OF assms(1), of i]] tab_ok_fresh assms(3) by (cases resume) auto
  then show ?thesis by (intro tail_at [OF assms(1), where i = i]) (simp_all add: same_connect [OF assms(2) True])
qed (use assms in \<open>simp add: connectWS_def\<close>)

lemma tail_folds:
  assumes "tail_ok s r v"
  shows "tail_ok s r (foldl (\<lambda>u i. cancelResume i (drop_ref i u)) v is)" "tail_ok s r (foldl close_live v is)"
  using assms by (induction "is" arbitrary: v) (simp_all add: close_live_def tail_sockets tail_close)

lemma tail_cleanup: "tail_ok s r v \<Longrightarrow> tail_ok s r (log_cleanup v)"
  by (simp add: log_cleanup_def tail_folds)

lemma tail_effect:
  "tail_ok s (\<lambda>i. []) v \<Longrightarrow> viewer_ok v \<Longrightarrow> tail_ok s (\<lambda>i. []) (log_effect v)"
  by (simp add: log_effect_def Let_def tail_connect viewer_connect tail_folds split: log_mode.split)

lemma tail_effects:
  assumes "tail_ok s r v" "viewer_ok v" "run_effects v = Some v'"
  shows "tail_ok s (\<lambda>i. []) v'"
proof -
  have "tail_ok s (\<lambda>i. []) v" by (rule tail_restart [OF assms(1)]) simp
  with assms(2,3) show ?thesis
    by (auto simp: run_effects_def tail_effect tail_cleanup viewer_cleanup split: if_splits)
qed

lemma previous_closes:
  "wsRefs (foldl (\<lambda>u i. if wsRefs u i = None then u else closeTabWS i u) v is) i = (if i \<in> set is then None else wsRefs v i)"
  by (induction "is" rule: rev_induct)
    (auto simp: closeTabWS_def drop_ref_def cancelResume_def close_socket_def Let_def split: option.splits)

lemma tail_previous:
  assumes "viewer_ok v"
  shows "tail_ok s (\<lambda>i. []) (toggle_previous b v)"
proof -
  have "wsRefs (toggle_previous b v) i = None" for i
    using assms by (auto simp: toggle_previous_def Let_def previous_closes viewer_ok_def refs_ok_def)
      (metis option.exhaust)
  then show ?thesis
    by (simp add: tail_ok_def connection_def tab_ok_def) (simp add: toggle_previous_def Let_def)
qed

lemma tail_split:
  assumes "tail_ok s r v" "viewer_ok v" "b \<longrightarrow> r (if activeTab v = 0 then 1 else 0) = []"
  shows "tail_ok s r (toggle_split b v)"
  using assms by (simp add: toggle_split_def Let_def tail_connect tail_close)

subsection \<open>Messages\<close>

lemma current_connection:
  assumes "viewer_ok v" "lv_sockets v k = Some so" "wsRefs v (so_tab so) = Some k"
  shows "connection v (so_tab so) = Some (k, so_resume so)" "j \<noteq> so_tab so \<Longrightarrow> connection v j \<noteq> Some (k, f)"
proof -
  show "connection v (so_tab so) = Some (k, so_resume so)" using assms(2,3) by (simp add: connection_def)
  have "wsRefs v j \<noteq> Some k" if "j \<noteq> so_tab so"
    using assms that unfolding viewer_ok_def refs_ok_def by (metis option.inject)
  then show "j \<noteq> so_tab so \<Longrightarrow> connection v j \<noteq> Some (k, f)" by (auto simp: connection_def split: option.split)
qed

text \<open>What the server sends beyond what a tab takes keeps the tab in order.\<close>

lemma sends_more:
  assumes "server_sends s k msg = Some s'" "tab_ok s es p after conn"
  shows "tab_ok s' es p after conn"
proof -
  have "s' j = s j \<or> s j = None \<or> (\<exists>q. s j = Some None \<and> s' j = Some (Some q)) \<or>
    (\<exists>q q'. s j = Some (Some q) \<and> s' j = Some (Some q') \<and> \<not> laterThan q q')" for j
    using assms(1) by (auto simp: server_sends_def split: log_message.splits option.splits if_splits)
  moreover have "\<not> laterThan r q'" if "\<not> laterThan r q" "\<not> laterThan q q'" for r q q'
    using that not_later_trans by blast
  ultimately have "(s j \<noteq> None \<longrightarrow> s' j \<noteq> None) \<and> (sent_up_to p (s j) \<longrightarrow> sent_up_to p (s' j))" for j
    by (elim meta_allE [of _ j] disjE exE conjE) (auto simp: sent_up_to_def split: option.splits)
  then show ?thesis using assms(2) by (auto simp: tab_ok_def split: option.splits)
qed

lemma tail_sends: "server_sends s k msg = Some s' \<Longrightarrow> tail_ok s r v \<Longrightarrow> tail_ok s' r v"
  using sends_more by (auto simp: tail_ok_def)

lemma tab_acknowledged:
  assumes "tab_ok s es p after (Some (k, True))" "s k = None"
  shows "tab_ok s' (es @ [ReconnectedMarker]) p after conn"
  using assms by (cases after) (simp_all add: tab_ok_def order_marker bounded_marker)

lemma tab_line:
  assumes "tab_ok s es p after (Some (k, resume))" "server_sends s k (LogData l) = Some s'" "logLineTimestamp l = Some ts"
    "case after of None \<Rightarrow> True | Some a \<Rightarrow> \<not> isReplayedLine l a"
  shows "tab_ok s' (es @ [LogText l]) (Some ts) None (Some (k, resume))"
proof -
  have es: "in_order es" "bounded p es" using assms(1) by (simp_all add: tab_ok_def)
  obtain x where x: "s k = Some x" "s' k = Some (Some ts)" "x = Some q \<Longrightarrow> \<not> laterThan q ts" for q
    using assms(2,3) by (auto simp: server_sends_def split: option.splits if_splits)
  have "in_order (es @ [LogText l]) \<and> bounded (Some ts) (es @ [LogText l]) \<and> joins_before (Some ts) (es @ [LogText l])"
  proof (cases "bounded None es")
    case True
    with assms(3) no_lines [OF True, of "[LogText l]" "Some ts"] show ?thesis by (simp add: up_to_def)
  next
    case False
    then obtain q where q: "p = Some q" using es by (cases p) auto
    show ?thesis
    proof (cases after)
      case None
      with assms(1) False x q have "joins_before (Some q) es" "sent_up_to (Some q) (s k)" by (auto simp: tab_ok_def)
      moreover from this(2) obtain q' where "x = Some q'" "\<not> laterThan q q'"
        using x(1) by (auto simp: sent_up_to_def split: option.splits)
      with x(3) have "\<not> laterThan q ts" using not_later_trans by blast
      ultimately show ?thesis using order_line [of es q l ts] es q assms(3) by simp
    next
      case (Some a)
      with assms(1,3,4) q have "laterThan ts q" by (simp add: tab_ok_def isReplayedLine_def)
      with order_later [of es q l ts] es q assms(3) show ?thesis by simp
    qed
  qed
  with x show ?thesis by (simp add: tab_ok_def sent_up_to_def)
qed

lemma same_show_line:
  assumes "logLineTimestamp l = Some ts"
  shows "lastTimestamp (show_line i l v) = (lastTimestamp v)(i \<mapsto> ts)" "resumeAfter (show_line i l v) = resumeAfter v"
    "connection (show_line i l v) = connection v"
  using assms by (simp_all add: show_line_def connection_def fun_eq_iff cong: option.case_cong)

lemma tail_line:
  assumes "tail_ok s r v" "viewer_ok v" "lv_sockets v k = Some so" "wsRefs v (so_tab so) = Some k"
    "server_sends s k (LogData l) = Some s'"
  shows "tail_ok s' (r(so_tab so := r (so_tab so) @ adds (so_tab so) f (LogData l) v))
    (handle_message k (so_tab so) f (LogData l) v)"
proof -
  let ?i = "so_tab so"
  obtain ts where ts: "logLineTimestamp l = Some ts"
    using assms(5) by (auto simp: server_sends_def split: option.splits)
  note c = current_connection [OF assms(2-4)]
  have t: "tab_ok s (r ?i) (lastTimestamp v ?i) (resumeAfter v ?i) (Some (k, so_resume so))"
    using tailD [OF assms(1), of ?i] c(1) by simp
  have other: "s' k' = s k'" if "j \<noteq> ?i" "connection v j = Some (k', g)" for j k' g
    using c(2) that assms(5) by (cases "k' = k") (auto simp: server_sends_def split: option.splits if_splits)
  define u where "u = v\<lparr>resumeAfter := (resumeAfter v)(?i := None)\<rparr>"
  have u: "lastTimestamp u = lastTimestamp v" "resumeAfter u = (resumeAfter v)(?i := None)" "connection u = connection v"
    by (simp_all add: u_def connection_def fun_eq_iff cong: option.case_cong)
  have line: "tail_ok s' (r(?i := r ?i @ [LogText l])) (show_line ?i l u)"
    if g: "case resumeAfter v ?i of None \<Rightarrow> True | Some a \<Rightarrow> \<not> isReplayedLine l a"
    using tab_line [OF t assms(5) ts g] other
    by (intro tail_at [OF assms(1), where i = ?i]) (simp_all add: same_show_line [OF ts] u c(1))
  have "u = v" if "resumeAfter v ?i = None" using that by (simp add: u_def fun_upd_idem)
  with line tail_sends [OF assms(5,1)] show ?thesis
    by (auto simp: handle_message_def adds_def u_def [symmetric] split: option.split)
qed

lemma tail_acknowledge:
  assumes "tail_ok s r v" "viewer_ok v" "lv_sockets v k = Some so" "wsRefs v (so_tab so) = Some k"
    "server_sends s k Subscribed = Some s'"
  shows "tail_ok s' (r(so_tab so := r (so_tab so) @ adds (so_tab so) (so_resume so) Subscribed v))
    (handle_message k (so_tab so) (so_resume so) Subscribed v)"
proof -
  let ?i = "so_tab so"
  have k: "s k = None" "s' = s(k \<mapsto> None)" using assms(5) by (auto simp: server_sends_def split: if_splits)
  have t: "tab_ok s (r ?i) (lastTimestamp v ?i) (resumeAfter v ?i) (Some (k, True))" if g: "so_resume so"
    using tailD [OF assms(1), of ?i] current_connection(1) [OF assms(2-4)] g by simp
  have "tail_ok s' (r(?i := r ?i @ [ReconnectedMarker])) v" if g: "so_resume so"
    using tab_acknowledged [OF t [OF g] k(1)] current_connection(2) [OF assms(2-4)] k(2)
    by (intro tail_at [OF assms(1), where i = ?i]) auto
  then show ?thesis
    using tail_sends [OF assms(5,1)] by (simp add: handle_message_def adds_def Let_def tail_sockets)
qed

lemma tail_message:
  assumes "tail_ok s r v" "viewer_ok v" "server_sends s k msg = Some s'" "socket_message k msg v = Some v'"
  shows "tail_ok s' (since_start (LogMessage k msg) v v' r) v'"
proof -
  obtain so where so: "lv_sockets v k = Some so" using assms(4) by (auto simp: socket_message_def split: option.splits)
  have m: "tail_ok s' r v" by (rule tail_sends [OF assms(3,1)])
  show ?thesis
  proof (cases "lv_mode v = FollowMode \<and> wsRefs v (so_tab so) = Some k")
    case False
    then have "v' = v" using assms(4) so by (auto simp: socket_message_def)
    moreover have "since_start (LogMessage k msg) v v r = r" by (simp add: since_start_def starts_over_def fun_eq_iff)
    ultimately show ?thesis using m by simp
  next
    case True
    let ?i = "so_tab so" and ?f = "so_resume so"
    have v': "v' = handle_message k ?i ?f msg v" using True assms(4) so by (simp add: socket_message_def)
    have r: "since_start (LogMessage k msg) v v' r = r(?i := r ?i @ adds ?i ?f msg v)"
      by (auto simp: since_start_def starts_over_def v' shown_message)
    have "tail_ok s' (r(?i := r ?i @ adds ?i ?f msg v)) (handle_message k ?i ?f msg v)"
    proof (cases msg)
      case (LogData l)
      then show ?thesis using tail_line [OF assms(1,2) so] True assms(3) by simp
    next
      case Subscribed
      then show ?thesis using tail_acknowledge [OF assms(1,2) so] True assms(3) by simp
    qed (use m in \<open>auto simp: adds_def handle_message_def tail_endTab tail_sockets\<close>)
    then show ?thesis unfolding r unfolding v' .
  qed
qed

subsection \<open>Every step\<close>

lemma tail_quiet:
  assumes "tail_ok s r v" "viewer_ok v" "log_step ev v = Some v'" "\<And>k msg. ev \<noteq> LogMessage k msg"
    "ev \<noteq> LogEffects" "\<And>b. ev \<noteq> LogPrevious b" "\<And>b. ev = LogSplit b \<Longrightarrow> b \<Longrightarrow> r (if activeTab v = 0 then 1 else 0) = []"
  shows "tail_ok s r v'"
proof (cases ev)
  case (LogTimer i)
  with assms viewer_notimer [OF assms(2), of i] show ?thesis
    by (auto simp: log_step_def timer_fired_def resume_now_def Let_def intro!: tail_connect split: option.splits if_splits)
next
  case (LogRefreshed p)
  with assms viewer_refreshing [OF assms(2), of p] show ?thesis
    by (auto simp: log_step_def resume_now_def intro!: tail_connect split: if_splits)
next
  case LogReconnect
  with assms viewer_tries [OF assms(2), of 0 "activeTab v"] show ?thesis
    by (auto simp: log_step_def log_control_def reconnectTab_def intro!: tail_connect split: if_splits)
next
  case (LogClosed k)
  with assms tail_sockets(3,4) [OF assms(1), of k] show ?thesis
    by (auto simp: log_step_def socket_closed_def Let_def intro!: tail_endTab split: option.splits if_splits)
next
  case (LogSplit b)
  with assms show ?thesis by (auto simp: log_step_def log_control_def intro!: tail_split split: if_splits)
qed (use assms in \<open>auto simp: log_step_def log_control_def socket_opened_def token_ready_def socket_errored_def
    snapshot_answered_def Let_def intro!: tail_authenticate tail_cleanup split: option.splits if_splits\<close>)

lemma tail_step:
  assumes "tail_ok s r v" "viewer_ok v" "server_step s ev = Some s'" "log_step ev v = Some v'"
  shows "tail_ok s' (since_start ev v v' r) v'"
proof (cases "\<exists>k msg. ev = LogMessage k msg")
  case True
  then show ?thesis
    using tail_message [OF assms(1,2)] assms(3,4) by (auto simp: server_step_def log_step_def)
next
  case False
  then have s: "s' = s" using assms(3) by (auto simp: server_step_def split: log_event.splits)
  let ?r = "since_start ev v v' r"
  have q: "tail_ok s ?r v"
    using recent_quiet [OF assms(4)] False by (intro tail_restart [OF assms(1)]) blast
  consider "ev = LogEffects" | b where "ev = LogPrevious b" | "ev \<noteq> LogEffects" "\<And>b. ev \<noteq> LogPrevious b" by blast
  then show ?thesis
  proof cases
    case 1
    then have "?r = (\<lambda>i. [])" by (simp add: since_start_def starts_over_def fun_eq_iff)
    with tail_effects [OF assms(1,2)] assms(4) 1 s show ?thesis by (simp add: log_step_def)
  next
    case 2
    then have "?r = (\<lambda>i. [])" by (simp add: since_start_def starts_over_def fun_eq_iff)
    with tail_previous [OF assms(2)] assms(4) 2 s show ?thesis
      by (auto simp: log_step_def log_control_def split: if_splits)
  next
    case 3
    have "?r (if activeTab v = 0 then 1 else 0) = []" if "ev = LogSplit b" b for b
      using that by (simp add: since_start_def starts_over_def)
    with tail_quiet [OF q assms(2,4)] 3 False s show ?thesis by blast
  qed
qed

lemma tail_start: "tail_ok s (\<lambda>i. []) (open_viewer n names t)"
  by (simp add: tail_ok_def tab_ok_def connection_def open_viewer_def)

lemma tail_run_ok:
  "tail_run evs s recent v = Some (recent', v') \<Longrightarrow> tail_ok s recent v \<Longrightarrow> viewer_ok v \<Longrightarrow>
   same_end (shown v i) (recent i) \<Longrightarrow> (\<exists>s'. tail_ok s' recent' v') \<and> same_end (shown v' i) (recent' i)"
proof (induction evs arbitrary: s recent v)
  case (Cons ev evs)
  then obtain s1 v1 where "server_step s ev = Some s1" "log_step ev v = Some v1"
    "tail_run evs s1 (since_start ev v v1 recent) v1 = Some (recent', v')"
    by (auto split: option.splits)
  with Cons tail_step viewer_step recent_step show ?case by blast
qed auto

section \<open>Properties\<close>

text \<open>
  Claim C16. Within one opening of a tab a followed log never repeats itself or goes back. Whatever
  the user does with the controls, however often a tab's connection ends and is resumed, by the
  backoff, after a session refresh or by hand, and whatever arrives late from sockets already
  replaced, what a tab was given since it last started over is in the order of the timestamps, and
  every line past a \<open>reconnected\<close> marker is later than all lines before it. It is what the tab shows
  at its end, up to the lines trimmed at the maximum. A tab starts over when it is connected afresh:
  lines left on it from before may come again. The server is assumed to acknowledge a connection
  once, before its lines, and to send them with timestamps and in order.
\<close>

theorem resumed_tail_in_order:
  assumes "tail_run evs Map.empty (\<lambda>i. []) (open_viewer n names t) = Some (recent, v)"
  shows "in_order (recent i) \<and> (\<exists>old. shown v i = old @ recent i \<or> recent i = old @ shown v i)"
proof -
  have "(\<exists>s'. tail_ok s' recent v) \<and> same_end (shown v i) (recent i)"
    by (rule tail_run_ok [OF assms tail_start viewer_start(1)]) simp
  then show ?thesis using tailD unfolding tab_ok_def same_end_def by blast
qed

definition clock_at :: "nat \<Rightarrow> nat \<Rightarrow> instant" where
  "clock_at s ns = \<lparr>it_year = 2026, it_month = 11, it_day = 16, it_hour = 8, it_minute = 30, it_second = s, it_nanos = ns\<rparr>"

definition log_line :: "nat \<Rightarrow> nat \<Rightarrow> string \<Rightarrow> ustr" where
  "log_line s ns txt = rfc3339 (clock_at s ns) @ 32 # units txt"

definition interrupted :: "log_event list" where
  "interrupted =
    [LogEffects, LogOpened 0 (Some ''tok''), LogMessage 0 Subscribed, LogMessage 0 (LogData (log_line 1 0 ''a'')), LogFrame,
     LogSelectTab 1, LogEffects, LogSelectTab 0, LogEffects,
     LogOpened 2 (Some ''tok''), LogMessage 2 Subscribed, LogMessage 2 (LogData (log_line 1 0 ''a'')),
     LogMessage 2 (LogData (log_line 2 500000000 ''b'')),
     LogMessage 2 (ErrorFrame \<lparr>fr_reason = ''server_restarting'', fr_message = None, fr_retryable = True\<rparr>),
     LogTimer 0, LogOpened 3 (Some ''tok''), LogMessage 3 Subscribed,
     LogMessage 3 (LogData (log_line 1 0 ''a'')), LogMessage 3 (LogData (log_line 2 500000000 ''b'')),
     LogMessage 3 (LogData (log_line 2 750000000 ''c'')), LogMessage 2 (LogData (log_line 3 0 ''late'')), LogFrame]"

lemma line_stamp:
  assumes "s < 100" "ns < 1000000000"
  shows "logLineTimestamp (log_line s ns txt) = Some (date_text (clock_at s ns), ns)"
  using timestamp_of_line [of "clock_at s ns" 32 "units txt"] assms
  by (simp add: log_line_def clock_at_def instant_ok_def js_space_def)

lemma line_later:
  assumes "s < 100" "ns < 1000000000" "s' < 100" "ns' < 1000000000"
  shows "laterThan (date_text (clock_at s ns), ns) (date_text (clock_at s' ns'), ns') \<longleftrightarrow> s' < s \<or> s' = s \<and> ns' < ns"
  using stamp_order [of "clock_at s ns" "clock_at s' ns'"] assms
  by (simp add: clock_at_def instant_ok_def instant_fields_def)

lemmas log_eval =
  log_step_def log_control_def socket_opened_def authenticate_def token_ready_def socket_message_def handle_message_def
  set_socket_def show_line_def socket_closed_def timer_fired_def resume_now_def endTab_def connectWS_def closeTabWS_def
  drop_ref_def close_socket_def cancelResume_def updateTabState_def queueLine_def flushPendingLines_def flush_lines_def
  flush_drops_def keep_last_def MAX_LINES_def get_or_def getTabState_def log_effect_def open_viewer_def EMPTY_TAB_def
  no_fields_def RECONNECT_DELAYS_MS_def run_effects_def deps_of_def log_cleanup_def flushed_tabs_def Let_def

theorem resumed_tail_in_order_witness:
  "let t = \<lparr>ct_clusterId = ''prod'', ct_generation = ''g'', ct_epoch = 0\<rparr>
   in case tail_run interrupted Map.empty (\<lambda>i. []) (open_viewer 2 [''web'', ''db''] t) of
        None \<Rightarrow> False
      | Some (recent, v) \<Rightarrow>
          in_order (recent 0) \<and>
          recent 0 = [LogText (log_line 1 0 ''a''), LogText (log_line 2 500000000 ''b''), ReconnectedMarker,
                      LogText (log_line 2 750000000 ''c'')] \<and>
          shown v 0 = LogText (log_line 1 0 ''a'') # recent 0"
proof -
  define t where "t = \<lparr>ct_clusterId = ''prod'', ct_generation = ''g'', ct_epoch = 0\<rparr>"
  define ls where "ls = [LogText (log_line 1 0 ''a''), LogText (log_line 2 500000000 ''b''), ReconnectedMarker,
    LogText (log_line 2 750000000 ''c'')]"
  have "case tail_run interrupted Map.empty (\<lambda>i. []) (open_viewer 2 [''web'', ''db''] t) of
        None \<Rightarrow> False
      | Some (recent, v) \<Rightarrow> recent 0 = ls \<and> shown v 0 = LogText (log_line 1 0 ''a'') # ls"
    by (simp add: interrupted_def log_eval server_step_def server_sends_def since_start_def starts_over_def
        isReplayedLine_def line_stamp line_later shown_def ls_def)
  then obtain recent v where v: "tail_run interrupted Map.empty (\<lambda>i. []) (open_viewer 2 [''web'', ''db''] t) = Some (recent, v)"
    "recent 0 = ls" "shown v 0 = LogText (log_line 1 0 ''a'') # ls"
    by (auto split: option.splits)
  from resumed_tail_in_order [OF v(1), of 0] v show ?thesis by (simp add: t_def ls_def)
qed

text \<open>
  Claim C32. A viewer that was left opens nothing. Once the page is gone, no timer, session refresh,
  token or message still under way opens another connection or sends another frame, and no socket
  stays open.
\<close>

theorem closed_viewer_opens_nothing:
  assumes "log_run evs (open_viewer n names t) = Some v" "log_step LogUnmount v = Some u" "log_run later u = Some w"
  shows "lv_next w = lv_next u \<and> lv_sent w = lv_sent u \<and> (\<forall>k s. lv_sockets u k = Some s \<longrightarrow> \<not> so_open s)"
proof -
  have "viewer_ok v" using viewer_run [OF assms(1) viewer_start(1)] by blast
  moreover have "u = (log_cleanup v)\<lparr>lv_mounted := False\<rparr>"
    using assms(2) by (simp add: log_step_def log_control_def split: if_splits)
  ultimately have "left_page u" using unmount_leaves by simp
  with left_run [OF assms(3)] show ?thesis by (simp add: left_page_def)
qed

theorem closed_viewer_opens_nothing_witness:
  "let t = \<lparr>ct_clusterId = ''prod'', ct_generation = ''g'', ct_epoch = 0\<rparr>;
       evs = [LogEffects, LogOpened 0 (Some ''tok''), LogMessage 0 Subscribed,
              LogMessage 0 (ErrorFrame \<lparr>fr_reason = ''token_expired'', fr_message = None, fr_retryable = True\<rparr>), LogTimer 0]
   in case log_run (evs @ [LogUnmount]) (open_viewer 1 [''web''] t) of
        None \<Rightarrow> False
      | Some u \<Rightarrow> (case log_run [LogRefreshed (0, Some 2), LogClosed 0] u of
                    None \<Rightarrow> False | Some w \<Rightarrow> lv_next w = lv_next u \<and> lv_sent w = lv_sent u)"
proof -
  define t where "t = \<lparr>ct_clusterId = ''prod'', ct_generation = ''g'', ct_epoch = 0\<rparr>"
  define evs where "evs = [LogEffects, LogOpened 0 (Some ''tok''), LogMessage 0 Subscribed,
    LogMessage 0 (ErrorFrame \<lparr>fr_reason = ''token_expired'', fr_message = None, fr_retryable = True\<rparr>), LogTimer 0]"
  have "log_run (evs @ LogUnmount # [LogRefreshed (0, Some 2), LogClosed 0]) (open_viewer 1 [''web''] t) \<noteq> None"
    by (simp add: evs_def log_eval)
  then obtain v u w where r: "log_run evs (open_viewer 1 [''web''] t) = Some v" "log_step LogUnmount v = Some u"
    "log_run [LogRefreshed (0, Some 2), LogClosed 0] u = Some w"
    unfolding log_run_append by (auto simp del: log_run.simps(2) simp: log_run.simps(2) [of LogUnmount] split: option.splits)
  moreover have "log_run (evs @ [LogUnmount]) (open_viewer 1 [''web''] t) = Some u"
    using r(1,2) by (simp add: log_run_append)
  ultimately show ?thesis
    using closed_viewer_opens_nothing [OF r] unfolding t_def [symmetric] evs_def [symmetric] Let_def by simp
qed

text \<open>
  A viewer stays on the cluster it was opened for, and tries a broken stream three times at most
  before it says so.
\<close>

theorem log_stream_pinned:
  assumes "log_run evs (open_viewer n names t) = Some v"
  shows "(\<forall>(k, f, q) \<in> set (lv_sent v). af_clusterId f = ct_clusterId t \<and> tq_container q \<in> set names) \<and>
    (\<forall>i m. triesRef v i = Some m \<longrightarrow> m \<le> 3)"
proof -
  have "viewer_ok v" "opened_on v = (names, t)"
    using viewer_run [OF assms viewer_start(1)] viewer_start(2) by metis+
  then show ?thesis by (simp add: viewer_ok_def sent_ok_def opened_on_def RECONNECT_DELAYS_MS_def eval_nat_numeral)
qed


end
