(* ===== verification/Log_Viewer_Render.thy ===== *)
theory Log_Viewer_Render
  imports Log_Viewer_Runs
begin

text \<open>
  What the log viewer can render. Rendering a pane reads the number of its tab's lines: the tabs of
  containers always have lines, those of init containers have none until the first arrive.
\<close>

section \<open>Lines of a tab\<close>

text \<open>A tab whose state has lines keeps them; the panes shown are tabs of the pod.\<close>

definition lined :: "(nat \<rightharpoonup> tab_state) \<Rightarrow> nat \<Rightarrow> bool" where
  "lined m i = (case m i of None \<Rightarrow> False | Some st \<Rightarrow> ts_lines st \<noteq> None)"

lemma lined_update:
  "lined (tabStates v) i \<Longrightarrow> (\<And>st. ts_lines st \<noteq> None \<Longrightarrow> ts_lines (u st) \<noteq> None) \<Longrightarrow>
   lined (tabStates (updateTabState j u v)) i"
  by (auto simp: lined_def updateTabState_def get_or_def split: option.splits)

lemma lined_flush: "lined (tabStates v) i \<Longrightarrow> lined (tabStates (flushPendingLines v)) i"
  by (auto simp: lined_def flushPendingLines_def flush_lines_def flush_drops_def get_or_def Let_def split: option.splits)

definition panes :: "log_viewer \<Rightarrow> nat \<times> bool \<times> nat" where
  "panes v = (activeTab v, splitView v, splitTab v)"

lemma states_basic [simp]:
  "tabStates (closeTabWS i v) = tabStates v" "tabStates (close_socket k v) = tabStates v"
  "tabStates (set_socket k f v) = tabStates v" "tabStates (cancelResume i v) = tabStates v"
  "tabStates (drop_ref i v) = tabStates v" "tabStates (queueLine i l v) = tabStates v"
  "tabStates (show_line i line v) = tabStates v"
  by (simp_all add: closeTabWS_def drop_ref_def cancelResume_def close_socket_def set_socket_def queueLine_def show_line_def
      Let_def split: option.split)

lemma states_folds:
  "tabStates (foldl (\<lambda>u i. cancelResume i (drop_ref i u)) v is) = tabStates v"
  "tabStates (foldl (\<lambda>u i. if wsRefs u i = None then u else closeTabWS i u) v is) = tabStates v"
  by (induction "is" arbitrary: v) simp_all

lemma lined_live: "lined (tabStates v) i \<Longrightarrow> lined (tabStates (foldl close_live v is)) i"
  by (induction "is" arbitrary: v) (simp_all add: close_live_def lined_update)

lemma panes_basic [simp]:
  "panes (closeTabWS i v) = panes v" "panes (close_socket k v) = panes v" "panes (set_socket k f v) = panes v"
  "panes (cancelResume i v) = panes v" "panes (drop_ref i v) = panes v" "panes (queueLine i l v) = panes v"
  "panes (show_line i line v) = panes v" "panes (updateTabState i u v) = panes v" "panes (flushPendingLines v) = panes v"
  by (simp_all add: panes_def closeTabWS_def drop_ref_def cancelResume_def close_socket_def set_socket_def queueLine_def
      show_line_def updateTabState_def flushPendingLines_def Let_def split: option.split)

lemma panes_frame [simp]:
  "panes (v\<lparr>triesRef := a\<rparr>) = panes v" "panes (v\<lparr>retryTimers := b\<rparr>) = panes v" "panes (v\<lparr>wsRefs := c\<rparr>) = panes v"
  "panes (v\<lparr>lv_resuming := d\<rparr>) = panes v" "panes (v\<lparr>lv_awaiting := e\<rparr>) = panes v" "panes (v\<lparr>lv_sent := f\<rparr>) = panes v"
  "panes (v\<lparr>lv_loading := g\<rparr>) = panes v" "panes (v\<lparr>resumeAfter := h\<rparr>) = panes v" "panes (v\<lparr>lv_next := n\<rparr>) = panes v"
  "panes (v\<lparr>lv_sockets := so\<rparr>) = panes v" "panes (v\<lparr>lv_mode := m\<rparr>) = panes v" "panes (v\<lparr>pendingDrops := pd\<rparr>) = panes v"
  "panes (v\<lparr>flushRafId := g\<rparr>) = panes v" "panes (v\<lparr>lv_snapshots := sn\<rparr>) = panes v" "panes (v\<lparr>snapshotGen := n\<rparr>) = panes v"
  "panes (v\<lparr>lv_deps := dp\<rparr>) = panes v" "panes (v\<lparr>lv_mounted := g\<rparr>) = panes v" "panes (v\<lparr>pendingLines := pl\<rparr>) = panes v"
  "panes (v\<lparr>lastTimestamp := lt\<rparr>) = panes v" "panes (v\<lparr>tabStates := ts\<rparr>) = panes v" "panes (v\<lparr>lv_previous := g\<rparr>) = panes v"
  by (simp_all add: panes_def)

lemma lined_ops:
  assumes "lined (tabStates v) i"
  shows "lined (tabStates (endTab j frame v)) i" "lined (tabStates (connectWS j resume v)) i"
    "lined (tabStates (fetchSnapshot j v)) i" "lined (tabStates (authenticate k j token v)) i"
    "lined (tabStates (toggle_previous b v)) i"
  using assms
  by (auto simp: endTab_def connectWS_def fetchSnapshot_def authenticate_def Let_def intro!: lined_update split: option.split)
    (auto simp: toggle_previous_def Let_def lined_def cleared_def states_folds split: option.splits)

lemma panes_ops [simp]:
  "panes (endTab j frame v) = panes v" "panes (connectWS j resume v) = panes v" "panes (fetchSnapshot j v) = panes v"
  "panes (authenticate k j token v) = panes v" "panes (reconnectTab j v) = panes v" "panes (resume_now j e v) = panes v"
  by (simp_all add: endTab_def connectWS_def fetchSnapshot_def authenticate_def reconnectTab_def resume_now_def Let_def
      split: option.split)

lemma lined_more:
  assumes "lined (tabStates v) i"
  shows "lined (tabStates (reconnectTab j v)) i" "lined (tabStates (resume_now j e v)) i"
    "lined (tabStates (handle_message k j resume msg v)) i" "lined (tabStates (log_cleanup v)) i"
    "lined (tabStates (log_effect v)) i" "lined (tabStates (toggle_split b v)) i"
  using assms
  by (auto simp: reconnectTab_def resume_now_def handle_message_def log_cleanup_def log_effect_def toggle_split_def Let_def
      states_folds lined_live intro!: lined_ops lined_update split: log_message.split option.split log_mode.split)

lemma lined_step: "log_step ev v = Some v' \<Longrightarrow> lined (tabStates v) i \<Longrightarrow> lined (tabStates v') i"
  by (cases ev)
    (auto simp: log_step_def log_control_def socket_opened_def token_ready_def socket_message_def socket_closed_def
      socket_errored_def timer_fired_def snapshot_answered_def run_effects_def Let_def
      intro!: lined_ops lined_more lined_update lined_flush split: option.splits if_splits sum.splits)

lemma lined_run: "log_run evs v = Some v' \<Longrightarrow> lined (tabStates v) i \<Longrightarrow> lined (tabStates v') i"
  by (induction evs arbitrary: v) (auto dest: lined_step split: option.splits)

section \<open>The panes\<close>

definition panes_ok :: "log_viewer \<Rightarrow> bool" where
  "panes_ok v =
    (case panes v of (a, split, b) \<Rightarrow> a < length (allContainers v) \<and> (split \<longrightarrow> b < length (allContainers v)))"

lemma panes_message [simp]: "panes (handle_message k j resume msg v) = panes v"
  by (simp add: handle_message_def Let_def split: log_message.split option.split)

lemma panes_folds [simp]:
  "panes (foldl (\<lambda>u i. cancelResume i (drop_ref i u)) v is) = panes v" "panes (foldl close_live v is) = panes v"
  "panes (foldl (\<lambda>u i. if wsRefs u i = None then u else closeTabWS i u) v is) = panes v"
  by (induction "is" arbitrary: v) (simp_all add: close_live_def)

lemma panes_effects [simp]:
  "panes (log_cleanup v) = panes v" "panes (log_effect v) = panes v" "panes (toggle_previous b v) = panes v"
  by (simp_all add: log_cleanup_def log_effect_def toggle_previous_def Let_def split: log_mode.split)

lemma panes_split:
  "panes (toggle_split b v) = (activeTab v, b, if b then (if activeTab v = 0 then 1 else 0) else splitTab v)"
proof -
  have "panes (w\<lparr>splitView := c\<rparr>) = (fst (panes w), c, snd (snd (panes w)))" for w c by (simp add: panes_def)
  then show ?thesis by (simp add: toggle_split_def Let_def) (simp add: panes_def)
qed

lemma panes_step:
  assumes "log_step ev v = Some v'" "panes_ok v"
  shows "panes_ok v'"
proof -
  have c: "allContainers v' = allContainers v" by (rule on_containers [OF on_step [OF assms(1)]])
  consider i where "ev = LogSelectTab i" | b where "ev = LogSplit b" | "panes v' = panes v"
    using assms(1)
    by (cases ev)
      (auto simp: log_step_def log_control_def socket_opened_def token_ready_def socket_message_def socket_closed_def
        socket_errored_def timer_fired_def snapshot_answered_def run_effects_def Let_def split: option.splits if_splits)
  then show ?thesis
  proof cases
    case 1
    with assms show ?thesis by (auto simp: log_step_def log_control_def panes_ok_def panes_def split: if_splits)
  next
    case 2
    with assms(1) have "v' = toggle_split b v" "2 \<le> length (allContainers v)"
      by (auto simp: log_step_def log_control_def split: if_splits)
    moreover have "activeTab v < length (allContainers v)" using assms(2) by (simp add: panes_ok_def panes_def)
    ultimately show ?thesis using c by (auto simp: panes_ok_def panes_split)
  qed (use assms(2) c in \<open>simp add: panes_ok_def\<close>)
qed

lemma panes_run: "log_run evs v = Some v' \<Longrightarrow> panes_ok v \<Longrightarrow> panes_ok v'"
  by (induction evs arbitrary: v) (auto dest: panes_step split: option.splits)

lemma lined_renders:
  "lined (tabStates v) (activeTab v) \<Longrightarrow> (splitView v \<Longrightarrow> lined (tabStates v) (splitTab v)) \<Longrightarrow> renders v"
  by (auto simp: renders_def getTabState_def get_or_def lined_def split: option.splits)

section \<open>A tab without lines\<close>

lemma unlined_update:
  "\<not> lined (tabStates v) i \<Longrightarrow> (\<And>st. ts_lines (u st) = ts_lines st) \<Longrightarrow> \<not> lined (tabStates (updateTabState j u v)) i"
  by (auto simp: lined_def updateTabState_def get_or_def no_fields_def split: option.splits)

lemma unlined_ops:
  assumes "\<not> lined (tabStates v) i"
  shows "\<not> lined (tabStates (connectWS j resume v)) i" "\<not> lined (tabStates (fetchSnapshot j v)) i"
    "\<not> lined (tabStates (foldl close_live v is)) i"
proof -
  show "\<not> lined (tabStates (connectWS j resume v)) i" "\<not> lined (tabStates (fetchSnapshot j v)) i"
    using assms unlined_update by (auto simp: connectWS_def fetchSnapshot_def Let_def)
  show "\<not> lined (tabStates (foldl close_live v is)) i"
    using assms by (induction "is" arbitrary: v) (simp_all add: close_live_def unlined_update)
qed

lemma effect_gives_state:
  assumes "activeTab v < length (allContainers v)"
  shows "tabStates (log_effect v) (activeTab v) \<noteq> None"
proof -
  have c: "tabStates (connectWS j resume u) j \<noteq> None" if "j < length (allContainers u)" for j resume u
    using that by (simp add: connectWS_def Let_def updateTabState_def)
  have m: "tabStates (connectWS j resume u) i \<noteq> None" if "tabStates u i \<noteq> None" for i j resume u
    using that by (auto simp: connectWS_def Let_def updateTabState_def closeTabWS_def drop_ref_def cancelResume_def
        close_socket_def split: option.split)
  have f: "tabStates (fetchSnapshot j u) j \<noteq> None" if "j < length (allContainers u)" for j u
    using that by (simp add: fetchSnapshot_def Let_def updateTabState_def)
  have "allContainers (foldl close_live v is) = allContainers v" for "is" by (rule on_containers) simp
  with assms c m f show ?thesis by (simp add: log_effect_def Let_def split: log_mode.split)
qed

lemma selected_unlined:
  assumes "\<not> lined (tabStates v) i" "log_run [LogSelectTab i, LogEffects] v = Some w"
  shows "\<not> renders w"
proof -
  define u where "u = (if lv_deps v = None then v\<lparr>activeTab := i\<rparr> else log_cleanup (v\<lparr>activeTab := i\<rparr>))"
  define x where "x = u\<lparr>lv_deps := Some (deps_of (v\<lparr>activeTab := i\<rparr>))\<rparr>"
  have "i < length (allContainers v)" and w: "w = log_effect x"
    using assms(2) by (auto simp: u_def x_def log_step_def log_control_def run_effects_def split: option.splits if_splits)
  moreover have x: "activeTab x = i" "allContainers x = allContainers v"
    using panes_effects(1) [of "v\<lparr>activeTab := i\<rparr>"] on_folds(1) [of "v\<lparr>activeTab := i\<rparr>" "[0..<length (allContainers v)]"]
    by (auto simp: x_def u_def panes_def log_cleanup_def opened_on_def)
  moreover have "\<not> lined (tabStates x) i" using assms(1) by (simp add: x_def u_def log_cleanup_def states_folds)
  ultimately have "\<not> lined (tabStates w) i" "tabStates w i \<noteq> None"
    using effect_gives_state [of x]
    by (simp_all add: w log_effect_def Let_def unlined_ops split: log_mode.split)
  moreover have "activeTab w = i" using panes_effects(2) [of x] x(1) by (simp add: w panes_def)
  ultimately show ?thesis by (auto simp: renders_def getTabState_def get_or_def lined_def split: option.splits)
qed

section \<open>Properties\<close>

text \<open>
  Claim C37. An init container's tab breaks the viewer. Whatever happened before, the tabs of the
  pod's containers have lines, so a pod without init containers always renders. A tab without lines,
  which is an init container's that none has arrived for, renders until the effect of selecting it
  has run: that gives it a state without lines, and the next render reads their number and throws.
\<close>

theorem init_tab_breaks_viewer:
  assumes "log_run evs (open_viewer n names t) = Some v" "0 < n" "n \<le> length names"
  shows "(\<forall>i < n. lined (tabStates v) i) \<and> (n = length names \<longrightarrow> renders v) \<and>
    (\<forall>i w. \<not> lined (tabStates v) i \<and> log_run [LogSelectTab i, LogEffects] v = Some w \<longrightarrow> \<not> renders w)"
proof -
  have l: "lined (tabStates v) i" if "i < n" for i
    using lined_run [OF assms(1), of i] that by (simp add: open_viewer_def lined_def EMPTY_TAB_def)
  have "panes_ok (open_viewer n names t)" using assms(2,3) by (auto simp: panes_ok_def panes_def open_viewer_def)
  then have "panes_ok v" by (rule panes_run [OF assms(1)])
  moreover have "allContainers v = names"
    using viewer_run [OF assms(1) viewer_start(1)] by (simp add: opened_on_def viewer_start(2) [unfolded opened_on_def])
  ultimately have "renders v" if "n = length names"
    using l lined_renders that by (simp add: panes_ok_def panes_def)
  then show ?thesis using l selected_unlined by blast
qed

theorem init_tab_breaks_viewer_witness:
  "let t = \<lparr>ct_clusterId = ''prod'', ct_generation = ''g'', ct_epoch = 0\<rparr>; v0 = open_viewer 1 [''web'', ''init''] t;
       evs = [LogEffects, LogOpened 0 (Some ''tok''), LogMessage 0 Subscribed]
   in case (log_run evs v0, log_run (evs @ [LogSelectTab 1, LogEffects]) v0) of
        (Some v, Some w) \<Rightarrow> renders v \<and> \<not> renders w
      | _ \<Rightarrow> False"
proof -
  define t where "t = \<lparr>ct_clusterId = ''prod'', ct_generation = ''g'', ct_epoch = 0\<rparr>"
  define v0 where "v0 = open_viewer 1 [''web'', ''init''] t"
  define evs where "evs = [LogEffects, LogOpened 0 (Some ''tok''), LogMessage 0 Subscribed]"
  have "case log_run evs v0 of
          None \<Rightarrow> False
        | Some v \<Rightarrow> renders v \<and> \<not> lined (tabStates v) 1 \<and> log_run [LogSelectTab 1, LogEffects] v \<noteq> None"
    by (simp add: evs_def v0_def open_viewer_def log_step_def log_control_def run_effects_def deps_of_def log_effect_def
        connectWS_def closeTabWS_def drop_ref_def cancelResume_def updateTabState_def socket_opened_def authenticate_def
        socket_message_def handle_message_def set_socket_def get_or_def EMPTY_TAB_def lined_def renders_def
        getTabState_def Let_def)
  then obtain v w where v: "log_run evs v0 = Some v" "renders v" "\<not> lined (tabStates v) 1"
    "log_run [LogSelectTab 1, LogEffects] v = Some w"
    by (auto split: option.splits)
  moreover have "log_run (evs @ [LogSelectTab 1, LogEffects]) v0 = Some w" using v(1,4) by (simp add: log_run_append)
  moreover have "\<not> renders w" using init_tab_breaks_viewer [OF v(1) [unfolded v0_def]] v(3,4) by simp
  ultimately show ?thesis unfolding t_def [symmetric] evs_def [symmetric] Let_def v0_def [symmetric] by simp
qed

end
