(* ===== verification/Incident_Api.thy ===== *)
theory Incident_Api
  imports Api_Transport
begin

text \<open>
  Ids (\<open>src/frontend/lib/uuid.ts\<close>, the identifiers of \<open>src/frontend/lib/incident-types.ts\<close>) and the
  client of the incident endpoints (\<open>src/frontend/lib/incident-api.ts\<close>): every function is one
  request, so it is modelled by the request it makes, or the error it throws before making one. The
  random source is an argument; bodies are JSON values.
\<close>

section \<open>Ids\<close>

text \<open>What the page has of \<open>crypto\<close>: the UUID \<open>randomUUID\<close> answers, and the bytes of \<open>getRandomValues\<close>.\<close>

record uuid_crypto =
  randomUUID :: "string option"
  getRandomValues :: "nat list option"

definition uuid_byte :: "nat \<Rightarrow> nat \<Rightarrow> nat" where
  "uuid_byte i x =
    (if i = 6 then Bit_Operations.or (Bit_Operations.and x 0x0f) 0x40
     else if i = 8 then Bit_Operations.or (Bit_Operations.and x 0x3f) 0x80 else x)"

definition uuid_text :: "nat list \<Rightarrow> string" where
  "uuid_text b =
    (let hex = map (\<lambda>(i, x). padStart 2 (show_hex (uuid_byte i x))) (enumerate 0 b)
     in join_with CHR ''-''
          [concat (take 4 hex), concat (take 2 (drop 4 hex)), concat (take 2 (drop 6 hex)),
           concat (take 2 (drop 8 hex)), concat (take 6 (drop 10 hex))])"

definition uuidv4 :: "uuid_crypto option \<Rightarrow> string + string" where
  "uuidv4 c =
    (case c of
       None \<Rightarrow> Inl ''No secure random source is available to generate an id''
     | Some cr \<Rightarrow>
         (case getRandomValues cr of
            None \<Rightarrow> Inl ''No secure random source is available to generate an id''
          | Some bytes \<Rightarrow>
              (case randomUUID cr of Some u \<Rightarrow> Inr (toLowerCase u) | None \<Rightarrow> Inr (uuid_text bytes))))"

definition sameOperationId :: "string option \<Rightarrow> string option \<Rightarrow> bool" where
  "sameOperationId a b =
    (case (a, b) of (Some x, Some y) \<Rightarrow> x \<noteq> [] \<and> y \<noteq> [] \<and> toLowerCase x = toLowerCase y | _ \<Rightarrow> False)"

definition hex_letter :: "char \<Rightarrow> bool" where
  "hex_letter c = (let n = of_char c :: nat in 48 \<le> n \<and> n \<le> 57 \<or> 65 \<le> n \<and> n \<le> 70 \<or> 97 \<le> n \<and> n \<le> 102)"

definition isIncidentId :: "string \<Rightarrow> bool" where
  "isIncidentId s =
    (let gs = split_on CHR ''-'' s in map length gs = [8, 4, 4, 4, 12] \<and> list_all (list_all hex_letter) gs)"

definition isDotSegment :: "string \<Rightarrow> bool" where
  "isDotSegment segment \<longleftrightarrow> segment = ''.'' \<or> segment = ''..''"

section \<open>Requests\<close>

datatype incident_error = InvalidIncidentIdError string | UnsafeGranteeIdError

record incident_request =
  ir_method :: string
  ir_path :: string
  ir_cluster :: string
  ir_body :: "json option"

definition INCIDENT_CLUSTER :: string where
  "INCIDENT_CLUSTER = LOCAL_CLUSTER_ID"

record page_params =
  pg_limit :: "nat option"
  pg_continue :: "string option"

text \<open>\<open>URLSearchParams\<close> writes a value in the form encoding: a space as a plus sign.\<close>

definition form_encode :: "string \<Rightarrow> string" where
  "form_encode s =
    concat (map (\<lambda>c. let n = of_char c :: nat
      in if 48 \<le> n \<and> n \<le> 57 \<or> 65 \<le> n \<and> n \<le> 90 \<or> 97 \<le> n \<and> n \<le> 122 \<or> c \<in> set ''*-._'' then [c]
         else if n = 32 then ''+''
         else if n < 128 then uri_byte n
         else uri_byte (192 + n div 64) @ uri_byte (128 + n mod 64)) s)"

definition buildIncidentPageQuery :: "page_params \<Rightarrow> string" where
  "buildIncidentPageQuery ps =
    (let limit = (case pg_limit ps of None \<Rightarrow> [] | Some n \<Rightarrow> [''limit='' @ show_nat n]);
         cont = (case pg_continue ps of None \<Rightarrow> [] | Some c \<Rightarrow> if c = [] then [] else [''continue='' @ form_encode c]);
         q = limit @ cont
     in if q = [] then [] else CHR ''?'' # join_with CHR ''&'' q)"

definition incident_base :: "string \<Rightarrow> incident_error + string" where
  "incident_base i =
    (if \<not> isIncidentId i then Inl (InvalidIncidentIdError ''incident'') else Inr (''/v1/incidents/'' @ i))"

definition notePath :: "string \<Rightarrow> string \<Rightarrow> incident_error + string" where
  "notePath i noteId =
    (if \<not> isIncidentId noteId then Inl (InvalidIncidentIdError ''note'')
     else case incident_base i of Inl e \<Rightarrow> Inl e | Inr b \<Rightarrow> Inr (b @ ''/notes/'' @ noteId))"

text \<open>A request pinned to the local cluster, at a path that may have been refused.\<close>

definition pinned :: "string \<Rightarrow> json option \<Rightarrow> incident_error + string \<Rightarrow> (string \<Rightarrow> string) \<Rightarrow> incident_error + incident_request" where
  "pinned m body base rest =
    (case base of
       Inl e \<Rightarrow> Inl e
     | Inr b \<Rightarrow> Inr \<lparr>ir_method = m, ir_path = rest b, ir_cluster = INCIDENT_CLUSTER, ir_body = body\<rparr>)"

definition listIncidents :: "page_params \<Rightarrow> incident_error + incident_request" where
  "listIncidents ps = pinned ''GET'' None (Inr ''/v1/incidents'') (\<lambda>b. b @ buildIncidentPageQuery ps)"

definition createIncident :: "json \<Rightarrow> incident_error + incident_request" where
  "createIncident body = pinned ''POST'' (Some body) (Inr ''/v1/incidents'') (\<lambda>b. b)"

definition getIncident :: "string \<Rightarrow> page_params \<Rightarrow> incident_error + incident_request" where
  "getIncident i ps = pinned ''GET'' None (incident_base i) (\<lambda>b. b @ buildIncidentPageQuery ps)"

definition updateIncident :: "string \<Rightarrow> json \<Rightarrow> incident_error + incident_request" where
  "updateIncident i body = pinned ''PUT'' (Some body) (incident_base i) (\<lambda>b. b)"

definition deleteIncident :: "string \<Rightarrow> incident_error + incident_request" where
  "deleteIncident i = pinned ''DELETE'' None (incident_base i) (\<lambda>b. b)"

definition listEvidence :: "string \<Rightarrow> page_params \<Rightarrow> incident_error + incident_request" where
  "listEvidence i ps = pinned ''GET'' None (incident_base i) (\<lambda>b. b @ ''/evidence'' @ buildIncidentPageQuery ps)"

definition captureEvidence :: "string \<Rightarrow> string \<Rightarrow> json \<Rightarrow> incident_error + incident_request" where
  "captureEvidence i clusterId body =
    (case incident_base i of
       Inl e \<Rightarrow> Inl e
     | Inr b \<Rightarrow> Inr \<lparr>ir_method = ''POST'', ir_path = b @ ''/capture'', ir_cluster = clusterId, ir_body = Some body\<rparr>)"

definition listNotes :: "string \<Rightarrow> page_params \<Rightarrow> incident_error + incident_request" where
  "listNotes i ps = pinned ''GET'' None (incident_base i) (\<lambda>b. b @ ''/notes'' @ buildIncidentPageQuery ps)"

definition createNote :: "string \<Rightarrow> string \<Rightarrow> incident_error + incident_request" where
  "createNote i body = pinned ''POST'' (Some (JObj [(''body'', JStr body)])) (incident_base i) (\<lambda>b. b @ ''/notes'')"

definition updateNote :: "string \<Rightarrow> string \<Rightarrow> string \<Rightarrow> jsnum \<Rightarrow> incident_error + incident_request" where
  "updateNote i noteId body revision =
    pinned ''PUT'' (Some (JObj [(''body'', JStr body), (''revision'', JNum revision)])) (notePath i noteId) (\<lambda>b. b)"

definition deleteNote :: "string \<Rightarrow> string \<Rightarrow> incident_error + incident_request" where
  "deleteNote i noteId = pinned ''DELETE'' None (notePath i noteId) (\<lambda>b. b)"

definition listGrants :: "string \<Rightarrow> incident_error + incident_request" where
  "listGrants i = pinned ''GET'' None (incident_base i) (\<lambda>b. b @ ''/grants'')"

definition addGrant :: "string \<Rightarrow> json \<Rightarrow> incident_error + incident_request" where
  "addGrant i body = pinned ''POST'' (Some body) (incident_base i) (\<lambda>b. b @ ''/grants'')"

definition removeGrant :: "string \<Rightarrow> string \<Rightarrow> incident_error + incident_request" where
  "removeGrant i granteeId =
    (if isDotSegment granteeId then Inl UnsafeGranteeIdError
     else pinned ''DELETE'' None (incident_base i) (\<lambda>b. b @ ''/grants/'' @ encodeURIComponent granteeId))"

definition exportIncident :: "string \<Rightarrow> string \<Rightarrow> incident_error + incident_request" where
  "exportIncident i format =
    pinned ''GET'' None (incident_base i) (\<lambda>b. b @ ''/export?format='' @ encodeURIComponent format)"

section \<open>Answers\<close>

definition cursor_page :: "'a list option \<Rightarrow> string option \<Rightarrow> 'a list \<times> string option" where
  "cursor_page data cont =
    (case data of None \<Rightarrow> [] | Some items \<Rightarrow> items, case cont of Some c \<Rightarrow> if c = [] then None else Some c | None \<Rightarrow> None)"

text \<open>The first match of \<open>filename="([^"]+)"\<close>.\<close>

fun filename_match :: "string \<Rightarrow> string option" where
  "filename_match [] = None"
| "filename_match (c # s) =
    (let mark = ''filename='' @ [CHR 0x22]; rest = drop (length mark) (c # s); name = takeWhile (\<lambda>x. x \<noteq> CHR 0x22) rest
     in if startsWith (c # s) mark \<and> name \<noteq> [] \<and> length name < length rest then Some name else filename_match s)"

definition export_filename :: "string \<Rightarrow> string \<Rightarrow> string option \<Rightarrow> string" where
  "export_filename i format disposition =
    (case filename_match (case disposition of None \<Rightarrow> [] | Some d \<Rightarrow> d) of
       Some name \<Rightarrow> name
     | None \<Rightarrow> ''incident-'' @ i @ ''.'' @ (if format = ''markdown'' then ''md'' else ''json''))"

text \<open>A thrown value is an \<open>ApiError\<close>, or something else (\<open>None\<close>).\<close>

record api_error =
  ae_status :: nat
  ae_reason :: "string option"
  ae_extra :: "(string \<times> json) list"

definition incidentErrorNumber :: "api_error \<Rightarrow> string \<Rightarrow> jsnum option" where
  "incidentErrorNumber err key = (case field key (ae_extra err) of Some (JNum n) \<Rightarrow> Some n | _ \<Rightarrow> None)"

definition isPersistenceUnavailable :: "api_error option \<Rightarrow> bool" where
  "isPersistenceUnavailable err =
    (case err of None \<Rightarrow> False | Some e \<Rightarrow> ae_reason e = Some ''incident_persistence_unavailable'')"

definition isRemoteCaptureRefusal :: "api_error option \<Rightarrow> string \<Rightarrow> bool" where
  "isRemoteCaptureRefusal err clusterId =
    (case err of
       None \<Rightarrow> False
     | Some e \<Rightarrow>
         if ae_reason e = Some ''remote_capture_unsupported'' then True
         else ae_status e = 403 \<and> (ae_reason e = None \<or> ae_reason e = Some []) \<and>
              \<not> (clusterId = [] \<or> clusterId = INCIDENT_CLUSTER))"

section \<open>Where a request goes\<close>

datatype incident_call =
    ListIncidents page_params
  | CreateIncident json
  | GetIncident string page_params
  | UpdateIncident string json
  | DeleteIncident string
  | ListEvidence string page_params
  | CaptureEvidence string string json
  | ListNotes string page_params
  | CreateNote string string
  | UpdateNote string string string jsnum
  | DeleteNote string string
  | ListGrants string
  | AddGrant string json
  | RemoveGrant string string
  | ExportIncident string string

definition incident_call_request :: "incident_call \<Rightarrow> incident_error + incident_request" where
  "incident_call_request c =
    (case c of
       ListIncidents ps \<Rightarrow> listIncidents ps
     | CreateIncident b \<Rightarrow> createIncident b
     | GetIncident i ps \<Rightarrow> getIncident i ps
     | UpdateIncident i b \<Rightarrow> updateIncident i b
     | DeleteIncident i \<Rightarrow> deleteIncident i
     | ListEvidence i ps \<Rightarrow> listEvidence i ps
     | CaptureEvidence i cl b \<Rightarrow> captureEvidence i cl b
     | ListNotes i ps \<Rightarrow> listNotes i ps
     | CreateNote i b \<Rightarrow> createNote i b
     | UpdateNote i n b r \<Rightarrow> updateNote i n b r
     | DeleteNote i n \<Rightarrow> deleteNote i n
     | ListGrants i \<Rightarrow> listGrants i
     | AddGrant i b \<Rightarrow> addGrant i b
     | RemoveGrant i g \<Rightarrow> removeGrant i g
     | ExportIncident i f \<Rightarrow> exportIncident i f)"

text \<open>The resource a call is about, below the collection of incidents.\<close>

definition resource_of :: "incident_call \<Rightarrow> string list" where
  "resource_of c =
    (case c of
       ListIncidents _ \<Rightarrow> [] | CreateIncident _ \<Rightarrow> []
     | GetIncident i _ \<Rightarrow> [i] | UpdateIncident i _ \<Rightarrow> [i] | DeleteIncident i \<Rightarrow> [i]
     | ListEvidence i _ \<Rightarrow> [i, ''evidence''] | CaptureEvidence i _ _ \<Rightarrow> [i, ''capture'']
     | ListNotes i _ \<Rightarrow> [i, ''notes''] | CreateNote i _ \<Rightarrow> [i, ''notes'']
     | UpdateNote i n _ _ \<Rightarrow> [i, ''notes'', n] | DeleteNote i n \<Rightarrow> [i, ''notes'', n]
     | ListGrants i \<Rightarrow> [i, ''grants''] | AddGrant i _ \<Rightarrow> [i, ''grants'']
     | RemoveGrant i g \<Rightarrow> [i, ''grants'', g] | ExportIncident i _ \<Rightarrow> [i, ''export''])"

definition cluster_of :: "incident_call \<Rightarrow> string" where
  "cluster_of c = (case c of CaptureEvidence _ clusterId _ \<Rightarrow> clusterId | _ \<Rightarrow> LOCAL_CLUSTER_ID)"

subsection \<open>Percent-encoding\<close>

definition uri_char :: "char \<Rightarrow> string" where
  "uri_char c =
    (let n = of_char c :: nat
     in if uri_plain c then [c] else if n < 128 then uri_byte n else uri_byte (192 + n div 64) @ uri_byte (128 + n mod 64))"

lemma encode_chars: "encodeURIComponent s = concat (map uri_char s)"
  unfolding encodeURIComponent_def uri_char_def by (rule refl)

lemma uri_hex_inj: "d < 16 \<Longrightarrow> e < 16 \<Longrightarrow> uri_hex d = uri_hex e \<Longrightarrow> d = e"
  using arg_cong [of "uri_hex d" "uri_hex e" "of_char :: char \<Rightarrow> nat"] by (auto simp: uri_hex_def split: if_splits)

lemma uri_byte_inj: "a < 256 \<Longrightarrow> b < 256 \<Longrightarrow> uri_byte a @ xs = uri_byte b @ ys \<Longrightarrow> a = b \<and> xs = ys"
proof -
  assume s: "a < 256" "b < 256" and e: "uri_byte a @ xs = uri_byte b @ ys"
  then have "a div 16 < 16" "b div 16 < 16" by (simp_all add: less_mult_imp_div_less)
  with e uri_hex_inj have "a div 16 = b div 16" "a mod 16 = b mod 16" "xs = ys" by (auto simp: uri_byte_def)
  then show ?thesis by (metis div_mult_mod_eq)
qed

lemma plain_not_percent: "\<not> uri_plain CHR ''%''"
  by (simp add: uri_plain_def)

lemma uri_char_forms:
  "uri_plain c \<Longrightarrow> uri_char c = [c]"
  "\<not> uri_plain c \<Longrightarrow> (of_char c :: nat) < 128 \<Longrightarrow> uri_char c = uri_byte (of_char c)"
  "\<not> uri_plain c \<Longrightarrow> \<not> (of_char c :: nat) < 128 \<Longrightarrow>
    uri_char c = uri_byte (192 + of_char c div 64) @ uri_byte (128 + of_char c mod 64)"
  by (simp_all add: uri_char_def Let_def)

lemma high_bytes: "192 + (of_char c :: nat) div 64 < 256" "128 + (of_char c :: nat) mod 64 < 256"
proof -
  have "192 + k div 64 < 256 \<and> 128 + k mod 64 < 256" if "k < 256" for k :: nat using that by auto
  then show "192 + (of_char c :: nat) div 64 < 256" "128 + (of_char c :: nat) mod 64 < 256"
    using nat_of_char_less_256 by blast+
qed

lemma escaped_inj:
  assumes "\<not> uri_plain c" "\<not> uri_plain d" "uri_char c @ xs = uri_char d @ ys"
  shows "c = d \<and> xs = ys"
proof -
  let ?m = "of_char c :: nat" and ?n = "of_char d :: nat"
  have small: "?m < 256" "?n < 256" by simp_all
  have hi: "192 + ?m div 64 < 256" "192 + ?n div 64 < 256" "128 + ?m mod 64 < 256" "128 + ?n mod 64 < 256"
    by (rule high_bytes)+
  consider "?m < 128" "?n < 128" | "?m < 128" "\<not> ?n < 128" | "\<not> ?m < 128" "?n < 128" | "\<not> ?m < 128" "\<not> ?n < 128" by blast
  then have "?m = ?n \<and> xs = ys"
  proof cases
    case 1
    with assms uri_byte_inj [OF small] show ?thesis by (simp add: uri_char_forms)
  next
    case 2
    with assms uri_byte_inj [OF small(1) hi(2), of xs "uri_byte (128 + ?n mod 64) @ ys"] show ?thesis
      by (simp add: uri_char_forms)
  next
    case 3
    with assms uri_byte_inj [OF hi(1) small(2), of "uri_byte (128 + ?m mod 64) @ xs" ys] show ?thesis
      by (simp add: uri_char_forms)
  next
    case 4
    with assms uri_byte_inj [OF hi(1,2), of "uri_byte (128 + ?m mod 64) @ xs" "uri_byte (128 + ?n mod 64) @ ys"]
    have d: "?m div 64 = ?n div 64" "uri_byte (128 + ?m mod 64) @ xs = uri_byte (128 + ?n mod 64) @ ys"
      by (simp_all add: uri_char_forms)
    from uri_byte_inj [OF hi(3,4) d(2)] have "?m mod 64 = ?n mod 64" "xs = ys" by simp_all
    with d(1) show ?thesis by (metis div_mult_mod_eq)
  qed
  then show ?thesis by (metis char_of_char)
qed

lemma uri_char_inj:
  assumes "uri_char c @ xs = uri_char d @ ys"
  shows "c = d \<and> xs = ys"
proof (cases "uri_plain c \<or> uri_plain d")
  case True
  have "\<exists>r. uri_char x = CHR ''%'' # r" if "\<not> uri_plain x" for x
    using that by (auto simp: uri_char_def uri_byte_def Let_def)
  with True assms plain_not_percent show ?thesis
    by (cases "uri_plain c"; cases "uri_plain d") (fastforce simp: uri_char_forms)+
qed (use assms escaped_inj in auto)

lemma encode_inj: "encodeURIComponent s = encodeURIComponent t \<Longrightarrow> s = t"
proof (induction s arbitrary: t)
  case Nil
  then show ?case by (cases t) (auto simp: encode_chars uri_char_def uri_byte_def Let_def split: if_splits)
next
  case (Cons c s)
  then obtain d u where t: "t = d # u"
    by (cases t) (auto simp: encode_chars uri_char_def uri_byte_def Let_def split: if_splits)
  with Cons.prems uri_char_inj show ?case using Cons.IH by (auto simp: encode_chars)
qed

lemma uri_char_safe: "x \<in> set (uri_char c) \<Longrightarrow> x \<noteq> CHR ''/'' \<and> x \<noteq> CHR ''?''"
proof -
  have h: "uri_hex d \<noteq> CHR ''/'' \<and> uri_hex d \<noteq> CHR ''?''" if "d < 16" for d
  proof -
    have "(of_char (uri_hex d) :: nat) = (if d < 10 then 48 + d else 55 + d)" using that by (simp add: uri_hex_def)
    then show ?thesis using that by (auto split: if_splits)
  qed
  have b: "x \<noteq> CHR ''/'' \<and> x \<noteq> CHR ''?''" if "x \<in> set (uri_byte n)" "n < 256" for x n
    using that h by (auto simp: uri_byte_def less_mult_imp_div_less)
  show "x \<in> set (uri_char c) \<Longrightarrow> x \<noteq> CHR ''/'' \<and> x \<noteq> CHR ''?''"
    using b [OF _ high_bytes(1), of x c] b [OF _ high_bytes(2), of x c] b [OF _ nat_of_char_less_256, of x c]
    by (cases "uri_plain c"; cases "(of_char c :: nat) < 128") (auto simp: uri_char_forms uri_plain_def Let_def)
qed

lemma encode_safe: "CHR ''/'' \<notin> set (encodeURIComponent s)" "CHR ''?'' \<notin> set (encodeURIComponent s)"
  using uri_char_safe by (auto simp: encode_chars)

lemma encode_plain: "list_all uri_plain s \<Longrightarrow> encodeURIComponent s = s"
  by (induction s) (simp_all add: encode_chars uri_char_forms)

lemma encode_dots: "isDotSegment (encodeURIComponent s) \<Longrightarrow> isDotSegment s"
  using encode_inj [of s "''.''"] encode_inj [of s "''..''"] encode_plain [of "''.''"] encode_plain [of "''..''"]
  by (auto simp: isDotSegment_def uri_plain_def)

subsection \<open>Paths\<close>

lemma set_join: "set (join_with c ss) \<subseteq> insert c (\<Union>s \<in> set ss. set s)"
  by (induction c ss rule: join_with.induct) auto

lemma id_chars:
  assumes "isIncidentId i"
  shows "list_all uri_plain i" "CHR ''/'' \<notin> set i" "CHR ''?'' \<notin> set i" "\<not> isDotSegment i"
proof -
  have "hex_letter c \<or> c = CHR ''-''" if "c \<in> set i" for c
    using set_join [of "CHR ''-''" "split_on CHR ''-'' i"] that assms
    by (auto simp: isIncidentId_def Let_def list_all_iff)
  moreover have "uri_plain c \<and> c \<noteq> CHR ''/'' \<and> c \<noteq> CHR ''?'' \<and> c \<noteq> CHR ''.''" if "hex_letter c \<or> c = CHR ''-''" for c
    using that by (auto simp: hex_letter_def uri_plain_def Let_def)
  ultimately have a: "uri_plain c \<and> c \<noteq> CHR ''/'' \<and> c \<noteq> CHR ''?'' \<and> c \<noteq> CHR ''.''" if "c \<in> set i" for c
    using that by blast
  then show "list_all uri_plain i" "CHR ''/'' \<notin> set i" "CHR ''?'' \<notin> set i" by (auto simp: list_all_iff)
  show "\<not> isDotSegment i" using a by (auto simp: isDotSegment_def)
qed

definition path_segments :: "string \<Rightarrow> string list" where
  "path_segments p = split_on CHR ''/'' (before_query p)"

lemma query_start: "buildIncidentPageQuery ps = [] \<or> (\<exists>q. buildIncidentPageQuery ps = CHR ''?'' # q)"
  by (simp add: buildIncidentPageQuery_def Let_def)

lemma before_query_app:
  "CHR ''?'' \<notin> set p \<Longrightarrow> before_query p = p"
  "CHR ''?'' \<notin> set p \<Longrightarrow> before_query (p @ CHR ''?'' # q) = p"
  by (induction p) (auto simp: before_query_def)

lemma before_page_query: "CHR ''?'' \<notin> set p \<Longrightarrow> before_query (p @ buildIncidentPageQuery ps) = p"
  using query_start [of ps] before_query_app by auto

definition path_text :: "string list \<Rightarrow> string" where
  "path_text rs = join_with CHR ''/'' ([] # ''v1'' # ''incidents'' # map encodeURIComponent rs)"

lemma path_text_segments: "path_segments (path_text rs) = [] # ''v1'' # ''incidents'' # map encodeURIComponent rs"
proof -
  have "CHR ''?'' \<notin> set (path_text rs)"
    using set_join [of "CHR ''/''" "[] # ''v1'' # ''incidents'' # map encodeURIComponent rs"] encode_safe(2)
    by (auto simp: path_text_def)
  then show ?thesis
    using encode_safe(1) by (simp add: path_segments_def before_query_app path_text_def split_on_join)
qed

text \<open>The path of a request is the text of its resource, with a query after it at most.\<close>

definition addresses :: "incident_request \<Rightarrow> string list \<Rightarrow> bool" where
  "addresses r rs \<longleftrightarrow>
    list_all (\<lambda>n. \<not> isDotSegment n) rs \<and>
    (ir_path r = path_text rs \<or> (\<exists>ps. ir_path r = path_text rs @ buildIncidentPageQuery ps) \<or>
     (\<exists>q. ir_path r = path_text rs @ CHR ''?'' # q))"

lemma addresses_segments:
  assumes "addresses r rs"
  shows "path_segments (ir_path r) = [] # ''v1'' # ''incidents'' # map encodeURIComponent rs"
proof -
  have q: "CHR ''?'' \<notin> set (path_text rs)"
    using set_join [of "CHR ''/''" "[] # ''v1'' # ''incidents'' # map encodeURIComponent rs"] encode_safe(2)
    by (auto simp: path_text_def)
  then have "before_query (ir_path r) = before_query (path_text rs)"
    using assms before_page_query before_query_app by (auto simp: addresses_def)
  then show ?thesis using path_text_segments [of rs] by (simp add: path_segments_def)
qed

lemma word_plain:
  "encodeURIComponent ''evidence'' = ''evidence''" "encodeURIComponent ''capture'' = ''capture''"
  "encodeURIComponent ''notes'' = ''notes''" "encodeURIComponent ''grants'' = ''grants''" "encodeURIComponent ''export'' = ''export''"
  by (rule encode_plain, simp add: uri_plain_def)+

lemmas request_defs =
  incident_call_request_def listIncidents_def createIncident_def getIncident_def updateIncident_def deleteIncident_def listEvidence_def
  captureEvidence_def listNotes_def createNote_def updateNote_def deleteNote_def listGrants_def addGrant_def removeGrant_def
  exportIncident_def pinned_def incident_base_def notePath_def

lemma request_addresses:
  assumes "incident_call_request c = Inr r"
  shows "addresses r (resource_of c)"
proof (cases c)
  case (RemoveGrant i g)
  with assms id_chars encode_plain show ?thesis
    by (auto simp: request_defs resource_of_def addresses_def path_text_def isDotSegment_def word_plain
        split: if_splits sum.splits)
qed (use assms id_chars encode_plain in \<open>auto simp: request_defs resource_of_def addresses_def path_text_def
    isDotSegment_def word_plain split: if_splits sum.splits\<close>)

subsection \<open>Fresh ids\<close>

lemma hex_byte:
  assumes "x < 256"
  shows "length (padStart 2 (show_hex x)) = 2" "list_all hex_letter (padStart 2 (show_hex x))"
proof -
  have "length (show_hex x) \<le> 2" using hex_length [of x 1] assms by (simp add: numeral_2_eq_2)
  then show "length (padStart 2 (show_hex x)) = 2" by (simp add: padStart_def)
  have l: "hex_letter c" if "is_hex c" for c using that by (auto simp: is_hex_def hex_letter_def)
  have "hex_letter CHR ''0''" by (simp add: hex_letter_def)
  moreover have "\<forall>c \<in> set (show_hex x). hex_letter c" using hex_ok [of x] l unfolding list_all_iff by blast
  ultimately show "list_all hex_letter (padStart 2 (show_hex x))" by (auto simp: padStart_def list_all_iff split: if_splits)
qed

lemma low_bits: "Bit_Operations.and (x :: nat) 0x0f < 16" "Bit_Operations.and (x :: nat) 0x3f < 64"
proof -
  have "Bit_Operations.and x 0x0f = take_bit 4 x" "Bit_Operations.and x 0x3f = take_bit 6 x"
    by (simp_all add: take_bit_eq_mask mask_eq_exp_minus_1)
  moreover have "take_bit 4 x < 2 ^ 4" "take_bit 6 x < 2 ^ 6" by (rule take_bit_nat_less_exp)+
  ultimately show "Bit_Operations.and x 0x0f < 16" "Bit_Operations.and x 0x3f < 64" by simp_all
qed

lemma set_bits:
  "Bit_Operations.or (Bit_Operations.and (x :: nat) 0x0f) 0x40 = 4 * 16 + Bit_Operations.and x 0x0f"
  "Bit_Operations.or (Bit_Operations.and (x :: nat) 0x3f) 0x80 = 0x80 + Bit_Operations.and x 0x3f"
  by (simp_all add: disjunctive_add_eq_or and.assoc add.commute flip: disjunctive_add_eq_or)

lemma hex_pair: "h < 16 \<Longrightarrow> k < 16 \<Longrightarrow> padStart 2 (show_hex (h * 16 + k)) = [hex_char h, hex_char k]"
  by (cases "h = 0")
    (simp_all add: show_hex.simps [of "h * 16 + k"] show_hex.simps [of h] show_hex.simps [of k] padStart_def hex_char_def
      char_of_def bit_Suc_0_iff)

lemma version_byte: "hd (padStart 2 (show_hex (uuid_byte 6 x))) = CHR ''4''"
proof -
  have "padStart 2 (show_hex (uuid_byte 6 x)) = [hex_char 4, hex_char (Bit_Operations.and x 0x0f)]"
    unfolding uuid_byte_def set_bits by (simp only: if_True refl hex_pair low_bits)
  then show ?thesis by (simp add: hex_char_def char_of_def bit_Suc_0_iff)
qed

lemma variant_byte: "hd (padStart 2 (show_hex (uuid_byte 8 x))) \<in> set ''89ab''"
proof -
  define y where "y = Bit_Operations.and x 0x3f"
  have y: "y div 16 < 4" "y mod 16 < 16" "0x80 + y = (8 + y div 16) * 16 + y mod 16"
    using low_bits(2) [of x] by (simp_all add: y_def less_mult_imp_div_less)
  have "uuid_byte 8 x = (8 + y div 16) * 16 + y mod 16" 
    using set_bits(2) [of x] y(3) by (simp add: uuid_byte_def flip: y_def)
  then have "hd (padStart 2 (show_hex (uuid_byte 8 x))) = hex_char (8 + y div 16)"
    using hex_pair [of "8 + y div 16" "y mod 16"] y by simp
  moreover have "hex_char (8 + k) \<in> set ''89ab''" if k: "k < 4" for k
  proof -
    consider "k = 0" | "k = 1" | "k = 2" | "k = 3" using k by linarith
    then show ?thesis by cases (simp_all add: hex_char_def char_of_def bit_Suc_0_iff)
  qed
  ultimately show ?thesis using y(1) by simp
qed

lemma uuid_byte_small: "x < 256 \<Longrightarrow> uuid_byte i x < 256"
  unfolding uuid_byte_def set_bits using low_bits [of x] by simp

lemma uuid_pieces:
  assumes "length b = 16" "list_all (\<lambda>x. x < 256) b"
  defines "hex \<equiv> map (\<lambda>(i, x). padStart 2 (show_hex (uuid_byte i x))) (enumerate 0 b)"
  shows "length hex = 16" "i < 16 \<Longrightarrow> hex ! i = padStart 2 (show_hex (uuid_byte i (b ! i)))"
    "h \<in> set hex \<Longrightarrow> length h = 2 \<and> list_all hex_letter h"
proof -
  show l: "length hex = 16" using assms(1) by (simp add: hex_def)
  show n: "hex ! i = padStart 2 (show_hex (uuid_byte i (b ! i)))" if "i < 16" for i
    using that assms(1) by (simp add: hex_def nth_enumerate_eq)
  show "length h = 2 \<and> list_all hex_letter h" if h: "h \<in> set hex"
  proof -
    obtain i where i: "i < 16" "h = hex ! i" using h l by (auto simp: in_set_conv_nth)
    have "b ! i < 256" using assms(1,2) i(1) by (simp add: list_all_length)
    with i show ?thesis using hex_byte [OF uuid_byte_small] n by simp
  qed
qed

lemma concat_pairs: "\<forall>h \<in> set hs. length h = 2 \<Longrightarrow> length (concat hs) = 2 * length hs"
  by (induction hs) auto

lemma uuid_groups:
  assumes "length b = 16" "list_all (\<lambda>x. x < 256) b"
  obtains g0 g1 g2 g3 g4 where "uuid_text b = join_with CHR ''-'' [g0, g1, g2, g3, g4]"
    "map length [g0, g1, g2, g3, g4] = [8, 4, 4, 4, 12]" "list_all (list_all hex_letter) [g0, g1, g2, g3, g4]"
    "hd g2 = hd (padStart 2 (show_hex (uuid_byte 6 (b ! 6))))" "hd g3 = hd (padStart 2 (show_hex (uuid_byte 8 (b ! 8))))"
proof -
  define hex where "hex = map (\<lambda>(i, x). padStart 2 (show_hex (uuid_byte i x))) (enumerate 0 b)"
  note p = uuid_pieces [OF assms, folded hex_def]
  define g where "g m n = concat (take n (drop m hex))" for m n
  have len: "length (g m n) = 2 * n" if "m + n \<le> 16" for m n
    using concat_pairs [of "take n (drop m hex)"] p(1,3) that
    by (auto simp: g_def dest!: in_set_takeD in_set_dropD)
  have hex: "list_all hex_letter (g m n)" for m n
    using p(3) by (fastforce simp: g_def list_all_iff dest!: in_set_takeD in_set_dropD)
  have first: "hd (g m n) = hd (hex ! m)" if "m < 16" "0 < n" for m n
  proof -
    have "hex ! m \<in> set hex" using that(1) p(1) by simp
    then have "hex ! m \<noteq> []" using p(3) by fastforce
    then show ?thesis using that p(1) by (simp add: g_def Cons_nth_drop_Suc [symmetric] take_Cons')
  qed
  have "uuid_text b = join_with CHR ''-'' [g 0 4, g 4 2, g 6 2, g 8 2, g 10 6]"
    by (simp add: uuid_text_def hex_def g_def Let_def)
  moreover have "map length [g 0 4, g 4 2, g 6 2, g 8 2, g 10 6] = [8, 4, 4, 4, 12]" by (simp add: len)
  moreover have "list_all (list_all hex_letter) [g 0 4, g 4 2, g 6 2, g 8 2, g 10 6]" by (simp add: hex)
  ultimately show thesis by (rule that) (simp_all add: first p(2))
qed

lemma groups_id:
  assumes "map length gs = [8, 4, 4, 4, 12]" "list_all (list_all hex_letter) gs"
  shows "isIncidentId (join_with CHR ''-'' gs)"
proof -
  have "\<not> hex_letter CHR ''-''" by (simp add: hex_letter_def)
  with assms(2) have "\<forall>g \<in> set gs. CHR ''-'' \<notin> set g" by (auto simp: list_all_iff)
  moreover have "gs \<noteq> []" using assms(1) by auto
  ultimately have "split_on CHR ''-'' (join_with CHR ''-'' gs) = gs" by (simp add: split_on_join)
  with assms show ?thesis by (simp add: isIncidentId_def)
qed

section \<open>Properties\<close>

text \<open>
  Claim C17. A request about an incident goes to that resource and nowhere else. Whatever the ids,
  either the call is refused before a request is made, or the segments of the path are the
  collection's and then the resource's own names, percent-encoded; none of them is a dot segment, so
  no client or proxy can normalise the path into another resource; calls with the same path segments
  are about the same resource; and the request is pinned to the local cluster, except a capture,
  which goes to the cluster its caller names.
\<close>

theorem incident_requests_stay_in_place:
  assumes "incident_call_request c = Inr r"
  shows "path_segments (ir_path r) = [] # ''v1'' # ''incidents'' # map encodeURIComponent (resource_of c) \<and>
    list_all (\<lambda>s. \<not> isDotSegment s) (path_segments (ir_path r)) \<and>
    (\<forall>c' r'. incident_call_request c' = Inr r' \<longrightarrow> path_segments (ir_path r') = path_segments (ir_path r) \<longrightarrow>
      resource_of c' = resource_of c) \<and>
    ir_cluster r = cluster_of c"
proof -
  note a = request_addresses [OF assms]
  have "list_all (\<lambda>s. \<not> isDotSegment s) (map encodeURIComponent (resource_of c))"
    using a encode_dots by (auto simp: addresses_def list_all_iff)
  moreover have "resource_of c' = resource_of c"
    if "incident_call_request c' = Inr r'" "path_segments (ir_path r') = path_segments (ir_path r)" for c' r'
  proof -
    have "map encodeURIComponent (resource_of c') = map encodeURIComponent (resource_of c)"
      using addresses_segments [OF a] addresses_segments [OF request_addresses [OF that(1)]] that(2) by simp
    then show ?thesis using encode_inj by (metis inj_map_eq_map inj_def)
  qed
  moreover have "ir_cluster r = cluster_of c"
    using assms by (cases c) (auto simp: request_defs cluster_of_def INCIDENT_CLUSTER_def split: if_splits sum.splits)
  ultimately show ?thesis using addresses_segments [OF a] by (simp add: isDotSegment_def)
qed

theorem incident_requests_stay_in_place_witness:
  "case incident_call_request (RemoveGrant ''0b9cd1f2-1a2b-4c3d-8e4f-00112233aabb'' ''team/%2e%2e'') of
     Inl _ \<Rightarrow> False
   | Inr r \<Rightarrow>
       path_segments (ir_path r) =
         [[], ''v1'', ''incidents'', ''0b9cd1f2-1a2b-4c3d-8e4f-00112233aabb'', ''grants'', ''team%2F%252e%252e''] \<and>
       ir_cluster r = ''local'' \<and>
       incident_call_request (RemoveGrant ''0b9cd1f2-1a2b-4c3d-8e4f-00112233aabb'' ''..'') = Inl UnsafeGranteeIdError"
proof -
  let ?c = "RemoveGrant ''0b9cd1f2-1a2b-4c3d-8e4f-00112233aabb'' ''team/%2e%2e''"
  have "case incident_call_request ?c of Inl _ \<Rightarrow> False | Inr r \<Rightarrow> True" by code_simp
  then obtain r where r: "incident_call_request ?c = Inr r" by (auto split: sum.splits)
  have e: "map encodeURIComponent (resource_of ?c) =
    [''0b9cd1f2-1a2b-4c3d-8e4f-00112233aabb'', ''grants'', ''team%2F%252e%252e'']" "cluster_of ?c = ''local''"
    "incident_call_request (RemoveGrant ''0b9cd1f2-1a2b-4c3d-8e4f-00112233aabb'' ''..'') = Inl UnsafeGranteeIdError"
    by code_simp+
  have "path_segments (ir_path r) = [] # ''v1'' # ''incidents'' # map encodeURIComponent (resource_of ?c)" "ir_cluster r = cluster_of ?c"
    using incident_requests_stay_in_place [OF r] by blast+
  then show ?thesis unfolding r sum.case e by (intro conjI) (assumption | rule refl)+
qed

text \<open>
  Claim C36. A generated id is a version 4 UUID: from any sixteen random bytes the fallback builds a
  text in the five groups the id checks of the client accept, with the version digit 4 and a variant
  digit among 8, 9, a and b.
\<close>

theorem uuidv4_shape:
  assumes "length b = 16" "list_all (\<lambda>x. x < 256) b"
  shows "\<exists>u. uuidv4 (Some \<lparr>randomUUID = None, getRandomValues = Some b\<rparr>) = Inr u \<and>
    isIncidentId u \<and> u ! 14 = CHR ''4'' \<and> u ! 19 \<in> set ''89ab''"
proof -
  obtain g0 g1 g2 g3 g4 where u: "uuid_text b = join_with CHR ''-'' [g0, g1, g2, g3, g4]"
    and l: "map length [g0, g1, g2, g3, g4] = [8, 4, 4, 4, 12]" and h: "list_all (list_all hex_letter) [g0, g1, g2, g3, g4]"
    and d: "hd g2 = hd (padStart 2 (show_hex (uuid_byte 6 (b ! 6))))" "hd g3 = hd (padStart 2 (show_hex (uuid_byte 8 (b ! 8))))"
    using uuid_groups [OF assms] .
  have "uuid_text b ! 14 = hd g2" "uuid_text b ! 19 = hd g3"
    using l by (simp_all add: u nth_append hd_conv_nth flip: length_greater_0_conv)
  with d version_byte variant_byte groups_id [OF l h] show ?thesis by (simp add: uuidv4_def u)
qed

theorem uuidv4_shape_witness:
  "\<exists>u. uuidv4 (Some \<lparr>randomUUID = None, getRandomValues = Some (replicate 16 255)\<rparr>) = Inr u \<and>
    isIncidentId u \<and> u ! 14 = CHR ''4'' \<and> u ! 19 \<in> set ''89ab''"
  using uuidv4_shape [of "replicate 16 255"] by (simp add: list_all_iff)

end
