(* ===== verification/Spec2Isabelle.thy ===== *)
theory Spec2Isabelle
  imports Grid_Properties Placement Layout_Store_Runs Source_Cache_Properties
    Http_Properties Ws_Bridge Sha256_Refines Yaml_Apply_Properties
    Eso_Observer_Runs Api_Properties Ws_Client_Runs Dashboard_Sync
    Secret_Mask Secret_Reveal Capabilities Log_Viewer_Tail Log_Viewer_Render Incident_Api
begin

text \<open>
  \<^bold>\<open>k8sCenter, the web frontend.\<close> k8sCenter shows and edits Kubernetes clusters. Its frontend has a
  server (\<open>src/frontend/server\<close>) that serves the pages, passes API calls and WebSockets on to the
  Go backend and keeps everything else away from it, and a browser part (\<open>src/frontend/lib\<close>,
  \<open>src/frontend/src\<close>) with an API client, a live-update socket, an editor that applies manifests, a
  configurable dashboard, and views of single resources. This development models the parts that
  decide something: what may be sent where, what is kept when operations overlap, what is shown. It
  is a shallow embedding; each theory names the source file of its definitions, which carry the
  source's names.

  \<^bold>\<open>How code becomes definitions.\<close> An object type is a record and a union a datatype. Module
  variables and hooks of one component form one record that every operation takes and returns. A
  throw is \<open>Inl\<close> or \<open>None\<close>. An \<open>async\<close> function is cut at its \<open>await\<close>s: one definition per stretch
  of code that runs without interruption, with the pending stretches kept in the state, so an
  interleaving is a list of events and a run is a fold or an inductive relation over a step function. A step that the
  page cannot take (a control not rendered or disabled, an answer to no request) is not a step.
  Plain objects and \<open>Map\<close>s are association lists in insertion order. Numbers are \<open>int\<close> or \<open>nat\<close> where the code
  only meets whole ones, \<open>jsnum\<close> where it tells NaN and infinities apart, and 32-bit wrap-around is
  written out in the digest. Strings are lists of characters, or of UTF-16 code units where any
  character can occur (paths, keys to be hashed, secrets).

  \<^bold>\<open>The theories.\<close>

  \<^item> \<open>Prelude\<close>, \<open>Js_Text\<close>, \<open>Json\<close>: shared vocabulary; numbers, the stable sort and the locale of
    comparison functions; strings and objects; wire values and \<open>lib/dashboard/narrow.ts\<close>.

  \<^item> \<open>Dash_Types\<close>, \<open>Grid\<close>, \<open>Grid_Correct\<close>, \<open>Grid_Moves\<close>, \<open>Grid_Step\<close>, \<open>Grid_Edits\<close>,
    \<open>Grid_Properties\<close> (\<open>lib/dashboard/types.ts\<close>, \<open>grid.ts\<close>): gravity as the locale \<open>gravity\<close>,
    interpreted on \<open>compact\<close>. Settling is canonical and idempotent; a move puts
    the item in its clamped column, no lower than asked, and changes no other item's column or size; every sequence of edits keeps a layout well
    formed, canonical and inside the grid; a keyboard step scans far enough to miss no honoured
    request.

  \<^item> \<open>Placement\<close>, \<open>Params\<close>, \<open>Widget_State\<close>, \<open>Edit_Session\<close> (\<open>placement.ts\<close>, \<open>params.ts\<close>,
    \<open>widget-state.ts\<close> with \<open>display-mode.ts\<close> and \<open>pod-status.ts\<close>, \<open>edit-session.ts\<close>): the first free cell
    for a new widget; source keys that decode to what was encoded; what a card shows; the editor's
    machine.

  \<^item> \<open>Layout_Store\<close>, \<open>Layout_Store_Runs\<close> (\<open>layout-store.ts\<close>, \<open>lib/preferences.ts\<close>): under every
    interleaving of reads and writes without a cluster switch under a read, a write claims only a
    revision the server reported for that scope and cluster, and under every interleaving a read begun
    before a write never replaces what the write stored. With a switch under a read, a write can claim
    another cluster's revision.

  \<^item> \<open>Source_Cache\<close>, \<open>Source_Cache_Books\<close>, \<open>Source_Cache_Runs\<close>, \<open>Source_Cache_Properties\<close>
    (\<open>data.ts\<close>): each outstanding request is tracked exactly once, the number of expensive requests
    is bounded, each request settles.

  \<^item> \<open>Dashboard_Editor\<close>, \<open>Dashboard_Runs\<close>, \<open>Dashboard_Sound\<close>, \<open>Dashboard_Flow\<close>,
    \<open>Dashboard_Sync\<close> and the theorems below (\<open>src/islands/DashboardV2.tsx\<close>,
    \<open>components/dashboard/DashboardGrid.tsx\<close>): the page over all of these.

  \<^item> \<open>Path_Safety\<close>, \<open>Http_Server\<close>, \<open>Http_Dispatch\<close>, \<open>Http_Properties\<close>, \<open>Ws_Bridge\<close>
    (\<open>server/*.ts\<close>): the traversal guard lets a path through exactly when every decoded
    form of it is free of traversal and its escapes run out within the bound; only requests under the
    API prefix reach the backend, with listed headers only; a served file lies in its directory;
    every answer of the server itself has the security headers, the page renderer gets a response that
    has them, and a forwarded answer replaces only those it brings; the bridge relays frames in order, tears down once and is always reaped.

  \<^item> \<open>Api_Transport\<close>, \<open>Api_Transport_Runs\<close>, \<open>Api_Properties\<close> (\<open>lib/api.ts\<close>, \<open>lib/auth.ts\<close>,
    \<open>src/lib/session-boot.ts\<close>): a retry after a refresh goes to the cluster of the first attempt,
    one refresh runs at a time, every call ends. Signing out clears the pending incident captures
    (\<open>lib/incident-create.ts\<close>).

  \<^item> \<open>Ws_Client\<close>, \<open>Ws_Client_Runs\<close> (\<open>src/lib/ws.ts\<close>): the server's subscriptions are those of the
    client's table once the socket is settled; a disconnect is final when no hidden tab waits.

  \<^item> \<open>Sha256\<close>, \<open>Sha256_Refines\<close>, \<open>Pending_Apply\<close>, \<open>Yaml_Apply\<close>, \<open>Yaml_Apply_Runs\<close>,
    \<open>Yaml_Apply_Properties\<close> (\<open>lib/pending-apply.ts\<close>, \<open>src/lib/cluster.ts\<close>, \<open>lib/yaml-apply.ts\<close>): the digest is
    SHA-256; an operation id names one request only; an attempt is continued under the same id exactly
    when its outcome is unknown, across a reload too.

  \<^item> \<open>Eso_Observer\<close>, \<open>Eso_Observer_Runs\<close> (\<open>lib/eso-refresh-observer.ts\<close>, the page that uses it): an
    outcome is shown only from a read made after the press was accepted, a success only for a later
    sync than the one recorded then; observing always ends.

  \<^item> \<open>Secret_Mask\<close>, \<open>Secret_Reveal\<close> (\<open>lib/secret-yaml-mask.ts\<close>, \<open>lib/secret-reveal.ts\<close>): masked text
    does not depend on a secret's values; a revealed value is the stored text with unsafe characters
    escaped.

  \<^item> \<open>Capabilities\<close> (\<open>lib/capabilities.ts\<close>, \<open>lib/capability-types.ts\<close>): a cached answer is recent,
    of the registration asked about, and from after the last cluster switch; ids hold no NUL character,
    the separator of the cache's keys.

  \<^item> \<open>Js_Units\<close>, \<open>Stream_State\<close>, \<open>Log_Viewer\<close>, \<open>Log_Viewer_Runs\<close>, \<open>Log_Viewer_Tail\<close>,
    \<open>Log_Viewer_Render\<close> (\<open>lib/stream-state.ts\<close>, \<open>src/islands/LogViewer.tsx\<close>): timestamps compare as the instants they
    write; within one opening of a tab a resumed log stays in order and repeats nothing, for a server
    that sends the lines of a connection in order and stamped; a viewer keeps to its cluster, and once
    left it opens nothing. A pod without init containers always renders; a tab of an init container
    breaks the viewer when it is selected before it has lines.

  \<^item> \<open>Incident_Api\<close> (\<open>lib/uuid.ts\<close>, \<open>lib/incident-api.ts\<close>, the ids of \<open>lib/incident-types.ts\<close>):
    generated ids are version 4 UUIDs; a request addresses the resource its call names and no other.

  \<^bold>\<open>Bounds and fuel.\<close> The keyboard step's scan is bounded by the layout's height as in the code; the guard's decoding
  passes by the code's own constant, and more passes are treated as a rejection there as here. Loops
  without a structural measure have a termination proof, except the redraw loop of
  \<open>newInstanceId\<close>, a \<open>partial_function\<close> proved to return for every generator that keeps answering.
  The digest refines the standard for inputs whose lengths the code's 32-bit length arithmetic holds.

  \<^bold>\<open>Arguments of the model.\<close> Random draws, clocks, \<open>localeCompare\<close> (the locale \<open>collation\<close>,
  interpreted on code unit order), \<open>Date.parse\<close>, the file system, answers of the backend and the
  widget registry are parameters. The browser's stores hold what was put in them, as parsed JSON.
  Lookups in plain objects see own keys only. Copies (\<open>structuredClone\<close>, spread) are the value
  itself. Comparison by \<open>JSON.stringify\<close> is comparison of the rows. Header names are lower case.
  Effects run before the next event. Pointer positions arrive as cells.

  \<^bold>\<open>Not modelled.\<close> The Go backend (another program, met only through its answers); the fetchers at the
  end of \<open>data.ts\<close>, each one call and a projection, which are environment here; markup, styling, focus,
  announcements and toasts of pages and components; scrolling, colours, search and download of the log
  viewer; the incident pages' view models; wizards, tables and detail views, which hold form
  fields and render rows; type declarations and tables of copy, colours, routes and templates, which
  decide nothing; build-time checks, tests, charts and the mobile client.
\<close>

section \<open>The dashboard page: grid, session, store and placement together\<close>

text \<open>
  Claim C6. Every layout the dashboard page sends to be stored is one the server can hold and any
  build can render as it stands: widgets inside the twelve columns, with positive sizes, distinct
  instance ids and no overlaps, settled and in reading order, and every one known to this build.
  This holds for every order of gestures, dialogs, copies, resets, reads and writes, given that the
  layouts the server hands out are themselves well formed and drawn ids are fresh.
\<close>

theorem saved_layouts_sound:
  assumes "dash_run gw lc calm p" and "(c, revision) \<in> set (dp_puts p)"
  shows "editable (config_items c) \<and> canonical (config_items c) \<and> config_columns c = DASHBOARD_COLUMNS \<and>
    (\<forall>it \<in> set (config_items c). gw (item_id it) \<noteq> None)"
  using dash_run_ok [OF assms(1)] assms(2)
  by (force simp: dash_ok_def outer_ok_def sound_put_def sound_items_def)

theorem saved_layouts_sound_witness:
  "\<exists>p c n. page_after (opened @ [\<lambda>_. Save]) = Some p \<and> (c, n) \<in> set (dp_puts p) \<and> canonical (config_items c)"
proof -
  obtain p c n where p: "page_after (opened @ [\<lambda>_. Save]) = Some p" "(c, n) \<in> set (dp_puts p)"
    by (rule saving_page)
  then show ?thesis using saved_layouts_sound [OF saving_run [OF p(1)] p(2)] by blast
qed

text \<open>
  Claim C29. When one thing happens at a time (no save, insertion, reset or copy under a running
  gesture, no discard under a save), the grid shows exactly what is kept: the working copy of the
  open session, or without one the layout of the store; and a write in flight carries exactly the
  arrangement on screen.
\<close>

theorem grid_shows_what_is_kept:
  assumes "dash_run gw lc True p"
  shows "(\<forall>s. dp_session p = Some s \<longrightarrow> grid_items p = config_items (working s)) \<and>
    (dp_session p = None \<and> reloading p = None \<longrightarrow>
      grid_items p = config_items (asRendered gw (layout (dp_store p)))) \<and>
    (\<forall>s \<in> set (saves (dp_store p)). grid_items p = config_items (ps_config s))"
proof -
  note sync = dash_run_sync [OF assms] and flow = dash_run_flow [OF assms]
  have kept: "grid_items p = config_items (working s)" if "dp_session p = Some s" for s
  proof -
    have "working s = (baseline s)\<lparr>config_items := grid_items p\<rparr>"
      using sync that unfolding sync_ok_def shows_session_def by blast
    then show ?thesis by (metis layout_config.select_convs(4) layout_config.surjective layout_config.update_convs(4))
  qed
  have "grid_items p = config_items (ps_config s)" if s: "s \<in> set (saves (dp_store p))" for s
  proof -
    have "dp_saving p" using flow s by (auto simp: flow_ok_def flow_pre_def)
    then obtain e where "dp_session p = Some e" "ps_config s = working e"
      using sync s unfolding sync_ok_def writes_shown_def by blast
    then show ?thesis using kept by simp
  qed
  moreover have "dp_session p = None \<and> reloading p = None \<longrightarrow>
      grid_items p = config_items (asRendered gw (layout (dp_store p)))"
    using sync flow by (simp add: sync_ok_def shows_store_def flow_ok_def asRendered_def)
  ultimately show ?thesis using kept by blast
qed

theorem grid_shows_what_is_kept_witness:
  "\<exists>p s. page_after opened = Some p \<and> dp_session p = Some s \<and> isDirty code_unit_order s \<and>
     grid_items p = config_items (working s)"
proof -
  obtain p s where p: "page_after opened = Some p" "dp_session p = Some s" "isDirty code_unit_order s"
    by (rule opened_page)
  then show ?thesis using grid_shows_what_is_kept [OF opened_run [OF p(1)]] by blast
qed

text \<open>
  Claim C20. The revision an edit session pinned is never overtaken: while a session is open no read
  of the stored layout is under way, the revision of the store is the pinned one, and no loaded
  layout waits to replace the grid. So the branch of the save handler that finds another revision
  is never taken, as its comment says.
\<close>

theorem session_never_overtaken:
  assumes "dash_run gw lc calm p" and "dp_session p = Some s"
  shows "session_revision s = layoutRevision (dp_store p) \<and> loads (dp_store p) = [] \<and> reloading p = None \<and>
    mountedGeneration p = layoutGeneration (dp_store p)"
proof -
  note flow = dash_run_flow [OF assms(1)]
  then show ?thesis
    using no_reads [OF flow_pre_ok [OF flow]] assms(2) by (auto simp: flow_ok_def flow_pre_def pin_def)
qed

theorem session_never_overtaken_witness:
  "\<exists>p s. page_after opened = Some p \<and> dp_session p = Some s \<and> session_revision s = layoutRevision (dp_store p)"
proof -
  obtain p s where p: "page_after opened = Some p" "dp_session p = Some s" by (rule opened_page)
  then show ?thesis using session_never_overtaken [OF opened_run [OF p(1)] p(2)] by blast
qed

text \<open>
  Claim C21. Unsaved work is dropped only by consent: a session with changes closes only when the
  user confirms the discard dialog, asks for the stored layout in the conflict dialog, or a write
  of the page has been answered.
\<close>

theorem unsaved_work_needs_consent:
  assumes "dash_step gw lc e p = Some q" and "dp_session p = Some s" and "isDirty lc s" and "dp_session q = None"
  shows "e = Discard \<and> confirmDiscard p \<or> e = Reload \<and> dp_conflict p \<or>
    (\<exists>w r. e = Saved w r \<and> w \<in> set (saves (dp_store p)))"
proof -
  obtain r where r: "dash_act gw lc e p = Some r" "q = rerender gw r" using assms(1) by (auto simp: dash_step_def)
  have none: "pin r = None" using assms(4) pin_rerender [of gw r] r(2) by (simp add: pin_def)
  have some: "pin p \<noteq> None" using assms(2) by (simp add: pin_def)
  have exit: "pin (requestExit gw lc p) = pin p" using assms(2,3) by (simp add: requestExit_def pin_def)
  have quiet: "\<not> quiet p r" using none some unfolding quiet_def by metis
  show ?thesis
  proof (cases e)
    case (Add draw d)
    then show ?thesis using r(1) quiet quiet_controls(1) by (auto split: if_splits)
  next
    case (ConfirmParams draw vs)
    then show ?thesis using r(1) quiet quiet_controls(2) by (auto split: if_splits)
  next
    case (Press b i c)
    then show ?thesis using r(1) none some by (auto split: option.splits)
  next
    case (Arrow i key b)
    then show ?thesis using r(1) none some by (auto split: option.splits)
  qed (use r(1) none some exit quiet quiet_controls(3-5) pin_save [of lc p] pin_answers
      in \<open>auto simp: editing_def assms(2)\<close>)
qed

theorem unsaved_work_needs_consent_witness:
  "\<exists>p q s. page_after (opened @ [\<lambda>_. Cancel]) = Some p \<and> dp_session p = Some s \<and>
     dash_step two_widgets code_unit_order Discard p = Some q \<and> dp_session q = None \<and> confirmDiscard p"
proof -
  have "case page_after (opened @ [\<lambda>_. Cancel]) of None \<Rightarrow> False | Some p \<Rightarrow>
      (case dp_session p of None \<Rightarrow> False | Some s \<Rightarrow> isDirty code_unit_order s) \<and>
      (case dash_step two_widgets code_unit_order Discard p of None \<Rightarrow> False | Some q \<Rightarrow> dp_session q = None)"
    by code_simp
  then obtain p q s where p: "page_after (opened @ [\<lambda>_. Cancel]) = Some p" "dp_session p = Some s"
    "isDirty code_unit_order s" "dash_step two_widgets code_unit_order Discard p = Some q" "dp_session q = None"
    by (auto split: option.splits)
  then show ?thesis using unsaved_work_needs_consent [OF p(4,2,3,5)] by auto
qed

text \<open>
  Evaluated on one page: two things at once part the screen from what is kept. A save under a
  running drag writes the half-finished arrangement and then puts the grid back to the one before
  the drag. A
  reset under a running drag shows the shipped layout while the session, and so the next save, goes
  back to the arrangement before the drag. A discard confirmed while a save is in flight, which the
  keyboard reaches behind the dialog, shows the old layout and stores the discarded one.
\<close>

theorem screen_and_store_part_ways:
  "(case page_after (opened @ dragging @ [\<lambda>_. Save, write_answer]) of None \<Rightarrow> False
    | Some p \<Rightarrow> dp_session p = None \<and> reloading p = None \<and>
        grid_items p \<noteq> config_items (asRendered two_widgets (layout (dp_store p)))) \<and>
   (case page_after (opened @ dragging @ [\<lambda>_. AskReset, \<lambda>_. Reset]) of None \<Rightarrow> False
    | Some p \<Rightarrow> (case dp_session p of None \<Rightarrow> False | Some s \<Rightarrow> grid_items p \<noteq> config_items (working s))) \<and>
   (case page_after (opened @ [\<lambda>_. Cancel, \<lambda>_. Save, \<lambda>_. Discard, write_answer]) of None \<Rightarrow> False
    | Some p \<Rightarrow> dp_session p = None \<and> layoutRevision (dp_store p) = 1 \<and>
        grid_items p \<noteq> config_items (asRendered two_widgets (layout (dp_store p))))"
proof (intro conjI)
  show "case page_after (opened @ dragging @ [\<lambda>_. Save, write_answer]) of None \<Rightarrow> False
    | Some p \<Rightarrow> dp_session p = None \<and> reloading p = None \<and>
        grid_items p \<noteq> config_items (asRendered two_widgets (layout (dp_store p)))"
    by code_simp
  show "case page_after (opened @ dragging @ [\<lambda>_. AskReset, \<lambda>_. Reset]) of None \<Rightarrow> False
    | Some p \<Rightarrow> (case dp_session p of None \<Rightarrow> False | Some s \<Rightarrow> grid_items p \<noteq> config_items (working s))"
    by code_simp
  show "case page_after (opened @ [\<lambda>_. Cancel, \<lambda>_. Save, \<lambda>_. Discard, write_answer]) of None \<Rightarrow> False
    | Some p \<Rightarrow> dp_session p = None \<and> layoutRevision (dp_store p) = 1 \<and>
        grid_items p \<noteq> config_items (asRendered two_widgets (layout (dp_store p)))"
    by code_simp
qed

end
